(* ===== verification/Prelude.thy ===== *)
theory Prelude
  imports Main "HOL-Library.Word" "HOL-Library.Monad_Syntax"
begin

unbundle bit_operations_syntax

text \<open>
  What every theory of the library shares: the widths of the C integers the program uses
  (LP64: \<open>unsigned\<close> has 32 bits, \<open>size_t\<close>, pointers and \<open>unsigned long\<close> have 64), the
  collections of rewrite rules, and generic lemmas on words and lists.

  A C computation is a function into \<^theory_text>\<open>option\<close>. \<open>None\<close> stands for "the C code has no
  defined result": a loop that does not return, or an access C leaves undefined (a read outside
  an object, a dereference of an invalid pointer, a division by zero). An error the code reports
  to its caller is always a value (\<open>false\<close>, a null pointer, \<open>-1\<close>), never \<open>None\<close>.
\<close>

type_synonym u8 = "8 word"
type_synonym u32 = "32 word"
type_synonym u64 = "64 word"

definition CLDM_MAX_THREADS :: nat where "CLDM_MAX_THREADS = 32"

named_theorems wordnat \<open>rules that move word arithmetic to the naturals\<close>

text \<open>
  Allocation: whether \<open>malloc\<close>, \<open>calloc\<close> or \<open>realloc\<close> finds room for a number of bytes is up to the
  environment, the argument \<open>alloc\<close> of the definitions that allocate. No request above
  \<open>PTRDIFF_MAX\<close> succeeds.
\<close>

definition c_alloc :: "(nat \<Rightarrow> bool) \<Rightarrow> nat \<Rightarrow> bool" where
  "c_alloc alloc n \<longleftrightarrow> n < 2 ^ 63 \<and> alloc n"

lemma c_alloc_code [code]: "c_alloc alloc n \<longleftrightarrow> int n < 2 ^ 63 \<and> alloc n"
  unfolding c_alloc_def by (simp add: of_nat_less_numeral_power_cancel_iff)

section \<open>Words read as naturals\<close>

lemma unat_lt2p: "unat (x :: 'a::len word) < 2 ^ LENGTH('a)"
  by (rule unsigned_less)

lemma unat_add_nowrap:
  "unat a + unat b < 2 ^ LENGTH('a) \<Longrightarrow> unat (a + b :: 'a::len word) = unat a + unat b"
  by (simp add: unat_word_ariths)

lemma unat_mult_nowrap:
  "unat a * unat b < 2 ^ LENGTH('a) \<Longrightarrow> unat (a * b :: 'a::len word) = unat a * unat b"
  by (simp add: unat_word_ariths)

lemma unat_sub_nowrap: "unat b \<le> unat a \<Longrightarrow> unat (a - b :: 'a::len word) = unat a - unat b"
  by (simp add: unat_sub word_le_nat_alt)

lemma word_eq_of_nat: "unat (x :: 'a::len word) = n \<Longrightarrow> x = of_nat n"
  by auto

lemma unat_ucast_up:
  assumes "LENGTH('a) \<le> LENGTH('b)"
  shows "unat (ucast (x :: 'a::len word) :: 'b::len word) = unat x"
proof -
  have "unat x < 2 ^ LENGTH('b)" using unat_lt2p [of x] assms by (meson less_le_trans one_le_numeral power_increasing)
  then show ?thesis by (simp add: unsigned_ucast_eq take_bit_nat_eq_self)
qed

lemma sint_of_unat:
  assumes "unat (w :: 'a::len word) < 2 ^ (LENGTH('a) - 1)"
  shows "sint w = int (unat w)"
proof -
  have u: "uint w = int (unat w)" by simp
  have "int (unat w) < 2 ^ (LENGTH('a) - 1)"
    using assms by (metis of_nat_less_iff of_nat_numeral of_nat_power)
  then have "signed_take_bit (LENGTH('a) - 1) (int (unat w)) = int (unat w)"
    by (intro signed_take_bit_int_eq_self) (auto intro: order_trans [of _ 0])
  then show ?thesis unfolding sint_uint u by (simp only: One_nat_def)
qed

lemma unat_of_nat_small: "n < 2 ^ LENGTH('a) \<Longrightarrow> unat (of_nat n :: 'a::len word) = n"
  by (simp add: unat_of_nat)

lemma unat_power_lower: "n < LENGTH('a) \<Longrightarrow> unat (2 ^ n :: 'a::len word) = 2 ^ n"
  by transfer (simp add: take_bit_int_eq_self nat_power_eq)

lemma unat_mask: "n \<le> LENGTH('a) \<Longrightarrow> unat (mask n :: 'a::len word) = 2 ^ n - 1"
  unfolding mask_eq_exp_minus_1 [symmetric]
  by (rule bit_eqI) (auto simp: bit_unsigned_iff bit_mask_iff)

lemmas [wordnat] = word_less_nat_alt word_le_nat_alt word_unat_eq_iff unat_mod unat_div

text \<open>The highest set bit of a word that is not 0.\<close>

lemma power_bracket:
  assumes "(x :: 'a::len word) \<noteq> 0"
  obtains k where "2 ^ k \<le> unat x" and "unat x < 2 ^ Suc k" and "k < LENGTH('a)"
proof -
  from assms have "1 \<le> unat x" by (simp add: Suc_leI unat_gt_0)
  then obtain k where k: "2 ^ k \<le> unat x" "unat x < 2 ^ Suc k"
    using ex_power_ivl1 [of 2 "unat x"] by auto
  have "(2::nat) ^ k < 2 ^ LENGTH('a)" using k(1) unat_lt2p [of x] by (rule le_less_trans)
  then have "k < LENGTH('a)" by (simp only: power_strict_increasing_iff)
  with k show thesis by (rule that)
qed

section \<open>Arrays as lists\<close>

lemma take_Suc_update: "n < length xs \<Longrightarrow> take (Suc n) (xs[n := x]) = take n xs @ [x]"
  by (simp add: take_Suc_conv_app_nth)

lemma drop_update_add: "drop n (xs[n + i := x]) = (drop n xs)[i := x]"
  by (simp add: drop_update_swap)

section \<open>Text\<close>

text \<open>The bytes of a string literal, and of a number printed in decimal.\<close>

definition cstr :: "string \<Rightarrow> u8 list" where
  "cstr s = map (\<lambda>c. of_nat (of_char c)) s"

fun c_dec :: "nat \<Rightarrow> u8 list" where
  "c_dec n = (if n < 10 then [48 + of_nat n] else c_dec (n div 10) @ [48 + of_nat (n mod 10)])"

declare c_dec.simps [simp del]

text \<open>The padding of \<^verbatim>\<open>%-*s\<close> with the empty string.\<close>

definition c_pad :: "int \<Rightarrow> u8 list" where
  "c_pad n = replicate (nat \<bar>n\<bar>) 32"

text \<open>\<^verbatim>\<open>%-ns\<close>\<close>

definition c_left :: "nat \<Rightarrow> u8 list \<Rightarrow> u8 list" where
  "c_left n s = s @ replicate (n - length s) 32"

text \<open>\<open>snprintf\<close> into a buffer of \<open>n\<close> bytes, \<open>n > 0\<close>, of a text.\<close>

definition c_snprintf :: "nat \<Rightarrow> u8 list \<Rightarrow> u8 list" where
  "c_snprintf n t = take (n - 1) t"

end
