(* ===== verification/Algo.thy ===== *)
theory Algo
  imports Prelude "HOL-Library.Sublist"
begin

text \<open>
  \<^verbatim>\<open>cldm/cldm_algo.c\<close>: the primality test that sizes the hash tables, rounding to powers of two,
  the stable partition, the removal of adjacent duplicates and the digit counter.
\<close>

section \<open>The operations\<close>

subsection \<open>\<^verbatim>\<open>cldm_is_prime\<close>\<close>

text \<open>
  The loop over the divisors \<open>6, 12, \<dots>\<close>, with its arithmetic modulo \<open>2 ^ 64\<close> and its two tests
  as they are written: \<open>!(num % (div - 1))\<close> and \<open>!(num % div + 1)\<close>.
\<close>

partial_function (option) cldm_is_prime_loop :: "u64 \<Rightarrow> u64 \<Rightarrow> bool option" where
  "cldm_is_prime_loop num d =
     (if d * d - 2 * d < num then
        if d - 1 = 0 then None
        else if num mod (d - 1) = 0 then Some False
        else if d = 0 then None
        else if num mod d + 1 = 0 then Some False
        else cldm_is_prime_loop num (d + 6)
      else Some True)"

declare cldm_is_prime_loop.simps [code]

text \<open>C's \<open>!x\<close> on a \<open>size_t\<close>.\<close>

definition c_not :: "u64 \<Rightarrow> u32" where
  "c_not x = (if x = 0 then 1 else 0)"

definition cldm_is_prime :: "u64 \<Rightarrow> bool option" where
  "cldm_is_prime num =
     (if num = 2 \<or> num = 3 then Some True
      else if c_not num mod 2 \<noteq> 0 \<or> num mod 3 = 0 then Some False
      else cldm_is_prime_loop num 6)"

subsection \<open>Powers of two\<close>

definition cldm_clp232 :: "u32 \<Rightarrow> u32" where
  "cldm_clp232 x =
     (let x = x - 1;
          x = x OR drop_bit 1 x;
          x = x OR drop_bit 2 x;
          x = x OR drop_bit 4 x;
          x = x OR drop_bit 8 x;
          x = x OR drop_bit 16 x
      in x + 1)"

definition cldm_flp232 :: "u32 \<Rightarrow> u32" where
  "cldm_flp232 x =
     (let x = x OR drop_bit 1 x;
          x = x OR drop_bit 2 x;
          x = x OR drop_bit 4 x;
          x = x OR drop_bit 8 x;
          x = x OR drop_bit 16 x
      in x - drop_bit 1 x)"

subsection \<open>\<^verbatim>\<open>cldm_stable_partition\<close>\<close>

text \<open>
  The scratch array has \<open>2 * nelems\<close> slots; the elements that satisfy the predicate go to its
  lower half, the others to its upper half. An element is the block of \<open>elemsize\<close> bytes that
  \<open>cldm_memcpy\<close> moves as a whole. The 32-bit index never reaches a \<open>nelems\<close> of \<open>2 ^ 32\<close> or more:
  the loop does not return.
\<close>

fun stable_partition_loop ::
  "('a \<Rightarrow> bool) \<Rightarrow> nat \<Rightarrow> 'a list \<Rightarrow> 'a option list \<Rightarrow> u32 \<Rightarrow> u32 \<Rightarrow> 'a option list \<times> u32 \<times> u32" where
  "stable_partition_loop predicate nelems [] arr st ust = (arr, st, ust)"
| "stable_partition_loop predicate nelems (elem # rest) arr st ust =
     (if predicate elem
      then stable_partition_loop predicate nelems rest (arr[unat st := Some elem]) (st + 1) ust
      else stable_partition_loop predicate nelems rest (arr[nelems + unat ust := Some elem]) st (ust + 1))"

text \<open>The result is the return value with the contents of \<open>data\<close>; \<open>-1\<close> leaves them as they are.\<close>

definition cldm_stable_partition ::
  "bool \<Rightarrow> ('a \<Rightarrow> bool) \<Rightarrow> 'a list \<Rightarrow> (int \<times> 'a option list) option" where
  "cldm_stable_partition malloc_ok predicate data =
     (let nelems = length data in
      if \<not> malloc_ok then Some (- 1, map Some data)
      else if 2 ^ 32 \<le> nelems then None
      else let (arr, st, ust) =
             stable_partition_loop predicate nelems data (replicate (2 * nelems) None) 0 0
           in Some (int (unat st), take (unat st) arr @ take (unat ust) (drop nelems arr)))"

subsection \<open>\<^verbatim>\<open>cldm_uniq\<close>\<close>

text \<open>
  The loop reads \<open>src\<close> in order, compares each element with the last one kept and appends those
  that differ to the output. With \<open>nelems = 0\<close> the bound \<open>nelems - 1\<close> wraps around, and the first
  \<open>memmove\<close> already reads past the end.
\<close>

fun uniq_loop :: "('a \<Rightarrow> 'a \<Rightarrow> int) \<Rightarrow> 'a \<Rightarrow> 'a list \<Rightarrow> 'a list" where
  "uniq_loop compare prev [] = []"
| "uniq_loop compare prev (cur # rest) =
     (if compare prev cur \<noteq> 0 then cur # uniq_loop compare cur rest
      else uniq_loop compare prev rest)"

definition cldm_uniq :: "('a \<Rightarrow> 'a \<Rightarrow> int) \<Rightarrow> 'a list \<Rightarrow> ('a list \<times> nat) option" where
  "cldm_uniq compare src =
     (case src of
        [] \<Rightarrow> None
      | x # rest \<Rightarrow>
          if 2 ^ 32 < length src then None
          else let d = x # uniq_loop compare x rest in Some (d, length d))"

subsection \<open>\<^verbatim>\<open>cldm_ndigits\<close>\<close>

function ndigits_loop :: "u64 \<Rightarrow> u32 \<Rightarrow> u32" where
  "ndigits_loop number n = (if number = 0 then n else ndigits_loop (number div 10) (n + 1))"
  by pat_completeness auto
termination
proof (relation "measure (\<lambda>(number, n). unat number)")
  fix number :: u64 and n :: u32
  assume "number \<noteq> 0"
  then have "0 < unat number" by (simp add: unat_gt_0)
  then have "unat (number div 10) < unat number" by (simp add: unat_div)
  then show "((number div 10, n + 1), number, n) \<in> measure (\<lambda>(number, n). unat number)" by simp
qed simp

declare ndigits_loop.simps [simp del]

definition cldm_ndigits :: "u64 \<Rightarrow> u32" where
  "cldm_ndigits number = (if number = 0 then 1 else ndigits_loop number 0)"






section \<open>Correctness\<close>

subsection \<open>The primality test\<close>

text \<open>
  What the loop really decides: divisors of the form \<open>6 k - 1\<close> below the square root are found,
  divisors of the form \<open>6 k + 1\<close> and the divisor 2 are not.
\<close>

definition prime_test :: "nat \<Rightarrow> bool" where
  "prime_test n \<longleftrightarrow> n = 2 \<or> n = 3 \<or>
     (n \<noteq> 0 \<and> \<not> 3 dvd n \<and> (\<forall>k\<ge>1. 36 * k * k - 12 * k < n \<longrightarrow> \<not> (6 * k - 1) dvd n))"

lemma six_square: "1 \<le> k \<Longrightarrow> (6 * k) * (6 * k) - 2 * (6 * k) = 36 * k * k - 12 * (k::nat)"
  by simp

text \<open>One step of the loop at the divisor \<open>6 * k\<close>, read over the naturals.\<close>

lemma prime_step_nat:
  fixes d num :: u64
  assumes "unat d = 6 * k" and "1 \<le> k" and "k \<le> 2 ^ 29"
  shows "(d * d - 2 * d < num) \<longleftrightarrow> 36 * k * k - 12 * k < unat num"
    and "d \<noteq> 1" and "d \<noteq> 0"
    and "(num mod (d - 1) = 0) \<longleftrightarrow> (6 * k - 1) dvd unat num"
    and "num mod d + 1 \<noteq> 0"
    and "unat (d + 6) = 6 * Suc k"
proof -
  have d1: "unat (d - 1) = 6 * k - 1"
    using assms by (subst unat_sub_nowrap) auto
  have "k * k \<le> 2 ^ 29 * 2 ^ 29" using assms(3) by (intro mult_le_mono)
  then have "36 * (k * k) \<le> 36 * (2 ^ 29 * 2 ^ 29)" by simp
  then have sq: "unat (d * d) = 36 * k * k"
    using assms(1) by (subst unat_mult_nowrap) auto
  have tw: "unat (2 * d) = 12 * k"
    using assms by (subst unat_mult_nowrap) auto
  have "12 * k \<le> 36 * k * k" using assms(2) by simp
  then have "unat (d * d - 2 * d) = 36 * k * k - 12 * k"
    by (subst unat_sub_nowrap) (simp_all add: sq tw)
  then show "(d * d - 2 * d < num) \<longleftrightarrow> 36 * k * k - 12 * k < unat num"
    by (simp add: word_less_nat_alt)
  show "d \<noteq> 1" using d1 assms(2) by auto
  show "d \<noteq> 0" using assms by auto
  show "(num mod (d - 1) = 0) \<longleftrightarrow> (6 * k - 1) dvd unat num"
    by (simp add: word_unat_eq_iff unat_mod d1 dvd_eq_mod_eq_0)
  have "unat num mod (6 * k) < 6 * k" using assms(2) by simp
  also have "\<dots> \<le> 6 * 2 ^ 29" using assms(3) by simp
  finally have "unat (num mod d) < 6 * 2 ^ 29" by (simp add: unat_mod assms(1))
  then have "unat (num mod d + 1) = unat (num mod d) + 1" by (subst unat_add_nowrap) auto
  then show "num mod d + 1 \<noteq> 0" by auto
  show "unat (d + 6) = 6 * Suc k" using assms by (subst unat_add_nowrap) auto
qed

lemma is_prime_loop_spec:
  assumes "unat d = 6 * k" and "1 \<le> k" and "k \<le> 2 ^ 29" and "unat num < 2 ^ 62"
  shows "cldm_is_prime_loop num d =
    Some (\<forall>j\<ge>k. 36 * j * j - 12 * j < unat num \<longrightarrow> \<not> (6 * j - 1) dvd unat num)"
  using assms
proof (induction "2 ^ 29 - k" arbitrary: k d rule: less_induct)
  case less
  note step = prime_step_nat [OF less.prems(1-3)]
  show ?case
  proof (cases "36 * k * k - 12 * k < unat num")
    case stop: False
    have "\<not> 36 * j * j - 12 * j < unat num" if "k \<le> j" for j
    proof -
      have "k * (3 * k - 1) \<le> j * (3 * j - 1)" using that by (intro mult_le_mono) auto
      then have "12 * (k * (3 * k - 1)) \<le> 12 * (j * (3 * j - 1))" by simp
      then have "36 * k * k - 12 * k \<le> 36 * j * j - 12 * j" by (simp add: algebra_simps diff_mult_distrib2)
      with stop show ?thesis by simp
    qed
    with stop show ?thesis by (subst cldm_is_prime_loop.simps) (simp add: step)
  next
    case go: True
    show ?thesis
    proof (cases "(6 * k - 1) dvd unat num")
      case True
      with go step(2) show ?thesis by (subst cldm_is_prime_loop.simps) (auto simp: step)
    next
      case nd: False
      have "k < 2 ^ 29"
      proof (rule ccontr)
        assume "\<not> k < 2 ^ 29"
        with less.prems have "k = 2 ^ 29" by simp
        with go less.prems(4) show False by simp
      qed
      then have "cldm_is_prime_loop num (d + 6) =
        Some (\<forall>j\<ge>Suc k. 36 * j * j - 12 * j < unat num \<longrightarrow> \<not> (6 * j - 1) dvd unat num)"
        using less.prems step(6) by (intro less.hyps) auto
      moreover have "cldm_is_prime_loop num d = cldm_is_prime_loop num (d + 6)"
        using go nd by (subst cldm_is_prime_loop.simps) (simp add: step)
      moreover have "(\<forall>j\<ge>k. P j) = (\<forall>j\<ge>Suc k. P j)" if "P k" for P
        using that by (metis Suc_leD le_antisym not_less_eq_eq)
      ultimately show ?thesis using nd by simp
    qed
  qed
qed

lemma cldm_is_prime_exact':
  assumes "unat num < 2 ^ 62"
  shows "cldm_is_prime num = Some (prime_test (unat num))"
proof -
  have n: "num = 2 \<longleftrightarrow> unat num = 2" "num = 3 \<longleftrightarrow> unat num = 3" "num = 0 \<longleftrightarrow> unat num = 0"
    by (simp_all add: word_unat_eq_iff)
  have m3: "num mod 3 = 0 \<longleftrightarrow> 3 dvd unat num"
    by (simp add: word_unat_eq_iff unat_mod dvd_eq_mod_eq_0)
  have "cldm_is_prime_loop num 6 =
     Some (\<forall>j\<ge>1. 36 * j * j - 12 * j < unat num \<longrightarrow> \<not> (6 * j - 1) dvd unat num)"
    using assms by (intro is_prime_loop_spec) auto
  then show ?thesis
    by (auto simp: cldm_is_prime_def prime_test_def c_not_def n m3)
qed

text \<open>Below \<open>2 ^ 62\<close> the primality test returns, never divides by zero, and decides exactly
  \<open>prime_test\<close>: no divisor 3 and no divisor of the form \<open>6 k - 1\<close> in the range of the loop.\<close>

theorem cldm_is_prime_exact:
  assumes "unat num < 2 ^ 62"
  shows "cldm_is_prime num = Some (prime_test (unat num))"
  using assms by (rule cldm_is_prime_exact')

theorem cldm_is_prime_exact_witness:
  "unat (49 :: u64) < 2 ^ 62 \<and> cldm_is_prime 49 = Some (prime_test 49)"
  using cldm_is_prime_exact [of 49] by simp

text \<open>
  The square of 7 passes: \<open>num % div + 1\<close> is never 0, so no divisor \<open>6 k + 1\<close> is ever tried. So
  does 4, since \<open>!num % 2\<close> is \<open>(!num) % 2\<close>.
\<close>

lemma cldm_is_prime_49: "cldm_is_prime 49 = Some True"
  by (simp add: cldm_is_prime_def c_not_def cldm_is_prime_loop.simps)

lemma cldm_is_prime_4: "cldm_is_prime 4 = Some True"
  by (simp add: cldm_is_prime_def c_not_def cldm_is_prime_loop.simps)

definition nat_prime :: "nat \<Rightarrow> bool" where
  "nat_prime p \<longleftrightarrow> 1 < p \<and> (\<forall>m. m dvd p \<longrightarrow> m = 1 \<or> m = p)"

lemma nat_prime_prime_test:
  assumes "nat_prime p" shows "prime_test p"
proof (cases "p = 2 \<or> p = 3")
  case True then show ?thesis by (auto simp: prime_test_def)
next
  case False
  have "\<not> 3 dvd p" using assms False by (auto simp: nat_prime_def)
  moreover have "\<not> (6 * k - 1) dvd p" if k: "1 \<le> k" "36 * k * k - 12 * k < p" for k
  proof
    assume "(6 * k - 1) dvd p"
    with assms k(1) have "p = 6 * k - 1" by (auto simp: nat_prime_def)
    moreover have "36 * k \<le> 36 * k * k" using k(1) by simp
    ultimately show False using k by linarith
  qed
  ultimately show ?thesis using assms by (auto simp: prime_test_def nat_prime_def)
qed

text \<open>no prime is rejected, and none makes the test run on.\<close>

theorem cldm_is_prime_accepts_primes:
  assumes "nat_prime (unat num)" and "unat num < 2 ^ 62"
  shows "cldm_is_prime num = Some True"
  using assms by (simp add: cldm_is_prime_exact' nat_prime_prime_test)

theorem cldm_is_prime_accepts_primes_witness:
  "nat_prime (unat (5 :: u64)) \<and> cldm_is_prime 5 = Some True"
proof -
  have "m = 1 \<or> m = 5" if "m dvd 5" for m :: nat
  proof -
    from that have "m \<le> 5" by (rule dvd_imp_le) simp
    then have "m = 0 \<or> m = 1 \<or> m = 2 \<or> m = 3 \<or> m = 4 \<or> m = 5" by arith
    with that show ?thesis by (elim disjE) simp_all
  qed
  then have "nat_prime (unat (5 :: u64))" by (simp add: nat_prime_def)
  with cldm_is_prime_accepts_primes [of 5] show ?thesis by simp
qed

text \<open>The powers of 7 pass as well, whatever else they are: they bound the search of the next capacity.\<close>

lemma dvd_pow7_mod6: "m dvd 7 ^ a \<Longrightarrow> m mod 6 = (1::nat)"
proof (induction a arbitrary: m)
  case 0 then show ?case by simp
next
  case (Suc a)
  show ?case
  proof (cases "7 dvd m")
    case True
    then obtain m' where m': "m = 7 * m'" by (elim dvdE)
    with Suc.prems have "m' dvd 7 ^ a" by simp
    then have "m' mod 6 = 1" by (rule Suc.IH)
    then show ?thesis using m' by presburger
  next
    case False
    have "x = 1 \<or> x = 7" if "x dvd 7" for x :: nat
    proof -
      from that have "x \<le> 7" by (rule dvd_imp_le) simp
      then have "x = 0 \<or> x = 1 \<or> x = 2 \<or> x = 3 \<or> x = 4 \<or> x = 5 \<or> x = 6 \<or> x = 7" by arith
      with that show ?thesis by (elim disjE) simp_all
    qed
    then have "gcd m 7 = 1 \<or> gcd m 7 = 7" by simp
    with False have "coprime m 7" by (metis coprime_iff_gcd_eq_1 gcd_dvd1)
    with Suc.prems have "m dvd 7 ^ a" by (simp add: coprime_dvd_mult_right_iff)
    then show ?thesis by (rule Suc.IH)
  qed
qed

lemma prime_test_pow7: "prime_test (7 ^ a)"
proof -
  have "\<not> 3 dvd (7::nat) ^ a" using dvd_pow7_mod6 [of 3 a] by auto
  moreover have "\<not> (6 * k - 1) dvd (7::nat) ^ a" if "1 \<le> k" for k
  proof
    assume "(6 * k - 1) dvd (7::nat) ^ a"
    then have "(6 * k - 1) mod 6 = 1" by (rule dvd_pow7_mod6)
    moreover obtain j where "k = Suc j" using \<open>1 \<le> k\<close> by (cases k) auto
    ultimately show False by simp
  qed
  moreover have "(7::nat) ^ a \<noteq> 0" by simp
  ultimately have "(7::nat) ^ a \<noteq> 0 \<and> \<not> 3 dvd (7::nat) ^ a \<and>
    (\<forall>k\<ge>1. 36 * k * k - 12 * k < 7 ^ a \<longrightarrow> \<not> (6 * k - 1) dvd (7::nat) ^ a)" by (intro conjI allI impI)
  then show ?thesis unfolding prime_test_def by (intro disjI2)
qed





subsection \<open>Powers of two\<close>

lemma smear_step:
  assumes "\<And>i. bit y i \<longleftrightarrow> (\<exists>j<m. bit x (i + j))"
  shows "bit (y OR drop_bit m y) i \<longleftrightarrow> (\<exists>j<2*m. bit (x::'a::len word) (i + j))"
proof -
  have "bit (y OR drop_bit m y) i \<longleftrightarrow> (\<exists>j<m. bit x (i + j)) \<or> (\<exists>j<m. bit x (i + m + j))"
    by (simp add: bit_or_iff bit_drop_bit_eq assms add.commute)
  also have "\<dots> \<longleftrightarrow> (\<exists>j<2*m. bit x (i + j))"
  proof
    assume "(\<exists>j<m. bit x (i + j)) \<or> (\<exists>j<m. bit x (i + m + j))"
    then show "\<exists>j<2*m. bit x (i + j)"
    proof
      assume "\<exists>j<m. bit x (i + j)"
      then show ?thesis by (metis less_le_trans mult_2 le_add1)
    next
      assume "\<exists>j<m. bit x (i + m + j)"
      then obtain j where "j < m" "bit x (i + m + j)" by blast
      then show ?thesis by (intro exI [of _ "m + j"]) (simp add: add.assoc)
    qed
  next
    assume "\<exists>j<2*m. bit x (i + j)"
    then obtain j where j: "j < 2*m" "bit x (i + j)" by blast
    show "(\<exists>j<m. bit x (i + j)) \<or> (\<exists>j<m. bit x (i + m + j))"
    proof (cases "j < m")
      case True
      with j show ?thesis by blast
    next
      case False
      with j have "j - m < m" "bit x (i + m + (j - m))" by auto
      then show ?thesis by blast
    qed
  qed
  finally show ?thesis .
qed

text \<open>Five steps smear every bit of a 32-bit word over all the positions below it.\<close>

definition smear32 :: "u32 \<Rightarrow> u32" where
  "smear32 x =
     (let x = x OR drop_bit 1 x;
          x = x OR drop_bit 2 x;
          x = x OR drop_bit 4 x;
          x = x OR drop_bit 8 x
      in x OR drop_bit 16 x)"

lemma bit_smear32: "bit (smear32 x) i \<longleftrightarrow> (\<exists>j<32. bit x (i + j))"
proof -
  let ?P = "\<lambda>m y. \<forall>i. bit y i \<longleftrightarrow> (\<exists>j<m. bit x (i + j))"
  have step: "?P (2 * m) (y OR drop_bit m y)" if "?P m y" for m y
    using smear_step [of y m x] that by simp
  have "?P 1 x" by simp
  then have "?P (2 * 1) (x OR drop_bit 1 x)" by (rule step)
  then have "?P 2 (x OR drop_bit 1 x)" by simp
  from step [OF step [OF step [OF step [OF this]]]] show ?thesis
    by (simp add: smear32_def Let_def)
qed

lemma top_bit_iff:
  assumes "2 ^ k \<le> unat (x::u32)" and "unat x < 2 ^ Suc k"
  shows "(\<exists>j<32. bit x (i + j)) \<longleftrightarrow> i \<le> k"
proof
  assume "\<exists>j<32. bit x (i + j)"
  then obtain j where "bit x (i + j)" by blast
  then have "bit (unat x) (i + j)" by (simp add: bit_unsigned_iff)
  then have "2 ^ (i + j) \<le> unat x"
    by (metis bit_iff_odd div_less even_zero not_le)
  with assms(2) have "(2::nat) ^ (i + j) < 2 ^ Suc k" by linarith
  then show "i \<le> k" by (simp only: power_strict_increasing_iff) 
next
  assume "i \<le> k"
  have "unat x div 2 ^ k = 1"
    using assms by (intro div_nat_eqI) auto
  then have "bit (unat x) k" by (simp add: bit_iff_odd)
  then have bk: "bit x k" by (simp add: bit_unsigned_iff)
  then have "k < 32" using bit_imp_le_length [of x k] by simp
  with bk \<open>i \<le> k\<close> show "\<exists>j<32. bit x (i + j)" by (intro exI [of _ "k - i"]) auto
qed

lemma smear32_eq:
  assumes "2 ^ k \<le> unat x" and "unat x < 2 ^ Suc k"
  shows "smear32 x = mask (Suc k)"
proof (rule bit_word_eqI)
  fix n assume "n < LENGTH(32)"
  then show "bit (smear32 x) n = bit (mask (Suc k) :: u32) n"
    by (auto simp: bit_smear32 top_bit_iff [OF assms] bit_mask_iff less_Suc_eq_le)
qed





lemma cldm_flp232_smear: "cldm_flp232 x = smear32 x - drop_bit 1 (smear32 x)"
  unfolding cldm_flp232_def smear32_def Let_def by (rule refl)

lemma cldm_clp232_smear: "cldm_clp232 x = smear32 (x - 1) + 1"
  unfolding cldm_clp232_def smear32_def Let_def by (rule refl)

lemma cldm_flp232_power:
  assumes "2 ^ k \<le> unat x" and "unat x < 2 ^ Suc k" and "k < 32"
  shows "unat (cldm_flp232 x) = 2 ^ k"
proof -
  let ?m = "mask (Suc k) :: u32"
  have half: "drop_bit (Suc 0) ?m = mask k"
    using assms(3) by (intro bit_word_eqI) (auto simp: bit_drop_bit_eq bit_mask_iff)
  have "unat (mask k :: u32) \<le> unat ?m"
    using assms(3) by (simp add: unat_mask diff_le_mono)
  then have "unat (?m - mask k) = unat ?m - unat (mask k :: u32)"
    by (simp add: unat_sub word_le_nat_alt)
  also have "\<dots> = 2 ^ k" using assms(3) by (simp add: unat_mask)
  finally show ?thesis
    by (simp add: cldm_flp232_smear smear32_eq [OF assms(1,2)] half del: mask_Suc_exp)
qed

text \<open>C34: rounding down: the greatest power of two that is at most \<open>x\<close>; 0 stays 0.\<close>

theorem cldm_flp232_correct:
  "if x = 0 then cldm_flp232 x = 0
   else \<exists>k. unat (cldm_flp232 x) = 2 ^ k \<and> 2 ^ k \<le> unat x \<and> unat x < 2 ^ Suc k"
proof (cases "x = 0")
  case True
  then show ?thesis by (simp add: cldm_flp232_def)
next
  case False
  then obtain k where "2 ^ k \<le> unat x" "unat x < 2 ^ Suc k" "k < 32"
    by (rule power_bracket) auto
  with cldm_flp232_power [OF this] False show ?thesis by auto
qed

lemma cldm_clp232_power:
  assumes "2 ^ k < unat x" and "unat x \<le> 2 ^ Suc k" and "k < 32"
  shows "cldm_clp232 x = 2 ^ Suc k"
proof -
  have "x \<noteq> 0" using assms(1) by auto
  then have "unat (x - 1) = unat x - 1" by (simp add: unat_minus_one)
  then have "2 ^ k \<le> unat (x - 1)" "unat (x - 1) < 2 ^ Suc k" using assms(1,2) by linarith+
  from smear32_eq [OF this] show ?thesis
    by (simp add: cldm_clp232_smear mask_eq_exp_minus_1)
qed

lemma clp_zero: "cldm_clp232 0 = 0" by (simp add: cldm_clp232_def)
lemma clp_one: "cldm_clp232 1 = 1" by (simp add: cldm_clp232_def)

text \<open>Rounding up: the least power of two that is at least \<open>x\<close>; it is 0 for 0 and wraps to 0 above
  \<open>2 ^ 31\<close>, where no such power fits in 32 bits.\<close>

theorem cldm_clp232_correct:
  "if x \<noteq> 0 \<and> unat x \<le> 2 ^ 31
   then \<exists>k. unat (cldm_clp232 x) = 2 ^ k \<and> unat x \<le> 2 ^ k \<and> 2 ^ k < 2 * unat x
   else cldm_clp232 x = 0"
proof (cases "x = 0 \<or> x = 1")
  case True
  then show ?thesis by (auto simp: clp_zero clp_one intro: exI [of _ 0])
next
  case False
  then have "x - 1 \<noteq> 0" "x \<noteq> 0" by auto
  from power_bracket [OF this(1)]
  obtain k where k: "2 ^ k \<le> unat (x - 1)" "unat (x - 1) < 2 ^ Suc k" "k < 32"
    by auto
  with \<open>x \<noteq> 0\<close> have x: "2 ^ k < unat x" "unat x \<le> 2 ^ Suc k"
    by (auto simp: unat_minus_one)
  then have c: "cldm_clp232 x = 2 ^ Suc k" using k(3) by (rule cldm_clp232_power)
  show ?thesis
  proof (cases "k < 31")
    case True
    then have "unat (2 ^ Suc k :: u32) = 2 ^ Suc k" by (simp add: unat_power_lower del: power_Suc)
    moreover have "(2::nat) ^ Suc k \<le> 2 ^ 31" using True by (intro power_increasing) auto
    ultimately show ?thesis using x \<open>x \<noteq> 0\<close> c by (auto intro!: exI [of _ "Suc k"])
  next
    case False
    with k(3) have "k = 31" by simp
    with x c show ?thesis by auto
  qed
qed








subsection \<open>Partition, duplicates, digits\<close>

text \<open>
  The invariant of the partition loop: \<open>A\<close> and \<open>B\<close> are the elements moved so far, in order, to
  the two halves of the scratch array.
\<close>

lemma stable_partition_loop_inv:
  assumes "length arr = 2 * n" and "n < 2 ^ 32" and "length A + length B + length xs = n"
    and "unat st = length A" and "take (length A) arr = map Some A"
    and "unat ust = length B" and "take (length B) (drop n arr) = map Some B"
    and "stable_partition_loop P n xs arr st ust = (arr', st', ust')"
  shows "take (unat st') arr' = map Some (A @ filter P xs) \<and>
    take (unat ust') (drop n arr') = map Some (B @ filter (\<lambda>x. \<not> P x) xs) \<and>
    unat st' = length A + length (filter P xs)"
  using assms
proof (induction xs arbitrary: arr st ust A B)
  case Nil
  then show ?case by auto
next
  case (Cons x xs)
  note prems = Cons.prems
  show ?case
  proof (cases "P x")
    case True
    have st: "unat (st + 1) = length (A @ [x])"
      using prems by (subst unat_add_nowrap) auto
    have lo: "take (length (A @ [x])) (arr[length A := Some x]) = map Some (A @ [x])"
      using prems take_Suc_update [of "length A" arr "Some x"] by simp
    have hi: "take (length B) (drop n (arr[length A := Some x])) = map Some B"
      using prems by (simp add: drop_update_cancel)
    have "stable_partition_loop P n xs (arr[length A := Some x]) (st + 1) ust = (arr', st', ust')"
      using prems True by simp
    from Cons.IH [OF _ _ _ st lo _ hi this] show ?thesis using prems True by auto
  next
    case False
    have ust: "unat (ust + 1) = length (B @ [x])"
      using prems by (subst unat_add_nowrap) auto
    have hi: "take (length (B @ [x])) (drop n (arr[n + length B := Some x])) = map Some (B @ [x])"
      using prems take_Suc_update [of "length B" "drop n arr" "Some x"] by (simp add: drop_update_add)
    have lo: "take (length A) (arr[n + length B := Some x]) = map Some A"
      using prems by simp
    have "stable_partition_loop P n xs (arr[n + length B := Some x]) st (ust + 1) = (arr', st', ust')"
      using prems False by simp
    from Cons.IH [OF _ _ _ _ lo ust hi this] show ?thesis using prems False by auto
  qed
qed

text \<open>C33: the partition keeps every element, moves those that satisfy the predicate to the
  front, keeps the order inside both groups, and returns the size of the first.\<close>

theorem cldm_stable_partition_correct:
  assumes "length data < 2 ^ 32"
  shows "cldm_stable_partition True predicate data =
    Some (int (length (filter predicate data)),
          map Some (filter predicate data @ filter (\<lambda>x. \<not> predicate x) data))"
proof -
  obtain arr st ust where r: "stable_partition_loop predicate (length data) data
      (replicate (2 * length data) None) 0 0 = (arr, st, ust)"
    by (metis prod_cases3)
  from stable_partition_loop_inv [OF _ assms _ _ _ _ _ this, of "[]" "[]"]
  have "take (unat st) arr = map Some (filter predicate data)"
    and "take (unat ust) (drop (length data) arr) = map Some (filter (\<lambda>x. \<not> predicate x) data)"
    and "unat st = length (filter predicate data)" by auto
  then show ?thesis using assms r by (auto simp: cldm_stable_partition_def Let_def uint_nat simp del: of_nat_unat)
qed

theorem cldm_stable_partition_correct_witness:
  "length [1, 2, 3, 4 :: nat] < 2 ^ 32 \<and>
   cldm_stable_partition True even [1, 2, 3, 4 :: nat] = Some (2, map Some [2, 4, 1, 3])"
  using cldm_stable_partition_correct [of "[1, 2, 3, 4 :: nat]" even] by simp

lemma uniq_loop_remdups_adj:
  assumes "\<And>x y. compare x y = 0 \<longleftrightarrow> key x = key y"
  shows "map key (x # uniq_loop compare x xs) = remdups_adj (map key (x # xs))"
proof (induction xs arbitrary: x)
  case Nil
  then show ?case by simp
next
  case (Cons a xs)
  show ?case
  proof (cases "key x = key a")
    case True
    then show ?thesis using Cons [of x] by (simp add: assms)
  next
    case False
    then show ?thesis using Cons [of a] by (simp add: assms)
  qed
qed

lemma uniq_loop_subseq: "subseq (uniq_loop compare x xs) xs"
  by (induction xs arbitrary: x) auto

text \<open>\<open>cldm_uniq\<close> keeps the first element of each run of equal keys: the keys of the output are those
  of the input without adjacent duplicates, and the output is a subsequence of the input.\<close>

theorem cldm_uniq_correct:
  assumes "\<And>x y. compare x y = 0 \<longleftrightarrow> key x = key y"
    and "src \<noteq> []" and "length src \<le> 2 ^ 32"
  shows "\<exists>dst. cldm_uniq compare src = Some (dst, length dst) \<and>
    map key dst = remdups_adj (map key src) \<and> subseq dst src"
proof -
  obtain x xs where "src = x # xs" using assms(2) by (cases src) auto
  then show ?thesis
    using assms(3) uniq_loop_remdups_adj [of compare key x xs, OF assms(1)] uniq_loop_subseq [of compare x xs]
    by (auto simp: cldm_uniq_def Let_def)
qed

theorem cldm_uniq_correct_witness:
  "\<exists>dst. cldm_uniq (\<lambda>x y. y - x) [1, 2, 2, 3, 3, 2 :: int] = Some (dst, length dst) \<and>
     map id dst = remdups_adj (map id [1, 2, 2, 3, 3, 2]) \<and> subseq dst [1, 2, 2, 3, 3, 2]"
  by (rule cldm_uniq_correct) auto

fun digit_count :: "nat \<Rightarrow> nat" where
  "digit_count n = (if n = 0 then 0 else Suc (digit_count (n div 10)))"

declare digit_count.simps [simp del]

lemma digit_count_bracket: "n \<noteq> 0 \<Longrightarrow> 10 ^ (digit_count n - 1) \<le> n \<and> n < 10 ^ digit_count n"
proof (induction n rule: digit_count.induct)
  case (1 n)
  show ?case
  proof (cases "n div 10 = 0")
    case True
    with 1 have "digit_count n = 1" by (simp add: digit_count.simps)
    with True 1 show ?thesis by auto
  next
    case False
    with 1 have ih: "10 ^ (digit_count (n div 10) - 1) \<le> n div 10" "n div 10 < 10 ^ digit_count (n div 10)"
      by auto
    have d: "digit_count n = Suc (digit_count (n div 10))" using 1 by (subst digit_count.simps) simp
    obtain m where m: "digit_count (n div 10) = Suc m"
      using False by (subst (asm) digit_count.simps) auto
    from ih show ?thesis unfolding d m by auto
  qed
qed

lemma digit_count_le: "n < 10 ^ k \<Longrightarrow> digit_count n \<le> k"
proof (rule ccontr)
  assume n: "n < 10 ^ k" "\<not> digit_count n \<le> k"
  then have "n \<noteq> 0" by (cases "n = 0") (auto simp: digit_count.simps [of 0])
  then have "10 ^ (digit_count n - 1) \<le> n" using digit_count_bracket by blast
  moreover have "(10::nat) ^ k \<le> 10 ^ (digit_count n - 1)" using n(2) by (intro power_increasing) auto
  ultimately show False using n(1) by linarith
qed

lemma ndigits_loop_count:
  "unat n + digit_count (unat number) < 2 ^ 32 \<Longrightarrow>
   unat (ndigits_loop number n) = unat n + digit_count (unat number)"
proof (induction number n rule: ndigits_loop.induct)
  case (1 number n)
  show ?case
  proof (cases "number = 0")
    case True
    then show ?thesis by (simp add: ndigits_loop.simps digit_count.simps)
  next
    case False
    then have "unat number \<noteq> 0" by (simp add: unat_eq_0)
    then have d: "digit_count (unat number) = Suc (digit_count (unat number div 10))"
      by (subst digit_count.simps) simp
    have n: "unat (n + 1) = unat n + 1"
      using 1 d by (subst unat_add_nowrap) auto
    show ?thesis
      using 1 False by (subst ndigits_loop.simps) (simp add: d n unat_div)
  qed
qed

text \<open>\<open>cldm_ndigits\<close> counts decimal digits; 0 has one digit.\<close>

theorem cldm_ndigits_correct:
  "cldm_ndigits 0 = 1 \<and>
   (number = 0 \<or> (10 ^ (unat (cldm_ndigits number) - 1) \<le> unat number \<and>
                  unat number < 10 ^ unat (cldm_ndigits number)))"
proof (cases "number = 0")
  case True
  then show ?thesis by (simp add: cldm_ndigits_def)
next
  case False
  have "unat number < 10 ^ 20" using unat_lt2p [of number] by simp
  then have "digit_count (unat number) \<le> 20" by (rule digit_count_le)
  then have "unat (cldm_ndigits number) = digit_count (unat number)"
    using False by (simp add: cldm_ndigits_def ndigits_loop_count)
  then show ?thesis
    using False digit_count_bracket [of "unat number"] by (simp add: unat_eq_0 cldm_ndigits_def)
qed

end
