(* ===== verification/Cmem.thy ===== *)
theory Cmem
  imports Prelude
begin

text \<open>
  The bytes the C code reads and writes through pointers: a flat memory from 64-bit addresses to
  bytes, undefined where nothing is allocated, with the string and memory functions of the C
  library that the program calls. A read or write of an unallocated address is \<open>None\<close>; that two
  neighbouring objects are distinct is not represented, so an access that leaves one allocated
  object for the next is not detected.
\<close>

section \<open>Reads and writes\<close>

type_synonym mem = "u64 \<Rightarrow> u8 option"

definition mem_wr :: "mem \<Rightarrow> u64 \<Rightarrow> u8 \<Rightarrow> mem option" where
  "mem_wr m a v = (case m a of None \<Rightarrow> None | Some _ \<Rightarrow> Some (m(a \<mapsto> v)))"

fun mem_rdn :: "mem \<Rightarrow> u64 \<Rightarrow> nat \<Rightarrow> u8 list option" where
  "mem_rdn m a 0 = Some []"
| "mem_rdn m a (Suc n) = do { b \<leftarrow> m a; bs \<leftarrow> mem_rdn m (a + 1) n; Some (b # bs) }"

fun bytes_at :: "mem \<Rightarrow> u64 \<Rightarrow> u8 list \<Rightarrow> bool" where
  "bytes_at m a [] \<longleftrightarrow> True"
| "bytes_at m a (b # bs) \<longleftrightarrow> m a = Some b \<and> bytes_at m (a + 1) bs"

definition cstring_at :: "mem \<Rightarrow> u64 \<Rightarrow> u8 list \<Rightarrow> bool" where
  "cstring_at m a s \<longleftrightarrow> 0 \<notin> set s \<and> bytes_at m a (s @ [0])"

text \<open>The addresses of a block of \<open>n\<close> bytes.\<close>

fun block :: "u64 \<Rightarrow> nat \<Rightarrow> u64 list" where
  "block a 0 = []"
| "block a (Suc n) = a # block (a + 1) n"

definition mapped :: "mem \<Rightarrow> u64 \<Rightarrow> nat \<Rightarrow> bool" where
  "mapped m a n \<longleftrightarrow> (\<forall>x \<in> set (block a n). m x \<noteq> None)"

lemma block_numeral [simp]: "block a (numeral k) = a # block (a + 1) (pred_numeral k)"
  by (simp add: numeral_eq_Suc)

lemma mem_rdn_numeral [simp]:
  "mem_rdn m a (numeral k) =
     do { b \<leftarrow> m a; bs \<leftarrow> mem_rdn m (a + 1) (pred_numeral k); Some (b # bs) }"
  by (simp add: numeral_eq_Suc)

lemma length_block [simp]: "length (block a n) = n"
  by (induction n arbitrary: a) auto

lemma nth_block: "i < n \<Longrightarrow> block a n ! i = a + of_nat i"
  by (induction n arbitrary: a i) (auto simp: nth_Cons' algebra_simps of_nat_diff)

lemma block_eq_map: "block a n = map (\<lambda>i. a + of_nat i) [0..<n]"
  by (rule nth_equalityI) (auto simp: nth_block)

lemma block_append: "block a (m + n) = block a m @ block (a + of_nat m) n"
  by (induction m arbitrary: a) (auto simp: algebra_simps)

lemma of_nat_word_inj:
  "(of_nat i :: 'a::len word) = of_nat j \<Longrightarrow> i < 2 ^ LENGTH('a) \<Longrightarrow> j < 2 ^ LENGTH('a) \<Longrightarrow> i = j"
  by (metis mod_less unat_of_nat)

lemma distinct_block: "n \<le> 2 ^ 64 \<Longrightarrow> distinct (block a n)"
  by (auto simp: block_eq_map distinct_map inj_on_def dest: of_nat_word_inj)

lemma mem_rdn_bytes_at: "mem_rdn m a n = Some bs \<longleftrightarrow> length bs = n \<and> bytes_at m a bs"
proof (induction n arbitrary: a bs)
  case 0
  then show ?case by auto
next
  case (Suc n)
  then show ?case by (cases bs) (auto simp: bind_eq_Some_conv)
qed

lemma bytes_at_append:
  "bytes_at m a (xs @ ys) \<longleftrightarrow> bytes_at m a xs \<and> bytes_at m (a + of_nat (length xs)) ys"
  by (induction xs arbitrary: a) (auto simp: algebra_simps)

lemma bytes_at_unique:
  "bytes_at m a xs \<Longrightarrow> bytes_at m a ys \<Longrightarrow> length xs = length ys \<Longrightarrow> xs = ys"
  by (metis mem_rdn_bytes_at option.inject)

lemma bytes_at_cong:
  "(\<And>x. x \<in> set (block a (length bs)) \<Longrightarrow> m x = m' x) \<Longrightarrow> bytes_at m a bs = bytes_at m' a bs"
  by (induction bs arbitrary: a) auto

lemma bytes_at_upd: "x \<notin> set (block a (length bs)) \<Longrightarrow> bytes_at (m(x := v)) a bs = bytes_at m a bs"
  by (rule bytes_at_cong) auto

lemma bytes_at_mapped: "bytes_at m a bs \<Longrightarrow> mapped m a (length bs)"
  by (induction bs arbitrary: a) (auto simp: mapped_def)

section \<open>Writing a block\<close>

fun mem_put :: "mem \<Rightarrow> u64 \<Rightarrow> u8 list \<Rightarrow> mem" where
  "mem_put m d [] = m"
| "mem_put m d (b # bs) = mem_put (m(d \<mapsto> b)) (d + 1) bs"

lemma mem_put_outside: "x \<notin> set (block d (length bs)) \<Longrightarrow> mem_put m d bs x = m x"
  by (induction bs arbitrary: m d) auto

lemma mem_put_append:
  "mem_put m d (xs @ [y]) = (mem_put m d xs)(d + of_nat (length xs) \<mapsto> y)"
  by (induction xs arbitrary: m d) (auto simp: algebra_simps)

lemma not_in_block_Suc: "n < 2 ^ 64 \<Longrightarrow> a \<notin> set (block (a + 1) n)"
  using distinct_block [of "Suc n" a] by simp

lemma bytes_at_mem_put: "length bs \<le> 2 ^ 64 \<Longrightarrow> bytes_at (mem_put m d bs) d bs"
proof (induction bs arbitrary: m d)
  case Nil
  then show ?case by simp
next
  case (Cons b bs)
  then show ?case by (simp add: mem_put_outside not_in_block_Suc)
qed

lemma mapped_upd [simp]: "mapped m d n \<Longrightarrow> mapped (m(x \<mapsto> v)) d n"
  by (auto simp: mapped_def)

lemma mapped_Suc: "mapped m d (Suc n) \<longleftrightarrow> m d \<noteq> None \<and> mapped m (d + 1) n"
  by (auto simp: mapped_def)

lemma mem_wr_mapped: "m d \<noteq> None \<Longrightarrow> mem_wr m d b = Some (m(d \<mapsto> b))"
  by (auto simp: mem_wr_def split: option.splits)

lemma mapped_mem_put: "mapped m a n \<Longrightarrow> mapped (mem_put m d bs) a n"
  by (induction bs arbitrary: m d) auto

lemma mapped_nth: "mapped m a n \<Longrightarrow> i < n \<Longrightarrow> m (a + of_nat i) \<noteq> None"
  by (auto simp: mapped_def block_eq_map)

section \<open>The C library's string functions\<close>

text \<open>\<open>strlen\<close>: runs until the terminator; it has no result where there is none.\<close>

partial_function (option) c_strlen :: "mem \<Rightarrow> u64 \<Rightarrow> nat option" where
  "c_strlen m a =
     do { b \<leftarrow> m a;
          if b = 0 then Some 0
          else do { n \<leftarrow> c_strlen m (a + 1); Some (Suc n) } }"

text \<open>\<open>strcmp\<close>: the difference of the first two unsigned bytes that differ.\<close>

partial_function (option) c_strcmp :: "mem \<Rightarrow> u64 \<Rightarrow> u64 \<Rightarrow> int option" where
  "c_strcmp m a b =
     do { x \<leftarrow> m a; y \<leftarrow> m b;
          if x \<noteq> y then Some (uint x - uint y)
          else if x = 0 then Some 0
          else c_strcmp m (a + 1) (b + 1) }"

declare c_strlen.simps [code] c_strcmp.simps [code]

text \<open>\<open>strrchr\<close> on the bytes of a string: the index of the last occurrence.\<close>

fun c_strrchr :: "u8 list \<Rightarrow> u8 \<Rightarrow> nat option" where
  "c_strrchr [] c = None"
| "c_strrchr (x # xs) c =
     (case c_strrchr xs c of
        Some i \<Rightarrow> Some (Suc i)
      | None \<Rightarrow> if x = c then Some 0 else None)"

lemma c_strlen_cstring: "cstring_at m a s \<Longrightarrow> c_strlen m a = Some (length s)"
  by (induction s arbitrary: a) (auto simp: cstring_at_def c_strlen.simps)

text \<open>
  The contract of \<open>cldm_memcmp\<close> that the hash table depends on, for keys in \<open>K\<close>: on two readable blocks
  of the same size it returns, and it returns 0 exactly for equal contents.
\<close>

locale mem_compare =
  fixes cmp :: "mem \<Rightarrow> u64 \<Rightarrow> u64 \<Rightarrow> u64 \<Rightarrow> int option"
    and K :: "u8 list set"
  assumes cmp_blocks:
    "bytes_at m a xs \<Longrightarrow> bytes_at m b ys \<Longrightarrow> length xs = unat n \<Longrightarrow> length ys = unat n \<Longrightarrow>
     xs \<in> K \<Longrightarrow> ys \<in> K \<Longrightarrow> \<exists>r. cmp m a b n = Some r \<and> (r = 0 \<longleftrightarrow> xs = ys)"
begin

lemma cmp_returns:
  assumes "mem_rdn m a (unat n) = Some xs" and "mem_rdn m b (unat n) = Some ys" and "xs \<in> K" and "ys \<in> K"
  obtains r where "cmp m a b n = Some r" and "r = 0 \<longleftrightarrow> xs = ys"
proof -
  from assms(1,2) have "bytes_at m a xs" "bytes_at m b ys" "length xs = unat n" "length ys = unat n"
    by (auto simp: mem_rdn_bytes_at)
  from cmp_blocks [OF this assms(3,4)] show thesis using that by blast
qed

end

end
