(* ===== verification/Byteseq.thy ===== *)
theory Byteseq
  imports Cmem
begin

text \<open>
  \<^verbatim>\<open>cldm/cldm_byteseq.c\<close>: the portable string and memory routines, the ones a build without AVX2
  uses, and \<open>cldm_basename\<close> of \<^verbatim>\<open>cldm/cldm_byteseq.h\<close>.
\<close>

section \<open>The operations\<close>

text \<open>\<open>while(i-- && (*d++ = *src++));\<close>\<close>

fun strscpy_loop :: "mem \<Rightarrow> u64 \<Rightarrow> u64 \<Rightarrow> nat \<Rightarrow> mem option" where
  "strscpy_loop m d s 0 = Some m"
| "strscpy_loop m d s (Suc i) =
     do { b \<leftarrow> m s;
          m \<leftarrow> mem_wr m d b;
          if b = 0 then Some m else strscpy_loop m (d + 1) (s + 1) i }"

definition E2BIG :: int where
  "E2BIG = 7"

definition cldm_strscpy :: "mem \<Rightarrow> u64 \<Rightarrow> u64 \<Rightarrow> u64 \<Rightarrow> (int \<times> mem) option" where
  "cldm_strscpy m dst src dstsize =
     do { srclen \<leftarrow> c_strlen m src;
          m \<leftarrow> strscpy_loop m dst src (unat dstsize);
          if unat dstsize \<le> srclen
          then do { m \<leftarrow> mem_wr m (dst + (dstsize - 1)) 0; Some (- E2BIG, m) }
          else Some (int srclen, m) }"

fun memcpy_loop :: "mem \<Rightarrow> u64 \<Rightarrow> u64 \<Rightarrow> nat \<Rightarrow> mem option" where
  "memcpy_loop m d s 0 = Some m"
| "memcpy_loop m d s (Suc n) =
     do { b \<leftarrow> m s; m \<leftarrow> mem_wr m d b; memcpy_loop m (d + 1) (s + 1) n }"

definition cldm_memcpy :: "mem \<Rightarrow> u64 \<Rightarrow> u64 \<Rightarrow> u64 \<Rightarrow> mem option" where
  "cldm_memcpy m dst src n = memcpy_loop m dst src (unat n)"

fun memset_loop :: "mem \<Rightarrow> u64 \<Rightarrow> u8 \<Rightarrow> nat \<Rightarrow> mem option" where
  "memset_loop m d v 0 = Some m"
| "memset_loop m d v (Suc n) = do { m \<leftarrow> mem_wr m d v; memset_loop m (d + 1) v n }"

definition cldm_memset :: "mem \<Rightarrow> u64 \<Rightarrow> u32 \<Rightarrow> u64 \<Rightarrow> mem option" where
  "cldm_memset m dst v n = memset_loop m dst (ucast v) (unat n)"

text \<open>
  The comparison loop as it is written: \<open>diff = *ss0 - *ss1\<close> reads through the two pointers, and
  nothing advances them.
\<close>

fun memcmp_loop :: "mem \<Rightarrow> u64 \<Rightarrow> u64 \<Rightarrow> nat \<Rightarrow> int \<Rightarrow> int option" where
  "memcmp_loop m ss0 ss1 0 diff = Some diff"
| "memcmp_loop m ss0 ss1 (Suc n) diff =
     (if diff \<noteq> 0 then Some diff
      else do { x \<leftarrow> m ss0; y \<leftarrow> m ss1; memcmp_loop m ss0 ss1 n (uint x - uint y) })"

definition cldm_memcmp :: "mem \<Rightarrow> u64 \<Rightarrow> u64 \<Rightarrow> u64 \<Rightarrow> int option" where
  "cldm_memcmp m s0 s1 n = memcmp_loop m s0 s1 (unat n) 0"

text \<open>\<open>char\<close> is signed: bytes from 128 on are negative. The position is a 32-bit counter.\<close>

partial_function (option) scan_lt_loop :: "mem \<Rightarrow> u64 \<Rightarrow> u32 \<Rightarrow> u32 \<Rightarrow> u32 option" where
  "scan_lt_loop m str sentinel pos =
     do { b \<leftarrow> m (str + ucast pos);
          if sint sentinel \<le> sint b then scan_lt_loop m str sentinel (pos + 1) else Some pos }"

definition cldm_scan_lt :: "mem \<Rightarrow> u64 \<Rightarrow> u32 \<Rightarrow> u32 option" where
  "cldm_scan_lt m str sentinel = scan_lt_loop m str sentinel 0"

text \<open>\<open>cldm_basename\<close> on the bytes of a path: what follows the last \<open>'/'\<close>, if there is one.\<close>

definition slash :: u8 where
  "slash = 47"

definition cldm_basename :: "u8 list \<Rightarrow> u8 list" where
  "cldm_basename path =
     (case c_strrchr path slash of Some p \<Rightarrow> drop (p + 1) path | None \<Rightarrow> path)"

section \<open>Correctness\<close>

lemma memcpy_loop_put:
  assumes "bytes_at m s bs" and "mapped m d (length bs)"
    and "set (block d (length bs)) \<inter> set (block s (length bs)) = {}"
  shows "memcpy_loop m d s (length bs) = Some (mem_put m d bs)"
  using assms
proof (induction bs arbitrary: m d s)
  case Nil
  then show ?case by simp
next
  case (Cons b bs)
  then have "bytes_at (m(d \<mapsto> b)) (s + 1) bs" and "mapped (m(d \<mapsto> b)) (d + 1) (length bs)"
    by (auto simp: bytes_at_upd mapped_Suc)
  then have "memcpy_loop (m(d \<mapsto> b)) (d + 1) (s + 1) (length bs) = Some (mem_put (m(d \<mapsto> b)) (d + 1) bs)"
    by (rule Cons.IH) (use Cons.prems in auto)
  with Cons.prems show ?case by (simp add: mapped_Suc mem_wr_mapped)
qed

text \<open>Copying \<open>n\<close> bytes between disjoint blocks puts the source bytes at the destination and changes
  nothing else.\<close>

theorem cldm_memcpy_correct:
  assumes "bytes_at m src bs" and "length bs = unat n" and "mapped m dst (unat n)"
    and "set (block dst (unat n)) \<inter> set (block src (unat n)) = {}"
  shows "\<exists>m'. cldm_memcpy m dst src n = Some m' \<and> bytes_at m' dst bs \<and>
    (\<forall>x. x \<notin> set (block dst (unat n)) \<longrightarrow> m' x = m x)"
  using assms memcpy_loop_put [of m src bs dst] unat_lt2p [of n]
  by (auto simp: cldm_memcpy_def bytes_at_mem_put mem_put_outside)

theorem cldm_memcpy_correct_witness:
  "\<exists>m'. cldm_memcpy [0 \<mapsto> 5, 1 \<mapsto> 6, 8 \<mapsto> 0, 9 \<mapsto> 0] 8 0 2 = Some m' \<and> bytes_at m' 8 [5, 6] \<and>
     (\<forall>x. x \<notin> set (block 8 (unat (2::u64))) \<longrightarrow> m' x = [0 \<mapsto> 5, 1 \<mapsto> 6, 8 \<mapsto> 0, 9 \<mapsto> 0] x)"
  by (rule cldm_memcpy_correct) (simp_all add: mapped_def)

lemma memset_loop_put:
  "mapped m d n \<Longrightarrow> memset_loop m d v n = Some (mem_put m d (replicate n v))"
  by (induction n arbitrary: m d) (auto simp: mapped_Suc mem_wr_mapped)

lemma cldm_memset_put:
  "mapped m dst (unat n) \<Longrightarrow>
   cldm_memset m dst v n = Some (mem_put m dst (replicate (unat n) (ucast v)))"
  by (simp add: cldm_memset_def memset_loop_put)

lemma strscpy_loop_put:
  assumes "bytes_at m s (bs @ [0])" and "0 \<notin> set bs" and "mapped m d n"
    and "set (block d n) \<inter> set (block s (Suc (length bs))) = {}"
  shows "strscpy_loop m d s n = Some (mem_put m d (take n (bs @ [0])))"
  using assms
proof (induction n arbitrary: m d s bs)
  case 0
  then show ?case by simp
next
  case (Suc n)
  show ?case
  proof (cases bs)
    case Nil
    with Suc.prems show ?thesis by (auto simp: mapped_Suc mem_wr_mapped)
  next
    case (Cons b bs')
    with Suc.prems have "bytes_at (m(d \<mapsto> b)) (s + 1) (bs' @ [0])" and "mapped (m(d \<mapsto> b)) (d + 1) n"
      by (auto simp: bytes_at_upd mapped_Suc)
    then have "strscpy_loop (m(d \<mapsto> b)) (d + 1) (s + 1) n =
      Some (mem_put (m(d \<mapsto> b)) (d + 1) (take n (bs' @ [0])))"
    proof (intro Suc.IH)
      show "0 \<notin> set bs'" using Suc.prems(2) Cons by simp
      show "set (block (d + 1) n) \<inter> set (block (s + 1) (Suc (length bs'))) = {}"
        using Suc.prems(4) Cons by auto
    qed
    with Suc.prems Cons show ?thesis by (simp add: mapped_Suc mem_wr_mapped)
  qed
qed

lemma cldm_strscpy_put:
  assumes "cstring_at m src s" and "mapped m dst (unat n)" and "n \<noteq> 0"
    and "set (block dst (unat n)) \<inter> set (block src (Suc (length s))) = {}"
  shows "cldm_strscpy m dst src n =
    Some (if length s < unat n then int (length s) else - E2BIG,
          mem_put m dst (take (unat n - 1) s @ [0]))"
proof -
  have loop: "strscpy_loop m dst src (unat n) = Some (mem_put m dst (take (unat n) (s @ [0])))"
    using assms by (intro strscpy_loop_put) (auto simp: cstring_at_def)
  show ?thesis
  proof (cases "length s < unat n")
    case True
    then have "take (unat n) (s @ [0]) = take (unat n - 1) s @ [0]" by simp
    with True loop c_strlen_cstring [OF assms(1)] show ?thesis
      by (simp add: cldm_strscpy_def)
  next
    case False
    obtain k where k: "unat n = Suc k" using assms(3) by (metis not0_implies_Suc unat_eq_0)
    have last: "dst + (n - 1) = dst + of_nat k"
    proof -
      have "n = of_nat (unat n)" by simp
      also have "\<dots> = 1 + of_nat k" by (simp add: k)
      finally show ?thesis by simp
    qed
    have "take (unat n) (s @ [0]) = take k s @ [s ! k]"
      using False k by (simp add: take_Suc_conv_app_nth)
    then have "(mem_put m dst (take (unat n) (s @ [0])))(dst + of_nat k \<mapsto> 0) = mem_put m dst (take k s @ [0])"
      using False k by (simp add: mem_put_append)
    moreover have "mem_put m dst (take (unat n) (s @ [0])) (dst + of_nat k) \<noteq> None"
      using mapped_nth [OF mapped_mem_put [OF assms(2)]] k by simp
    ultimately show ?thesis
      using False k loop c_strlen_cstring [OF assms(1)]
      by (simp add: cldm_strscpy_def last mem_wr_mapped)
  qed
qed

text \<open>C29: the bounded copy always terminates the destination, stays inside its \<open>dstsize\<close> bytes, and
  returns the length copied, or \<open>-E2BIG\<close> exactly when the string was cut.\<close>

theorem cldm_strscpy_correct:
  assumes "cstring_at m src s" and "mapped m dst (unat dstsize)" and "dstsize \<noteq> 0"
    and "set (block dst (unat dstsize)) \<inter> set (block src (Suc (length s))) = {}"
  shows "\<exists>m'. cldm_strscpy m dst src dstsize =
      Some (if length s < unat dstsize then int (length s) else - E2BIG, m') \<and>
    cstring_at m' dst (take (unat dstsize - 1) s) \<and>
    (\<forall>x. x \<notin> set (block dst (unat dstsize)) \<longrightarrow> m' x = m x)"
proof -
  let ?bs = "take (unat dstsize - 1) s @ [0]"
  obtain k where "unat dstsize = Suc k" using assms(3) by (metis not0_implies_Suc unat_eq_0)
  then have len: "length ?bs \<le> unat dstsize" by simp
  then have "length ?bs \<le> 2 ^ 64" using unat_lt2p [of dstsize] by simp
  then have "bytes_at (mem_put m dst ?bs) dst ?bs" by (rule bytes_at_mem_put)
  moreover have "0 \<notin> set (take (unat dstsize - 1) s)"
    using assms(1) by (auto simp: cstring_at_def dest: in_set_takeD)
  moreover have "mem_put m dst ?bs x = m x" if "x \<notin> set (block dst (unat dstsize))" for x
  proof -
    have "set (block dst (length ?bs)) \<subseteq> set (block dst (unat dstsize))"
      using len unfolding block_eq_map by auto
    with that show ?thesis by (intro mem_put_outside) auto
  qed
  ultimately show ?thesis
    using cldm_strscpy_put [OF assms(1-3) assms(4)] by (auto simp: cstring_at_def)
qed

theorem cldm_strscpy_correct_witness:
  "\<exists>m'. cldm_strscpy [0 \<mapsto> 97, 1 \<mapsto> 98, 2 \<mapsto> 0, 8 \<mapsto> 1, 9 \<mapsto> 1] 8 0 2 =
       Some (if length [97, 98 :: u8] < unat (2::u64) then int (length [97, 98 :: u8]) else - E2BIG, m') \<and>
     cstring_at m' 8 (take (unat (2::u64) - 1) [97, 98]) \<and>
     (\<forall>x. x \<notin> set (block 8 (unat (2::u64))) \<longrightarrow>
        m' x = [0 \<mapsto> 97, 1 \<mapsto> 98, 2 \<mapsto> 0, 8 \<mapsto> 1, 9 \<mapsto> 1] x)"
  by (rule cldm_strscpy_correct) (simp_all add: mapped_def cstring_at_def)

lemma memcmp_loop_first:
  "m a = Some x \<Longrightarrow> m b = Some y \<Longrightarrow> memcmp_loop m a b n (uint x - uint y) = Some (uint x - uint y)"
  by (induction n) auto

text \<open>The portable \<open>cldm_memcmp\<close> looks at the first byte of each block only, whatever \<open>n\<close> is.\<close>

theorem cldm_memcmp_first_byte_only:
  assumes "m s0 = Some x" and "m s1 = Some y" and "n \<noteq> 0"
  shows "cldm_memcmp m s0 s1 n = Some (uint x - uint y)"
proof -
  obtain k where "unat n = Suc k" using assms(3) by (metis not0_implies_Suc unat_eq_0)
  with assms(1,2) memcmp_loop_first [OF assms(1,2)] show ?thesis by (simp add: cldm_memcmp_def)
qed

theorem cldm_memcmp_first_byte_only_witness:
  "cldm_memcmp [0 \<mapsto> 97, 1 \<mapsto> 98, 2 \<mapsto> 97, 3 \<mapsto> 99] 0 2 2 = Some 0"
  using cldm_memcmp_first_byte_only [of "[0 \<mapsto> 97, 1 \<mapsto> 98, 2 \<mapsto> 97, 3 \<mapsto> 99]" 0 97 2 97 2] by simp

text \<open>
  So it keeps the contract of a memory comparison only for keys that their first bytes tell apart, such as
  single bytes, and not for all keys.
\<close>

definition told_apart :: "u8 list set \<Rightarrow> bool" where
  "told_apart K \<longleftrightarrow> (\<forall>xs\<in>K. \<forall>ys\<in>K. length xs = length ys \<longrightarrow> take 1 xs = take 1 ys \<longrightarrow> xs = ys)"

lemma cldm_memcmp_told_apart:
  assumes "told_apart K"
  shows "mem_compare cldm_memcmp K"
proof
  fix m a b xs ys and n :: u64
  assume *: "bytes_at m a xs" "bytes_at m b ys" "length xs = unat n" "length ys = unat n" "xs \<in> K" "ys \<in> K"
  show "\<exists>r. cldm_memcmp m a b n = Some r \<and> (r = 0 \<longleftrightarrow> xs = ys)"
  proof (cases "n = 0")
    case True
    with * show ?thesis by (simp add: cldm_memcmp_def)
  next
    case False
    then have "unat n \<noteq> 0" by (simp add: unat_eq_0)
    with *(3,4) obtain x xs' y ys' where e: "xs = x # xs'" "ys = y # ys'" by (metis length_0_conv neq_Nil_conv)
    with * have "x = y \<longleftrightarrow> xs = ys" using assms unfolding told_apart_def by (metis One_nat_def take_Suc_Cons take0 list.inject)
    with cldm_memcmp_first_byte_only [of m a x b y n] * e False show ?thesis by (simp add: word_uint_eq_iff)
  qed
qed

lemma told_apart_subset: "told_apart K \<Longrightarrow> K' \<subseteq> K \<Longrightarrow> told_apart K'"
  unfolding told_apart_def by blast

lemma told_apart_single: "told_apart {xs. length xs \<le> 1}"
  by (auto simp: told_apart_def)

interpretation portable: mem_compare cldm_memcmp "{xs. length xs \<le> 1}"
  by (rule cldm_memcmp_told_apart [OF told_apart_single])

lemma memcmp_loop_2:
  "memcmp_loop m a b 2 0 = do { x \<leftarrow> m a; y \<leftarrow> m b; memcmp_loop m a b 1 (uint x - uint y) }"
  "memcmp_loop m a b 1 d = (if d \<noteq> 0 then Some d else do { x \<leftarrow> m a; y \<leftarrow> m b; Some (uint x - uint y) })"
  by (simp_all add: numeral_2_eq_2)

lemma cldm_memcmp_not_mem_compare: "\<not> mem_compare cldm_memcmp UNIV"
proof
  assume "mem_compare cldm_memcmp UNIV"
  from mem_compare.cmp_blocks [OF this, of "[0 \<mapsto> 97, 1 \<mapsto> 98, 2 \<mapsto> 97, 3 \<mapsto> 99]" 0 "[97, 98]" 2 "[97, 99]" 2]
  show False by (simp add: cldm_memcmp_def memcmp_loop_2)
qed

lemma scan_lt_loop_step:
  assumes "bytes_at m (str + of_nat k) (xs @ [b])" and "\<forall>x\<in>set xs. sint sentinel \<le> sint x"
    and "sint b < sint sentinel" and "k + length xs < 2 ^ 32"
  shows "scan_lt_loop m str sentinel (of_nat k) = Some (of_nat (k + length xs))"
  using assms
proof (induction xs arbitrary: k)
  case Nil
  have "ucast (of_nat k :: u32) = (of_nat k :: u64)"
    using Nil.prems(4) by (simp add: word_unat_eq_iff unsigned_ucast_eq take_bit_nat_def unat_of_nat)
  with Nil.prems show ?case by (simp add: scan_lt_loop.simps)
next
  case (Cons x xs)
  have u: "ucast (of_nat k :: u32) = (of_nat k :: u64)"
    using Cons.prems(4) by (simp add: word_unat_eq_iff unsigned_ucast_eq take_bit_nat_def unat_of_nat)
  have "scan_lt_loop m str sentinel (of_nat (Suc k)) = Some (of_nat (Suc k + length xs))"
    using Cons.prems by (intro Cons.IH) (auto simp: algebra_simps)
  with Cons.prems u show ?case by (subst scan_lt_loop.simps) (simp add: algebra_simps)
qed

text \<open>The scan: \<open>cldm_scan_lt\<close> returns the position of the first byte that, read as a signed \<open>char\<close>, is below
  the sentinel.\<close>

theorem cldm_scan_lt_correct:
  assumes "bytes_at m str (xs @ [b])" and "\<forall>x\<in>set xs. sint sentinel \<le> sint x"
    and "sint b < sint sentinel" and "length xs < 2 ^ 32"
  shows "cldm_scan_lt m str sentinel = Some (of_nat (length xs))"
  using scan_lt_loop_step [of m str 0 xs b sentinel] assms by (simp add: cldm_scan_lt_def)

theorem cldm_scan_lt_correct_witness:
  "cldm_scan_lt [0 \<mapsto> 97, 1 \<mapsto> 98, 2 \<mapsto> 1] 0 2 = Some 2"
  using cldm_scan_lt_correct [of "[0 \<mapsto> 97, 1 \<mapsto> 98, 2 \<mapsto> 1]" 0 "[97, 98]" 1 2] by simp

lemma c_strrchr_None: "c_strrchr xs c = None \<longleftrightarrow> c \<notin> set xs"
  by (induction xs) (auto split: option.splits)

lemma c_strrchr_Some:
  "c_strrchr xs c = Some i \<Longrightarrow> i < length xs \<and> xs ! i = c \<and> c \<notin> set (drop (Suc i) xs)"
  by (induction xs arbitrary: i) (auto split: option.splits if_splits simp: c_strrchr_None)

text \<open>The base name has no slash and is the path, or what follows its last slash.\<close>

theorem cldm_basename_correct:
  "slash \<notin> set (cldm_basename path) \<and>
   (cldm_basename path = path \<or> (\<exists>dir. path = dir @ slash # cldm_basename path))"
proof (cases "c_strrchr path slash")
  case None
  then have "slash \<notin> set path" by (simp add: c_strrchr_None)
  with None show ?thesis by (simp add: cldm_basename_def)
next
  case (Some i)
  from c_strrchr_Some [OF this] have "path = take i path @ slash # drop (Suc i) path"
    by (metis id_take_nth_drop)
  with Some c_strrchr_Some [OF Some] show ?thesis by (auto simp: cldm_basename_def)
qed

end
