(* ===== verification/Avx2.thy ===== *)
theory Avx2
  imports Byteseq
begin

text \<open>
  \<^verbatim>\<open>cldm/asm/x86_64/cldm_avx2_memcmp.S\<close>: the comparison of memory that a build with AVX2 uses for
  \<open>cldm_memcmp\<close>. The general registers are words, \<open>rdi\<close> and \<open>rsi\<close> the two areas, \<open>rdx\<close> the number of bytes and
  \<open>rcx\<close> the offset of the end of the current block; a vector register that \<^verbatim>\<open>vpcmpeqb\<close> writes is the list
  of its bytes, each of which is all ones (\<open>True\<close>) or all zeros. There is one definition for the code from
  each label on. A load outside of the memory, and an aligned load from an address that is not, have no
  defined result.
\<close>

section \<open>The instructions on vectors\<close>

definition vmovdqa :: "mem \<Rightarrow> u64 \<Rightarrow> u8 list option" where
  "vmovdqa m a = (if 32 dvd unat a then mem_rdn m a 32 else None)"

definition vpcmpeqb :: "u8 list \<Rightarrow> u8 list \<Rightarrow> bool list" where
  "vpcmpeqb xs ys = map2 (=) xs ys"

text \<open>An aligned load from the first area, compared with the second; the same with an unaligned load.\<close>

definition cmp_ymm :: "mem \<Rightarrow> u64 \<Rightarrow> u64 \<Rightarrow> u64 \<Rightarrow> bool list option" where
  "cmp_ymm m rdi rsi off =
     do { xs \<leftarrow> vmovdqa m (rdi + off); ys \<leftarrow> mem_rdn m (rsi + off) 32; Some (vpcmpeqb xs ys) }"

definition cmp_unaligned :: "mem \<Rightarrow> u64 \<Rightarrow> u64 \<Rightarrow> u64 \<Rightarrow> nat \<Rightarrow> bool list option" where
  "cmp_unaligned m rdi rsi off n =
     do { xs \<leftarrow> mem_rdn m (rdi + off) n; ys \<leftarrow> mem_rdn m (rsi + off) n; Some (vpcmpeqb xs ys) }"

text \<open>The comparisons of \<open>n\<close> blocks in a row, from the offset \<open>off\<close> on.\<close>

fun cmp_ymms :: "mem \<Rightarrow> u64 \<Rightarrow> u64 \<Rightarrow> u64 \<Rightarrow> nat \<Rightarrow> bool list list option" where
  "cmp_ymms m rdi rsi off 0 = Some []"
| "cmp_ymms m rdi rsi off (Suc n) =
     do { y \<leftarrow> cmp_ymm m rdi rsi off; ys \<leftarrow> cmp_ymms m rdi rsi (off + 0x20) n; Some (y # ys) }"

text \<open>The carry that \<^verbatim>\<open>vptest\<close> sets against all ones: whether no byte differs.\<close>

definition carry :: "bool list \<Rightarrow> bool" where
  "carry y \<longleftrightarrow> list_all id y"

text \<open>\<^verbatim>\<open>vpmovmskb\<close>, \<^verbatim>\<open>notl\<close>, \<^verbatim>\<open>tzcntl\<close>: the index of the first byte that differs.\<close>

definition first_zero :: "bool list \<Rightarrow> u64" where
  "first_zero y = of_nat (length (takeWhile id y))"

text \<open>Two \<^verbatim>\<open>movzxb\<close> and a \<^verbatim>\<open>subl\<close>.\<close>

definition byte_diff :: "mem \<Rightarrow> u64 \<Rightarrow> u64 \<Rightarrow> u64 \<Rightarrow> int option" where
  "byte_diff m rdi rsi off = do { x \<leftarrow> m (rdi + off); y \<leftarrow> m (rsi + off); Some (uint x - uint y) }"

section \<open>The end of a comparison that found a difference\<close>

text \<open>The macro \<^verbatim>\<open>cmask\<close> for each of the registers: \<open>r8\<close> is the step until a difference is seen.\<close>

fun cmask :: "bool list list \<Rightarrow> u64 \<Rightarrow> u64 \<Rightarrow> u64" where
  "cmask [] r8 rcx = rcx"
| "cmask (y # ys) r8 rcx = (let r8 = (if carry y then r8 else 0) in cmask ys r8 (rcx + r8))"

definition rvcomp :: "mem \<Rightarrow> u64 \<Rightarrow> u64 \<Rightarrow> u64 \<Rightarrow> int option" where
  "rvcomp m rdi rsi rcx = do { y \<leftarrow> cmp_ymm m rdi rsi rcx; byte_diff m rdi rsi (rcx + first_zero y) }"

text \<open>
  \<^verbatim>\<open>.Lc256bdiff\<close>, \<^verbatim>\<open>.Lc128bdiff\<close> and \<^verbatim>\<open>.Lc64bdiff\<close>, for blocks of \<open>n\<close> bytes: \<^verbatim>\<open>diffprlg\<close>, then \<^verbatim>\<open>cmask\<close> for all
  registers but the last one, then \<^verbatim>\<open>rvcomp\<close>.
\<close>

definition block_diff :: "mem \<Rightarrow> u64 \<Rightarrow> u64 \<Rightarrow> u64 \<Rightarrow> u64 \<Rightarrow> bool list list \<Rightarrow> int option" where
  "block_diff m rdi rsi rcx n ys = rvcomp m rdi rsi (cmask (butlast ys) 0x20 (rcx - n))"

section \<open>The blocks\<close>

definition Lclast32b :: "mem \<Rightarrow> u64 \<Rightarrow> u64 \<Rightarrow> u64 \<Rightarrow> int option" where
  "Lclast32b m rdi rsi rdx =
     do { y \<leftarrow> cmp_unaligned m rdi rsi (rdx - 0x20) 32;
          if carry y then Some 0 else byte_diff m rdi rsi (rdx - 0x20 + first_zero y) }"

definition Lc32b :: "mem \<Rightarrow> u64 \<Rightarrow> u64 \<Rightarrow> u64 \<Rightarrow> u64 \<Rightarrow> int option" where
  "Lc32b m rdi rsi rdx rcx =
     (let rcx = rcx - 0x20
      in if rdx < rcx then Lclast32b m rdi rsi rdx
         else do {
           y \<leftarrow> cmp_ymm m rdi rsi (rcx - 0x20);
           if \<not> carry y then byte_diff m rdi rsi (rcx - 0x20 + first_zero y)
           else if rdx \<le> rcx then Some 0
           else Lclast32b m rdi rsi rdx })"

definition Lc64b :: "mem \<Rightarrow> u64 \<Rightarrow> u64 \<Rightarrow> u64 \<Rightarrow> u64 \<Rightarrow> int option" where
  "Lc64b m rdi rsi rdx rcx =
     (let rcx = rcx - 0x40
      in if rdx < rcx then Lc32b m rdi rsi rdx rcx
         else do {
           ys \<leftarrow> cmp_ymms m rdi rsi (rcx - 0x40) 2;
           if \<not> list_all carry ys then block_diff m rdi rsi rcx 0x40 ys
           else if rdx \<le> rcx then Some 0
           else Lc32b m rdi rsi rdx (rcx + 0x40) })"

definition Lc128b :: "mem \<Rightarrow> u64 \<Rightarrow> u64 \<Rightarrow> u64 \<Rightarrow> u64 \<Rightarrow> int option" where
  "Lc128b m rdi rsi rdx rcx =
     (let rcx = rcx - 0x80
      in if rdx < rcx then Lc64b m rdi rsi rdx rcx
         else do {
           ys \<leftarrow> cmp_ymms m rdi rsi (rcx - 0x80) 4;
           if \<not> list_all carry ys then block_diff m rdi rsi rcx 0x80 ys
           else if rdx \<le> rcx then Some 0
           else Lc64b m rdi rsi rdx (rcx + 0x80) })"

partial_function (option) Lc256b :: "mem \<Rightarrow> u64 \<Rightarrow> u64 \<Rightarrow> u64 \<Rightarrow> u64 \<Rightarrow> int option" where
  "Lc256b m rdi rsi rdx rcx =
     (if rdx < rcx then Lc128b m rdi rsi rdx rcx
      else do {
        ys \<leftarrow> cmp_ymms m rdi rsi (rcx - 0x100) 8;
        if \<not> list_all carry ys then block_diff m rdi rsi rcx 0x100 ys
        else if rcx < rdx then Lc256b m rdi rsi rdx (rcx + 0x100)
        else Some 0 })"

section \<open>Fewer than 32 bytes\<close>

text \<open>The loop over single bytes; \<open>rdx\<close> is the negated number of bytes left.\<close>

partial_function (option) Lc1b :: "mem \<Rightarrow> u64 \<Rightarrow> u64 \<Rightarrow> u64 \<Rightarrow> int option" where
  "Lc1b m rdi rsi rdx =
     do { eax \<leftarrow> byte_diff m rdi rsi rdx;
          let rdx = (if eax \<noteq> 0 then - 1 else rdx) + 1;
          if rdx \<noteq> 0 then Lc1b m rdi rsi rdx else Some eax }"

definition Lc8b :: "mem \<Rightarrow> u64 \<Rightarrow> u64 \<Rightarrow> u64 \<Rightarrow> u64 \<Rightarrow> int option" where
  "Lc8b m rdi rsi rdx r8 =
     (if rdx = r8 then Some 0 else Lc1b m (rdi + rdx) (rsi + rdx) (- rdx))"

definition Lc16b :: "mem \<Rightarrow> u64 \<Rightarrow> u64 \<Rightarrow> u64 \<Rightarrow> int option" where
  "Lc16b m rdi rsi rdx =
     (if rdx < 0x10 then Lc8b m rdi rsi rdx 0
      else do {
        y \<leftarrow> cmp_unaligned m rdi rsi 0 16;
        if carry y then Lc8b m rdi rsi rdx 0x10 else byte_diff m rdi rsi (first_zero y) })"

section \<open>The routine\<close>

definition Lc32b_unaligned :: "mem \<Rightarrow> u64 \<Rightarrow> u64 \<Rightarrow> int option" where
  "Lc32b_unaligned m rdi rsi =
     do { y \<leftarrow> cmp_unaligned m rdi rsi 0 32;
          if carry y then Some 0 else byte_diff m rdi rsi (first_zero y) }"

text \<open>
  When the first area is not aligned, the first block is compared by itself and \<open>rcx\<close> becomes the offset of the
  end of the next aligned one.
\<close>

definition cldm_avx2_memcmp :: "mem \<Rightarrow> u64 \<Rightarrow> u64 \<Rightarrow> u64 \<Rightarrow> int option" where
  "cldm_avx2_memcmp m rdi rsi rdx =
     (if rdx < 0x20 then Lc16b m rdi rsi rdx
      else if rdx = 0x20 then Lc32b_unaligned m rdi rsi
      else let rcx = 0x20
           in if 32 dvd unat rdi then Lc256b m rdi rsi rdx (rcx + 0xe0)
              else do {
                y \<leftarrow> cmp_unaligned m rdi rsi 0 32;
                if \<not> carry y then byte_diff m rdi rsi (rcx - 0x20 + first_zero y)
                else let rcx = (rdi + rcx + 0x20 AND - 0x20) - rdi
                     in Lc256b m rdi rsi rdx (rcx + 0xe0) })"

declare Lc256b.simps [code] Lc1b.simps [code]

section \<open>What it returns\<close>

text \<open>The difference of the first two bytes that differ, 0 when there is none.\<close>

fun mem_diff :: "u8 list \<Rightarrow> u8 list \<Rightarrow> int" where
  "mem_diff (x # xs) (y # ys) = (if x \<noteq> y then uint x - uint y else mem_diff xs ys)"
| "mem_diff xs ys = 0"

lemma mem_diff_zero: "length xs = length ys \<Longrightarrow> mem_diff xs ys = 0 \<longleftrightarrow> xs = ys"
  by (induction xs ys rule: mem_diff.induct) (auto simp: word_uint_eq_iff)

lemma mem_diff_at:
  "take j xs = take j ys \<Longrightarrow> j < length xs \<Longrightarrow> j < length ys \<Longrightarrow> xs ! j \<noteq> ys ! j \<Longrightarrow>
   mem_diff xs ys = uint (xs ! j) - uint (ys ! j)"
proof (induction xs ys arbitrary: j rule: mem_diff.induct)
  case (1 x xs y ys)
  then show ?case by (cases j) auto
qed auto

text \<open>Two areas of the same size, the prefix of them that is known to agree, and the blocks in them.\<close>

definition areas :: "mem \<Rightarrow> u64 \<Rightarrow> u64 \<Rightarrow> u8 list \<Rightarrow> u8 list \<Rightarrow> bool" where
  "areas m a b xs ys \<longleftrightarrow> bytes_at m a xs \<and> bytes_at m b ys \<and> length ys = length xs \<and> length xs < 2 ^ 63"

definition agree :: "u8 list \<Rightarrow> u8 list \<Rightarrow> nat \<Rightarrow> bool" where
  "agree xs ys j \<longleftrightarrow> take j xs = take j ys"

definition same :: "u8 list \<Rightarrow> u8 list \<Rightarrow> nat \<Rightarrow> nat \<Rightarrow> bool list" where
  "same xs ys j k = map2 (=) (take k (drop j xs)) (take k (drop j ys))"

lemma bytes_at_slice:
  assumes "bytes_at m a xs" and "j + k \<le> length xs"
  shows "mem_rdn m (a + of_nat j) k = Some (take k (drop j xs))"
proof -
  have "xs = take j xs @ take k (drop j xs) @ drop (j + k) xs"
    by (metis add.commute append_take_drop_id drop_drop)
  then have "bytes_at m a (take j xs @ take k (drop j xs) @ drop (j + k) xs)" using assms(1) by simp
  then have "bytes_at m (a + of_nat j) (take k (drop j xs))"
    using assms(2) unfolding bytes_at_append by (simp add: min_absorb2)
  then show ?thesis using assms(2) by (simp add: mem_rdn_bytes_at)
qed

lemma bytes_at_nth: "bytes_at m a xs \<Longrightarrow> j < length xs \<Longrightarrow> m (a + of_nat j) = Some (xs ! j)"
proof (induction xs arbitrary: a j)
  case (Cons x xs)
  then show ?case using Cons.IH [of "a + 1" "j - 1"] by (cases j) (auto simp: algebra_simps)
qed simp

lemma areas_slice:
  assumes "areas m a b xs ys" and "j + k \<le> length xs"
  shows "mem_rdn m (a + of_nat j) k = Some (take k (drop j xs))"
    and "mem_rdn m (b + of_nat j) k = Some (take k (drop j ys))"
  using assms bytes_at_slice [of m a xs j k] bytes_at_slice [of m b ys j k] by (simp_all add: areas_def)

lemma areas_unaligned:
  "areas m a b xs ys \<Longrightarrow> j + k \<le> length xs \<Longrightarrow> cmp_unaligned m a b (of_nat j) k = Some (same xs ys j k)"
  by (simp add: cmp_unaligned_def areas_slice vpcmpeqb_def same_def)

lemma areas_aligned:
  "areas m a b xs ys \<Longrightarrow> j + 32 \<le> length xs \<Longrightarrow> 32 dvd unat (a + of_nat j) \<Longrightarrow>
   cmp_ymm m a b (of_nat j) = Some (same xs ys j 32)"
  by (simp add: cmp_ymm_def vmovdqa_def areas_slice vpcmpeqb_def same_def del: mem_rdn_numeral)

lemma carry_map2: "length us = length vs \<Longrightarrow> carry (map2 (=) us vs) \<longleftrightarrow> us = vs"
  by (induction us vs rule: list_induct2) (auto simp: carry_def)

lemma carry_same:
  "length ys = length xs \<Longrightarrow> carry (same xs ys j k) \<longleftrightarrow> take k (drop j xs) = take k (drop j ys)"
  by (simp add: same_def carry_map2)

lemma agree_add:
  "length ys = length xs \<Longrightarrow> agree xs ys j \<Longrightarrow> carry (same xs ys j k) \<Longrightarrow> agree xs ys (j + k)"
  by (simp add: agree_def carry_same take_add)

lemma agree_less: "agree xs ys j \<Longrightarrow> i \<le> j \<Longrightarrow> agree xs ys i"
  unfolding agree_def by (metis min.absorb1 take_take)

lemma agree_all:
  assumes "length ys = length xs" and "agree xs ys j" and "length xs \<le> j"
  shows "mem_diff xs ys = 0"
proof -
  have "take j xs = xs" "take j ys = ys" using assms(1,3) by (simp_all only: take_all)
  then have "xs = ys" using assms(2) by (simp only: agree_def)
  then show ?thesis using mem_diff_zero [of xs ys] by simp
qed

lemma first_false:
  "length us = length vs \<Longrightarrow> us \<noteq> vs \<Longrightarrow>
   (let i = length (takeWhile id (map2 (=) us vs)) in i < length us \<and> take i us = take i vs \<and> us ! i \<noteq> vs ! i)"
  by (induction us vs rule: list_induct2) (auto simp: Let_def)

text \<open>The bytes at the first difference of a block that differs.\<close>

lemma byte_diff_block:
  assumes ar: "areas m a b xs ys" and ag: "agree xs ys j" and jk: "j + k \<le> length xs"
    and differ: "\<not> carry (same xs ys j k)"
  shows "byte_diff m a b (of_nat j + first_zero (same xs ys j k)) = Some (mem_diff xs ys)"
proof -
  have len: "length ys = length xs" using ar by (simp add: areas_def)
  then have "length (take k (drop j xs)) = length (take k (drop j ys))" "take k (drop j xs) \<noteq> take k (drop j ys)"
    using differ carry_same [OF len] by simp_all
  note f = first_false [OF this, unfolded Let_def]
  obtain i where e: "i = length (takeWhile id (map2 (=) (take k (drop j xs)) (take k (drop j ys))))" by simp
  have z: "first_zero (same xs ys j k) = of_nat i" by (simp only: first_zero_def same_def e)
  have "i < length (take k (drop j xs))" and
    i: "take i (take k (drop j xs)) = take i (take k (drop j ys))" "take k (drop j xs) ! i \<noteq> take k (drop j ys) ! i"
    using f unfolding e by blast+
  then have ik: "i < k" by simp
  then have "take (j + i) xs = take (j + i) ys" using ag i(1) by (simp add: agree_def take_add min_absorb1)
  moreover have "xs ! (j + i) \<noteq> ys ! (j + i)" using i(2) ik jk len by simp
  moreover have pos: "j + i < length xs" "j + i < length ys" using ik jk len by simp_all
  ultimately have "mem_diff xs ys = uint (xs ! (j + i)) - uint (ys ! (j + i))" by (intro mem_diff_at)
  then show ?thesis
    using ar pos bytes_at_nth [of m a xs "j + i"] bytes_at_nth [of m b ys "j + i"]
    unfolding byte_diff_def areas_def z by simp
qed

section \<open>Blocks in a row\<close>

lemma aligned_add: "32 dvd unat (a :: u64) \<Longrightarrow> 32 dvd unat (a + of_nat (32 * k))"
proof -
  assume a: "32 dvd unat a"
  have "(32 :: nat) dvd 2 ^ 64" by simp
  then have "32 dvd (unat a + 32 * k) mod 2 ^ 64" using a by (metis dvd_add dvd_mod dvd_triv_left)
  moreover have "unat (a + of_nat (32 * k)) = (unat a + 32 * k) mod 2 ^ 64"
    by (simp add: unat_word_ariths unat_of_nat mod_simps)
  ultimately show ?thesis by (simp only:)
qed

lemma aligned_step: "32 dvd unat (a + of_nat j :: u64) \<Longrightarrow> 32 dvd unat (a + of_nat (j + 32 * k))"
  using aligned_add [of "a + of_nat j" k] by (simp add: add.assoc)

lemma cmask_zero: "cmask ys 0 rcx = rcx"
  by (induction ys) (auto simp: Let_def)

lemma cmp_ymms_blocks:
  "areas m a b xs ys \<Longrightarrow> 32 dvd unat (a + of_nat j) \<Longrightarrow> j + 32 * n \<le> length xs \<Longrightarrow>
   cmp_ymms m a b (of_nat j) n = Some (map (\<lambda>i. same xs ys (j + 32 * i) 32) [0..<n])"
proof (induction n arbitrary: j)
  case (Suc n)
  have "of_nat j + 0x20 = (of_nat (j + 32) :: u64)" by simp
  moreover have "32 dvd unat (a + of_nat (j + 32))" using aligned_step [OF Suc.prems(2), of 1] by simp
  ultimately have "cmp_ymms m a b (of_nat j + 0x20) n = Some (map (\<lambda>i. same xs ys (j + 32 + 32 * i) 32) [0..<n])"
    using Suc.IH [OF Suc.prems(1), of "j + 32"] Suc.prems(3) by simp
  moreover have "map (\<lambda>i. same xs ys (j + 32 * i) 32) [0..<Suc n] =
      same xs ys j 32 # map (\<lambda>i. same xs ys (j + 32 + 32 * i) 32) [0..<n]"
    unfolding upt_conv_Cons [OF zero_less_Suc] by (simp add: map_Suc_upt [symmetric] add.assoc del: upt_Suc)
  ultimately show ?case using areas_aligned [OF Suc.prems(1) _ Suc.prems(2)] Suc.prems(3) by simp
qed simp

lemma rvcomp_block:
  assumes "areas m a b xs ys" and "32 dvd unat (a + of_nat j)" and "agree xs ys j" and "j + 32 \<le> length xs"
    and "\<not> carry (same xs ys j 32)"
  shows "rvcomp m a b (of_nat j) = Some (mem_diff xs ys)"
  using areas_aligned [OF assms(1,4,2)] byte_diff_block [OF assms(1,3,4,5)] by (simp add: rvcomp_def)

lemma cmask_blocks:
  "areas m a b xs ys \<Longrightarrow> 32 dvd unat (a + of_nat j) \<Longrightarrow> agree xs ys j \<Longrightarrow> j + 32 * Suc n \<le> length xs \<Longrightarrow>
   \<not> list_all carry (map (\<lambda>i. same xs ys (j + 32 * i) 32) [0..<Suc n]) \<Longrightarrow>
   rvcomp m a b (cmask (map (\<lambda>i. same xs ys (j + 32 * i) 32) [0..<n]) 0x20 (of_nat j)) = Some (mem_diff xs ys)"
proof (induction n arbitrary: j)
  case 0
  then show ?case using rvcomp_block [of m a b xs ys j] by simp
next
  case (Suc n)
  have split: "map (\<lambda>i. same xs ys (j + 32 * i) 32) [0..<Suc k] =
      same xs ys j 32 # map (\<lambda>i. same xs ys (j + 32 + 32 * i) 32) [0..<k]" for k
    unfolding upt_conv_Cons [OF zero_less_Suc] by (simp add: map_Suc_upt [symmetric] add.assoc del: upt_Suc)
  show ?case
  proof (cases "carry (same xs ys j 32)")
    case False
    then show ?thesis
      using rvcomp_block [OF Suc.prems(1-3) _ False] Suc.prems(4) unfolding split by (simp add: Let_def cmask_zero)
  next
    case True
    have len: "length ys = length xs" using Suc.prems(1) by (simp add: areas_def)
    have "of_nat j + 0x20 = (of_nat (j + 32) :: u64)" by simp
    moreover have "32 dvd unat (a + of_nat (j + 32))" using aligned_step [OF Suc.prems(2), of 1] by simp
    moreover have "agree xs ys (j + 32)" by (rule agree_add [OF len Suc.prems(3) True])
    moreover have "\<not> list_all carry (map (\<lambda>i. same xs ys (j + 32 + 32 * i) 32) [0..<Suc n])"
      using Suc.prems(5) True unfolding split [of "Suc n"] by simp
    ultimately show ?thesis using Suc.IH [OF Suc.prems(1), of "j + 32"] Suc.prems(4) True
      unfolding split [of n] by (simp add: Let_def del: upt_Suc)
  qed
qed

lemma agree_blocks:
  "length ys = length xs \<Longrightarrow> agree xs ys j \<Longrightarrow> list_all carry (map (\<lambda>i. same xs ys (j + 32 * i) 32) [0..<n]) \<Longrightarrow>
   agree xs ys (j + 32 * n)"
proof (induction n)
  case (Suc n)
  then show ?case using agree_add [of ys xs "j + 32 * n" 32] by (simp add: add.assoc add.commute [of 32])
qed simp

text \<open>One comparison of \<open>n\<close> blocks: either all agree, or the end finds the difference.\<close>

lemma blocks:
  assumes "areas m a b xs ys" and "32 dvd unat (a + of_nat j)" and "agree xs ys j" and "j + 32 * n \<le> length xs" and "0 < n"
  obtains yys where "cmp_ymms m a b (of_nat j) n = Some yys"
    and "list_all carry yys \<Longrightarrow> agree xs ys (j + 32 * n)"
    and "\<not> list_all carry yys \<Longrightarrow> block_diff m a b (of_nat (j + 32 * n)) (of_nat (32 * n)) yys = Some (mem_diff xs ys)"
proof -
  let ?yys = "map (\<lambda>i. same xs ys (j + 32 * i) 32) [0..<n]"
  obtain k where k: "n = Suc k" using assms(5) by (cases n) auto
  have bl: "butlast ?yys = map (\<lambda>i. same xs ys (j + 32 * i) 32) [0..<k]" by (simp add: k)
  have "length ys = length xs" using assms(1) by (simp add: areas_def)
  from agree_blocks [OF this assms(3)] have "list_all carry ?yys \<Longrightarrow> agree xs ys (j + 32 * n)" .
  moreover have "block_diff m a b (of_nat (j + 32 * n)) (of_nat (32 * n)) ?yys = Some (mem_diff xs ys)"
    if "\<not> list_all carry ?yys"
    using cmask_blocks [OF assms(1-3), of k] assms(4) that unfolding block_diff_def bl by (simp add: k del: upt_Suc)
  ultimately show thesis using that cmp_ymms_blocks [OF assms(1,2,4)] by blast
qed

section \<open>The whole routine\<close>

text \<open>The unaligned comparison of the last 32 bytes, when everything before some point in them agrees.\<close>

lemma unaligned_block:
  assumes "areas m a b xs ys" and "agree xs ys j" and "j + k \<le> length xs" and "length xs \<le> j + k"
  shows "do { y \<leftarrow> cmp_unaligned m a b (of_nat j) k; if carry y then Some 0 else byte_diff m a b (of_nat j + first_zero y) } =
    Some (mem_diff xs ys)"
proof -
  have len: "length ys = length xs" using assms(1) by (simp add: areas_def)
  show ?thesis
    using areas_unaligned [OF assms(1,3)] byte_diff_block [OF assms(1-3)]
      agree_all [OF len agree_add [OF len assms(2), of k] assms(4)] by simp
qed

lemma Lclast32b_diff:
  assumes "areas m a b xs ys" and "agree xs ys j" and "length xs \<le> j + 32" and "32 \<le> length xs" and "length xs = unat n"
  shows "Lclast32b m a b n = Some (mem_diff xs ys)"
proof -
  have e: "n - 0x20 = of_nat (length xs - 32)" using assms(4,5) by (simp add: of_nat_diff)
  have "agree xs ys (length xs - 32)" using assms(3) by (intro agree_less [OF assms(2)]) simp
  then show ?thesis
    using unaligned_block [OF assms(1), of "length xs - 32" 32] assms(4) unfolding Lclast32b_def e by simp
qed

text \<open>The end of the block that a word stands for, and how it compares with the size.\<close>

lemma offset_less: "j < 2 ^ 64 \<Longrightarrow> (n :: u64) < of_nat j \<longleftrightarrow> unat n < j"
  by (simp add: word_less_nat_alt unat_of_nat)

lemma offset_le: "j < 2 ^ 64 \<Longrightarrow> (n :: u64) \<le> of_nat j \<longleftrightarrow> unat n \<le> j"
  by (simp add: word_le_nat_alt unat_of_nat)

lemma offset_greater: "j < 2 ^ 64 \<Longrightarrow> of_nat j < (n :: u64) \<longleftrightarrow> j < unat n"
  by (simp add: word_less_nat_alt unat_of_nat)

lemma Lc32b_diff:
  assumes ar: "areas m a b xs ys" and al: "32 dvd unat (a + of_nat j)" and ag: "agree xs ys j" and j: "j \<le> length xs"
    and "length xs \<le> j + 64" and "32 \<le> length xs" and n: "length xs = unat n"
  shows "Lc32b m a b n (of_nat (j + 64)) = Some (mem_diff xs ys)"
proof -
  have len: "length ys = length xs" "length xs < 2 ^ 63" using ar by (simp_all add: areas_def)
  have rcx: "of_nat (j + 64) - 0x20 = (of_nat (j + 32) :: u64)" "of_nat (j + 32) - 0x20 = (of_nat j :: u64)" by simp_all
  have small: "j + 32 < 2 ^ 64" using j len(2) by simp
  show ?thesis
  proof (cases "length xs < j + 32")
    case True
    then show ?thesis using Lclast32b_diff [OF ar ag _ assms(6) n] n small
      unfolding Lc32b_def Let_def rcx offset_less [OF small] by simp
  next
    case False
    then have jk: "j + 32 \<le> length xs" by simp
    note add = agree_add [OF len(1) ag, of 32]
    have "Lclast32b m a b n = Some (mem_diff xs ys)" if "carry (same xs ys j 32)"
      using Lclast32b_diff [OF ar add [OF that] _ assms(6) n] assms(5) by simp
    then show ?thesis
      using False n areas_aligned [OF ar jk al] byte_diff_block [OF ar ag jk] agree_all [OF len(1) add]
      unfolding Lc32b_def Let_def rcx offset_less [OF small] offset_le [OF small] by auto
  qed
qed

text \<open>
  The steps for two and for four blocks: the tentative end is \<open>k\<close> bytes behind \<open>j\<close>; when the size does not reach it,
  the smaller step goes on, otherwise the blocks are compared.
\<close>

lemma step_diff:
  fixes n :: u64 and go :: "u64 \<Rightarrow> int option"
  assumes ar: "areas m a b xs ys" and al: "32 dvd unat (a + of_nat j)" and ag: "agree xs ys j" and j: "j \<le> length xs"
    and n: "length xs = unat n" and k: "0 < k" "k \<le> 8"
    and smaller: "\<And>i. 32 dvd unat (a + of_nat i) \<Longrightarrow> agree xs ys i \<Longrightarrow> i \<le> length xs \<Longrightarrow>
      (length xs < j + 32 * k \<and> i = j) \<or> (i = j + 32 * k) \<Longrightarrow>
      go (of_nat (i + 32 * k)) = Some (mem_diff xs ys)"
  shows "(if n < of_nat (j + 32 * k) then go (of_nat (j + 32 * k))
     else do {
       yys \<leftarrow> cmp_ymms m a b (of_nat j) k;
       if \<not> list_all carry yys then block_diff m a b (of_nat (j + 32 * k)) (of_nat (32 * k)) yys
       else if n \<le> of_nat (j + 32 * k) then Some 0
       else go (of_nat (j + 32 * k + 32 * k)) }) = Some (mem_diff xs ys)"
proof -
  have len: "length ys = length xs" "length xs < 2 ^ 63" using ar by (simp_all add: areas_def)
  have small: "j + 32 * k < 2 ^ 64" using j len(2) k(2) by simp
  show ?thesis
  proof (cases "length xs < j + 32 * k")
    case True
    then show ?thesis using smaller [OF al ag j] n unfolding offset_less [OF small] by (simp del: of_nat_add of_nat_mult)
  next
    case False
    then have jk: "j + 32 * k \<le> length xs" by simp
    from blocks [OF ar al ag jk k(1)] obtain yys where
      y: "cmp_ymms m a b (of_nat j) k = Some yys" "list_all carry yys \<Longrightarrow> agree xs ys (j + 32 * k)"
        "\<not> list_all carry yys \<Longrightarrow> block_diff m a b (of_nat (j + 32 * k)) (of_nat (32 * k)) yys = Some (mem_diff xs ys)"
      by blast
    show ?thesis
    proof (cases "list_all carry yys")
      case True
      show ?thesis
        using False True n y(1) agree_all [OF len(1) y(2) [OF True]] smaller [OF aligned_step [OF al] y(2) [OF True] jk]
        unfolding offset_less [OF small] offset_le [OF small] by (simp del: of_nat_add of_nat_mult)
    next
      case differ: False
      then show ?thesis using False n y(1,3) unfolding offset_less [OF small] by (simp del: of_nat_add of_nat_mult)
    qed
  qed
qed

lemma Lc64b_diff:
  assumes "areas m a b xs ys" and "32 dvd unat (a + of_nat j)" and "agree xs ys j" and "j \<le> length xs"
    and "length xs \<le> j + 128" and "32 \<le> length xs" and "length xs = unat n"
  shows "Lc64b m a b n (of_nat (j + 128)) = Some (mem_diff xs ys)"
proof -
  have rcx: "of_nat (j + 128) - 0x40 = (of_nat (j + 32 * 2) :: u64)" "of_nat (j + 32 * 2) - 0x40 = (of_nat j :: u64)"
    "of_nat (j + 32 * 2) + 0x40 = (of_nat (j + 32 * 2 + 32 * 2) :: u64)"
    and sz: "of_nat (32 * 2) = (0x40 :: u64)" by simp_all
  have smaller: "Lc32b m a b n (of_nat (i + 32 * 2)) = Some (mem_diff xs ys)"
    if "32 dvd unat (a + of_nat i)" "agree xs ys i" "i \<le> length xs"
      "(length xs < j + 32 * 2 \<and> i = j) \<or> i = j + 32 * 2" for i
    using Lc32b_diff [OF assms(1) that(1-3) _ assms(6,7)] that(4) assms(5) by auto
  show ?thesis
    unfolding Lc64b_def Let_def rcx
    by (rule step_diff [OF assms(1-4,7), of 2, unfolded sz]) (use smaller in auto)
qed

lemma Lc128b_diff:
  assumes "areas m a b xs ys" and "32 dvd unat (a + of_nat j)" and "agree xs ys j" and "j \<le> length xs"
    and "length xs \<le> j + 256" and "32 \<le> length xs" and "length xs = unat n"
  shows "Lc128b m a b n (of_nat (j + 256)) = Some (mem_diff xs ys)"
proof -
  have rcx: "of_nat (j + 256) - 0x80 = (of_nat (j + 32 * 4) :: u64)" "of_nat (j + 32 * 4) - 0x80 = (of_nat j :: u64)"
    "of_nat (j + 32 * 4) + 0x80 = (of_nat (j + 32 * 4 + 32 * 4) :: u64)"
    and sz: "of_nat (32 * 4) = (0x80 :: u64)" by simp_all
  have smaller: "Lc64b m a b n (of_nat (i + 32 * 4)) = Some (mem_diff xs ys)"
    if "32 dvd unat (a + of_nat i)" "agree xs ys i" "i \<le> length xs"
      "(length xs < j + 32 * 4 \<and> i = j) \<or> i = j + 32 * 4" for i
    using Lc64b_diff [OF assms(1) that(1-3) _ assms(6,7)] that(4) assms(5) by auto
  show ?thesis
    unfolding Lc128b_def Let_def rcx
    by (rule step_diff [OF assms(1-4,7), of 4, unfolded sz]) (use smaller in auto)
qed

lemma Lc256b_diff:
  assumes ar: "areas m a b xs ys" and "32 \<le> length xs" and n: "length xs = unat n"
  shows "32 dvd unat (a + of_nat j) \<Longrightarrow> agree xs ys j \<Longrightarrow> j \<le> length xs \<Longrightarrow>
    Lc256b m a b n (of_nat (j + 256)) = Some (mem_diff xs ys)"
proof (induction "length xs - j" arbitrary: j rule: less_induct)
  case less
  have len: "length ys = length xs" "length xs < 2 ^ 63" using ar by (simp_all add: areas_def)
  have small: "j + 256 < 2 ^ 64" using less.prems(3) len(2) by simp
  have rcx: "of_nat (j + 256) - 0x100 = (of_nat j :: u64)" "of_nat (j + 256) + 0x100 = (of_nat (j + 256 + 256) :: u64)"
    by simp_all
  show ?case
  proof (cases "length xs < j + 256")
    case True
    then show ?thesis
      using Lc128b_diff [OF ar less.prems _ assms(2) n] n by (simp add: Lc256b.simps offset_less [OF small] del: of_nat_add)
  next
    case False
    then have jk: "j + 32 * 8 \<le> length xs" by simp
    from blocks [OF ar less.prems(1,2) jk] obtain yys where
      y: "cmp_ymms m a b (of_nat j) 8 = Some yys" "list_all carry yys \<Longrightarrow> agree xs ys (j + 256)"
        "\<not> list_all carry yys \<Longrightarrow> block_diff m a b (of_nat (j + 256)) (of_nat 256) yys = Some (mem_diff xs ys)"
      by auto
    have go_on: "Lc256b m a b n (of_nat (j + 256 + 256)) = Some (mem_diff xs ys)" if "list_all carry yys"
      using less.hyps [of "j + 256"] aligned_step [OF less.prems(1), of 8] y(2) [OF that] jk by simp
    show ?thesis
      using False n y(1,3) go_on agree_all [OF len(1) y(2)]
      by (subst Lc256b.simps, unfold rcx(1,2) offset_less [OF small] offset_greater [OF small]) auto
  qed
qed

lemma Lc1b_diff:
  assumes ar: "areas m a b xs ys" and n: "length xs = unat n"
  shows "agree xs ys j \<Longrightarrow> j < length xs \<Longrightarrow> Lc1b m (a + n) (b + n) (of_nat j - n) = Some (mem_diff xs ys)"
proof (induction "length xs - j" arbitrary: j rule: less_induct)
  case less
  have len: "length ys = length xs" using ar by (simp add: areas_def)
  have d: "byte_diff m (a + n) (b + n) (of_nat j - n) = Some (uint (xs ! j) - uint (ys ! j))"
    using ar less.prems(2) bytes_at_nth [of m a xs j] bytes_at_nth [of m b ys j]
    by (simp add: byte_diff_def areas_def algebra_simps)
  show ?case
  proof (cases "xs ! j = ys ! j")
    case False
    then have "mem_diff xs ys = uint (xs ! j) - uint (ys ! j)"
      using mem_diff_at [of j xs ys] less.prems len by (simp add: agree_def)
    then show ?thesis using d False by (subst Lc1b.simps) (simp add: Let_def word_uint_eq_iff)
  next
    case True
    then have ag: "agree xs ys (Suc j)" using less.prems len by (simp add: agree_def take_Suc_conv_app_nth)
    have step: "of_nat j - n + 1 = of_nat (Suc j) - n" by simp
    have "unat (of_nat (Suc j) :: u64) = Suc j"
      using less.prems(2) n unat_lt2p [of n] by (intro unat_of_nat_small) simp
    then have "of_nat (Suc j) - n = 0 \<longleftrightarrow> Suc j = length xs"
      unfolding right_minus_eq [of "of_nat (Suc j)" n] unfolding word_unat_eq_iff n by simp
    moreover have "Lc1b m (a + n) (b + n) (of_nat j - n) =
        (if of_nat (Suc j) - n \<noteq> 0 then Lc1b m (a + n) (b + n) (of_nat (Suc j) - n) else Some 0)"
      by (subst Lc1b.simps) (simp only: d True bind.bind_lunit Let_def diff_self simp_thms if_False step)
    moreover have "mem_diff xs ys = 0" if "Suc j = length xs" using agree_all [OF len ag] that by simp
    moreover have "Lc1b m (a + n) (b + n) (of_nat (Suc j) - n) = Some (mem_diff xs ys)" if "Suc j \<noteq> length xs"
      using less.hyps [of "Suc j"] ag less.prems(2) that by simp
    ultimately show ?thesis by simp
  qed
qed

lemma agree_0: "agree xs ys 0"
  by (simp add: agree_def)

lemma Lc8b_diff:
  assumes "areas m a b xs ys" and n: "length xs = unat n" and "unat k \<le> length xs" and "agree xs ys (unat k)"
  shows "Lc8b m a b n k = Some (mem_diff xs ys)"
proof (cases "n = k")
  case True
  have "length ys = length xs" using assms(1) by (simp add: areas_def)
  then have "mem_diff xs ys = 0" using agree_all [OF _ assms(4)] n True by simp
  then show ?thesis using True by (simp add: Lc8b_def)
next
  case False
  then have "0 < length xs" using n assms(3) by (metis le_zero_eq not_gr_zero word_unat_eq_iff)
  then show ?thesis using False Lc1b_diff [OF assms(1) n agree_0] by (simp add: Lc8b_def)
qed

lemma Lc16b_diff:
  assumes ar: "areas m a b xs ys" and n: "length xs = unat n"
  shows "Lc16b m a b n = Some (mem_diff xs ys)"
proof (cases "n < 0x10")
  case True
  then show ?thesis using Lc8b_diff [OF ar n, of 0] agree_0 by (simp add: Lc16b_def)
next
  case False
  have len: "length ys = length xs" using ar by (simp add: areas_def)
  have k: "0 + 16 \<le> length xs" using False n by (simp add: word_less_nat_alt)
  have "Lc8b m a b n 0x10 = Some (mem_diff xs ys)" if "carry (same xs ys 0 16)"
    using Lc8b_diff [OF ar n, of "0x10"] agree_add [OF len agree_0 that] k by simp
  then show ?thesis
    using False areas_unaligned [OF ar k] byte_diff_block [OF ar agree_0 k] by (simp add: Lc16b_def)
qed

lemma and_not_31: "(x :: u64) AND - 0x20 = x - take_bit 5 x"
proof -
  have "- 0x20 = (NOT (mask 5) :: u64)" by (simp add: mask_eq_exp_minus_1 not_eq_complement)
  moreover have "x = (x AND mask 5) + (x AND NOT (mask 5))"
    by (subst disjunctive_add) (auto simp: bit_simps bit_eq_iff)
  ultimately show ?thesis by (simp add: take_bit_eq_mask algebra_simps)
qed

lemma low_bits: "take_bit 5 (x :: u64) = of_nat (unat x mod 32)"
proof -
  have "unat (x mod 32) = unat x mod 32" by (simp add: unat_mod)
  then have "x mod 32 = of_nat (unat x mod 32)" by (metis of_nat_unat ucast_id)
  then show ?thesis by (simp add: take_bit_eq_mod)
qed

text \<open>The end of the first block after an unaligned start.\<close>

lemma align_up:
  assumes "r = unat (a :: u64) mod 32"
  shows "(a + 0x20 + 0x20 AND - 0x20) - a + 0xe0 = of_nat (32 - r + 256)" and "32 dvd unat (a + of_nat (32 - r))"
proof -
  have r: "r < 32" using assms by simp
  have "unat (a + 0x20 + 0x20) mod 32 = r"
    unfolding assms using mod_mult_self1 [of "unat a" 2 32]
    by (simp add: unat_word_ariths mod_mod_cancel add.commute [of 64])
  then have "(a + 0x20 + 0x20 AND - 0x20) = a + 0x20 + 0x20 - of_nat r" by (simp only: and_not_31 low_bits)
  moreover have "(of_nat (32 - r + 256) :: u64) = 0x20 + 0x20 + 0xe0 - of_nat r" using r by (simp add: of_nat_diff)
  ultimately show "(a + 0x20 + 0x20 AND - 0x20) - a + 0xe0 = of_nat (32 - r + 256)" by simp
  have "unat (a + of_nat (32 - r)) mod 32 = (unat a + (32 - r)) mod 32"
    using r by (simp add: unat_word_ariths unat_of_nat mod_mod_cancel mod_simps del: of_nat_diff)
  also have "\<dots> = (unat a mod 32 + (32 - r)) mod 32" by (simp only: mod_add_left_eq)
  finally show "32 dvd unat (a + of_nat (32 - r))" using r assms [symmetric] by (simp only: dvd_eq_mod_eq_0) simp
qed

text \<open>The routine compares the areas, whatever their size and alignment.\<close>

lemma cldm_avx2_memcmp_diff:
  assumes ar: "areas m a b xs ys" and n: "length xs = unat n"
  shows "cldm_avx2_memcmp m a b n = Some (mem_diff xs ys)"
proof -
  have len: "length ys = length xs" using ar by (simp add: areas_def)
  consider (small) "n < 0x20" | (block) "n = 0x20" | (large) "\<not> n < 0x20" "n \<noteq> 0x20" "32 < length xs"
    using n by (force simp: word_less_nat_alt word_unat_eq_iff)
  then show ?thesis
  proof cases
    case small
    then show ?thesis using Lc16b_diff [OF ar n] by (simp add: cldm_avx2_memcmp_def)
  next
    case block
    then show ?thesis
      using unaligned_block [OF ar agree_0, of 32] n
      by (simp add: cldm_avx2_memcmp_def Lc32b_unaligned_def cong: if_cong)
  next
    case large
    show ?thesis
    proof (cases "32 dvd unat a")
      case True
      then show ?thesis
        using Lc256b_diff [OF ar _ n, of 0] agree_0 large by (simp add: cldm_avx2_memcmp_def Let_def)
    next
      case False
      obtain r where r: "r = unat a mod 32" by simp
      have k: "0 + 32 \<le> length xs" using large by simp
      have "Lc256b m a b n (of_nat (32 - r + 256)) = Some (mem_diff xs ys)" if "carry (same xs ys 0 32)"
        using agree_add [OF len agree_0 that] align_up(2) [OF r] large
        by (intro Lc256b_diff [OF ar _ n]) (auto intro: agree_less)
      then show ?thesis
        using False large areas_unaligned [OF ar k] byte_diff_block [OF ar agree_0 k] align_up(1) [OF r]
        by (simp add: cldm_avx2_memcmp_def Let_def add.commute [of "0x100"])
    qed
  qed
qed

section \<open>The comparison of either build\<close>

lemma cldm_avx2_memcmp_compares: "mem_compare cldm_avx2_memcmp {xs. length xs < 2 ^ 63}"
proof
  fix m a b xs ys and n :: u64
  assume "bytes_at m a xs" "bytes_at m b ys" "length xs = unat n" "length ys = unat n"
    and "xs \<in> {xs. length xs < 2 ^ 63}"
  then show "\<exists>r. cldm_avx2_memcmp m a b n = Some r \<and> (r = 0 \<longleftrightarrow> xs = ys)"
    using cldm_avx2_memcmp_diff [of m a b xs ys n] mem_diff_zero [of xs ys] by (simp add: areas_def)
qed

interpretation avx2: mem_compare cldm_avx2_memcmp "{xs. length xs < 2 ^ 63}"
  by (rule cldm_avx2_memcmp_compares)

text \<open>
  \<open>cldm_memcmp\<close> is the assembly routine in a build with AVX2 and the portable one in a build without; the
  latter compares only keys that their first bytes tell apart.
\<close>

definition build_memcmp :: "(mem \<Rightarrow> u64 \<Rightarrow> u64 \<Rightarrow> u64 \<Rightarrow> int option) \<Rightarrow> u8 list set \<Rightarrow> bool" where
  "build_memcmp cmp K \<longleftrightarrow>
     (cmp = cldm_avx2_memcmp \<and> (\<forall>xs\<in>K. length xs < 2 ^ 63)) \<or> (cmp = cldm_memcmp \<and> told_apart K)"

lemma mem_compare_subset: "mem_compare cmp K \<Longrightarrow> K' \<subseteq> K \<Longrightarrow> mem_compare cmp K'"
  unfolding mem_compare_def by blast

lemma build_memcmp_compares: "build_memcmp cmp K \<Longrightarrow> mem_compare cmp K"
  unfolding build_memcmp_def
  using cldm_memcmp_told_apart mem_compare_subset [OF cldm_avx2_memcmp_compares, of K] by blast

lemma build_memcmp_avx2: "(\<And>xs. xs \<in> K \<Longrightarrow> length xs < 2 ^ 63) \<Longrightarrow> build_memcmp cldm_avx2_memcmp K"
  by (simp add: build_memcmp_def)

lemma build_memcmp_portable: "told_apart K \<Longrightarrow> build_memcmp cldm_memcmp K"
  by (simp add: build_memcmp_def)

end
