(* ===== verification/Jmpstack.thy ===== *)
theory Jmpstack
  imports Prelude
begin

text \<open>
  \<^verbatim>\<open>cldm/cldm_jmpstack.c\<close>, \<^verbatim>\<open>cldm/cldm_jmpstack.h\<close>: the stack of jump buffers that mocked
  functions that never return jump back through. The first 32 entries are inside the struct, more
  of them in a heap block that doubles.
\<close>

section \<open>State and operations\<close>

text \<open>
  The union of the inline array and the pointer to the heap block is a datatype: what it holds. A
  slot that was never written is \<open>None\<close>. \<open>Freed\<close> is a pointer to a block that is freed already.
\<close>

datatype 'a jmpstore = Stat "'a option list" | Dyn "'a option list" | Freed

record 'a jmpstack =
  s_un :: "'a jmpstore"
  size :: u64
  capacity :: u64

definition jmpstack_static_size :: nat where
  "jmpstack_static_size = 32"

definition cldm_jmpstack_init :: "'a jmpstack" where
  "cldm_jmpstack_init =
     \<lparr>s_un = Stat (replicate jmpstack_static_size None), size = 0,
      capacity = of_nat jmpstack_static_size\<rparr>"

text \<open>\<open>cldm_jmpstack_storage\<close>, read as an array; a member that is not the one stored has no contents.\<close>

definition cldm_jmpstack_storage :: "'a jmpstack \<Rightarrow> 'a option list option" where
  "cldm_jmpstack_storage stack =
     (if jmpstack_static_size < unat (capacity stack)
      then (case s_un stack of Dyn xs \<Rightarrow> Some xs | _ \<Rightarrow> None)
      else (case s_un stack of Stat xs \<Rightarrow> Some xs | _ \<Rightarrow> None))"

definition set_storage :: "'a jmpstack \<Rightarrow> 'a option list \<Rightarrow> 'a jmpstack" where
  "set_storage stack xs =
     stack\<lparr>s_un := (case s_un stack of Stat _ \<Rightarrow> Stat xs | _ \<Rightarrow> Dyn xs)\<rparr>"

text \<open>
  The growth of \<open>cldm_jmpstack_push\<close>: \<open>Inl\<close> is the return of \<open>false\<close>, with the state it leaves
  behind; \<open>realloc\<close> failing frees the old block there. With the inline array in use the pointer
  member overlays slot 0, which only the null pointer of a zeroed stack makes a valid argument.
\<close>

definition jmpstack_grow ::
  "(nat \<Rightarrow> bool) \<Rightarrow> 'a jmpstack \<Rightarrow> ('a jmpstack + 'a jmpstack) option" where
  "jmpstack_grow alloc stack =
     (let newcap = push_bit 1 (capacity stack);
          ok = c_alloc alloc (unat (newcap * 8))
      in if capacity stack = of_nat jmpstack_static_size
         then (case s_un stack of
             Stat xs \<Rightarrow>
               if ok
               then Some (Inr (stack\<lparr>s_un := Dyn (xs @ replicate (unat newcap - length xs) None),
                                     capacity := newcap\<rparr>))
               else Some (Inl stack)
           | _ \<Rightarrow> None)
         else (case s_un stack of
             Dyn xs \<Rightarrow>
               if ok
               then Some (Inr (stack\<lparr>s_un := Dyn (take (unat newcap) xs @
                                                  replicate (unat newcap - length xs) None),
                                     capacity := newcap\<rparr>))
               else Some (Inl (stack\<lparr>s_un := Freed\<rparr>))
           | Stat xs \<Rightarrow>
               if xs ! 0 \<noteq> None then None
               else if ok then Some (Inr (stack\<lparr>capacity := newcap\<rparr>))
               else Some (Inl stack)
           | Freed \<Rightarrow> None))"

definition cldm_jmpstack_push ::
  "(nat \<Rightarrow> bool) \<Rightarrow> 'a jmpstack \<Rightarrow> 'a \<Rightarrow> (bool \<times> 'a jmpstack) option" where
  "cldm_jmpstack_push alloc stack jmpbuf =
     do { grown \<leftarrow> (if size stack = capacity stack then jmpstack_grow alloc stack
                    else Some (Inr stack));
          case grown of
            Inl stack \<Rightarrow> Some (False, stack)
          | Inr stack \<Rightarrow>
              do { xs \<leftarrow> cldm_jmpstack_storage stack;
                   if unat (size stack) < length xs
                   then Some (True, (set_storage stack (xs[unat (size stack) := Some jmpbuf]))
                                      \<lparr>size := size stack + 1\<rparr>)
                   else None } }"

definition cldm_jmpstack_top :: "'a jmpstack \<Rightarrow> 'a option" where
  "cldm_jmpstack_top stack =
     do { xs \<leftarrow> cldm_jmpstack_storage stack;
          let i = unat (size stack - 1)
          in if i < length xs then xs ! i else None }"

definition cldm_jmpstack_pop :: "'a jmpstack \<Rightarrow> 'a jmpstack" where
  "cldm_jmpstack_pop stack = stack\<lparr>size := size stack - 1\<rparr>"

definition cldm_jmpstack_size :: "'a jmpstack \<Rightarrow> u64" where
  "cldm_jmpstack_size stack = size stack"

definition cldm_jmpstack_capacity :: "'a jmpstack \<Rightarrow> u64" where
  "cldm_jmpstack_capacity stack = capacity stack"

text \<open>\<open>cldm_jmpstack_free\<close> tests \<open>size\<close>, not \<open>capacity\<close>; the result is the state after it.\<close>

definition cldm_jmpstack_free :: "'a jmpstack \<Rightarrow> 'a jmpstack option" where
  "cldm_jmpstack_free stack =
     (if jmpstack_static_size < unat (size stack)
      then (case s_un stack of Dyn _ \<Rightarrow> Some (stack\<lparr>s_un := Freed\<rparr>) | _ \<Rightarrow> None)
      else Some stack)"

section \<open>The contract of a stack\<close>

text \<open>
  What a caller of the jump stack relies on: the buffers pushed and not popped yet, in order.
\<close>

fun push_all :: "('s \<Rightarrow> 'a \<Rightarrow> (bool \<times> 's) option) \<Rightarrow> 's \<Rightarrow> 'a list \<Rightarrow> 's option" where
  "push_all push s [] = Some s"
| "push_all push s (x # xs) =
     (case push s x of Some (True, s') \<Rightarrow> push_all push s' xs | _ \<Rightarrow> None)"

locale lifo =
  fixes init :: 's
    and push :: "'s \<Rightarrow> 'a \<Rightarrow> (bool \<times> 's) option"
    and top :: "'s \<Rightarrow> 'a option"
    and pop :: "'s \<Rightarrow> 's"
    and elems :: "'s \<Rightarrow> 'a list"
    and inv :: "'s \<Rightarrow> bool"
  assumes inv_init: "inv init"
    and elems_init: "elems init = []"
    and push_ok: "inv s \<Longrightarrow> push s x = Some (True, s') \<Longrightarrow> inv s' \<and> elems s' = elems s @ [x]"
    and push_returns: "inv s \<Longrightarrow> \<exists>r. push s x = Some r"
    and top_last: "inv s \<Longrightarrow> elems s \<noteq> [] \<Longrightarrow> top s = Some (last (elems s))"
    and pop_butlast: "inv s \<Longrightarrow> elems s \<noteq> [] \<Longrightarrow> inv (pop s) \<and> elems (pop s) = butlast (elems s)"
begin

lemma push_top: "inv s \<Longrightarrow> push s x = Some (True, s') \<Longrightarrow> top s' = Some x"
  using push_ok [of s x s'] top_last [of s'] by auto

lemma push_pop:
  "inv s \<Longrightarrow> push s x = Some (True, s') \<Longrightarrow> inv (pop s') \<and> elems (pop s') = elems s"
  using push_ok [of s x s'] pop_butlast [of s'] by auto

lemma push_all_elems: "inv s \<Longrightarrow> push_all push s xs = Some s' \<Longrightarrow> inv s' \<and> elems s' = elems s @ xs"
  by (induction xs arbitrary: s) (auto split: option.splits prod.splits bool.splits dest: push_ok)

text \<open>Some pops in a row.\<close>

lemma pops: "inv s \<Longrightarrow> k \<le> length (elems s) \<Longrightarrow>
  inv ((pop ^^ k) s) \<and> elems ((pop ^^ k) s) = take (length (elems s) - k) (elems s)"
proof (induction k)
  case (Suc k)
  then have k: "inv ((pop ^^ k) s)" "elems ((pop ^^ k) s) = take (length (elems s) - k) (elems s)" by simp_all
  then have "elems ((pop ^^ k) s) \<noteq> []" using Suc.prems(2) by auto
  from pop_butlast [OF k(1) this] show ?case using Suc.prems(2) by (simp add: k(2) butlast_take)
qed simp

lemma pops_top:
  assumes "inv s" and "k < length (elems s)"
  shows "top ((pop ^^ k) s) = Some (elems s ! (length (elems s) - 1 - k))"
proof -
  have k: "inv ((pop ^^ k) s)" "elems ((pop ^^ k) s) = take (length (elems s) - k) (elems s)"
    using pops [OF assms(1), of k] assms(2) by simp_all
  then have ne: "elems ((pop ^^ k) s) \<noteq> []" using assms(2) by auto
  have "last (elems ((pop ^^ k) s)) = elems s ! (length (elems s) - 1 - k)"
    using assms(2) unfolding last_conv_nth [OF ne] unfolding k(2) by simp
  with top_last [OF k(1) ne] show ?thesis by simp
qed

end

section \<open>The stack keeps the contract\<close>

definition jmpstack_wf :: "'a jmpstack \<Rightarrow> bool" where
  "jmpstack_wf s \<longleftrightarrow>
     32 \<le> unat (capacity s) \<and> unat (capacity s) * 8 < 2 ^ 63 \<and> size s \<le> capacity s \<and>
     (case s_un s of
        Stat xs \<Rightarrow> unat (capacity s) = 32 \<and> length xs = 32 \<and> None \<notin> set (take (unat (size s)) xs)
      | Dyn xs \<Rightarrow> 32 < unat (capacity s) \<and> length xs = unat (capacity s) \<and>
                  None \<notin> set (take (unat (size s)) xs)
      | Freed \<Rightarrow> False)"

definition jmpstack_elems :: "'a jmpstack \<Rightarrow> 'a list" where
  "jmpstack_elems s =
     (case cldm_jmpstack_storage s of
        None \<Rightarrow> []
      | Some xs \<Rightarrow> map the (take (unat (size s)) xs))"

lemma jmpstack_wf_storage:
  assumes "jmpstack_wf s"
  obtains xs where "cldm_jmpstack_storage s = Some xs" and "length xs = unat (capacity s)"
    and "None \<notin> set (take (unat (size s)) xs)"
  using assms
  by (cases "s_un s") (auto simp: jmpstack_wf_def cldm_jmpstack_storage_def jmpstack_static_size_def)

lemma storage_set_storage:
  "cldm_jmpstack_storage s = Some xs \<Longrightarrow> cldm_jmpstack_storage (set_storage s ys) = Some ys"
  by (auto simp: cldm_jmpstack_storage_def set_storage_def split: jmpstore.splits if_splits)

lemma storage_size_update [simp]:
  "cldm_jmpstack_storage (s\<lparr>size := n\<rparr>) = cldm_jmpstack_storage s"
  by (simp add: cldm_jmpstack_storage_def)

lemma set_storage_fields [simp]:
  "size (set_storage s ys) = size s" "capacity (set_storage s ys) = capacity s"
  by (simp_all add: set_storage_def)

lemma jmpstack_wfI:
  assumes "cldm_jmpstack_storage s = Some xs" and "length xs = unat (capacity s)"
    and "32 \<le> unat (capacity s)" and "unat (capacity s) * 8 < 2 ^ 63"
    and "size s \<le> capacity s" and "None \<notin> set (take (unat (size s)) xs)"
  shows "jmpstack_wf s"
  using assms
  by (auto simp: jmpstack_wf_def cldm_jmpstack_storage_def jmpstack_static_size_def
      split: jmpstore.splits if_splits)

lemma jmpstack_wfD:
  assumes "jmpstack_wf s"
  shows "32 \<le> unat (capacity s)" "unat (capacity s) * 8 < 2 ^ 63" "size s \<le> capacity s"
  using assms by (auto simp: jmpstack_wf_def)

text \<open>Growing keeps the elements and doubles the capacity, or reports the failed allocation.\<close>

lemma jmpstack_grow_wf:
  assumes "jmpstack_wf s" and "size s = capacity s"
  shows "\<exists>r. jmpstack_grow alloc s = Some r \<and>
    (\<forall>s'. r = Inr s' \<longrightarrow> jmpstack_wf s' \<and> jmpstack_elems s' = jmpstack_elems s \<and>
       size s' = size s \<and> unat (capacity s') = 2 * unat (capacity s))"
proof -
  have cap: "unat (push_bit 1 (capacity s)) = 2 * unat (capacity s)"
    using jmpstack_wfD(2) [OF assms(1)]
    by (simp add: push_bit_eq_mult unat_mult_nowrap mult.commute)
  have eq32: "capacity s = of_nat jmpstack_static_size \<longleftrightarrow> unat (capacity s) = 32"
    by (simp add: word_unat_eq_iff jmpstack_static_size_def)
  have bytes: "unat (16 * capacity s) = 16 * unat (capacity s)"
    using jmpstack_wfD(2) [OF assms(1)] by (subst unat_mult_nowrap) auto
  let ?new = "\<lambda>xs. s\<lparr>s_un := Dyn xs, capacity := push_bit 1 (capacity s)\<rparr>"
  have new: "jmpstack_wf (?new (xs @ replicate n None))" "jmpstack_elems (?new (xs @ replicate n None)) = map the (take (unat (size s)) xs)"
    if "length xs = unat (capacity s)" "n = 2 * unat (capacity s) - length xs"
      "None \<notin> set (take (unat (size s)) xs)" "16 * unat (capacity s) < 2 ^ 63" for xs n
    using that cap assms jmpstack_wfD [OF assms(1)]
    by (auto simp: jmpstack_wf_def jmpstack_elems_def cldm_jmpstack_storage_def
        jmpstack_static_size_def word_le_nat_alt)
  show ?thesis
  proof (cases "s_un s")
    case (Stat xs)
    with assms(1) have xs: "unat (capacity s) = 32" "length xs = 32"
      "None \<notin> set (take (unat (size s)) xs)" by (auto simp: jmpstack_wf_def)
    have "jmpstack_elems s = map the (take (unat (size s)) xs)"
      using Stat xs by (simp add: jmpstack_elems_def cldm_jmpstack_storage_def jmpstack_static_size_def)
    then show ?thesis
      using Stat xs cap eq32 new [of xs] by (auto simp: jmpstack_grow_def Let_def c_alloc_def bytes)
  next
    case (Dyn xs)
    with assms(1) have xs: "32 < unat (capacity s)" "length xs = unat (capacity s)"
      "None \<notin> set (take (unat (size s)) xs)" by (auto simp: jmpstack_wf_def)
    have "jmpstack_elems s = map the (take (unat (size s)) xs)"
      using Dyn xs by (simp add: jmpstack_elems_def cldm_jmpstack_storage_def jmpstack_static_size_def)
    then show ?thesis
      using Dyn xs cap eq32 new [of xs] by (auto simp: jmpstack_grow_def Let_def c_alloc_def bytes)
  next
    case Freed
    with assms(1) show ?thesis by (simp add: jmpstack_wf_def)
  qed
qed

lemma jmpstack_store_wf:
  assumes "jmpstack_wf s" and "size s < capacity s"
  shows "\<exists>xs. cldm_jmpstack_storage s = Some xs \<and> unat (size s) < length xs \<and>
    (let s' = (set_storage s (xs[unat (size s) := Some x]))\<lparr>size := size s + 1\<rparr>
     in jmpstack_wf s' \<and> jmpstack_elems s' = jmpstack_elems s @ [x] \<and> capacity s' = capacity s)"
proof -
  obtain xs where xs: "cldm_jmpstack_storage s = Some xs" "length xs = unat (capacity s)"
    "None \<notin> set (take (unat (size s)) xs)" using assms(1) by (rule jmpstack_wf_storage)
  have lt: "unat (size s) < length xs" using assms(2) xs(2) by (simp add: word_less_nat_alt)
  have sz: "unat (size s + 1) = Suc (unat (size s))"
    using lt xs(2) unat_lt2p [of "capacity s"] by (subst unat_add_nowrap) auto
  let ?s = "(set_storage s (xs[unat (size s) := Some x]))\<lparr>size := size s + 1\<rparr>"
  have st: "cldm_jmpstack_storage ?s = Some (xs[unat (size s) := Some x])"
    using storage_set_storage [OF xs(1)] by simp
  have "jmpstack_wf ?s"
    using xs lt sz jmpstack_wfD [OF assms(1)]
    by (intro jmpstack_wfI [OF st]) (auto simp: take_Suc_update word_le_nat_alt)
  moreover have "jmpstack_elems ?s = jmpstack_elems s @ [x]"
    using xs lt sz st by (simp add: jmpstack_elems_def take_Suc_update)
  ultimately show ?thesis using xs lt by (auto simp: Let_def)
qed

lemma cldm_jmpstack_push_spec:
  assumes "jmpstack_wf s"
  shows "\<exists>ok s'. cldm_jmpstack_push alloc s x = Some (ok, s') \<and>
    (ok \<longrightarrow> jmpstack_wf s' \<and> jmpstack_elems s' = jmpstack_elems s @ [x]) \<and>
    (size s \<noteq> capacity s \<longrightarrow> ok)"
proof (cases "size s = capacity s")
  case True
  from jmpstack_grow_wf [OF assms this, of alloc] obtain r where
    r: "jmpstack_grow alloc s = Some r" "\<And>s'. r = Inr s' \<Longrightarrow> jmpstack_wf s' \<and>
      jmpstack_elems s' = jmpstack_elems s \<and> size s' = size s \<and> unat (capacity s') = 2 * unat (capacity s)"
    by blast
  show ?thesis
  proof (cases r)
    case (Inl s')
    with True r(1) show ?thesis by (auto simp: cldm_jmpstack_push_def)
  next
    case (Inr s')
    from r(2) [OF this] jmpstack_wfD [OF assms] True
    have "jmpstack_wf s'" "size s' < capacity s'" "jmpstack_elems s' = jmpstack_elems s"
      by (auto simp: word_less_nat_alt)
    with jmpstack_store_wf [of s' x] True r(1) Inr show ?thesis
      by (auto simp: cldm_jmpstack_push_def Let_def)
  qed
next
  case False
  with jmpstack_wfD [OF assms] have "size s < capacity s" by simp
  with jmpstack_store_wf [OF assms, of x] False show ?thesis
    by (auto simp: cldm_jmpstack_push_def Let_def)
qed

lemma jmpstack_wf_init: "jmpstack_wf cldm_jmpstack_init"
  by (simp add: jmpstack_wf_def cldm_jmpstack_init_def jmpstack_static_size_def)

lemma jmpstack_elems_init: "jmpstack_elems cldm_jmpstack_init = []"
  by (simp add: jmpstack_elems_def cldm_jmpstack_init_def cldm_jmpstack_storage_def jmpstack_static_size_def)

lemma jmpstack_nonempty:
  assumes "jmpstack_wf s" and "jmpstack_elems s \<noteq> []"
  obtains xs n where "cldm_jmpstack_storage s = Some xs" "length xs = unat (capacity s)"
    "None \<notin> set (take (Suc n) xs)" "unat (size s) = Suc n" "unat (size s - 1) = n" "n < length xs"
    "jmpstack_elems s = map the (take (Suc n) xs)"
proof -
  obtain xs where xs: "cldm_jmpstack_storage s = Some xs" "length xs = unat (capacity s)"
    "None \<notin> set (take (unat (size s)) xs)" using assms(1) by (rule jmpstack_wf_storage)
  have "unat (size s) \<noteq> 0" using assms(2) xs(1) by (auto simp: jmpstack_elems_def)
  then obtain n where n: "unat (size s) = Suc n" by (cases "unat (size s)") auto
  then have "unat (size s - 1) = n" by (subst unat_sub_nowrap) auto
  moreover have "n < length xs"
    using n xs(2) jmpstack_wfD(3) [OF assms(1)] by (simp add: word_le_nat_alt)
  ultimately show thesis using that xs n by (auto simp: jmpstack_elems_def)
qed

lemma cldm_jmpstack_top_spec:
  assumes "jmpstack_wf s" and "jmpstack_elems s \<noteq> []"
  shows "cldm_jmpstack_top s = Some (last (jmpstack_elems s))"
proof -
  obtain xs n where x: "cldm_jmpstack_storage s = Some xs" "None \<notin> set (take (Suc n) xs)"
    "unat (size s - 1) = n" "n < length xs" "jmpstack_elems s = map the (take (Suc n) xs)"
    using jmpstack_nonempty [OF assms] by metis
  then have "xs ! n \<in> set (take (Suc n) xs)" by (simp add: take_Suc_conv_app_nth)
  with x(2) have "xs ! n \<noteq> None" by metis
  then obtain y where "xs ! n = Some y" by blast
  with x show ?thesis by (auto simp: cldm_jmpstack_top_def Let_def take_Suc_conv_app_nth)
qed

lemma cldm_jmpstack_pop_spec:
  assumes "jmpstack_wf s" and "jmpstack_elems s \<noteq> []"
  shows "jmpstack_wf (cldm_jmpstack_pop s) \<and>
    jmpstack_elems (cldm_jmpstack_pop s) = butlast (jmpstack_elems s)"
proof -
  obtain xs n where x: "cldm_jmpstack_storage s = Some xs" "length xs = unat (capacity s)"
    "None \<notin> set (take (Suc n) xs)" "unat (size s) = Suc n"
    "unat (size s - 1) = n" "n < length xs" "jmpstack_elems s = map the (take (Suc n) xs)"
    using jmpstack_nonempty [OF assms] by metis
  let ?s = "s\<lparr>size := size s - 1\<rparr>"
  have st: "cldm_jmpstack_storage ?s = Some xs" using x(1) by simp
  have "jmpstack_wf ?s"
    using x jmpstack_wfD [OF assms(1)]
    by (intro jmpstack_wfI [OF st]) (auto simp: word_le_nat_alt take_Suc_conv_app_nth)
  moreover have "jmpstack_elems ?s = butlast (jmpstack_elems s)"
    using x st by (simp add: jmpstack_elems_def take_Suc_conv_app_nth)
  ultimately show ?thesis by (simp add: cldm_jmpstack_pop_def)
qed

interpretation jmp: lifo cldm_jmpstack_init "cldm_jmpstack_push alloc" cldm_jmpstack_top
  cldm_jmpstack_pop jmpstack_elems jmpstack_wf for alloc
proof (unfold_locales, goal_cases)
  case (3 s x s')
  then show ?case using cldm_jmpstack_push_spec [of s alloc x] by auto
next
  case (4 s x)
  then show ?case using cldm_jmpstack_push_spec [of s alloc x] by auto
qed (simp_all add: jmpstack_wf_init jmpstack_elems_init cldm_jmpstack_top_spec cldm_jmpstack_pop_spec)

text \<open>With memory for every growth no push fails.\<close>

lemma grow_succeeds:
  assumes "jmpstack_wf s" and "c_alloc alloc (unat (push_bit 1 (capacity s) * 8))"
  shows "\<exists>s'. jmpstack_grow alloc s = Some (Inr s')"
proof (cases "s_un s")
  case (Stat xs)
  with assms(1) have "capacity s = of_nat jmpstack_static_size"
    by (simp add: jmpstack_wf_def word_unat_eq_iff jmpstack_static_size_def)
  with Stat assms(2) show ?thesis by (simp add: jmpstack_grow_def Let_def)
next
  case (Dyn xs)
  with assms(1) have "capacity s \<noteq> of_nat jmpstack_static_size"
    by (auto simp: jmpstack_wf_def word_unat_eq_iff jmpstack_static_size_def)
  with Dyn assms(2) show ?thesis by (simp add: jmpstack_grow_def Let_def)
qed (use assms(1) in \<open>simp add: jmpstack_wf_def\<close>)

lemma push_succeeds:
  assumes "jmpstack_wf s" and "\<forall>n. alloc n" and "unat (capacity s) \<le> 32 + 2 * unat (size s)"
    and "unat (size s) < 2 ^ 57"
  shows "\<exists>s'. cldm_jmpstack_push alloc s x = Some (True, s') \<and> unat (size s') = Suc (unat (size s)) \<and>
    unat (capacity s') \<le> 32 + 2 * unat (size s')"
proof -
  have sz: "unat (size s + 1) = Suc (unat (size s))" using assms(4) by (simp add: unat_add_nowrap)
  show ?thesis
  proof (cases "size s = capacity s")
    case True
    then have bytes: "unat (push_bit 1 (capacity s) * 8) = 16 * unat (capacity s)"
      using assms(4) by (simp add: push_bit_eq_mult unat_mult_nowrap)
    then have "c_alloc alloc (unat (push_bit 1 (capacity s) * 8))"
      using assms(2,4) True by (simp add: c_alloc_def)
    from grow_succeeds [OF assms(1) this] obtain s1 where g: "jmpstack_grow alloc s = Some (Inr s1)" ..
    with jmpstack_grow_wf [OF assms(1) True, of alloc] have
      s1: "jmpstack_grow alloc s = Some (Inr s1)" "jmpstack_wf s1" "size s1 = size s"
        "unat (capacity s1) = 2 * unat (capacity s)"
      by auto
    from jmpstack_wfD [OF assms(1)] s1 True have "size s1 < capacity s1" by (simp add: word_less_nat_alt)
    with jmpstack_store_wf [OF s1(2), of x] True s1 sz show ?thesis
      by (auto simp: cldm_jmpstack_push_def Let_def)
  next
    case False
    with jmpstack_wfD [OF assms(1)] have "size s < capacity s" by simp
    with jmpstack_store_wf [OF assms(1), of x] False sz assms(3) show ?thesis
      by (auto simp: cldm_jmpstack_push_def Let_def)
  qed
qed

lemma push_all_succeeds:
  "jmpstack_wf s \<Longrightarrow> \<forall>n. alloc n \<Longrightarrow> unat (capacity s) \<le> 32 + 2 * unat (size s) \<Longrightarrow>
   unat (size s) + length bufs \<le> 2 ^ 57 \<Longrightarrow>
   \<exists>s'. push_all (cldm_jmpstack_push alloc) s bufs = Some s'"
proof (induction bufs arbitrary: s)
  case (Cons b bufs)
  from push_succeeds [OF Cons.prems(1-3), of b] Cons.prems(4) obtain s1 where
    s1: "cldm_jmpstack_push alloc s b = Some (True, s1)" "unat (size s1) = Suc (unat (size s))"
      "unat (capacity s1) \<le> 32 + 2 * unat (size s1)" by auto
  with cldm_jmpstack_push_spec [OF Cons.prems(1), of alloc b] have "jmpstack_wf s1" by auto
  with Cons.IH [OF _ Cons.prems(2) s1(3)] s1 Cons.prems(4) show ?case by simp
qed simp

text \<open>A push succeeds at any size, also after some pops.\<close>

lemma push_onto:
  assumes "jmpstack_wf s" and "\<forall>n. alloc n" and "unat (size s) < 2 ^ 57"
  shows "\<exists>s'. cldm_jmpstack_push alloc s x = Some (True, s') \<and> jmpstack_elems s' = jmpstack_elems s @ [x] \<and>
    cldm_jmpstack_top s' = Some x"
proof -
  from cldm_jmpstack_push_spec [OF assms(1), of alloc x] obtain ok s' where
    p: "cldm_jmpstack_push alloc s x = Some (ok, s')" "ok \<longrightarrow> jmpstack_wf s' \<and> jmpstack_elems s' = jmpstack_elems s @ [x]"
      "size s \<noteq> capacity s \<longrightarrow> ok" by blast
  have ok
  proof (cases "size s = capacity s")
    case True
    then have "unat (capacity s) \<le> 32 + 2 * unat (size s)" by simp
    from push_succeeds [OF assms(1,2) this assms(3), of x] p(1) show ?thesis by auto
  qed (use p(3) in simp)
  then show ?thesis using p(1,2) cldm_jmpstack_top_spec [of s'] by auto
qed

text \<open>The number of elements is the size.\<close>

lemma jmpstack_elems_size: "jmpstack_wf s \<Longrightarrow> length (jmpstack_elems s) = unat (size s)"
proof -
  assume wf: "jmpstack_wf s"
  then obtain xs where "cldm_jmpstack_storage s = Some xs" "length xs = unat (capacity s)" by (rule jmpstack_wf_storage)
  moreover have "unat (size s) \<le> unat (capacity s)" using jmpstack_wfD(3) [OF wf] by (simp add: word_le_nat_alt)
  ultimately show ?thesis by (simp add: jmpstack_elems_def)
qed

text \<open>
  C26: when memory can be had, a fresh stack takes any number of buffers below \<open>2 ^ 57\<close>, across the moves from
  the inline array to the heap and to larger blocks. After any number of pops, also those that bring a grown
  stack back to the inline size, it holds the buffers that were not popped, its top is the last of them, and a
  further buffer can be pushed and is then the top.
\<close>

theorem cldm_jmpstack_push_all:
  assumes "\<forall>n. alloc n" and "length bufs < 2 ^ 57"
  shows "\<exists>s. push_all (cldm_jmpstack_push alloc) cldm_jmpstack_init bufs = Some s \<and>
    (\<forall>k \<le> length bufs.
       jmpstack_elems ((cldm_jmpstack_pop ^^ k) s) = take (length bufs - k) bufs \<and>
       (k < length bufs \<longrightarrow> cldm_jmpstack_top ((cldm_jmpstack_pop ^^ k) s) = Some (bufs ! (length bufs - 1 - k))) \<and>
       (\<exists>s'. cldm_jmpstack_push alloc ((cldm_jmpstack_pop ^^ k) s) x = Some (True, s') \<and>
          jmpstack_elems s' = take (length bufs - k) bufs @ [x] \<and> cldm_jmpstack_top s' = Some x))"
proof -
  have "unat (size (cldm_jmpstack_init :: 'a jmpstack)) = 0"
    "unat (capacity (cldm_jmpstack_init :: 'a jmpstack)) = 32"
    by (simp_all add: cldm_jmpstack_init_def jmpstack_static_size_def)
  then have "\<exists>s. push_all (cldm_jmpstack_push alloc) (cldm_jmpstack_init :: 'a jmpstack) bufs = Some s"
    using assms(2) by (intro push_all_succeeds [OF jmpstack_wf_init assms(1)]) simp_all
  then obtain s where
    push: "push_all (cldm_jmpstack_push alloc) cldm_jmpstack_init bufs = Some s" by auto
  from jmp.push_all_elems [OF jmpstack_wf_init push] have s: "jmpstack_wf s" "jmpstack_elems s = bufs"
    by (simp_all add: jmpstack_elems_init)
  have "\<exists>s'. cldm_jmpstack_push alloc ((cldm_jmpstack_pop ^^ k) s) x = Some (True, s') \<and>
      jmpstack_elems s' = take (length bufs - k) bufs @ [x] \<and> cldm_jmpstack_top s' = Some x" if "k \<le> length bufs" for k
  proof -
    have t: "jmpstack_wf ((cldm_jmpstack_pop ^^ k) s)" "jmpstack_elems ((cldm_jmpstack_pop ^^ k) s) = take (length bufs - k) bufs"
      using jmp.pops [OF s(1), of k] that s(2) by simp_all
    then have "unat (size ((cldm_jmpstack_pop ^^ k) s)) < 2 ^ 57" using jmpstack_elems_size [OF t(1)] assms(2) by simp
    from push_onto [OF t(1) assms(1) this, of x] show ?thesis by (simp add: t(2))
  qed
  then show ?thesis
    using push jmp.pops [OF s(1)] jmp.pops_top [OF s(1)] s(2) by (intro exI [of _ s]) simp
qed

text \<open>Forty buffers, of which ten are popped: the stack has moved to the heap and is back at the inline size.\<close>

theorem cldm_jmpstack_push_all_witness:
  "\<exists>s. push_all (cldm_jmpstack_push (\<lambda>n. True)) cldm_jmpstack_init [0..<40] = Some s \<and>
    jmpstack_elems ((cldm_jmpstack_pop ^^ 10) s) = [0..<30] \<and> cldm_jmpstack_top ((cldm_jmpstack_pop ^^ 10) s) = Some 29"
proof -
  have "\<forall>n. (\<lambda>n :: nat. True) n" "length [0..<40] < 2 ^ 57" "10 \<le> length [0..<40]" "10 < length [0..<40]" by simp_all
  with cldm_jmpstack_push_all [OF this(1,2), of 0] obtain s where
    "push_all (cldm_jmpstack_push (\<lambda>n. True)) cldm_jmpstack_init [0..<40] = Some s"
    "jmpstack_elems ((cldm_jmpstack_pop ^^ 10) s) = take (length [0..<40] - 10) [0..<40]"
    "cldm_jmpstack_top ((cldm_jmpstack_pop ^^ 10) s) = Some ([0..<40] ! (length [0..<40] - 1 - 10))" by blast
  then show ?thesis by (intro exI [of _ s]) simp
qed

text \<open>
  The static table of stacks, one per thread, is never passed to \<open>cldm_jmpstack_init\<close>: its stacks
  are all zeros, with capacity 0.
\<close>

definition jmpstack_zeroed :: "'a jmpstack" where
  "jmpstack_zeroed =
     \<lparr>s_un = Stat (replicate jmpstack_static_size None), size = 0, capacity = 0\<rparr>"

lemma zeroed_push:
  assumes "s_un s = Stat xs" and "length xs = 32" and "capacity s = 0"
    and "size s = of_nat k" and "0 < k" and "k < 32"
  shows "cldm_jmpstack_push alloc s x =
    Some (True, s\<lparr>s_un := Stat (xs[k := Some x]), size := of_nat (Suc k)\<rparr>)"
proof -
  have "unat (of_nat k :: u64) = k" using assms(6) by (simp add: unat_of_nat)
  moreover then have "(of_nat k :: u64) \<noteq> 0" using assms(5) by auto
  ultimately show ?thesis
    using assms by (simp add: cldm_jmpstack_push_def cldm_jmpstack_storage_def set_storage_def add.commute)
qed

lemma zeroed_push_all:
  assumes "s_un s = Stat xs" and "length xs = 32" and "capacity s = 0"
    and "size s = of_nat k" and "0 < k" and "k + length bufs = 32"
  shows "\<exists>s' ys. push_all (cldm_jmpstack_push alloc) s bufs = Some s' \<and>
    s_un s' = Stat ys \<and> length ys = 32 \<and> capacity s' = 0 \<and> size s' = 32"
  using assms
proof (induction bufs arbitrary: s xs k)
  case Nil
  then show ?case by auto
next
  case (Cons b bufs)
  have "cldm_jmpstack_push alloc s b =
    Some (True, s\<lparr>s_un := Stat (xs[k := Some b]), size := of_nat (Suc k)\<rparr>)"
    using Cons.prems by (intro zeroed_push) auto
  moreover have "\<exists>s' ys. push_all (cldm_jmpstack_push alloc)
      (s\<lparr>s_un := Stat (xs[k := Some b]), size := of_nat (Suc k)\<rparr>) bufs = Some s' \<and>
    s_un s' = Stat ys \<and> length ys = 32 \<and> capacity s' = 0 \<and> size s' = 32"
    by (rule Cons.IH [where k = "Suc k" and xs = "xs[k := Some b]"]) (use Cons.prems in auto)
  ultimately show ?case by simp
qed

text \<open>
  Such a stack moves to a block of no bytes at the first push, keeps its capacity 0, and uses the
  inline array; after 32 pushes the next one writes behind the array.
\<close>

theorem cldm_jmpstack_zeroed_overflow:
  assumes "alloc 0" and "length bufs = 32"
  shows "\<exists>s. push_all (cldm_jmpstack_push alloc) jmpstack_zeroed bufs = Some s \<and>
    cldm_jmpstack_push alloc s x = None"
proof -
  obtain b rest where b: "bufs = b # rest" using assms(2) by (cases bufs) auto
  let ?s = "jmpstack_zeroed\<lparr>s_un := Stat ((replicate 32 None)[0 := Some b]), size := 1\<rparr>"
  have "cldm_jmpstack_push alloc jmpstack_zeroed b = Some (True, ?s)"
    using assms(1)
    by (simp add: cldm_jmpstack_push_def jmpstack_zeroed_def jmpstack_grow_def Let_def c_alloc_def
        cldm_jmpstack_storage_def set_storage_def jmpstack_static_size_def)
  moreover obtain s ys where s: "push_all (cldm_jmpstack_push alloc) ?s rest = Some s"
    "s_un s = Stat ys" "length ys = 32" "capacity s = 0" "size s = 32"
    using zeroed_push_all [of ?s "(replicate 32 None)[0 := Some b]" 1 rest alloc] assms(2) b
    by (auto simp: jmpstack_zeroed_def)
  moreover have "cldm_jmpstack_push alloc s x = None"
    using s by (simp add: cldm_jmpstack_push_def cldm_jmpstack_storage_def jmpstack_static_size_def)
  ultimately show ?thesis using b by auto
qed

theorem cldm_jmpstack_zeroed_overflow_witness:
  "\<exists>s. push_all (cldm_jmpstack_push (\<lambda>n. True)) jmpstack_zeroed (replicate 32 (0 :: u64)) = Some s \<and>
    cldm_jmpstack_push (\<lambda>n. True) s 0 = None"
  using cldm_jmpstack_zeroed_overflow [of "\<lambda>n. True" "replicate 32 (0 :: u64)" 0]
  by (simp only: length_replicate simp_thms)

text \<open>\<open>cldm_jmpstack_free\<close> leaves the heap block of a stack that has shrunk to the inline size.\<close>

lemma cldm_jmpstack_free_leak:
  assumes "s_un s = Dyn xs" and "unat (size s) \<le> 32"
  shows "cldm_jmpstack_free s = Some s"
  using assms by (simp add: cldm_jmpstack_free_def jmpstack_static_size_def)

end
