(* ===== verification/Hash.thy ===== *)
theory Hash
  imports Algo Cmem
begin

text \<open>
  \<^verbatim>\<open>cldm/cldm_hash.c\<close>, \<^verbatim>\<open>cldm/cldm_hash.h\<close>: the open-addressing hash table with linear probing that
  the test collector and the symbol cache use, and its FNV-1a hash. Keys are pointers into a memory
  that the table only reads; the memory comparison is the argument \<open>cmp\<close>, because the build selects
  either the assembly routine of \<^theory_text>\<open>Avx2\<close> or the portable one of \<^theory_text>\<open>Byteseq\<close>.
\<close>

section \<open>State\<close>

text \<open>
  An internal entry is a union of the entry and \<open>size_t status\<close>, which overlays the key pointer: 0
  is an empty slot, 1 a slot whose entry was removed, anything else a live entry.
\<close>

record cldm_ht_entry =
  ent_key :: u64
  ent_size :: u64

definition status :: "cldm_ht_entry \<Rightarrow> u64" where
  "status e = ent_key e"

definition CLDM_HASH_VACANT :: u64 where
  "CLDM_HASH_VACANT = 1"

definition zero_entry :: cldm_ht_entry where
  "zero_entry = \<lparr>ent_key = 0, ent_size = 0\<rparr>"

datatype ht_un = HtStat "cldm_ht_entry list" | HtDyn "cldm_ht_entry list"

record cldm_ht =
  t_un :: ht_un
  ht_size :: u64
  ht_capacity :: u64

definition cldm_ht_static_capacity :: nat where
  "cldm_ht_static_capacity = 31"

definition cldm_ht_init :: cldm_ht where
  "cldm_ht_init =
     \<lparr>t_un = HtStat (replicate cldm_ht_static_capacity zero_entry), ht_size = 0,
      ht_capacity = of_nat cldm_ht_static_capacity\<rparr>"

section \<open>Hashing\<close>

definition CLDM_FNV_OFFSET_BASIS :: u64 where
  "CLDM_FNV_OFFSET_BASIS = 0xcbf29ce484222325"

definition CLDM_FNV_PRIME :: u64 where
  "CLDM_FNV_PRIME = 0x100000001b3"

fun fnv1a_loop :: "mem \<Rightarrow> u64 \<Rightarrow> nat \<Rightarrow> u64 \<Rightarrow> u64 option" where
  "fnv1a_loop m data 0 hash = Some hash"
| "fnv1a_loop m data (Suc n) hash =
     do { b \<leftarrow> m data; fnv1a_loop m (data + 1) n ((hash XOR ucast b) * CLDM_FNV_PRIME) }"

text \<open>\<open>cldm_for_each\<close> counts with an \<open>unsigned\<close> up to \<open>(unsigned)(size)\<close>.\<close>

definition cldm_hash_fnv1a :: "mem \<Rightarrow> u64 \<Rightarrow> u64 \<Rightarrow> u64 option" where
  "cldm_hash_fnv1a m data len =
     fnv1a_loop m data (unat (ucast len :: u32)) CLDM_FNV_OFFSET_BASIS"

definition cldm_hash_entry :: "mem \<Rightarrow> cldm_ht_entry \<Rightarrow> u64 option" where
  "cldm_hash_entry m entry = cldm_hash_fnv1a m (ent_key entry) (ent_size entry)"

section \<open>The operations\<close>

definition cldm_ht_slot_vacant :: "cldm_ht_entry \<Rightarrow> bool" where
  "cldm_ht_slot_vacant entry \<longleftrightarrow> status entry \<le> CLDM_HASH_VACANT"

partial_function (option) ht_sizeup_loop :: "u64 \<Rightarrow> u64 option" where
  "ht_sizeup_loop current =
     do { p \<leftarrow> cldm_is_prime current;
          if p then Some current else ht_sizeup_loop (current + 2) }"

definition cldm_ht_sizeup :: "u64 \<Rightarrow> u64 option" where
  "cldm_ht_sizeup current = ht_sizeup_loop (push_bit 1 current OR 1)"

text \<open>The member of the union in use; the other one has no contents.\<close>

definition cldm_ht_storage :: "cldm_ht \<Rightarrow> cldm_ht_entry list option" where
  "cldm_ht_storage ht =
     (if cldm_ht_static_capacity < unat (ht_capacity ht)
      then (case t_un ht of HtDyn xs \<Rightarrow> Some xs | _ \<Rightarrow> None)
      else (case t_un ht of HtStat xs \<Rightarrow> Some xs | _ \<Rightarrow> None))"

definition ht_set_storage :: "cldm_ht \<Rightarrow> cldm_ht_entry list \<Rightarrow> cldm_ht" where
  "ht_set_storage ht xs =
     ht\<lparr>t_un := (case t_un ht of HtStat _ \<Rightarrow> HtStat xs | HtDyn _ \<Rightarrow> HtDyn xs)\<rparr>"

definition cldm_ht_should_expand :: "cldm_ht \<Rightarrow> bool" where
  "cldm_ht_should_expand ht \<longleftrightarrow> drop_bit 1 (ht_capacity ht) < ht_size ht + 1"

partial_function (option) ht_probe_loop ::
  "(mem \<Rightarrow> u64 \<Rightarrow> u64 \<Rightarrow> u64 \<Rightarrow> int option) \<Rightarrow> mem \<Rightarrow> cldm_ht_entry list \<Rightarrow> u64 \<Rightarrow> cldm_ht_entry \<Rightarrow>
   bool \<Rightarrow> u64 \<Rightarrow> u64 option" where
  "ht_probe_loop cmp m entries capacity entry reuse_vacant idx =
     (if length entries \<le> unat idx then None
      else if status (entries ! unat idx) = 0 then Some idx
      else if cldm_ht_slot_vacant (entries ! unat idx)
      then (if reuse_vacant then Some idx
            else ht_probe_loop cmp m entries capacity entry reuse_vacant ((idx + 1) mod capacity))
      else if ent_size (entries ! unat idx) = ent_size entry
      then do { d \<leftarrow> cmp m (ent_key (entries ! unat idx)) (ent_key entry) (ent_size entry);
                if d = 0 then Some idx
                else ht_probe_loop cmp m entries capacity entry reuse_vacant ((idx + 1) mod capacity) }
      else ht_probe_loop cmp m entries capacity entry reuse_vacant ((idx + 1) mod capacity))"

definition cldm_ht_probe ::
  "(mem \<Rightarrow> u64 \<Rightarrow> u64 \<Rightarrow> u64 \<Rightarrow> int option) \<Rightarrow> mem \<Rightarrow> cldm_ht \<Rightarrow> cldm_ht_entry \<Rightarrow> bool \<Rightarrow> u64 option" where
  "cldm_ht_probe cmp m ht entry reuse_vacant =
     do { entries \<leftarrow> cldm_ht_storage ht;
          hash \<leftarrow> cldm_hash_entry m entry;
          if ht_capacity ht = 0 then None
          else ht_probe_loop cmp m entries (ht_capacity ht) entry reuse_vacant
                 (hash mod ht_capacity ht) }"

text \<open>The result is the slot found, or the null pointer.\<close>

definition cldm_ht_find ::
  "(mem \<Rightarrow> u64 \<Rightarrow> u64 \<Rightarrow> u64 \<Rightarrow> int option) \<Rightarrow> mem \<Rightarrow> cldm_ht \<Rightarrow> cldm_ht_entry \<Rightarrow> u64 option option" where
  "cldm_ht_find cmp m ht entry =
     do { idx \<leftarrow> cldm_ht_probe cmp m ht entry False;
          entries \<leftarrow> cldm_ht_storage ht;
          Some (if cldm_ht_slot_vacant (entries ! unat idx) then None else Some idx) }"

text \<open>
  The rehashing loop of \<open>cldm_ht_expand\<close>, over the slots of the old storage; \<open>ins\<close> is
  \<open>cldm_ht_insert\<close>, whose result the loop ignores. Its 32-bit index never reaches a capacity of
  \<open>2 ^ 32\<close> or more.
\<close>

fun ht_rehash ::
  "(cldm_ht \<Rightarrow> cldm_ht_entry \<Rightarrow> (u64 option \<times> cldm_ht) option) \<Rightarrow> cldm_ht_entry list \<Rightarrow> cldm_ht \<Rightarrow>
   cldm_ht option" where
  "ht_rehash ins [] ht = Some ht"
| "ht_rehash ins (e # es) ht =
     (if status e \<noteq> 0
      then do { (r, ht) \<leftarrow> ins ht e; ht_rehash ins es ht }
      else ht_rehash ins es ht)"

definition cldm_ht_expand ::
  "(cldm_ht \<Rightarrow> cldm_ht_entry \<Rightarrow> (u64 option \<times> cldm_ht) option) \<Rightarrow> (nat \<Rightarrow> bool) \<Rightarrow> cldm_ht \<Rightarrow>
   (bool \<times> cldm_ht) option" where
  "cldm_ht_expand ins alloc ht =
     do { new_capacity \<leftarrow> cldm_ht_sizeup (ht_capacity ht);
          if \<not> c_alloc alloc (unat new_capacity * 16) then Some (False, ht)
          else do {
            old \<leftarrow> (if ht_capacity ht = of_nat cldm_ht_static_capacity
                    then (case t_un ht of HtStat xs \<Rightarrow> Some xs | _ \<Rightarrow> None)
                    else (case t_un ht of HtDyn xs \<Rightarrow> Some xs | _ \<Rightarrow> None));
            if 2 ^ 32 \<le> unat (ht_capacity ht) then None
            else do {
              ht \<leftarrow> ht_rehash ins (take (unat (ht_capacity ht)) old)
                      \<lparr>t_un = HtDyn (replicate (unat new_capacity) zero_entry), ht_size = 0,
                       ht_capacity = new_capacity\<rparr>;
              Some (True, ht) } } }"

text \<open>
  Insertion and growth call each other: \<open>ht_insert d\<close> is the insertion with at most \<open>d\<close> of them in
  progress at once. The insertions a growth makes never grow in turn, so two levels are enough:
  \<open>ht_insert_depth\<close> shows that a larger bound changes nothing.
\<close>

fun ht_insert ::
  "nat \<Rightarrow> (mem \<Rightarrow> u64 \<Rightarrow> u64 \<Rightarrow> u64 \<Rightarrow> int option) \<Rightarrow> (nat \<Rightarrow> bool) \<Rightarrow> mem \<Rightarrow> cldm_ht \<Rightarrow> cldm_ht_entry \<Rightarrow>
   (u64 option \<times> cldm_ht) option" where
  "ht_insert 0 cmp alloc m ht entry = None"
| "ht_insert (Suc d) cmp alloc m ht entry =
     do { (ok, ht) \<leftarrow> (if cldm_ht_should_expand ht
                       then cldm_ht_expand (ht_insert d cmp alloc m) alloc ht
                       else Some (True, ht));
          if \<not> ok then Some (None, ht)
          else do {
            slot \<leftarrow> cldm_ht_probe cmp m ht entry True;
            entries \<leftarrow> cldm_ht_storage ht;
            if \<not> cldm_ht_slot_vacant (entries ! unat slot) then Some (None, ht)
            else Some (Some slot,
                       (ht_set_storage ht (entries[unat slot := entry]))\<lparr>ht_size := ht_size ht + 1\<rparr>) } }"

definition cldm_ht_insert ::
  "(mem \<Rightarrow> u64 \<Rightarrow> u64 \<Rightarrow> u64 \<Rightarrow> int option) \<Rightarrow> (nat \<Rightarrow> bool) \<Rightarrow> mem \<Rightarrow> cldm_ht \<Rightarrow> cldm_ht_entry \<Rightarrow>
   (u64 option \<times> cldm_ht) option" where
  "cldm_ht_insert = ht_insert 2"

definition cldm_ht_remove ::
  "(mem \<Rightarrow> u64 \<Rightarrow> u64 \<Rightarrow> u64 \<Rightarrow> int option) \<Rightarrow> mem \<Rightarrow> cldm_ht \<Rightarrow> cldm_ht_entry \<Rightarrow>
   (bool \<times> cldm_ht) option" where
  "cldm_ht_remove cmp m ht entry =
     do { slot \<leftarrow> cldm_ht_probe cmp m ht entry False;
          entries \<leftarrow> cldm_ht_storage ht;
          if cldm_ht_slot_vacant (entries ! unat slot) then Some (False, ht)
          else Some (True,
                 (ht_set_storage ht (entries[unat slot :=
                     (entries ! unat slot)\<lparr>ent_key := CLDM_HASH_VACANT\<rparr>]))
                   \<lparr>ht_size := ht_size ht - 1\<rparr>) }"

definition cldm_ht_clear :: "cldm_ht \<Rightarrow> cldm_ht option" where
  "cldm_ht_clear ht =
     do { entries \<leftarrow> cldm_ht_storage ht;
          if length entries < unat (ht_capacity ht) then None
          else Some ((ht_set_storage ht
                 (replicate (unat (ht_capacity ht)) zero_entry @
                  drop (unat (ht_capacity ht)) entries))\<lparr>ht_size := 0\<rparr>) }"

text \<open>\<open>cldm_ht_free\<close>: whether a heap block is released.\<close>

definition cldm_ht_free :: "cldm_ht \<Rightarrow> bool" where
  "cldm_ht_free ht \<longleftrightarrow> cldm_ht_static_capacity < unat (ht_capacity ht)"

definition cldm_ht_size :: "cldm_ht \<Rightarrow> u64" where
  "cldm_ht_size ht = ht_size ht"

definition cldm_ht_capacity :: "cldm_ht \<Rightarrow> u64" where
  "cldm_ht_capacity ht = ht_capacity ht"

text \<open>The equations of the loops, for evaluation.\<close>

declare ht_probe_loop.simps [code] ht_sizeup_loop.simps [code]

end
