(* ===== verification/Hash_Slots.thy ===== *)
theory Hash_Slots
  imports Hash
begin

text \<open>
  Open addressing with linear probing, on lists of slots: where the probe for a key stops, and what
  an insertion at that place and a removal keep. The state of a slot is free, removed or the key it
  holds; the only invariant is that no key has a free slot or another copy of itself before it on
  the path of its probe.
\<close>

section \<open>Slots\<close>

datatype slot = Vacant | Removed | Holds "u8 list"

definition fnv :: "u8 list \<Rightarrow> nat" where
  "fnv bs = unat (foldl (\<lambda>h b. (h XOR ucast b) * CLDM_FNV_PRIME) CLDM_FNV_OFFSET_BASIS
                   (take (length bs mod 2 ^ 32) bs))"

definition probe_at :: "slot list \<Rightarrow> u8 list \<Rightarrow> nat \<Rightarrow> slot" where
  "probe_at sl bs k = sl ! ((fnv bs + k) mod length sl)"

definition on_path :: "slot list \<Rightarrow> u8 list \<Rightarrow> nat \<Rightarrow> bool" where
  "on_path sl bs i \<longleftrightarrow>
     (\<exists>k. (fnv bs + k) mod length sl = i \<and>
          (\<forall>j<k. probe_at sl bs j \<noteq> Vacant \<and> probe_at sl bs j \<noteq> Holds bs))"

definition held :: "slot list \<Rightarrow> u8 list set" where
  "held sl = {bs. Holds bs \<in> set sl}"

definition slots_ok :: "slot list \<Rightarrow> bool" where
  "slots_ok sl \<longleftrightarrow> sl \<noteq> [] \<and> (\<forall>i<length sl. \<forall>bs. sl ! i = Holds bs \<longrightarrow> on_path sl bs i)"

lemma slots_okD: "slots_ok sl \<Longrightarrow> i < length sl \<Longrightarrow> sl ! i = Holds bs \<Longrightarrow> on_path sl bs i"
  by (simp add: slots_ok_def)

lemma on_pathE:
  assumes "on_path sl bs i"
  obtains k where "(fnv bs + k) mod length sl = i"
    "\<And>j. j < k \<Longrightarrow> probe_at sl bs j \<noteq> Vacant \<and> probe_at sl bs j \<noteq> Holds bs"
  using assms by (auto simp: on_path_def)

text \<open>The slot where a probe for \<open>bs\<close> stops.\<close>

definition stops :: "bool \<Rightarrow> u8 list \<Rightarrow> slot \<Rightarrow> bool" where
  "stops reuse bs s \<longleftrightarrow> s = Vacant \<or> (reuse \<and> s = Removed) \<or> s = Holds bs"

definition first_stop :: "bool \<Rightarrow> slot list \<Rightarrow> u8 list \<Rightarrow> nat \<Rightarrow> bool" where
  "first_stop reuse sl bs k \<longleftrightarrow>
     stops reuse bs (probe_at sl bs k) \<and> (\<forall>j<k. \<not> stops reuse bs (probe_at sl bs j))"

lemma probe_reaches:
  assumes "i < length sl"
  obtains k where "(fnv bs + k) mod length sl = i"
proof
  show "(fnv bs + (i + (length sl - fnv bs mod length sl))) mod length sl = i"
  proof -
    let ?n = "length sl"
    have n: "0 < ?n" using assms by auto
    then have "fnv bs mod ?n < ?n" by simp
    then have "fnv bs + (i + (?n - fnv bs mod ?n)) = i + ?n + (fnv bs - fnv bs mod ?n)"
      using mod_less_eq_dividend [of "fnv bs" ?n] by linarith
    also have "\<dots> = i + ?n + ?n * (fnv bs div ?n)" by (simp add: minus_mod_eq_mult_div)
    also have "\<dots> = i + ?n * Suc (fnv bs div ?n)" by simp
    finally show ?thesis using assms by (metis mod_less mod_mult_self2)
  qed
qed

lemma first_stop_exists:
  assumes "i < length sl" and "stops reuse bs (sl ! i)"
  obtains k where "first_stop reuse sl bs k"
proof -
  from assms(1) obtain k where "(fnv bs + k) mod length sl = i" by (rule probe_reaches)
  with assms(2) have "stops reuse bs (probe_at sl bs k)" by (simp add: probe_at_def)
  then obtain k' where "stops reuse bs (probe_at sl bs k')"
    "\<forall>j<k'. \<not> stops reuse bs (probe_at sl bs j)"
    using exists_least_iff [of "\<lambda>k. stops reuse bs (probe_at sl bs k)"] by auto
  then show thesis using that by (simp add: first_stop_def)
qed

lemma first_stop_holds:
  assumes "slots_ok sl" and "i < length sl" and "sl ! i = Holds bs" and "first_stop False sl bs k"
  shows "(fnv bs + k) mod length sl = i"
proof -
  from slots_okD [OF assms(1-3)] obtain k' where k': "(fnv bs + k') mod length sl = i"
    "\<And>j. j < k' \<Longrightarrow> probe_at sl bs j \<noteq> Vacant \<and> probe_at sl bs j \<noteq> Holds bs" by (rule on_pathE) blast
  have "stops False bs (probe_at sl bs k')" using k'(1) assms(3) by (simp add: stops_def probe_at_def)
  then have "\<not> k' < k" using assms(4) by (auto simp: first_stop_def)
  moreover have "\<not> k < k'" using k'(2) [of k] assms(4) by (auto simp: first_stop_def stops_def)
  ultimately show ?thesis using k'(1) by simp
qed

lemma slots_unique:
  assumes "slots_ok sl" and "i < length sl" "sl ! i = Holds bs" and "j < length sl" "sl ! j = Holds bs"
  shows "i = j"
proof -
  from assms(2,3) obtain k where "first_stop False sl bs k"
    by (rule_tac first_stop_exists [of i sl False bs]) (auto simp: stops_def)
  with assms first_stop_holds show ?thesis by metis
qed

lemma held_iff: "bs \<in> held sl \<longleftrightarrow> (\<exists>i<length sl. sl ! i = Holds bs)"
  by (auto simp: held_def in_set_conv_nth)

text \<open>A probe that does not reuse removed slots ends at a free slot exactly for a key not held.\<close>

lemma probe_find:
  assumes "slots_ok sl" and "first_stop False sl bs k"
  shows "probe_at sl bs k = (if bs \<in> held sl then Holds bs else Vacant)"
proof (cases "bs \<in> held sl")
  case True
  with assms first_stop_holds show ?thesis by (auto simp: held_iff probe_at_def)
next
  case False
  have "(fnv bs + k) mod length sl < length sl" using assms(1) by (simp add: slots_ok_def)
  with False have "probe_at sl bs k \<noteq> Holds bs" by (auto simp: held_iff probe_at_def)
  with assms(2) False show ?thesis by (auto simp: first_stop_def stops_def)
qed

lemma probe_insert:
  assumes "slots_ok sl" and "first_stop True sl bs k" and "Removed \<notin> set sl"
  shows "probe_at sl bs k = (if bs \<in> held sl then Holds bs else Vacant)"
proof -
  have n: "0 < length sl" using assms(1) by (simp add: slots_ok_def)
  then have "probe_at sl bs j \<noteq> Removed" for j
    using assms(3) nth_mem [of "(fnv bs + j) mod length sl" sl] by (metis mod_less_divisor probe_at_def)
  then have "first_stop False sl bs k" using assms(2) by (auto simp: first_stop_def stops_def)
  with assms(1) show ?thesis by (rule probe_find)
qed

lemma probe_at_upd:
  "i < length sl \<Longrightarrow> probe_at (sl[i := s]) bs j =
     (if (fnv bs + j) mod length sl = i then s else probe_at sl bs j)"
  by (auto simp: probe_at_def nth_list_update)

text \<open>Writing a key that is not held where its probe stops, and removing a key, keep the order of the probes.\<close>

lemma slots_ok_insert:
  assumes "slots_ok sl" and "first_stop True sl bs k" and "bs \<notin> held sl"
  shows "slots_ok (sl[(fnv bs + k) mod length sl := Holds bs])" (is "slots_ok ?sl'")
proof -
  let ?i = "(fnv bs + k) mod length sl"
  have i: "?i < length sl" using assms(1) by (simp add: slots_ok_def)
  have old: "probe_at sl bs k = Vacant \<or> probe_at sl bs k = Removed"
  proof -
    have "probe_at sl bs k \<noteq> Holds bs" using assms(3) i by (auto simp: held_iff probe_at_def)
    then show ?thesis using assms(2) by (auto simp: first_stop_def stops_def)
  qed
  have "on_path ?sl' bs' j" if j: "j < length sl" and h: "?sl' ! j = Holds bs'" for j bs'
  proof (cases "j = ?i")
    case True
    with h i have [simp]: "bs' = bs" by simp
    have "probe_at ?sl' bs l \<noteq> Vacant \<and> probe_at ?sl' bs l \<noteq> Holds bs" if "l < k" for l
    proof -
      have "\<not> stops True bs (probe_at sl bs l)" using assms(2) that by (auto simp: first_stop_def)
      moreover from this assms(2) have "(fnv bs + l) mod length sl \<noteq> ?i"
        by (metis first_stop_def probe_at_def)
      ultimately show ?thesis using i by (simp add: probe_at_upd stops_def)
    qed
    then show ?thesis using True by (auto simp: on_path_def)
  next
    case False
    with h have h': "sl ! j = Holds bs'" by simp
    with assms(3) j have ne: "bs' \<noteq> bs" by (auto simp: held_iff)
    from slots_okD [OF assms(1) j h'] obtain k' where k': "(fnv bs' + k') mod length sl = j"
      "\<And>l. l < k' \<Longrightarrow> probe_at sl bs' l \<noteq> Vacant \<and> probe_at sl bs' l \<noteq> Holds bs'"
      by (rule on_pathE) blast
    with ne i show ?thesis by (auto simp: on_path_def probe_at_upd intro!: exI [of _ k'])
  qed
  with assms(1) show ?thesis by (simp add: slots_ok_def)
qed

lemma slots_ok_remove:
  assumes "slots_ok sl" and "i < length sl"
  shows "slots_ok (sl[i := Removed])" (is "slots_ok ?sl'")
proof -
  have "on_path ?sl' bs' j" if j: "j < length sl" and h: "?sl' ! j = Holds bs'" for j bs'
  proof -
    from h assms(2) have h': "sl ! j = Holds bs'" by (cases "j = i") auto
    from slots_okD [OF assms(1) j h'] obtain k' where k': "(fnv bs' + k') mod length sl = j"
      "\<And>l. l < k' \<Longrightarrow> probe_at sl bs' l \<noteq> Vacant \<and> probe_at sl bs' l \<noteq> Holds bs'"
      by (rule on_pathE) blast
    with assms(2) show ?thesis by (auto simp: on_path_def probe_at_upd intro!: exI [of _ k'])
  qed
  with assms(1) show ?thesis by (simp add: slots_ok_def)
qed

lemma held_insert:
  assumes "i < length sl" and "sl ! i = Vacant \<or> sl ! i = Removed"
  shows "held (sl[i := Holds bs]) = insert bs (held sl)"
proof -
  have "j \<noteq> i" if "sl ! j = Holds b" for j b using that assms(2) by auto
  with assms(1) have "b \<in> held (sl[i := Holds bs]) \<longleftrightarrow> b \<in> insert bs (held sl)" for b
    unfolding held_iff by (metis held_iff insert_iff length_list_update nth_list_update slot.inject)
  then show ?thesis by blast
qed

lemma held_remove:
  assumes "slots_ok sl" and "i < length sl" and "sl ! i = Holds bs"
  shows "held (sl[i := Removed]) = held sl - {bs}"
proof -
  have "j = i" if "j < length sl" "sl ! j = Holds bs" for j
    using slots_unique [OF assms(1) that assms(2,3)] .
  with assms(2,3) have "b \<in> held (sl[i := Removed]) \<longleftrightarrow> b \<in> held sl - {bs}" for b
    unfolding held_iff Diff_iff singleton_iff length_list_update
    by (metis nth_list_update slot.distinct(6) slot.inject)
  then show ?thesis by blast
qed

lemma held_finite: "finite (held sl)" and card_held_le: "card (held sl) \<le> length sl"
proof -
  have "Holds ` held sl \<subseteq> set sl" by (auto simp: held_def)
  moreover have inj: "inj_on Holds (held sl)" by (auto simp: inj_on_def)
  ultimately show "finite (held sl)" by (meson List.finite_set finite_imageD finite_subset)
  from inj \<open>Holds ` held sl \<subseteq> set sl\<close> have "card (held sl) \<le> card (set sl)"
    by (metis List.finite_set card_image card_mono)
  also have "\<dots> \<le> length sl" by (rule card_length)
  finally show "card (held sl) \<le> length sl" .
qed

lemma held_replicate [simp]: "held (replicate n Vacant) = {}"
  by (auto simp: held_def)

lemma slots_ok_replicate: "0 < n \<Longrightarrow> slots_ok (replicate n Vacant)"
  by (simp add: slots_ok_def)

text \<open>A table without removed slots that is not full of keys has a free slot.\<close>

lemma vacant_exists:
  assumes "slots_ok sl" and "card (held sl) < length sl" and "Removed \<notin> set sl"
  shows "Vacant \<in> set sl"
proof (rule ccontr)
  assume "Vacant \<notin> set sl"
  with assms(3) have all: "\<exists>bs. sl ! i = Holds bs" if "i < length sl" for i
    using that nth_mem [of i sl] by (cases "sl ! i") auto
  have "distinct sl"
    using slots_unique [OF assms(1)] all by (metis distinct_conv_nth)
  then have "card (set sl) = length sl" by (rule distinct_card)
  moreover have "set sl \<subseteq> Holds ` held sl" using all by (metis held_iff image_eqI in_set_conv_nth subsetI)
  then have "set sl = Holds ` held sl" by (auto simp: held_def)
  moreover have "inj_on Holds (held sl)" by (auto simp: inj_on_def)
  ultimately have "card (held sl) = length sl" by (metis card_image)
  with assms(2) show False by simp
qed

end
