(* ===== verification/Hash_Correct.thy ===== *)
theory Hash_Correct
  imports Hash_Slots Avx2
begin

text \<open>
  The hash table of \<^theory_text>\<open>Hash\<close> implements a set of keys: the concrete probe finds the stop of
  \<^theory_text>\<open>Hash_Slots\<close>, growth keeps the keys, and the contract \<open>key_set\<close> its clients rely on holds for
  every memory comparison that satisfies \<open>mem_compare\<close> for the keys. The last section has the properties, for
  the comparisons of the two builds, those of tables with removed keys included.
\<close>

section \<open>Tables and their slots\<close>

definition readable :: "mem \<Rightarrow> cldm_ht_entry \<Rightarrow> bool" where
  "readable m e \<longleftrightarrow> cldm_ht_slot_vacant e \<or> mem_rdn m (ent_key e) (unat (ent_size e)) \<noteq> None"

definition slot_of :: "mem \<Rightarrow> cldm_ht_entry \<Rightarrow> slot" where
  "slot_of m e =
     (if status e = 0 then Vacant
      else if cldm_ht_slot_vacant e then Removed
      else Holds (the (mem_rdn m (ent_key e) (unat (ent_size e)))))"

text \<open>A key: an entry that points to the bytes \<open>bs\<close>.\<close>

definition key_entry :: "mem \<Rightarrow> cldm_ht_entry \<Rightarrow> u8 list \<Rightarrow> bool" where
  "key_entry m e bs \<longleftrightarrow>
     1 < unat (ent_key e) \<and> bytes_at m (ent_key e) bs \<and> length bs = unat (ent_size e)"

definition ht_view :: "mem \<Rightarrow> cldm_ht \<Rightarrow> slot list \<Rightarrow> bool" where
  "ht_view m ht sl \<longleftrightarrow>
     (\<exists>es. cldm_ht_storage ht = Some es \<and> length es = unat (ht_capacity ht) \<and>
           31 \<le> length es \<and> (\<forall>e \<in> set es. readable m e) \<and> sl = map (slot_of m) es)"

lemma slot_vacant_nat: "cldm_ht_slot_vacant e \<longleftrightarrow> unat (ent_key e) \<le> 1"
  by (simp add: cldm_ht_slot_vacant_def status_def CLDM_HASH_VACANT_def word_le_nat_alt)

lemma key_entry_slot: "key_entry m e bs \<Longrightarrow> readable m e \<and> slot_of m e = Holds bs"
proof -
  assume k: "key_entry m e bs"
  then have "mem_rdn m (ent_key e) (unat (ent_size e)) = Some bs"
    by (auto simp: key_entry_def mem_rdn_bytes_at)
  moreover have "\<not> cldm_ht_slot_vacant e" using k by (simp add: slot_vacant_nat key_entry_def)
  moreover from this have "status e \<noteq> 0" by (auto simp: slot_vacant_nat status_def)
  ultimately show ?thesis by (simp add: readable_def slot_of_def)
qed

lemma slot_of_holds:
  assumes "readable m e" and "slot_of m e = Holds bs" shows "key_entry m e bs"
proof -
  from assms(2) have v: "\<not> cldm_ht_slot_vacant e" by (auto simp: slot_of_def split: if_splits)
  with assms obtain xs where xs: "mem_rdn m (ent_key e) (unat (ent_size e)) = Some xs"
    by (auto simp: readable_def)
  with assms(2) v have "xs = bs" by (auto simp: slot_of_def split: if_splits)
  with xs v show ?thesis by (auto simp: key_entry_def mem_rdn_bytes_at slot_vacant_nat)
qed

lemma key_entry_iff: "readable m e \<Longrightarrow> slot_of m e = Holds bs \<longleftrightarrow> key_entry m e bs"
  using key_entry_slot slot_of_holds by blast

lemma slot_of_vacant: "slot_of m e = Vacant \<longleftrightarrow> status e = 0"
  by (simp add: slot_of_def)

lemma slot_of_removed: "slot_of m e = Removed \<longleftrightarrow> status e \<noteq> 0 \<and> cldm_ht_slot_vacant e"
  by (simp add: slot_of_def)

lemma zero_status_vacant: "status e = 0 \<Longrightarrow> cldm_ht_slot_vacant e"
  by (simp add: slot_vacant_nat status_def)

lemma slot_vacant_iff: "cldm_ht_slot_vacant e \<longleftrightarrow> slot_of m e = Vacant \<or> slot_of m e = Removed"
  using zero_status_vacant by (auto simp: slot_of_def)

lemma fnv1a_loop_bytes:
  "bytes_at m a bs \<Longrightarrow> n \<le> length bs \<Longrightarrow>
   fnv1a_loop m a n h = Some (foldl (\<lambda>h b. (h XOR ucast b) * CLDM_FNV_PRIME) h (take n bs))"
proof (induction n arbitrary: a bs h)
  case 0
  then show ?case by simp
next
  case (Suc n)
  then show ?case by (cases bs) simp_all
qed

lemma hash_entry_key: "key_entry m e bs \<Longrightarrow> cldm_hash_entry m e = Some (of_nat (fnv bs))"
proof -
  assume k: "key_entry m e bs"
  have "unat (ucast (ent_size e) :: u32) = length bs mod 2 ^ 32"
    using k by (simp add: key_entry_def unsigned_ucast_eq take_bit_nat_def)
  with k show ?thesis
    by (simp add: cldm_hash_entry_def cldm_hash_fnv1a_def fnv_def key_entry_def fnv1a_loop_bytes)
qed

lemma same_key:
  assumes "mem_compare cmp K" and "key_entry m e bs" and "key_entry m e' bs'" and "bs \<in> K" and "bs' \<in> K"
  shows "ent_size e = ent_size e' \<Longrightarrow>
           \<exists>d. cmp m (ent_key e) (ent_key e') (ent_size e') = Some d \<and> (d = 0 \<longleftrightarrow> bs = bs')"
    and "ent_size e \<noteq> ent_size e' \<Longrightarrow> bs \<noteq> bs'"
proof -
  show "\<exists>d. cmp m (ent_key e) (ent_key e') (ent_size e') = Some d \<and> (d = 0 \<longleftrightarrow> bs = bs')"
    if "ent_size e = ent_size e'"
    using assms that by (intro mem_compare.cmp_blocks [OF assms(1)]) (auto simp: key_entry_def)
  show "bs \<noteq> bs'" if "ent_size e \<noteq> ent_size e'"
    using assms(2,3) that by (auto simp: key_entry_def word_unat_eq_iff)
qed

text \<open>One round of the probe, and the whole probe.\<close>

lemma probe_step:
  assumes "mem_compare cmp K" and "key_entry m entry bs" and "readable m (es ! unat idx)"
    and "unat idx < length es" and "bs \<in> K" and held_K: "held (map (slot_of m) es) \<subseteq> K"
  shows "ht_probe_loop cmp m es capacity entry reuse idx =
     (if stops reuse bs (slot_of m (es ! unat idx)) then Some idx
      else ht_probe_loop cmp m es capacity entry reuse ((idx + 1) mod capacity))"
proof -
  let ?e = "es ! unat idx"
  consider "slot_of m ?e = Vacant" | "slot_of m ?e = Removed" |
    xs where "slot_of m ?e = Holds xs" by (cases "slot_of m ?e") auto
  then show ?thesis
  proof cases
    case 1
    with assms(4) show ?thesis
      by (subst ht_probe_loop.simps) (simp add: stops_def slot_of_vacant)
  next
    case 2
    then have "status (es ! unat idx) \<noteq> 0" "cldm_ht_slot_vacant (es ! unat idx)"
      by (simp_all add: slot_of_removed)
    with 2 assms(4) show ?thesis
      by (subst ht_probe_loop.simps) (simp add: stops_def)
  next
    case 3
    then have k: "key_entry m ?e xs" using assms(3) slot_of_holds by blast
    have "Holds xs \<in> set (map (slot_of m) es)" using 3 assms(4) by (metis image_eqI list.set_map nth_mem)
    then have xs: "xs \<in> K" using held_K by (auto simp: held_def)
    have v: "\<not> cldm_ht_slot_vacant ?e" using 3 slot_vacant_iff [of ?e m] by simp
    then have s: "status ?e \<noteq> 0" using zero_status_vacant by blast
    note sk = same_key [OF assms(1) k assms(2) xs assms(5)]
    show ?thesis
    proof (cases "ent_size ?e = ent_size entry")
      case True
      from sk(1) [OF True] obtain d where "cmp m (ent_key ?e) (ent_key entry) (ent_size entry) = Some d"
        "d = 0 \<longleftrightarrow> xs = bs" by blast
      with True v s 3 assms(4) show ?thesis
        by (subst ht_probe_loop.simps) (simp add: stops_def)
    next
      case False
      with sk(2) [OF False] v s 3 assms(4) show ?thesis
        by (subst ht_probe_loop.simps) (simp add: stops_def)
    qed
  qed
qed

lemma probe_loop_first:
  assumes "mem_compare cmp K" and "key_entry m entry bs" and "\<forall>e \<in> set es. readable m e"
    and n: "length es = unat capacity" "es \<noteq> []"
    and "first_stop reuse (map (slot_of m) es) bs k" and "j \<le> k"
    and K: "bs \<in> K" "held (map (slot_of m) es) \<subseteq> K"
  shows "ht_probe_loop cmp m es capacity entry reuse (of_nat ((fnv bs + j) mod length es)) =
    Some (of_nat ((fnv bs + k) mod length es))"
  using \<open>j \<le> k\<close>
proof (induction "k - j" arbitrary: j)
  case 0
  let ?i = "(fnv bs + k) mod length es"
  have i: "?i < length es" using n(2) by simp
  then have u: "unat (of_nat ?i :: u64) = ?i"
    using n(1) unat_lt2p [of capacity] by (simp add: unat_of_nat)
  have "stops reuse bs (slot_of m (es ! ?i))"
    using assms(6) i by (simp add: first_stop_def probe_at_def)
  with 0 show ?case
    using probe_step [OF assms(1,2) _ _ K, of "of_nat ?i"] assms(3) i u by simp
next
  case (Suc d)
  let ?i = "(fnv bs + j) mod length es"
  have i: "?i < length es" using n(2) by simp
  then have u: "unat (of_nat ?i :: u64) = ?i"
    using n(1) unat_lt2p [of capacity] by (simp add: unat_of_nat)
  from Suc.hyps have "j < k" by simp
  then have ns: "\<not> stops reuse bs (slot_of m (es ! ?i))"
    using assms(6) i by (auto simp: first_stop_def probe_at_def)
  have "unat ((of_nat ?i + 1) mod capacity :: u64) = (?i + 1) mod length es"
    using i n(1) unat_lt2p [of capacity] u
    by (simp add: unat_mod unat_add_nowrap)
  also have "\<dots> = (fnv bs + Suc j) mod length es" by (simp add: mod_simps)
  finally have next_idx: "(of_nat ?i + 1) mod capacity = (of_nat ((fnv bs + Suc j) mod length es) :: u64)"
    by (rule word_eq_of_nat)
  have "ht_probe_loop cmp m es capacity entry reuse (of_nat ?i) =
      ht_probe_loop cmp m es capacity entry reuse ((of_nat ?i + 1) mod capacity)"
    using probe_step [OF assms(1,2) _ _ K, of "of_nat ?i"] assms(3) i u ns by simp
  also have "\<dots> = Some (of_nat ((fnv bs + k) mod length es))"
    unfolding next_idx using Suc.hyps by (intro Suc.hyps(1)) auto
  finally show ?case .
qed

lemma ht_probe_first:
  assumes "mem_compare cmp K" and "key_entry m entry bs" and "ht_view m ht sl"
    and "first_stop reuse sl bs k" and "insert bs (held sl) \<subseteq> K"
  shows "cldm_ht_probe cmp m ht entry reuse = Some (of_nat ((fnv bs + k) mod length sl))"
proof -
  from assms(3) obtain es where es: "cldm_ht_storage ht = Some es" "length es = unat (ht_capacity ht)"
    "31 \<le> length es" "\<forall>e \<in> set es. readable m e" "sl = map (slot_of m) es" by (auto simp: ht_view_def)
  have ne: "ht_capacity ht \<noteq> 0" using es(2,3) by (metis not_one_le_zero numeral_le_one_iff order.trans semiring_norm(69) unsigned_0 zero_neq_numeral rel_simps(28) le_zero_eq)
  have f: "fnv bs < 2 ^ 64" by (simp add: fnv_def unat_lt2p [where 'a = 64, simplified])
  have "unat (of_nat (fnv bs) mod ht_capacity ht :: u64) = fnv bs mod length es"
    using f es(2) by (simp add: unat_mod unat_of_nat)
  then have h: "of_nat (fnv bs) mod ht_capacity ht = (of_nat (fnv bs mod length es) :: u64)"
    by (rule word_eq_of_nat)
  have "ht_probe_loop cmp m es (ht_capacity ht) entry reuse (of_nat ((fnv bs + 0) mod length es)) =
      Some (of_nat ((fnv bs + k) mod length es))"
    using assms es by (intro probe_loop_first) auto
  with ne h es(1,5) show ?thesis
    by (simp add: cldm_ht_probe_def hash_entry_key [OF assms(2)])
qed


section \<open>Tables of keys\<close>

text \<open>
  \<open>ht_wf\<close>: the table holds exactly the keys \<open>ks\<close>, at most half full, with a slot that was never
  used. \<open>ht_clean\<close>: moreover no key was removed since the storage was made.
\<close>

definition ht_wf :: "mem \<Rightarrow> cldm_ht \<Rightarrow> u8 list set \<Rightarrow> bool" where
  "ht_wf m ht ks \<longleftrightarrow>
     (\<exists>sl. ht_view m ht sl \<and> slots_ok sl \<and> held sl = ks \<and> unat (ht_size ht) = card ks \<and>
           2 * card ks \<le> length sl \<and> Vacant \<in> set sl)"

definition ht_clean :: "mem \<Rightarrow> cldm_ht \<Rightarrow> u8 list set \<Rightarrow> bool" where
  "ht_clean m ht ks \<longleftrightarrow>
     (\<exists>sl. ht_view m ht sl \<and> slots_ok sl \<and> held sl = ks \<and> unat (ht_size ht) = card ks \<and>
           2 * card ks \<le> length sl \<and> Removed \<notin> set sl)"

lemma ht_clean_wf: "ht_clean m ht ks \<Longrightarrow> ht_wf m ht ks"
proof -
  assume "ht_clean m ht ks"
  then obtain sl where sl: "ht_view m ht sl" "slots_ok sl" "held sl = ks" "unat (ht_size ht) = card ks"
    "2 * card ks \<le> length sl" "Removed \<notin> set sl" by (auto simp: ht_clean_def)
  moreover have "card ks < length sl" using sl(2,5) by (cases sl) (auto simp: slots_ok_def)
  ultimately have "Vacant \<in> set sl" by (intro vacant_exists) auto
  with sl show ?thesis by (auto simp: ht_wf_def)
qed

lemma ht_wf_finite: "ht_wf m ht ks \<Longrightarrow> finite ks"
  by (auto simp: ht_wf_def held_finite)

lemma ht_view_length: "ht_view m ht sl \<Longrightarrow> length sl = unat (ht_capacity ht)"
  by (auto simp: ht_view_def)

lemma ht_view_storage:
  assumes "ht_view m ht sl" and "i < length sl"
  obtains es where "cldm_ht_storage ht = Some es" "sl = map (slot_of m) es" "length es = length sl"
    "readable m (es ! i)" "slot_of m (es ! i) = sl ! i"
  using assms by (auto simp: ht_view_def)

lemma storage_set:
  assumes "cldm_ht_storage ht = Some es"
  shows "cldm_ht_storage (ht_set_storage ht xs) = Some xs"
  using assms by (auto simp: cldm_ht_storage_def ht_set_storage_def split: if_splits ht_un.splits)

lemma storage_size [simp]: "cldm_ht_storage (ht\<lparr>ht_size := n\<rparr>) = cldm_ht_storage ht"
  by (simp add: cldm_ht_storage_def)

lemma ht_set_storage_fields [simp]:
  "ht_capacity (ht_set_storage ht xs) = ht_capacity ht" "ht_size (ht_set_storage ht xs) = ht_size ht"
  by (simp_all add: ht_set_storage_def)

lemma ht_view_update:
  assumes "ht_view m ht sl" and "cldm_ht_storage ht = Some es" and "readable m e"
  shows "ht_view m ((ht_set_storage ht (es[i := e]))\<lparr>ht_size := n\<rparr>) (sl[i := slot_of m e])"
proof -
  have "\<forall>x \<in> set (es[i := e]). readable m x"
    using assms set_update_subset_insert [of es i e] by (auto simp: ht_view_def)
  with assms show ?thesis by (auto simp: ht_view_def storage_set map_update)
qed

lemma unat_index: "i < length sl \<Longrightarrow> ht_view m ht sl \<Longrightarrow> unat (of_nat i :: u64) = i"
  using unat_lt2p [of "ht_capacity ht"] by (simp add: ht_view_length unat_of_nat)

text \<open>A probe on a well-formed table.\<close>

lemma ht_probe_wf:
  assumes "mem_compare cmp (insert bs (held sl))" and "key_entry m entry bs" and "ht_view m ht sl" and "slots_ok sl"
    and "Vacant \<in> set sl" and "Removed \<in> set sl \<longrightarrow> \<not> reuse"
  obtains i es k where "cldm_ht_probe cmp m ht entry reuse = Some (of_nat i)" "i < length sl"
    "sl ! i = (if bs \<in> held sl then Holds bs else Vacant)"
    "cldm_ht_storage ht = Some es" "sl = map (slot_of m) es" "unat (of_nat i :: u64) = i"
    "i = (fnv bs + k) mod length sl" "first_stop reuse sl bs k"
proof -
  from assms(5) obtain v where "v < length sl" "sl ! v = Vacant" by (auto simp: in_set_conv_nth)
  then obtain k where k: "first_stop reuse sl bs k"
    using first_stop_exists [of v sl reuse bs] by (auto simp: stops_def)
  let ?i = "(fnv bs + k) mod length sl"
  have i: "?i < length sl" using assms(4) by (simp add: slots_ok_def)
  have "sl ! ?i = (if bs \<in> held sl then Holds bs else Vacant)"
    using probe_find [OF assms(4), of bs k] probe_insert [OF assms(4), of bs k] k assms(6)
    by (cases reuse) (auto simp: probe_at_def)
  moreover obtain es where "cldm_ht_storage ht = Some es" "sl = map (slot_of m) es"
    using assms(3) by (auto simp: ht_view_def)
  ultimately show thesis
    using that [OF ht_probe_first [OF assms(1-3) k subset_refl] i _ _ _ unat_index [OF i assms(3)] refl k] by blast
qed

lemma cldm_ht_find':
  assumes "mem_compare cmp (insert bs ks)" and "key_entry m entry bs" and "ht_wf m ht ks"
  shows "\<exists>r. cldm_ht_find cmp m ht entry = Some r \<and> (r = None \<longleftrightarrow> bs \<notin> ks) \<and>
     (\<forall>i. r = Some i \<longrightarrow> (\<exists>es. cldm_ht_storage ht = Some es \<and> unat i < length es \<and>
                                    key_entry m (es ! unat i) bs))"
proof -
  from assms(3) obtain sl where sl: "ht_view m ht sl" "slots_ok sl" "held sl = ks" "Vacant \<in> set sl"
    by (auto simp: ht_wf_def)
  from assms(1)[folded sl(3)] assms(2) sl(1,2,4) obtain i es where p: "cldm_ht_probe cmp m ht entry False = Some (of_nat i)"
    "i < length sl" "sl ! i = (if bs \<in> held sl then Holds bs else Vacant)"
    "cldm_ht_storage ht = Some es" "sl = map (slot_of m) es" "unat (of_nat i :: u64) = i"
    by (rule ht_probe_wf) auto
  have "readable m (es ! i)" using sl(1) p(2,4,5) by (auto simp: ht_view_def)
  with p sl(3) show ?thesis
    by (auto simp: cldm_ht_find_def slot_vacant_iff [of _ m] key_entry_iff)
qed

lemma cldm_ht_remove':
  assumes "mem_compare cmp (insert bs ks)" and "key_entry m entry bs" and "ht_wf m ht ks"
  shows "\<exists>ht'. cldm_ht_remove cmp m ht entry = Some (bs \<in> ks, ht') \<and> ht_wf m ht' (ks - {bs})"
proof -
  from assms(3) obtain sl where sl: "ht_view m ht sl" "slots_ok sl" "held sl = ks" "Vacant \<in> set sl"
    "unat (ht_size ht) = card ks" "2 * card ks \<le> length sl" by (auto simp: ht_wf_def)
  from assms(1)[folded sl(3)] assms(2) sl(1,2,4) obtain i es where p: "cldm_ht_probe cmp m ht entry False = Some (of_nat i)"
    "i < length sl" "sl ! i = (if bs \<in> held sl then Holds bs else Vacant)"
    "cldm_ht_storage ht = Some es" "sl = map (slot_of m) es" "unat (of_nat i :: u64) = i"
    by (rule ht_probe_wf) auto
  show ?thesis
  proof (cases "bs \<in> ks")
    case False
    with p sl(3) assms(3) show ?thesis
      by (auto simp: cldm_ht_remove_def slot_vacant_iff [of _ m])
  next
    case True
    let ?e = "(es ! i)\<lparr>ent_key := CLDM_HASH_VACANT\<rparr>"
    let ?ht = "(ht_set_storage ht (es[i := ?e]))\<lparr>ht_size := ht_size ht - 1\<rparr>"
    have fin: "finite ks" by (rule ht_wf_finite [OF assms(3)])
    have e: "readable m ?e" "slot_of m ?e = Removed"
      by (simp_all add: readable_def slot_of_removed slot_vacant_nat status_def CLDM_HASH_VACANT_def)
    from p True sl(3) have h: "sl ! i = Holds bs" by simp
    have v: "ht_view m ?ht (sl[i := Removed])" using ht_view_update [OF sl(1) p(4) e(1)] e(2) by simp
    obtain w where "w < length sl" "sl ! w = Vacant" using sl(4) by (auto simp: in_set_conv_nth)
    then have "Vacant \<in> set (sl[i := Removed])"
      using h by (metis in_set_conv_nth length_list_update nth_list_update_neq slot.distinct(3))
    moreover have c: "0 < card ks" using True fin by (auto simp: card_gt_0_iff)
    then have "unat (ht_size ht - 1) = card (ks - {bs})"
      using True fin sl(5) by (subst unat_sub_nowrap) (auto simp: card_Diff_singleton)
    moreover have "held (sl[i := Removed]) = ks - {bs}"
      using held_remove [OF sl(2) p(2) h] sl(3) by simp
    ultimately have "ht_wf m ?ht (ks - {bs})"
      unfolding ht_wf_def using v slots_ok_remove [OF sl(2) p(2)] sl(6) fin True c
      by (intro exI [of _ "sl[i := Removed]"]) (auto simp: card_Diff_singleton)
    moreover have "cldm_ht_remove cmp m ht entry = Some (True, ?ht)"
      using p h by (simp add: cldm_ht_remove_def slot_vacant_iff [of _ m])
    ultimately show ?thesis using True by auto
  qed
qed

text \<open>Insertion without growth.\<close>

definition has_room :: "cldm_ht \<Rightarrow> nat \<Rightarrow> bool" where
  "has_room ht n \<longleftrightarrow> n \<le> unat (ht_capacity ht) div 2"

lemma should_expand_nat:
  assumes "unat (ht_size ht) < 2 ^ 64 - 1"
  shows "cldm_ht_should_expand ht \<longleftrightarrow> \<not> has_room ht (Suc (unat (ht_size ht)))"
proof -
  have "unat (drop_bit 1 (ht_capacity ht)) = unat (ht_capacity ht) div 2"
    by (simp add: drop_bit_eq_div unat_div)
  then show ?thesis
    using assms by (simp add: cldm_ht_should_expand_def has_room_def word_less_nat_alt unat_add_nowrap not_le)
qed

definition insert_step ::
  "(mem \<Rightarrow> u64 \<Rightarrow> u64 \<Rightarrow> u64 \<Rightarrow> int option) \<Rightarrow> mem \<Rightarrow> cldm_ht \<Rightarrow> cldm_ht_entry \<Rightarrow>
   (u64 option \<times> cldm_ht) option" where
  "insert_step cmp m ht entry =
     do { slot \<leftarrow> cldm_ht_probe cmp m ht entry True;
          entries \<leftarrow> cldm_ht_storage ht;
          if \<not> cldm_ht_slot_vacant (entries ! unat slot) then Some (None, ht)
          else Some (Some slot,
                     (ht_set_storage ht (entries[unat slot := entry]))\<lparr>ht_size := ht_size ht + 1\<rparr>) }"

lemma ht_insert_unfold:
  "ht_insert (Suc d) cmp alloc m ht entry =
     do { (ok, ht) \<leftarrow> (if cldm_ht_should_expand ht
                       then cldm_ht_expand (ht_insert d cmp alloc m) alloc ht else Some (True, ht));
          if \<not> ok then Some (None, ht) else insert_step cmp m ht entry }"
  unfolding ht_insert.simps insert_step_def by (rule refl)

text \<open>The result of an insertion and the key it leaves in the slot returned.\<close>

definition stored :: "mem \<Rightarrow> cldm_ht \<Rightarrow> u64 option \<Rightarrow> cldm_ht_entry \<Rightarrow> bool" where
  "stored m ht r entry \<longleftrightarrow>
     (\<forall>i. r = Some i \<longrightarrow> (\<exists>es. cldm_ht_storage ht = Some es \<and> unat i < length es \<and> es ! unat i = entry))"

lemma insert_step_clean:
  assumes "mem_compare cmp (insert bs ks)" and "key_entry m entry bs" and "ht_clean m ht ks"
    and "has_room ht (Suc (card ks))"
  shows "\<exists>r ht'. insert_step cmp m ht entry = Some (r, ht') \<and> (r = None \<longleftrightarrow> bs \<in> ks) \<and>
     stored m ht' r entry \<and> ht_clean m ht' (insert bs ks) \<and> ht_capacity ht' = ht_capacity ht"
proof -
  from assms(3) obtain sl where sl: "ht_view m ht sl" "slots_ok sl" "held sl = ks"
    "unat (ht_size ht) = card ks" "2 * card ks \<le> length sl" "Removed \<notin> set sl"
    by (auto simp: ht_clean_def)
  have "card ks < length sl" using sl(2,5) by (cases sl) (auto simp: slots_ok_def)
  then have "Vacant \<in> set sl" using sl by (intro vacant_exists) auto
  with assms(1)[folded sl(3)] assms(2) sl(1,2) sl(6) obtain i es k where p: "cldm_ht_probe cmp m ht entry True = Some (of_nat i)"
    "i < length sl" "sl ! i = (if bs \<in> held sl then Holds bs else Vacant)"
    "cldm_ht_storage ht = Some es" "sl = map (slot_of m) es" "unat (of_nat i :: u64) = i"
    "i = (fnv bs + k) mod length sl" "first_stop True sl bs k"
    by (rule_tac ht_probe_wf [of cmp bs sl m entry ht True]) auto
  show ?thesis
  proof (cases "bs \<in> ks")
    case True
    with p sl(3) assms(3) show ?thesis
      by (auto simp: insert_step_def slot_vacant_iff [of _ m] stored_def insert_absorb)
  next
    case False
    let ?ht = "(ht_set_storage ht (es[i := entry]))\<lparr>ht_size := ht_size ht + 1\<rparr>"
    let ?sl = "sl[i := Holds bs]"
    have fin: "finite ks" using sl(3) held_finite by blast
    from p False sl(3) have h: "sl ! i = Vacant" by simp
    have room: "2 * Suc (card ks) \<le> length sl"
      using assms(4) ht_view_length [OF sl(1)] by (simp add: has_room_def)
    have "card ks < 2 ^ 64 - 1" using room ht_view_length [OF sl(1)] unat_lt2p [of "ht_capacity ht"] by simp
    then have "unat (ht_size ht + 1) = Suc (card ks)" using sl(4) by (simp add: unat_add_nowrap)
    moreover have "ht_view m ?ht ?sl"
      using ht_view_update [OF sl(1) p(4)] key_entry_slot [OF assms(2)] by metis
    moreover have "slots_ok ?sl" using slots_ok_insert [OF sl(2) p(8)] False sl(3) p(7) by simp
    moreover have "held ?sl = insert bs ks" using held_insert p(2) h sl(3) by metis
    moreover have "Removed \<notin> set ?sl" using sl(6) set_update_subset_insert [of sl i "Holds bs"] by auto
    ultimately have "ht_clean m ?ht (insert bs ks)"
      unfolding ht_clean_def using room fin False by (intro exI [of _ ?sl]) auto
    moreover have "insert_step cmp m ht entry = Some (Some (of_nat i), ?ht)"
      using p h by (simp add: insert_step_def slot_vacant_iff [of _ m])
    moreover have "stored m ?ht (Some (of_nat i)) entry"
      using p storage_set [OF p(4)] by (simp add: stored_def)
    ultimately show ?thesis using False by auto
  qed
qed


section \<open>Growth\<close>

lemma sizeup_loop_spec:
  "odd (unat c) \<Longrightarrow> unat c \<le> P \<Longrightarrow> odd P \<Longrightarrow> prime_test P \<Longrightarrow> P < 2 ^ 61 \<Longrightarrow>
   \<exists>r. ht_sizeup_loop c = Some r \<and> unat c \<le> unat r \<and> unat r \<le> P \<and> odd (unat r) \<and>
     prime_test (unat r) \<and> (\<forall>n. odd n \<and> unat c \<le> n \<and> n < unat r \<longrightarrow> \<not> prime_test n)"
proof (induction "P - unat c" arbitrary: c rule: less_induct)
  case less
  have p: "cldm_is_prime c = Some (prime_test (unat c))"
    using less.prems(2,5) by (intro cldm_is_prime_exact') simp
  show ?case
  proof (cases "prime_test (unat c)")
    case True
    with p less.prems show ?thesis by (subst ht_sizeup_loop.simps) auto
  next
    case False
    with less.prems have "unat c \<noteq> P" by auto
    then have le: "unat c + 2 \<le> P" using less.prems(1-3) by presburger
    then have c2: "unat (c + 2) = unat c + 2"
      using less.prems(5) by (simp add: unat_add_nowrap)
    moreover have "P - unat (c + 2) < P - unat c" using le c2 by linarith
    ultimately obtain r where r: "ht_sizeup_loop (c + 2) = Some r" "unat c + 2 \<le> unat r" "unat r \<le> P"
      "odd (unat r)" "prime_test (unat r)"
      "\<forall>n. odd n \<and> unat c + 2 \<le> n \<and> n < unat r \<longrightarrow> \<not> prime_test n"
      using less.hyps [of "c + 2"] less.prems le by auto
    have "\<not> prime_test n" if "odd n" "unat c \<le> n" "n < unat r" for n
    proof (cases "n = unat c")
      case False
      then have "unat c + 2 \<le> n" using that(1,2) less.prems(1) by presburger
      with r(6) that show ?thesis by blast
    qed (use \<open>\<not> prime_test (unat c)\<close> in simp)
    with r(1-5) p False show ?thesis by (subst ht_sizeup_loop.simps) auto
  qed
qed

lemma sizeup_start: "unat c < 2 ^ 63 \<Longrightarrow> unat (push_bit 1 c OR 1 :: u64) = 2 * unat c + 1"
proof -
  assume c: "unat c < 2 ^ 63"
  have p: "push_bit 1 c = 2 * c" by (simp add: push_bit_eq_mult)
  have u: "unat (2 * c) = 2 * unat c" using c by (simp add: unat_mult_nowrap)
  have "push_bit 1 c OR 1 = 2 * c + 1" unfolding p or_one_eq by simp
  with u c show ?thesis by (simp add: unat_add_nowrap)
qed

lemma cldm_ht_sizeup':
  assumes "unat c < 2 ^ 32"
  shows "\<exists>r. cldm_ht_sizeup c = Some r \<and> 2 * unat c + 1 \<le> unat r \<and> unat r \<le> 7 * (2 * unat c + 1) \<and>
    odd (unat r) \<and> prime_test (unat r) \<and>
    (\<forall>n. odd n \<and> 2 * unat c + 1 \<le> n \<and> n < unat r \<longrightarrow> \<not> prime_test n)"
proof -
  let ?k = "2 * unat c + 1"
  obtain a where a: "7 ^ a \<le> ?k" "?k < 7 ^ (a + 1)" using ex_power_ivl1 [of 7 ?k] by auto
  then have "(7 :: nat) ^ (a + 1) \<le> 7 * ?k" by simp
  moreover have "unat (push_bit 1 c OR 1 :: u64) = ?k" using assms by (intro sizeup_start) simp
  moreover have "odd ((7 :: nat) ^ (a + 1))" by simp
  moreover have "(7 :: nat) ^ (a + 1) < 2 ^ 61" using calculation(1) assms by simp
  ultimately show ?thesis
    using sizeup_loop_spec [of "push_bit 1 c OR 1" "7 ^ (a + 1)"] a(2) prime_test_pow7 [of "a + 1"]
    by (auto simp: cldm_ht_sizeup_def)
qed

lemma ht_clean_size: "ht_clean m ht ks \<Longrightarrow> unat (ht_size ht) = card ks \<and> card ks < 2 ^ 63"
  using unat_lt2p [of "ht_capacity ht"] ht_view_length [of m ht] by (fastforce simp: ht_clean_def)

lemma clean_should_expand:
  "ht_clean m ht ks \<Longrightarrow> cldm_ht_should_expand ht \<longleftrightarrow> \<not> has_room ht (Suc (card ks))"
  using ht_clean_size [of m ht ks] should_expand_nat [of ht] by simp

lemma ht_insert_room:
  "ht_clean m ht ks \<Longrightarrow> has_room ht (Suc (card ks)) \<Longrightarrow>
   ht_insert (Suc d) cmp alloc m ht entry = insert_step cmp m ht entry"
  by (simp only: ht_insert_unfold) (simp add: clean_should_expand)

text \<open>The keys of a list of entries, and the rehashing of them into a table with room for all.\<close>

lemma ht_rehash_clean:
  assumes "mem_compare cmp K"
  shows "\<forall>e \<in> set es. readable m e \<and> slot_of m e \<noteq> Removed \<Longrightarrow> ht_clean m ht ks \<Longrightarrow>
    has_room ht (card ks + length es) \<Longrightarrow> ks \<union> held (map (slot_of m) es) \<subseteq> K \<Longrightarrow>
    \<exists>ht'. ht_rehash (ht_insert (Suc d) cmp alloc m) es ht = Some ht' \<and>
      ht_clean m ht' (ks \<union> held (map (slot_of m) es)) \<and> ht_capacity ht' = ht_capacity ht"
proof (induction es arbitrary: ht ks)
  case Nil
  then show ?case by (auto simp: held_def)
next
  case (Cons e es)
  show ?case
  proof (cases "status e = 0")
    case True
    then have "held (map (slot_of m) (e # es)) = held (map (slot_of m) es)"
      by (auto simp: held_def slot_of_def)
    with True Cons show ?thesis by (simp add: has_room_def)
  next
    case False
    then obtain bs where bs: "slot_of m e = Holds bs"
      using Cons.prems(1) slot_of_vacant [of m e] by (cases "slot_of m e") auto
    then have k: "key_entry m e bs" using Cons.prems(1) slot_of_holds by auto
    have fin: "finite ks" using Cons.prems(2) ht_clean_wf ht_wf_finite by blast
    have room: "has_room ht (Suc (card ks))" using Cons.prems(3) by (simp add: has_room_def)
    have "bs \<in> held (map (slot_of m) (e # es))" using bs by (simp add: held_def)
    then have "insert bs ks \<subseteq> K" using Cons.prems(4) by blast
    from insert_step_clean [OF mem_compare_subset [OF assms this] k Cons.prems(2) room] obtain r ht1 where
      1: "ht_insert (Suc d) cmp alloc m ht e = Some (r, ht1)" "ht_clean m ht1 (insert bs ks)"
        "ht_capacity ht1 = ht_capacity ht"
      using ht_insert_room [OF Cons.prems(2) room] by metis
    have "card (insert bs ks) \<le> Suc (card ks)" by (simp add: card_insert_if fin)
    then have "has_room ht1 (card (insert bs ks) + length es)"
      using Cons.prems(3) 1(3) by (simp add: has_room_def)
    moreover have keys: "insert bs ks \<union> held (map (slot_of m) es) = ks \<union> held (map (slot_of m) (e # es))"
      using bs by (auto simp: held_def)
    ultimately obtain ht' where
      "ht_rehash (ht_insert (Suc d) cmp alloc m) es ht1 = Some ht'"
      "ht_clean m ht' (insert bs ks \<union> held (map (slot_of m) es))" "ht_capacity ht' = ht_capacity ht1"
      using Cons.IH [OF _ 1(2)] Cons.prems(1,4) by (auto simp del: ht_insert.simps)
    with keys show ?thesis using False 1 by (simp del: ht_insert.simps)
  qed
qed

lemma fresh_view:
  assumes "31 < unat c"
  shows "ht_view m \<lparr>t_un = HtDyn (replicate (unat c) zero_entry), ht_size = 0, ht_capacity = c\<rparr>
           (replicate (unat c) Vacant)"
proof -
  have "slot_of m zero_entry = Vacant" "readable m zero_entry"
    by (simp_all add: slot_of_vacant readable_def slot_vacant_nat status_def zero_entry_def)
  with assms show ?thesis
    by (auto simp: ht_view_def cldm_ht_storage_def cldm_ht_static_capacity_def)
qed

lemma fresh_clean:
  "31 < unat c \<Longrightarrow>
   ht_clean m \<lparr>t_un = HtDyn (replicate (unat c) zero_entry), ht_size = 0, ht_capacity = c\<rparr> {}"
  using fresh_view [of c m] slots_ok_replicate [of "unat c"]
  by (auto simp: ht_clean_def intro!: exI [of _ "replicate (unat c) Vacant"])

lemma init_clean: "ht_clean m cldm_ht_init {}"
proof -
  have "slot_of m zero_entry = Vacant" "readable m zero_entry"
    by (simp_all add: slot_of_vacant readable_def slot_vacant_nat status_def zero_entry_def)
  then have "ht_view m cldm_ht_init (replicate 31 Vacant)"
    by (auto simp: ht_view_def cldm_ht_init_def cldm_ht_storage_def cldm_ht_static_capacity_def)
  moreover have "slots_ok (replicate 31 Vacant)" by (rule slots_ok_replicate) simp
  ultimately show ?thesis
    by (auto simp: ht_clean_def cldm_ht_init_def intro!: exI [of _ "replicate 31 Vacant"])
qed

text \<open>What a growth of a table without removed slots returns.\<close>

lemma expand_old:
  assumes "ht_view m ht sl"
  shows "(if ht_capacity ht = of_nat cldm_ht_static_capacity
          then (case t_un ht of HtStat xs \<Rightarrow> Some xs | _ \<Rightarrow> None)
          else (case t_un ht of HtDyn xs \<Rightarrow> Some xs | _ \<Rightarrow> None)) = cldm_ht_storage ht"
  using assms
  by (auto simp: ht_view_def cldm_ht_storage_def cldm_ht_static_capacity_def word_unat_eq_iff
      split: if_splits ht_un.splits)

lemma cldm_ht_expand_clean:
  assumes "mem_compare cmp ks" and "ht_clean m ht ks" and "unat (ht_capacity ht) < 2 ^ 32"
  shows "\<exists>c. cldm_ht_sizeup (ht_capacity ht) = Some c \<and>
     2 * unat (ht_capacity ht) + 1 \<le> unat c \<and> unat c \<le> 7 * (2 * unat (ht_capacity ht) + 1) \<and>
     (if alloc (unat c * 16)
      then \<exists>ht'. cldm_ht_expand (ht_insert (Suc d) cmp alloc m) alloc ht = Some (True, ht') \<and>
             ht_clean m ht' ks \<and> ht_capacity ht' = c
      else cldm_ht_expand (ht_insert (Suc d) cmp alloc m) alloc ht = Some (False, ht))"
proof -
  from cldm_ht_sizeup' [OF assms(3)] obtain c where c: "cldm_ht_sizeup (ht_capacity ht) = Some c"
    "2 * unat (ht_capacity ht) + 1 \<le> unat c" "unat c \<le> 7 * (2 * unat (ht_capacity ht) + 1)" by auto
  from assms(2) obtain sl where sl: "ht_view m ht sl" "held sl = ks" "Removed \<notin> set sl"
    by (auto simp: ht_clean_def)
  then obtain es where es: "cldm_ht_storage ht = Some es" "length es = unat (ht_capacity ht)"
    "31 \<le> length es" "\<forall>e \<in> set es. readable m e" "sl = map (slot_of m) es" by (auto simp: ht_view_def)
  have al: "c_alloc alloc (unat c * 16) \<longleftrightarrow> alloc (unat c * 16)"
    using c(3) assms(3) by (auto simp: c_alloc_def)
  let ?ht0 = "\<lparr>t_un = HtDyn (replicate (unat c) zero_entry), ht_size = 0, ht_capacity = c\<rparr>"
  have "ht_clean m ?ht0 {}" using c(2) es(2,3) by (intro fresh_clean) simp
  moreover have "has_room ?ht0 (card ({} :: u8 list set) + length es)"
    using c(2) es(2) by (simp add: has_room_def)
  moreover have "\<forall>e \<in> set es. readable m e \<and> slot_of m e \<noteq> Removed" using es(4,5) sl(3) by (metis image_eqI list.set_map)
  ultimately obtain ht' where ht': "ht_rehash (ht_insert (Suc d) cmp alloc m) es ?ht0 = Some ht'"
    "ht_clean m ht' (held (map (slot_of m) es))" "ht_capacity ht' = c"
    using ht_rehash_clean [OF assms(1), of es m ?ht0 "{}" d alloc] sl(2) es(5) by (auto simp del: ht_insert.simps)
  have "cldm_ht_expand (ht_insert (Suc d) cmp alloc m) alloc ht =
     (if alloc (unat c * 16) then Some (True, ht') else Some (False, ht))"
    using ht'(1) es(1,2) assms(3)
    by (simp add: cldm_ht_expand_def c(1) al expand_old [OF sl(1)] del: ht_insert.simps)
  with c ht'(2,3) es(5) sl(2) show ?thesis by (auto simp del: ht_insert.simps)
qed

text \<open>
  The tables a program gets by insertions alone: their capacity is at most linear in the number of
  keys.
\<close>

definition ht_built :: "mem \<Rightarrow> cldm_ht \<Rightarrow> u8 list set \<Rightarrow> bool" where
  "ht_built m ht ks \<longleftrightarrow> ht_clean m ht ks \<and> unat (ht_capacity ht) \<le> 28 * card ks + 31"

lemma cap_arith: "c \<le> 7 * (2 * p + 1) \<Longrightarrow> p \<le> 2 * k + 1 \<Longrightarrow> k \<le> k' \<Longrightarrow> c \<le> 28 * k' + (31 :: nat)"
  by simp

lemma ht_insert_built:
  assumes "mem_compare cmp (insert bs ks)" and "key_entry m entry bs" and "ht_built m ht ks" and "card ks < 2 ^ 27"
  shows "\<exists>r ht'. ht_insert (Suc (Suc d)) cmp alloc m ht entry = Some (r, ht') \<and>
     (if cldm_ht_should_expand ht \<and> \<not> (\<exists>c. cldm_ht_sizeup (ht_capacity ht) = Some c \<and> alloc (unat c * 16))
      then r = None \<and> ht' = ht
      else (r = None \<longleftrightarrow> bs \<in> ks) \<and> stored m ht' r entry \<and> ht_built m ht' (insert bs ks))"
proof -
  from assms(3,4) have cl: "ht_clean m ht ks" and cap: "unat (ht_capacity ht) < 2 ^ 32"
    "unat (ht_capacity ht) \<le> 28 * card ks + 31" by (auto simp: ht_built_def)
  have fin: "finite ks" using cl ht_clean_wf ht_wf_finite by blast
  then have ins: "card ks \<le> card (insert bs ks)" by (simp add: card_insert_le)
  show ?thesis
  proof (cases "cldm_ht_should_expand ht")
    case False
    then have room: "has_room ht (Suc (card ks))" using clean_should_expand [OF cl] by simp
    from insert_step_clean [OF assms(1,2) cl room] False cap(2) ins show ?thesis
      by (simp only: ht_insert_room [OF cl room]) (auto simp: ht_built_def)
  next
    case True
    from cldm_ht_expand_clean [OF mem_compare_subset [OF assms(1) subset_insertI] cl cap(1), of alloc d] obtain c where
      c: "cldm_ht_sizeup (ht_capacity ht) = Some c" "2 * unat (ht_capacity ht) + 1 \<le> unat c"
      "unat c \<le> 7 * (2 * unat (ht_capacity ht) + 1)" and
      ex: "if alloc (unat c * 16)
       then \<exists>ht'. cldm_ht_expand (ht_insert (Suc d) cmp alloc m) alloc ht = Some (True, ht') \<and>
              ht_clean m ht' ks \<and> ht_capacity ht' = c
       else cldm_ht_expand (ht_insert (Suc d) cmp alloc m) alloc ht = Some (False, ht)" by blast
    show ?thesis
    proof (cases "alloc (unat c * 16)")
      case False
      with ex c(1) True show ?thesis by (simp only: ht_insert_unfold) simp
    next
      case alloc: True
      with ex obtain ht1 where h1: "cldm_ht_expand (ht_insert (Suc d) cmp alloc m) alloc ht = Some (True, ht1)"
        "ht_clean m ht1 ks" "ht_capacity ht1 = c" by auto
      have full: "unat (ht_capacity ht) \<le> 2 * card ks + 1"
        using True clean_should_expand [OF cl] by (simp add: has_room_def)
      have old: "2 * card ks \<le> unat (ht_capacity ht)" "31 \<le> unat (ht_capacity ht)"
        using cl by (auto simp: ht_clean_def ht_view_def)
      have "has_room ht1 (Suc (card ks))" using c(2) h1(3) old by (simp add: has_room_def)
      from insert_step_clean [OF assms(1,2) h1(2) this] obtain r ht' where
        r: "insert_step cmp m ht1 entry = Some (r, ht')" "r = None \<longleftrightarrow> bs \<in> ks" "stored m ht' r entry"
        "ht_clean m ht' (insert bs ks)" "ht_capacity ht' = c" using h1(3) by auto
      have "unat (ht_capacity ht') \<le> 28 * card (insert bs ks) + 31"
        unfolding r(5) using cap_arith [OF c(3) full ins] .
      with r c(1) True alloc h1 show ?thesis
        by (simp only: ht_insert_unfold) (auto simp: ht_built_def)
    qed
  qed
qed


section \<open>Nesting of insertions\<close>

lemma probe_storage:
  assumes "cldm_ht_probe cmp m ht entry reuse = Some slot"
  obtains es where "cldm_ht_storage ht = Some es"
  using assms by (auto simp: cldm_ht_probe_def bind_eq_Some_conv)

lemma insert_step_fields:
  assumes "insert_step cmp m ht entry = Some (r, ht')"
  shows "ht_capacity ht' = ht_capacity ht" and "ht_size ht' = ht_size ht \<or> ht_size ht' = ht_size ht + 1"
  using assms by (auto simp: insert_step_def bind_eq_Some_conv split: if_splits)

lemma room_no_expand:
  "has_room ht (unat (ht_size ht) + Suc n) \<Longrightarrow> \<not> cldm_ht_should_expand ht"
proof -
  assume r: "has_room ht (unat (ht_size ht) + Suc n)"
  then have "unat (ht_size ht) < 2 ^ 64 - 1"
    using unat_lt2p [of "ht_capacity ht"] by (simp add: has_room_def)
  with r show ?thesis by (simp add: should_expand_nat) (simp add: has_room_def)
qed

lemma room_insert:
  "has_room ht (unat (ht_size ht) + Suc n) \<Longrightarrow> ht_insert (Suc d) cmp alloc m ht e = insert_step cmp m ht e"
  by (simp only: ht_insert_unfold) (simp add: room_no_expand)

lemma room_after_insert:
  assumes "has_room ht (unat (ht_size ht) + Suc n)" and "insert_step cmp m ht e = Some (r, ht')"
  shows "has_room ht' (unat (ht_size ht') + n)"
proof -
  have "unat (ht_size ht) < 2 ^ 64 - 1"
    using assms(1) unat_lt2p [of "ht_capacity ht"] by (simp add: has_room_def)
  then have "unat (ht_size ht + 1) = Suc (unat (ht_size ht))" by (simp add: unat_add_nowrap)
  with assms(1) insert_step_fields [OF assms(2)] show ?thesis by (auto simp: has_room_def)
qed

fun rehash_steps ::
  "(mem \<Rightarrow> u64 \<Rightarrow> u64 \<Rightarrow> u64 \<Rightarrow> int option) \<Rightarrow> mem \<Rightarrow> cldm_ht_entry list \<Rightarrow> cldm_ht \<Rightarrow> cldm_ht option" where
  "rehash_steps cmp m [] ht = Some ht"
| "rehash_steps cmp m (e # es) ht =
     (if status e \<noteq> 0
      then do { (r, ht) \<leftarrow> insert_step cmp m ht e; rehash_steps cmp m es ht }
      else rehash_steps cmp m es ht)"

lemma rehash_room:
  "has_room ht (unat (ht_size ht) + length es) \<Longrightarrow>
   ht_rehash (ht_insert (Suc d) cmp alloc m) es ht = rehash_steps cmp m es ht"
proof (induction es arbitrary: ht)
  case (Cons e es)
  then have r: "has_room ht (unat (ht_size ht) + Suc (length es))" by simp
  then have "has_room ht (unat (ht_size ht) + length es)" by (simp add: has_room_def)
  with Cons.IH room_insert [OF r] room_after_insert [OF r] show ?case
    by (cases "insert_step cmp m ht e") (auto simp del: ht_insert.simps)
qed simp

text \<open>The rehashing of a growth never grows: what \<open>cldm_ht_expand\<close> does whatever the nesting.\<close>

lemma expand_steps:
  "cldm_ht_expand (ht_insert (Suc d) cmp alloc m) alloc ht =
     cldm_ht_expand (\<lambda>ht e. insert_step cmp m ht e) alloc ht"
proof (cases "unat (ht_capacity ht) < 2 ^ 32")
  case False
  then have "2 ^ 32 \<le> unat (ht_capacity ht)" by simp
  then have "(2 ^ 32 \<le> unat (ht_capacity ht)) = True" by simp
  then show ?thesis unfolding cldm_ht_expand_def by (simp only: if_True)
next
  case True
  have steps: "ht_rehash (\<lambda>ht e. insert_step cmp m ht e) es ht = rehash_steps cmp m es ht" for es ht
  proof (induction es arbitrary: ht)
    case (Cons e es)
    then show ?case by (cases "insert_step cmp m ht e") auto
  qed simp
  from cldm_ht_sizeup' [OF True] obtain c where c: "cldm_ht_sizeup (ht_capacity ht) = Some c"
    "2 * unat (ht_capacity ht) + 1 \<le> unat c" by auto
  let ?ht0 = "\<lparr>t_un = HtDyn (replicate (unat c) zero_entry), ht_size = 0, ht_capacity = c\<rparr>"
  have "unat (ht_capacity ht) \<le> unat c div 2" using c(2) by linarith
  then have "ht_rehash (ht_insert (Suc d) cmp alloc m) (take (unat (ht_capacity ht)) old) ?ht0 =
      rehash_steps cmp m (take (unat (ht_capacity ht)) old) ?ht0" for old
    by (intro rehash_room) (simp add: has_room_def)
  then show ?thesis unfolding cldm_ht_expand_def c(1) bind.bind_lunit steps by (simp only:)
qed

lemma ht_insert_depth: "ht_insert (Suc (Suc d)) cmp alloc m ht e = cldm_ht_insert cmp alloc m ht e"
  unfolding cldm_ht_insert_def numeral_2_eq_2 by (simp only: ht_insert_unfold expand_steps)

lemma cldm_ht_insert_built:
  assumes "mem_compare cmp (insert bs ks)" and "key_entry m entry bs" and "ht_built m ht ks" and "card ks < 2 ^ 27"
  shows "\<exists>r ht'. cldm_ht_insert cmp alloc m ht entry = Some (r, ht') \<and>
     (if cldm_ht_should_expand ht \<and> \<not> (\<exists>c. cldm_ht_sizeup (ht_capacity ht) = Some c \<and> alloc (unat c * 16))
      then r = None \<and> ht' = ht
      else (r = None \<longleftrightarrow> bs \<in> ks) \<and> stored m ht' r entry \<and> ht_built m ht' (insert bs ks))"
  using ht_insert_built [OF assms, of 0 alloc] by (simp only: ht_insert_depth)

section \<open>Sets of keys\<close>

text \<open>
  What a client of the table relies on, and what follows for a run of insertions: \<open>inv t ks\<close> says that
  \<open>t\<close> holds the keys \<open>ks\<close>, \<open>key e k\<close> that \<open>e\<close> is an entry for \<open>k\<close>, \<open>refused t\<close> that an insertion
  into \<open>t\<close> needs memory it does not get.
\<close>

fun insert_all :: "('t \<Rightarrow> 'e \<Rightarrow> ('r option \<times> 't) option) \<Rightarrow> 't \<Rightarrow> 'e list \<Rightarrow> (bool list \<times> 't) option" where
  "insert_all ins t [] = Some ([], t)"
| "insert_all ins t (e # es) =
     do { (r, t) \<leftarrow> ins t e; (rs, t) \<leftarrow> insert_all ins t es; Some ((r \<noteq> None) # rs, t) }"

fun firsts :: "'k set \<Rightarrow> 'k list \<Rightarrow> bool list" where
  "firsts seen [] = []"
| "firsts seen (k # ks) = (k \<notin> seen) # firsts (insert k seen) ks"

locale key_set =
  fixes inv :: "'t \<Rightarrow> 'k set \<Rightarrow> bool"
    and key :: "'e \<Rightarrow> 'k \<Rightarrow> bool"
    and ins :: "'t \<Rightarrow> 'e \<Rightarrow> ('r option \<times> 't) option"
    and fnd :: "'t \<Rightarrow> 'e \<Rightarrow> 'r option option"
    and refused :: "'t \<Rightarrow> bool"
    and limit :: nat
  assumes inv_finite: "inv t ks \<Longrightarrow> finite ks"
    and ins_law: "inv t ks \<Longrightarrow> key e k \<Longrightarrow> card ks < limit \<Longrightarrow>
      \<exists>r t'. ins t e = Some (r, t') \<and>
        (if refused t then r = None \<and> t' = t else (r = None \<longleftrightarrow> k \<in> ks) \<and> inv t' (insert k ks))"
    and fnd_law: "inv t ks \<Longrightarrow> key e k \<Longrightarrow> \<exists>r. fnd t e = Some r \<and> (r = None \<longleftrightarrow> k \<notin> ks)"
begin

lemma insert_all_keys:
  assumes "\<And>t. \<not> refused t"
  shows "inv t seen \<Longrightarrow> list_all2 key es ks \<Longrightarrow> card seen + length ks \<le> limit \<Longrightarrow>
    \<exists>t'. insert_all ins t es = Some (firsts seen ks, t') \<and> inv t' (seen \<union> set ks)"
proof (induction es arbitrary: t seen ks)
  case Nil
  then show ?case by simp
next
  case (Cons e es)
  then obtain k ks' where ks: "ks = k # ks'" "key e k" "list_all2 key es ks'"
    by (auto simp: list_all2_Cons1)
  with Cons.prems(3) have "card seen < limit" by simp
  with ins_law [OF Cons.prems(1) ks(2)] assms obtain r t1 where
    1: "ins t e = Some (r, t1)" "r = None \<longleftrightarrow> k \<in> seen" "inv t1 (insert k seen)" by auto
  have "card (insert k seen) + length ks' \<le> limit"
    using Cons.prems(1,3) ks(1) inv_finite by (simp add: card_insert_if)
  with Cons.IH [OF 1(3) ks(3)] 1 ks(1) show ?case by auto
qed

lemma find_after_insert_all:
  assumes "\<And>t. \<not> refused t" and "inv t {}" and "list_all2 key es ks" and "length ks \<le> limit"
    and "key e k"
  shows "\<exists>t'. insert_all ins t es = Some (firsts {} ks, t') \<and>
    (\<exists>r. fnd t' e = Some r \<and> (r = None \<longleftrightarrow> k \<notin> set ks))"
  using insert_all_keys [OF assms(1-3)] assms(4) fnd_law [OF _ assms(5)] by auto

end

definition refuses :: "(nat \<Rightarrow> bool) \<Rightarrow> cldm_ht \<Rightarrow> bool" where
  "refuses alloc ht \<longleftrightarrow>
     cldm_ht_should_expand ht \<and> \<not> (\<exists>c. cldm_ht_sizeup (ht_capacity ht) = Some c \<and> alloc (unat c * 16))"

definition never_refused :: "cldm_ht \<Rightarrow> bool" where
  "never_refused ht \<longleftrightarrow> False"

text \<open>With memory for every request, the only insertions that return null are those of present keys.\<close>

context mem_compare
begin

lemma built_insert_unbounded:
  assumes "ht_built m ht ks" and "key_entry m e bs" and "card ks < 2 ^ 27" and "insert bs ks \<subseteq> K"
  shows "\<exists>r ht'. cldm_ht_insert cmp (\<lambda>n. True) m ht e = Some (r, ht') \<and>
    (r = None \<longleftrightarrow> bs \<in> ks) \<and> ht_built m ht' (insert bs ks)"
proof -
  have "unat (ht_capacity ht) < 2 ^ 32" using assms(1,3) by (auto simp: ht_built_def)
  then obtain c where "cldm_ht_sizeup (ht_capacity ht) = Some c" using cldm_ht_sizeup' by blast
  with cldm_ht_insert_built [OF mem_compare_subset [OF mem_compare_axioms assms(4)] assms(2,1,3), of "\<lambda>n. True"] show ?thesis by auto
qed

end

definition table_keys :: "u8 list set \<Rightarrow> mem \<Rightarrow> cldm_ht \<Rightarrow> u8 list set \<Rightarrow> bool" where
  "table_keys K m ht ks \<longleftrightarrow> ht_built m ht ks \<and> ks \<subseteq> K"

definition key_of :: "u8 list set \<Rightarrow> mem \<Rightarrow> cldm_ht_entry \<Rightarrow> u8 list \<Rightarrow> bool" where
  "key_of K m e bs \<longleftrightarrow> key_entry m e bs \<and> bs \<in> K"

lemma key_of_all: "list_all2 (key_entry m) es ks \<Longrightarrow> set ks \<subseteq> K \<Longrightarrow> list_all2 (key_of K m) es ks"
  by (induction es ks rule: list_all2_induct) (auto simp: key_of_def)

sublocale mem_compare \<subseteq> table: key_set "table_keys K m" "key_of K m" "cldm_ht_insert cmp (\<lambda>n. True) m"
    "cldm_ht_find cmp m" never_refused "2 ^ 27" for m
proof unfold_locales
  fix m t ks
  assume "table_keys K m t ks"
  then show "finite ks" by (auto simp: table_keys_def ht_built_def intro: ht_wf_finite ht_clean_wf)
next
  fix m t ks e k
  assume "table_keys K m t ks" "key_of K m e k" "card ks < 2 ^ 27"
  then have b: "ht_built m t ks" "key_entry m e k" "card ks < 2 ^ 27" "insert k ks \<subseteq> K"
    by (auto simp: table_keys_def key_of_def)
  from built_insert_unbounded [OF this]
  show "\<exists>r t'. cldm_ht_insert cmp (\<lambda>n. True) m t e = Some (r, t') \<and>
      (if never_refused t then r = None \<and> t' = t
       else (r = None \<longleftrightarrow> k \<in> ks) \<and> table_keys K m t' (insert k ks))"
    using b(4) by (auto simp: never_refused_def table_keys_def)
next
  fix m t ks e k
  assume "table_keys K m t ks" "key_of K m e k"
  then have k: "ht_wf m t ks" "key_entry m e k" "insert k ks \<subseteq> K"
    using ht_clean_wf by (auto simp: table_keys_def key_of_def ht_built_def)
  show "\<exists>r. cldm_ht_find cmp m t e = Some r \<and> (r = None \<longleftrightarrow> k \<notin> ks)"
    using cldm_ht_find' [OF mem_compare_subset [OF mem_compare_axioms k(3)] k(2,1)] by auto
qed

context mem_compare
begin

lemma find_after_insertions:
  assumes "list_all2 (key_entry m) es ks" and "length ks \<le> 2 ^ 27" and "key_entry m e k"
    and "ht_built m ht {}" and "insert k (set ks) \<subseteq> K"
  shows "\<exists>ht'. insert_all (cldm_ht_insert cmp (\<lambda>n. True) m) ht es = Some (firsts {} ks, ht') \<and>
    (\<exists>r. cldm_ht_find cmp m ht' e = Some r \<and> (r = None \<longleftrightarrow> k \<notin> set ks))"
  using assms
  by (intro table.find_after_insert_all) (auto simp: never_refused_def table_keys_def key_of_def intro: key_of_all)

end

lemma init_built: "ht_built m cldm_ht_init {}"
  by (simp add: ht_built_def init_clean) (simp add: cldm_ht_init_def cldm_ht_static_capacity_def)

section \<open>Correctness\<close>

text \<open>A memory in which the byte \<open>b\<close> is at \<open>0x1000 + b\<close>, for the examples.\<close>

definition byte_mem :: mem where
  "byte_mem a = (if 0x1000 \<le> a \<and> a < 0x1100 then Some (ucast a) else None)"

definition byte_key :: "u8 \<Rightarrow> cldm_ht_entry" where
  "byte_key b = \<lparr>ent_key = 0x1000 + ucast b, ent_size = 1\<rparr>"

lemma byte_key_entry: "key_entry byte_mem (byte_key b) [b]"
proof -
  have "unat (0x1000 + ucast b :: u64) = 0x1000 + unat b"
    using unat_lt2p [of b] by (simp add: unat_word_ariths unsigned_ucast_eq take_bit_nat_def)
  then have "byte_mem (0x1000 + ucast b) = Some (ucast (0x1000 + ucast b :: u64))"
    using unat_lt2p [of b] by (simp add: byte_mem_def word_le_nat_alt word_less_nat_alt)
  moreover have "ucast (0x1000 + ucast b :: u64) = b"
    using unat_lt2p [of b] mod_mult_self4 [of 256 16 "unat b"]
    by (simp add: word_unat_eq_iff unsigned_ucast_eq take_bit_nat_def unat_word_ariths mod_mod_cancel)
  ultimately show ?thesis
    using \<open>unat (0x1000 + ucast b :: u64) = 0x1000 + unat b\<close> by (simp add: key_entry_def byte_key_def)
qed

fun insert_bytes ::
  "(mem \<Rightarrow> u64 \<Rightarrow> u64 \<Rightarrow> u64 \<Rightarrow> int option) \<Rightarrow> u8 list \<Rightarrow> cldm_ht \<Rightarrow> cldm_ht option" where
  "insert_bytes cmp [] ht = Some ht"
| "insert_bytes cmp (b # bs) ht =
     do { (r, ht) \<leftarrow> cldm_ht_insert cmp (\<lambda>n. True) byte_mem ht (byte_key b);
          insert_bytes cmp bs ht }"

lemma insert_bytes_built:
  "mem_compare cmp (ks \<union> (\<lambda>b. [b]) ` set bs) \<Longrightarrow> ht_built byte_mem ht ks \<Longrightarrow> card ks + length bs \<le> 2 ^ 27 \<Longrightarrow>
   \<exists>ht'. insert_bytes cmp bs ht = Some ht' \<and> ht_built byte_mem ht' (ks \<union> (\<lambda>b. [b]) ` set bs)"
proof (induction bs arbitrary: ht ks)
  case (Cons b bs)
  have mc: "mem_compare cmp (insert [b] ks)"
    using Cons.prems(1) by (rule mem_compare_subset) auto
  have "ht_clean byte_mem ht ks" "card ks < 2 ^ 27" using Cons.prems(2,3) by (simp_all add: ht_built_def)
  then have "unat (ht_capacity ht) < 2 ^ 32" using Cons.prems(2) by (auto simp: ht_built_def)
  then obtain c where "cldm_ht_sizeup (ht_capacity ht) = Some c" using cldm_ht_sizeup' by blast
  with cldm_ht_insert_built [OF mc byte_key_entry Cons.prems(2) \<open>card ks < 2 ^ 27\<close>, of "\<lambda>n. True"] obtain r ht1 where
    1: "cldm_ht_insert cmp (\<lambda>n. True) byte_mem ht (byte_key b) = Some (r, ht1)" "ht_built byte_mem ht1 (insert [b] ks)"
    by auto
  have "finite ks" using \<open>ht_clean byte_mem ht ks\<close> ht_clean_wf ht_wf_finite by blast
  then have "card (insert [b] ks) + length bs \<le> 2 ^ 27" using Cons.prems(3) by (simp add: card_insert_if)
  moreover have "insert [b] ks \<union> (\<lambda>b. [b]) ` set bs = ks \<union> (\<lambda>b. [b]) ` set (b # bs)" by auto
  ultimately show ?case using Cons.IH [OF _ 1(2)] Cons.prems(1) 1(1) by simp
qed simp

text \<open>The comparisons of the two builds on the keys of the examples, and the tables with those keys.\<close>

abbreviation builds :: "(mem \<Rightarrow> u64 \<Rightarrow> u64 \<Rightarrow> u64 \<Rightarrow> int option) list" where
  "builds \<equiv> [cldm_avx2_memcmp, cldm_memcmp]"

lemma builds_bytes:
  assumes "cmp \<in> set builds" and "K \<subseteq> range (\<lambda>b. [b])"
  shows "build_memcmp cmp K"
  using assms by (auto simp: build_memcmp_def told_apart_def)

lemma byte_table:
  assumes "cmp \<in> set builds"
  shows "\<exists>ht. insert_bytes cmp [97] cldm_ht_init = Some ht \<and> ht_built byte_mem ht {[97]}"
    and "\<exists>ht. insert_bytes cmp [97, 70] cldm_ht_init = Some ht \<and> ht_built byte_mem ht {[97], [70]}"
  using insert_bytes_built [of cmp "{}" "[97]", OF build_memcmp_compares init_built]
    insert_bytes_built [of cmp "{}" "[97, 70]", OF build_memcmp_compares init_built]
  by (auto simp: insert_commute intro: builds_bytes [OF assms])

lemma built_wf: "ht_built m ht ks \<Longrightarrow> ht_wf m ht ks"
  by (simp add: ht_built_def ht_clean_wf)

lemma small_no_expand:
  assumes "ht_built m ht ks" and "card ks < 15"
  shows "\<not> cldm_ht_should_expand ht"
proof -
  from assms(1) have "ht_clean m ht ks" "31 \<le> unat (ht_capacity ht)"
    by (auto simp: ht_built_def ht_clean_def ht_view_def)
  with clean_should_expand [of m ht ks] assms(2) show ?thesis by (simp add: has_room_def)
qed

text \<open>
  C27: for a capacity below \<open>2 ^ 32\<close>, the new capacity is the least odd number above twice the old one
  that the primality test accepts, and it is at most seven times that: the search always ends.
\<close>

theorem cldm_ht_sizeup_correct:
  assumes "unat c < 2 ^ 32"
  shows "\<exists>r. cldm_ht_sizeup c = Some r \<and> 2 * unat c + 1 \<le> unat r \<and> unat r \<le> 7 * (2 * unat c + 1) \<and>
    odd (unat r) \<and> prime_test (unat r) \<and>
    (\<forall>n. odd n \<and> 2 * unat c + 1 \<le> n \<and> n < unat r \<longrightarrow> \<not> prime_test n)"
  by (rule cldm_ht_sizeup' [OF assms])

theorem cldm_ht_sizeup_correct_witness: "\<exists>r. cldm_ht_sizeup 31 = Some r \<and> 63 \<le> unat r \<and> unat r \<le> 441"
  using cldm_ht_sizeup_correct [of 31] by auto

text \<open>The growth steps of the static table; the second one is followed by a composite capacity.\<close>

lemma cldm_ht_sizeup_31: "cldm_ht_sizeup 31 = Some 67"
  by code_simp

lemma cldm_ht_sizeup_8963: "cldm_ht_sizeup 8963 = Some 17927 \<and> (17927 :: nat) = 7 * 13 * 197"
  by code_simp

text \<open>
  C9: on a table that holds the keys \<open>ks\<close> and has a slot that was never used, \<open>cldm_ht_find\<close>
  returns, with a slot exactly for the keys in \<open>ks\<close>, and the entry in that slot is one for the key
  looked up. This covers tables from which keys were removed. It holds for the AVX2 comparison with any keys
  below \<open>2 ^ 63\<close> bytes, and for the portable one when keys of equal length differ in their first byte.
\<close>

theorem cldm_ht_find_correct:
  assumes "build_memcmp cmp (insert bs ks)" and "key_entry m entry bs" and "ht_wf m ht ks"
  shows "\<exists>r. cldm_ht_find cmp m ht entry = Some r \<and> (r = None \<longleftrightarrow> bs \<notin> ks) \<and>
     (\<forall>i. r = Some i \<longrightarrow> (\<exists>es. cldm_ht_storage ht = Some es \<and> unat i < length es \<and>
                                    key_entry m (es ! unat i) bs))"
  by (rule cldm_ht_find' [OF build_memcmp_compares [OF assms(1)] assms(2,3)])

theorem cldm_ht_find_correct_witness:
  "list_all (\<lambda>cmp. \<exists>ht ht' r r'. insert_bytes cmp [97, 70] cldm_ht_init = Some ht \<and>
     cldm_ht_remove cmp byte_mem ht (byte_key 97) = Some (True, ht') \<and>
     cldm_ht_find cmp byte_mem ht' (byte_key 70) = Some r \<and> r \<noteq> None \<and>
     cldm_ht_find cmp byte_mem ht' (byte_key 97) = Some r' \<and> r' = None) builds"
proof -
  have "\<exists>ht ht' r r'. insert_bytes cmp [97, 70] cldm_ht_init = Some ht \<and>
     cldm_ht_remove cmp byte_mem ht (byte_key 97) = Some (True, ht') \<and>
     cldm_ht_find cmp byte_mem ht' (byte_key 70) = Some r \<and> r \<noteq> None \<and>
     cldm_ht_find cmp byte_mem ht' (byte_key 97) = Some r' \<and> r' = None" if c: "cmp \<in> set builds" for cmp
  proof -
    have b: "build_memcmp cmp {[97], [70]}" by (rule builds_bytes [OF c]) auto
    obtain ht where ht: "insert_bytes cmp [97, 70] cldm_ht_init = Some ht" "ht_built byte_mem ht {[97], [70]}"
      using byte_table(2) [OF c] by blast
    have "mem_compare cmp (insert [97] {[97], [70]})" using build_memcmp_compares [OF b] by simp
    from cldm_ht_remove' [OF this byte_key_entry built_wf [OF ht(2)]] obtain ht' where
      ht': "cldm_ht_remove cmp byte_mem ht (byte_key 97) = Some (True, ht')" "ht_wf byte_mem ht' {[70]}" by auto
    have "build_memcmp cmp (insert [70] {[70]})" by (rule builds_bytes [OF c]) auto
    from cldm_ht_find_correct [OF this byte_key_entry ht'(2)]
      cldm_ht_find_correct [OF b byte_key_entry ht'(2)] ht(1) ht'(1) show ?thesis by fastforce
  qed
  then show ?thesis by (simp only: list_all_iff) blast
qed

text \<open>
  C2: an insertion into a table built by insertions alone, with fewer than \<open>2 ^ 27\<close> keys, returns. If it has
  to grow the table and gets no memory, it returns null and leaves the table as it was. Otherwise it returns
  null exactly for a key that is present, else the slot that now has the entry; the table then holds the old
  keys and the new one, whether it was rehashed or not, and its capacity stays linear in their number. It
  holds for the AVX2 comparison with any keys below \<open>2 ^ 63\<close> bytes, and for the portable one when keys of equal
  length differ in their first byte.
\<close>

theorem cldm_ht_insert_correct:
  assumes "build_memcmp cmp (insert bs ks)" and "key_entry m entry bs" and "ht_built m ht ks" and "card ks < 2 ^ 27"
  shows "\<exists>r ht'. cldm_ht_insert cmp alloc m ht entry = Some (r, ht') \<and>
     (if cldm_ht_should_expand ht \<and> \<not> (\<exists>c. cldm_ht_sizeup (ht_capacity ht) = Some c \<and> alloc (unat c * 16))
      then r = None \<and> ht' = ht
      else (r = None \<longleftrightarrow> bs \<in> ks) \<and> stored m ht' r entry \<and> ht_built m ht' (insert bs ks))"
  by (rule cldm_ht_insert_built [OF build_memcmp_compares [OF assms(1)] assms(2-4)])

theorem cldm_ht_insert_correct_witness:
  "list_all (\<lambda>cmp. \<exists>ht r ht'. insert_bytes cmp [97] cldm_ht_init = Some ht \<and>
     cldm_ht_insert cmp (\<lambda>n. False) byte_mem ht (byte_key 70) = Some (r, ht') \<and>
     r \<noteq> None \<and> ht_built byte_mem ht' {[97], [70]}) builds"
proof -
  have "\<exists>ht r ht'. insert_bytes cmp [97] cldm_ht_init = Some ht \<and>
     cldm_ht_insert cmp (\<lambda>n. False) byte_mem ht (byte_key 70) = Some (r, ht') \<and>
     r \<noteq> None \<and> ht_built byte_mem ht' {[97], [70]}" if c: "cmp \<in> set builds" for cmp
  proof -
    have b: "build_memcmp cmp (insert [70] {[97]})" by (rule builds_bytes [OF c]) auto
    obtain ht where ht: "insert_bytes cmp [97] cldm_ht_init = Some ht" "ht_built byte_mem ht {[97]}"
      using byte_table(1) [OF c] by blast
    from cldm_ht_insert_correct [OF b byte_key_entry ht(2), of "\<lambda>n. False"] small_no_expand [OF ht(2)] ht(1)
    show ?thesis by (auto simp: insert_commute)
  qed
  then show ?thesis by (simp only: list_all_iff) blast
qed

text \<open>
  After any run of at most \<open>2 ^ 27\<close> insertions into a fresh table, with memory for every
  growth, each insertion returned non-null exactly for the first occurrence of its key, and a lookup
  finds exactly the keys inserted.
\<close>

theorem cldm_ht_insert_all_find:
  assumes "build_memcmp cmp (insert k (set ks))" and "list_all2 (key_entry m) es ks" and "length ks \<le> 2 ^ 27"
    and "key_entry m e k"
  shows "\<exists>ht'. insert_all (cldm_ht_insert cmp (\<lambda>n. True) m) cldm_ht_init es = Some (firsts {} ks, ht') \<and>
    (\<exists>r. cldm_ht_find cmp m ht' e = Some r \<and> (r = None \<longleftrightarrow> k \<notin> set ks))"
  by (rule mem_compare.find_after_insertions [OF build_memcmp_compares [OF assms(1)] assms(2-4) init_built subset_refl])

theorem cldm_ht_insert_all_find_witness:
  "\<exists>ht'. insert_all (cldm_ht_insert cldm_avx2_memcmp (\<lambda>n. True) byte_mem) cldm_ht_init
      [byte_key 97, byte_key 97] = Some ([True, False], ht') \<and>
    (\<exists>r. cldm_ht_find cldm_avx2_memcmp byte_mem ht' (byte_key 70) = Some r \<and> r = None)"
proof -
  have "build_memcmp cldm_avx2_memcmp (insert [70] (set [[97], [97]]))" by (rule build_memcmp_avx2) auto
  from cldm_ht_insert_all_find [OF this, of byte_mem "[byte_key 97, byte_key 97]" "byte_key 70"]
  show ?thesis by (auto simp: byte_key_entry)
qed

text \<open>
  C21: a removal from a table with a slot that was never used reports whether the key was there and leaves the
  other keys; it keeps every other key reachable, since the slot is marked as used before. It holds for the AVX2
  comparison with any keys below \<open>2 ^ 63\<close> bytes, and for the portable one when keys of equal length differ
  in their first byte.
\<close>

theorem cldm_ht_remove_correct:
  assumes "build_memcmp cmp (insert bs ks)" and "key_entry m entry bs" and "ht_wf m ht ks"
  shows "\<exists>ht'. cldm_ht_remove cmp m ht entry = Some (bs \<in> ks, ht') \<and> ht_wf m ht' (ks - {bs})"
  by (rule cldm_ht_remove' [OF build_memcmp_compares [OF assms(1)] assms(2,3)])

theorem cldm_ht_remove_correct_witness:
  "list_all (\<lambda>cmp. \<exists>ht ht'. insert_bytes cmp [97, 70] cldm_ht_init = Some ht \<and>
     cldm_ht_remove cmp byte_mem ht (byte_key 97) = Some (True, ht') \<and> ht_wf byte_mem ht' {[70]}) builds"
proof -
  have "\<exists>ht ht'. insert_bytes cmp [97, 70] cldm_ht_init = Some ht \<and>
     cldm_ht_remove cmp byte_mem ht (byte_key 97) = Some (True, ht') \<and> ht_wf byte_mem ht' {[70]}"
    if c: "cmp \<in> set builds" for cmp
  proof -
    have b: "build_memcmp cmp (insert [97] {[97], [70]})" by (rule builds_bytes [OF c]) auto
    obtain ht where ht: "insert_bytes cmp [97, 70] cldm_ht_init = Some ht" "ht_built byte_mem ht {[97], [70]}"
      using byte_table(2) [OF c] by blast
    from cldm_ht_remove_correct [OF b byte_key_entry built_wf [OF ht(2)]] ht(1) show ?thesis by auto
  qed
  then show ?thesis by (simp only: list_all_iff) blast
qed

text \<open>
  The marker of a removed slot is reused by the first insertion whose probe meets it, before
  the probe has looked for the key further on: after inserting \<open>a\<close> and \<open>F\<close>, whose hashes agree modulo
  31, and removing \<open>a\<close>, a second insertion of \<open>F\<close> succeeds and the table counts \<open>F\<close> twice.
\<close>

theorem cldm_ht_insert_after_remove:
  "do { (r1, ht) \<leftarrow> cldm_ht_insert cldm_memcmp (\<lambda>n. True) byte_mem cldm_ht_init (byte_key 97);
        (r2, ht) \<leftarrow> cldm_ht_insert cldm_memcmp (\<lambda>n. True) byte_mem ht (byte_key 70);
        (b, ht) \<leftarrow> cldm_ht_remove cldm_memcmp byte_mem ht (byte_key 97);
        (r3, ht) \<leftarrow> cldm_ht_insert cldm_memcmp (\<lambda>n. True) byte_mem ht (byte_key 70);
        Some (r1, r2, b, r3, cldm_ht_size ht) } = Some (Some 12, Some 13, True, Some 12, 2)"
  by code_simp

text \<open>Whatever a probe returns is a slot where it may stop.\<close>

definition probe_result ::
  "(mem \<Rightarrow> u64 \<Rightarrow> u64 \<Rightarrow> u64 \<Rightarrow> int option) \<Rightarrow> mem \<Rightarrow> cldm_ht_entry list \<Rightarrow> cldm_ht_entry \<Rightarrow> bool \<Rightarrow> u64 \<Rightarrow> bool" where
  "probe_result cmp m es entry reuse r \<longleftrightarrow>
     unat r < length es \<and>
     (status (es ! unat r) = 0 \<or> (reuse \<and> cldm_ht_slot_vacant (es ! unat r)) \<or>
      (\<not> cldm_ht_slot_vacant (es ! unat r) \<and> ent_size (es ! unat r) = ent_size entry \<and>
       cmp m (ent_key (es ! unat r)) (ent_key entry) (ent_size entry) = Some 0))"

lemma probe_loop_result:
  assumes "ht_probe_loop cmp m es capacity entry reuse idx = Some r"
  shows "probe_result cmp m es entry reuse r"
proof (rule ht_probe_loop.raw_induct
    [where P = "\<lambda>cmp m es capacity entry reuse idx r. probe_result cmp m es entry reuse r", OF _ assms])
  fix loop :: "(mem \<Rightarrow> u64 \<Rightarrow> u64 \<Rightarrow> u64 \<Rightarrow> int option) \<Rightarrow> mem \<Rightarrow> cldm_ht_entry list \<Rightarrow> u64 \<Rightarrow>
      cldm_ht_entry \<Rightarrow> bool \<Rightarrow> u64 \<Rightarrow> u64 option"
    and cmp m es capacity entry reuse idx r
  assume IH: "\<And>cmp m es capacity entry reuse idx y.
      loop cmp m es capacity entry reuse idx = Some y \<Longrightarrow> probe_result cmp m es entry reuse y"
    and "(if length es \<le> unat idx then None
      else if status (es ! unat idx) = 0 then Some idx
      else if cldm_ht_slot_vacant (es ! unat idx)
      then (if reuse then Some idx
            else loop cmp m es capacity entry reuse ((idx + 1) mod capacity))
      else if ent_size (es ! unat idx) = ent_size entry
      then do { d \<leftarrow> cmp m (ent_key (es ! unat idx)) (ent_key entry) (ent_size entry);
                if d = 0 then Some idx
                else loop cmp m es capacity entry reuse ((idx + 1) mod capacity) }
      else loop cmp m es capacity entry reuse ((idx + 1) mod capacity)) = Some r"
  then show "probe_result cmp m es entry reuse r"
    by (auto simp: bind_eq_Some_conv probe_result_def not_le split: if_splits dest: IH [unfolded probe_result_def])
qed

lemma probe_runs_on:
  assumes cmp: "mem_compare cmp (insert bs (held sl))" and k: "key_entry m entry bs" and v: "ht_view m ht sl"
    and free: "Vacant \<notin> set sl" and absent: "bs \<notin> held sl"
  shows "cldm_ht_probe cmp m ht entry False = None"
proof (rule ccontr)
  from v obtain es where es: "cldm_ht_storage ht = Some es" "\<forall>e \<in> set es. readable m e"
    "sl = map (slot_of m) es" by (auto simp: ht_view_def)
  assume "cldm_ht_probe cmp m ht entry False \<noteq> None"
  with es(1) obtain idx r where "ht_probe_loop cmp m es (ht_capacity ht) entry False idx = Some r"
    by (auto simp: cldm_ht_probe_def bind_eq_Some_conv split: if_splits)
  from probe_loop_result [OF this] have r: "unat r < length es" and stop: "status (es ! unat r) = 0 \<or>
    (\<not> cldm_ht_slot_vacant (es ! unat r) \<and> ent_size (es ! unat r) = ent_size entry \<and>
     cmp m (ent_key (es ! unat r)) (ent_key entry) (ent_size entry) = Some 0)"
    by (auto simp: probe_result_def)
  from free r es(3) have "slot_of m (es ! unat r) \<noteq> Vacant" by (metis image_eqI list.set_map nth_mem)
  with stop have live: "\<not> cldm_ht_slot_vacant (es ! unat r)" "ent_size (es ! unat r) = ent_size entry"
    "cmp m (ent_key (es ! unat r)) (ent_key entry) (ent_size entry) = Some 0"
    by (auto simp: slot_of_vacant)
  then obtain xs where xs: "slot_of m (es ! unat r) = Holds xs"
    using slot_vacant_iff [of "es ! unat r" m] by (cases "slot_of m (es ! unat r)") auto
  then have ke: "key_entry m (es ! unat r) xs" using es(2) r slot_of_holds by auto
  have "xs \<in> held sl" using xs r es(3) by (auto simp: held_iff)
  then have "xs = bs" using same_key(1) [OF cmp ke k _ _ live(2)] live(3) by simp
  with xs r es(3) absent show False by (auto simp: held_iff)
qed

text \<open>
  C35: a lookup of a key that is not there does not return once every slot is in use or was in use:
  removed slots are never freed again, and insertions and removals of keys with 31 different hashes
  leave such a table although it is empty. It holds for the AVX2 comparison with any keys below \<open>2 ^ 63\<close>
  bytes, and for the portable one when keys of equal length differ in their first byte.
\<close>

theorem cldm_ht_find_stuck:
  assumes "build_memcmp cmp (insert bs (held sl))" and "key_entry m entry bs" and "ht_view m ht sl"
    and "Vacant \<notin> set sl" and "bs \<notin> held sl"
  shows "cldm_ht_find cmp m ht entry = None"
  by (simp add: cldm_ht_find_def probe_runs_on [OF build_memcmp_compares [OF assms(1)] assms(2-5)])

definition every_residue :: "u8 list" where
  "every_residue = [27, 10, 5, 21, 4, 20, 7, 23, 6, 22, 1, 17, 0, 16, 3, 19, 2, 18, 13, 29, 12, 28, 15,
     31, 14, 30, 9, 25, 8, 24, 11]"

fun insert_remove ::
  "(mem \<Rightarrow> u64 \<Rightarrow> u64 \<Rightarrow> u64 \<Rightarrow> int option) \<Rightarrow> u8 list \<Rightarrow> cldm_ht \<Rightarrow> cldm_ht option" where
  "insert_remove cmp [] ht = Some ht"
| "insert_remove cmp (b # bs) ht =
     do { (r, ht) \<leftarrow> cldm_ht_insert cmp (\<lambda>n. True) byte_mem ht (byte_key b);
          (r, ht) \<leftarrow> cldm_ht_remove cmp byte_mem ht (byte_key b);
          insert_remove cmp bs ht }"

definition removed_entry :: cldm_ht_entry where
  "removed_entry = \<lparr>ent_key = 1, ent_size = 1\<rparr>"

lemma insert_remove_every_residue:
  "insert_remove cldm_avx2_memcmp every_residue cldm_ht_init =
     Some \<lparr>t_un = HtStat (replicate 31 removed_entry), ht_size = 0, ht_capacity = 31\<rparr>"
  "insert_remove cldm_memcmp every_residue cldm_ht_init =
     Some \<lparr>t_un = HtStat (replicate 31 removed_entry), ht_size = 0, ht_capacity = 31\<rparr>"
  by code_simp+

theorem cldm_ht_find_stuck_witness:
  "list_all (\<lambda>cmp. \<exists>ht. insert_remove cmp every_residue cldm_ht_init = Some ht \<and> cldm_ht_size ht = 0 \<and>
     cldm_ht_find cmp byte_mem ht (byte_key 97) = None) builds"
proof -
  let ?ht = "\<lparr>t_un = HtStat (replicate 31 removed_entry), ht_size = 0, ht_capacity = 31\<rparr>"
  have "slot_of byte_mem removed_entry = Removed" "readable byte_mem removed_entry"
    by (simp_all add: slot_of_removed readable_def slot_vacant_nat status_def removed_entry_def)
  then have v: "ht_view byte_mem ?ht (replicate 31 Removed)"
    by (auto simp: ht_view_def cldm_ht_storage_def cldm_ht_static_capacity_def)
  have h: "held (replicate 31 Removed) = {}" by (simp add: held_def)
  have "cldm_ht_find cmp byte_mem ?ht (byte_key 97) = None" if "cmp \<in> set builds" for cmp
    using builds_bytes [OF that, of "{[97]}"] cldm_ht_find_stuck [of cmp "[97]", OF _ byte_key_entry v] h by auto
  with insert_remove_every_residue show ?thesis by (simp add: cldm_ht_size_def)
qed

lemma fnv1a_loop_fault: "m a = None \<Longrightarrow> n \<noteq> 0 \<Longrightarrow> fnv1a_loop m a n h = None"
  by (cases n) simp_all

lemma insert_step_fault:
  assumes "status e = 1" and "unat (ent_size e) mod 2 ^ 32 \<noteq> 0" and "m 1 = None"
  shows "insert_step cmp m ht e = None"
proof -
  have "unat (ucast (ent_size e) :: u32) \<noteq> 0"
    using assms(2) by (simp add: unsigned_ucast_eq take_bit_nat_def)
  then have "cldm_hash_entry m e = None"
    using assms(1,3) by (simp add: cldm_hash_entry_def cldm_hash_fnv1a_def status_def fnv1a_loop_fault)
  then show ?thesis by (cases "cldm_ht_storage ht") (simp_all add: insert_step_def cldm_ht_probe_def)
qed

lemma rehash_fault:
  assumes "e \<in> set es" and "status e = 1" and "unat (ent_size e) mod 2 ^ 32 \<noteq> 0" and "m 1 = None"
  shows "ht_rehash (\<lambda>ht e. insert_step cmp m ht e) es ht = None"
  using assms(1)
proof (induction es arbitrary: ht)
  case (Cons x es)
  show ?case
  proof (cases "x = e")
    case True
    then show ?thesis using assms(2) insert_step_fault [of e m cmp ht] assms(3,4) by simp
  next
    case False
    with Cons show ?thesis by (cases "insert_step cmp m ht x") auto
  qed
qed simp

text \<open>
  Growth takes the marker of a removed slot for an entry: an insertion that has to grow a
  table with such a slot hashes the bytes at address 1, which the program never allocates.
\<close>

theorem cldm_ht_expand_removed_fault:
  assumes "ht_view m ht sl" and "cldm_ht_should_expand ht" and "cldm_ht_storage ht = Some es"
    and "e \<in> set es" and "status e = 1" and "unat (ent_size e) mod 2 ^ 32 \<noteq> 0" and "m 1 = None"
    and "unat (ht_capacity ht) < 2 ^ 32"
  shows "cldm_ht_insert cmp (\<lambda>n. True) m ht entry = None"
proof -
  from cldm_ht_sizeup' [OF assms(8)] obtain c where c: "cldm_ht_sizeup (ht_capacity ht) = Some c"
    "unat c \<le> 7 * (2 * unat (ht_capacity ht) + 1)" by auto
  then have "c_alloc (\<lambda>n. True) (unat c * 16)" using assms(8) by (simp add: c_alloc_def)
  moreover have "length es = unat (ht_capacity ht)" using assms(1,3) by (auto simp: ht_view_def)
  ultimately have "cldm_ht_expand (\<lambda>ht e. insert_step cmp m ht e) (\<lambda>n. True) ht = None"
    using assms(3,8) rehash_fault [of e es m cmp] assms(4-7)
    by (simp add: cldm_ht_expand_def c(1) expand_old [OF assms(1)])
  then show ?thesis
    unfolding cldm_ht_insert_def numeral_2_eq_2
    by (simp only: ht_insert_unfold expand_steps assms(2) if_True bind.bind_lzero)
qed

text \<open>Fourteen keys, one that is removed again, and one more that does not meet the removed slot.\<close>

definition worn_table :: "cldm_ht option" where
  "worn_table = do { ht \<leftarrow> insert_bytes cldm_memcmp (take 14 every_residue) cldm_ht_init;
                     ht \<leftarrow> insert_remove cldm_memcmp [11] ht;
                     insert_bytes cldm_memcmp [24] ht }"

definition worn_entries :: "cldm_ht_entry list" where
  "worn_entries = (case worn_table of Some ht \<Rightarrow> (case cldm_ht_storage ht of Some es \<Rightarrow> es | _ \<Rightarrow> []) | _ \<Rightarrow> [])"

lemma worn_entries_removed: "length worn_entries = 31 \<and> worn_entries ! 30 = removed_entry"
  by code_simp

lemma worn_entries_readable: "list_all (readable byte_mem) worn_entries"
  by code_simp

lemma worn_table_state:
  "worn_table = Some \<lparr>t_un = HtStat worn_entries, ht_size = 15, ht_capacity = 31\<rparr>"
  by code_simp

theorem cldm_ht_expand_removed_fault_witness:
  "\<exists>ht. worn_table = Some ht \<and>
     cldm_ht_insert cldm_memcmp (\<lambda>n. True) byte_mem ht (byte_key 97) = None"
proof -
  let ?ht = "\<lparr>t_un = HtStat worn_entries, ht_size = 15, ht_capacity = 31\<rparr>"
  have s: "cldm_ht_storage ?ht = Some worn_entries"
    by (simp add: cldm_ht_storage_def cldm_ht_static_capacity_def)
  then have v: "ht_view byte_mem ?ht (map (slot_of byte_mem) worn_entries)"
    using worn_entries_removed worn_entries_readable by (simp add: ht_view_def list_all_iff)
  have full: "cldm_ht_should_expand ?ht" by (simp add: cldm_ht_should_expand_def)
  have e: "removed_entry \<in> set worn_entries"
    using worn_entries_removed nth_mem [of 30 worn_entries] by simp
  have "byte_mem 1 = None" by (simp add: byte_mem_def word_le_nat_alt)
  from cldm_ht_expand_removed_fault [OF v full s e _ _ this]
  have "cldm_ht_insert cldm_memcmp (\<lambda>n. True) byte_mem ?ht (byte_key 97) = None"
    by (simp add: status_def removed_entry_def)
  with worn_table_state show ?thesis by blast
qed

end
