(* ===== verification/Dfa.thy ===== *)
theory Dfa
  imports Prelude "HOL-Library.Sublist"
begin

text \<open>
  \<^verbatim>\<open>cldm/cldm_dfa.c\<close>, \<^verbatim>\<open>cldm/cldm_dfa.h\<close>: the automaton that recognises the long command line
  switches. States and edges are two growing arrays; the edges out of a state form a list linked by
  indices. Strings are the lists of their bytes, without the terminator.
\<close>

section \<open>State\<close>

record cldm_dfa_state =
  st_edges :: int
  st_shortop :: int

record cldm_dfa_edge =
  ed_ch :: int
  ed_next :: int
  ed_end :: int

text \<open>An array slot that was never written is \<^theory_text>\<open>None\<close>; reading it has no defined result.\<close>

record cldm_dfa =
  dfa_states :: "cldm_dfa_state option list"
  dfa_edges :: "cldm_dfa_edge option list"
  nstates :: u32
  state_idx :: u32
  nedges :: u32
  edge_idx :: u32
  dfa_start :: u32

definition CLDM_DFA_STATE_DELTA :: nat where "CLDM_DFA_STATE_DELTA = 64"
definition CLDM_DFA_EDGE_DELTA :: nat where "CLDM_DFA_EDGE_DELTA = 128"
definition CLDM_DFA_EDGE_NONE :: int where "CLDM_DFA_EDGE_NONE = - 1"

text \<open>A \<open>char\<close>, which is signed, as an \<open>int\<close>; array accesses.\<close>

definition c_char :: "u8 \<Rightarrow> int" where
  "c_char b = sint b"

definition arr_get :: "'a option list \<Rightarrow> int \<Rightarrow> 'a option" where
  "arr_get xs i = (if 0 \<le> i \<and> i < int (length xs) then xs ! nat i else None)"

definition arr_set :: "'a option list \<Rightarrow> int \<Rightarrow> 'a \<Rightarrow> 'a option list option" where
  "arr_set xs i x = (if 0 \<le> i \<and> i < int (length xs) then Some (xs[nat i := Some x]) else None)"

section \<open>The operations\<close>

definition cldm_dfa_init :: "(nat \<Rightarrow> bool) \<Rightarrow> cldm_dfa \<Rightarrow> bool \<times> cldm_dfa" where
  "cldm_dfa_init alloc dfa =
     (if \<not> c_alloc alloc (CLDM_DFA_STATE_DELTA * 8) then (False, dfa)
      else if \<not> c_alloc alloc (CLDM_DFA_EDGE_DELTA * 12) then (False, dfa)
      else (True,
        \<lparr>dfa_states = Some \<lparr>st_edges = CLDM_DFA_EDGE_NONE, st_shortop = 0\<rparr> #
                       replicate (CLDM_DFA_STATE_DELTA - 1) None,
         dfa_edges = replicate CLDM_DFA_EDGE_DELTA None,
         nstates = of_nat CLDM_DFA_STATE_DELTA, state_idx = 1,
         nedges = of_nat CLDM_DFA_EDGE_DELTA, edge_idx = 0, dfa_start = 0\<rparr>))"

text \<open>\<open>realloc\<close> keeps the old contents; the slots it adds are not initialised.\<close>

definition grow :: "'a option list \<Rightarrow> nat \<Rightarrow> 'a option list" where
  "grow xs n = take n xs @ replicate (n - length xs) None"

definition cldm_dfa_ensure_state_capacity ::
  "(nat \<Rightarrow> bool) \<Rightarrow> cldm_dfa \<Rightarrow> u32 \<Rightarrow> bool \<times> cldm_dfa" where
  "cldm_dfa_ensure_state_capacity alloc dfa nrequested =
     (if state_idx dfa + nrequested < nstates dfa then (True, dfa)
      else let n = nstates dfa + of_nat CLDM_DFA_STATE_DELTA in
        if \<not> c_alloc alloc (unat n * 8) then (False, dfa)
        else (True, dfa\<lparr>dfa_states := grow (dfa_states dfa) (unat n), nstates := n\<rparr>))"

definition cldm_dfa_ensure_edge_capacity ::
  "(nat \<Rightarrow> bool) \<Rightarrow> cldm_dfa \<Rightarrow> u32 \<Rightarrow> bool \<times> cldm_dfa" where
  "cldm_dfa_ensure_edge_capacity alloc dfa nrequested =
     (if edge_idx dfa + nrequested < nedges dfa then (True, dfa)
      else let n = nedges dfa + of_nat CLDM_DFA_EDGE_DELTA in
        if \<not> c_alloc alloc (unat n * 12) then (False, dfa)
        else (True, dfa\<lparr>dfa_edges := grow (dfa_edges dfa) (unat n), nedges := n\<rparr>))"

text \<open>The new index, converted from \<open>unsigned\<close> to \<open>int\<close>, or \<open>-1\<close>.\<close>

definition cldm_dfa_edge_pop :: "(nat \<Rightarrow> bool) \<Rightarrow> cldm_dfa \<Rightarrow> int \<times> cldm_dfa" where
  "cldm_dfa_edge_pop alloc dfa =
     (let (ok, dfa) = cldm_dfa_ensure_edge_capacity alloc dfa 1 in
      if \<not> ok then (- 1, dfa)
      else (sint (edge_idx dfa), dfa\<lparr>edge_idx := edge_idx dfa + 1\<rparr>))"

definition cldm_dfa_state_pop :: "(nat \<Rightarrow> bool) \<Rightarrow> cldm_dfa \<Rightarrow> int \<times> cldm_dfa" where
  "cldm_dfa_state_pop alloc dfa =
     (let (ok, dfa) = cldm_dfa_ensure_state_capacity alloc dfa 1 in
      if \<not> ok then (- 1, dfa)
      else (sint (state_idx dfa), dfa\<lparr>state_idx := state_idx dfa + 1\<rparr>))"

definition cldm_dfa_append ::
  "(nat \<Rightarrow> bool) \<Rightarrow> cldm_dfa \<Rightarrow> int \<Rightarrow> int \<Rightarrow> int \<Rightarrow> (int \<times> cldm_dfa) option" where
  "cldm_dfa_append alloc dfa state ch shortop =
     (let (edge, dfa) = cldm_dfa_edge_pop alloc dfa in
      if edge = - 1 then Some (- 1, dfa)
      else do {
        st \<leftarrow> arr_get (dfa_states dfa) state;
        let (new, dfa) = cldm_dfa_state_pop alloc dfa;
        edges \<leftarrow> arr_set (dfa_edges dfa) edge \<lparr>ed_ch = ch, ed_next = st_edges st, ed_end = new\<rparr>;
        let dfa = dfa\<lparr>dfa_edges := edges\<rparr>;
        if new = - 1 then Some (- 1, dfa)
        else do {
          states \<leftarrow> arr_set (dfa_states dfa) state (st\<lparr>st_edges := edge\<rparr>);
          states \<leftarrow> arr_set states new \<lparr>st_edges = CLDM_DFA_EDGE_NONE, st_shortop = shortop\<rparr>;
          Some (new, dfa\<lparr>dfa_states := states\<rparr>) } })"

text \<open>The search for an edge labelled \<open>ch\<close>, common to insertion and simulation.\<close>

partial_function (option) dfa_find_edge :: "cldm_dfa_edge option list \<Rightarrow> int \<Rightarrow> int \<Rightarrow> int option" where
  "dfa_find_edge edges ch edge =
     (if edge = CLDM_DFA_EDGE_NONE then Some edge
      else do { e \<leftarrow> arr_get edges edge;
                if ed_ch e = ch then Some edge else dfa_find_edge edges ch (ed_next e) })"

declare dfa_find_edge.simps [code]

fun dfa_add_loop :: "(nat \<Rightarrow> bool) \<Rightarrow> cldm_dfa \<Rightarrow> int \<Rightarrow> u8 list \<Rightarrow> (int \<times> cldm_dfa) option" where
  "dfa_add_loop alloc dfa state [] = Some (state, dfa)"
| "dfa_add_loop alloc dfa state (c # arg) =
     do { st \<leftarrow> arr_get (dfa_states dfa) state;
          edge \<leftarrow> dfa_find_edge (dfa_edges dfa) (c_char c) (st_edges st);
          if edge = CLDM_DFA_EDGE_NONE
          then do { (state, dfa) \<leftarrow> cldm_dfa_append alloc dfa state (c_char c) 0;
                    if state = - 1 then Some (- 1, dfa) else dfa_add_loop alloc dfa state arg }
          else do { e \<leftarrow> arr_get (dfa_edges dfa) edge;
                    dfa_add_loop alloc dfa (ed_end e) arg } }"

definition cldm_dfa_add_argument ::
  "(nat \<Rightarrow> bool) \<Rightarrow> cldm_dfa \<Rightarrow> u8 list \<Rightarrow> int \<Rightarrow> (bool \<times> cldm_dfa) option" where
  "cldm_dfa_add_argument alloc dfa arg shortop =
     do { (state, dfa) \<leftarrow> dfa_add_loop alloc dfa (sint (dfa_start dfa)) arg;
          if state = - 1 then Some (False, dfa)
          else do {
            st \<leftarrow> arr_get (dfa_states dfa) state;
            states \<leftarrow> arr_set (dfa_states dfa) state (st\<lparr>st_shortop := shortop\<rparr>);
            Some (True, dfa\<lparr>dfa_states := states\<rparr>) } }"

text \<open>The loop of \<open>cldm_dfa_simulate\<close> returns the state it stops in and the number of bytes it read.\<close>

fun dfa_run :: "cldm_dfa \<Rightarrow> cldm_dfa_state \<Rightarrow> u8 list \<Rightarrow> nat \<Rightarrow> (cldm_dfa_state \<times> nat) option" where
  "dfa_run dfa state [] pos = Some (state, pos)"
| "dfa_run dfa state (c # input) pos =
     do { edge \<leftarrow> dfa_find_edge (dfa_edges dfa) (c_char c) (st_edges state);
          if edge = CLDM_DFA_EDGE_NONE then Some (state, pos)
          else do { e \<leftarrow> arr_get (dfa_edges dfa) edge;
                    state \<leftarrow> arr_get (dfa_states dfa) (ed_end e);
                    dfa_run dfa state input (Suc pos) } }"

text \<open>The result and \<open>*shortop\<close>.\<close>

definition cldm_dfa_simulate :: "cldm_dfa \<Rightarrow> u8 list \<Rightarrow> (int \<times> int) option" where
  "cldm_dfa_simulate dfa input =
     do { state \<leftarrow> arr_get (dfa_states dfa) (uint (dfa_start dfa));
          (state, pos) \<leftarrow> dfa_run dfa state input 0;
          if st_shortop state \<noteq> 0 then Some (sint (of_nat pos :: u32), st_shortop state) else Some (- 1, 0) }"

end
