(* ===== verification/Dfa_Correct.thy ===== *)
theory Dfa_Correct
  imports Dfa
begin

text \<open>
  The automaton of \<^theory_text>\<open>Dfa\<close> is a trie: a simulation relation to a map from words to operations,
  kept by the insertion of an argument, and the contract \<open>prefix_matcher\<close> that the argument parser
  relies on, interpreted on the model of the code.
\<close>

section \<open>The automaton as a trie\<close>

text \<open>
  State \<open>i\<close> is the one reached by the word \<open>ws ! i\<close>; the words are distinct, the first one is empty,
  and edge \<open>e\<close> leads to state \<open>e + 1\<close>. The edges out of a state are linked from the newest to the
  oldest: \<open>last_child ws p n\<close> is the newest of the first \<open>n\<close> edges that leave state \<open>p\<close>.
\<close>

definition is_child :: "u8 list list \<Rightarrow> nat \<Rightarrow> nat \<Rightarrow> bool" where
  "is_child ws p n \<longleftrightarrow> ws ! Suc n \<noteq> [] \<and> butlast (ws ! Suc n) = ws ! p"

fun last_child :: "u8 list list \<Rightarrow> nat \<Rightarrow> nat \<Rightarrow> int" where
  "last_child ws p 0 = - 1"
| "last_child ws p (Suc n) = (if is_child ws p n then int n else last_child ws p n)"

definition trie_words :: "u8 list list \<Rightarrow> bool" where
  "trie_words ws \<longleftrightarrow> distinct ws \<and> ws \<noteq> [] \<and> ws ! 0 = [] \<and>
     (\<forall>e. Suc e < length ws \<longrightarrow> (\<exists>p\<le>e. is_child ws p e))"

definition dfa_ok :: "cldm_dfa \<Rightarrow> u8 list list \<Rightarrow> int list \<Rightarrow> bool" where
  "dfa_ok d ws ops \<longleftrightarrow>
     trie_words ws \<and> length ops = length ws \<and> dfa_start d = 0 \<and>
     unat (state_idx d) = length ws \<and> Suc (unat (edge_idx d)) = length ws \<and>
     length (dfa_states d) = unat (nstates d) \<and> length (dfa_edges d) = unat (nedges d) \<and>
     length ws \<le> unat (nstates d) \<and> unat (nstates d) \<le> length ws + 64 \<and>
     length ws \<le> Suc (unat (nedges d)) \<and> unat (nedges d) \<le> length ws + 128 \<and>
     (\<forall>i<length ws. dfa_states d ! i =
        Some \<lparr>st_edges = last_child ws i (length ws - 1), st_shortop = ops ! i\<rparr>) \<and>
     (\<forall>e p. Suc e < length ws \<longrightarrow> p < length ws \<longrightarrow> is_child ws p e \<longrightarrow>
        dfa_edges d ! e =
          Some \<lparr>ed_ch = c_char (last (ws ! Suc e)), ed_next = last_child ws p e, ed_end = int (Suc e)\<rparr>)"

lemma is_child_iff: "is_child ws p n \<longleftrightarrow> (\<exists>c. ws ! Suc n = ws ! p @ [c])"
  unfolding is_child_def by (metis append_butlast_last_id butlast_snoc snoc_eq_iff_butlast)

lemma c_char_inject [simp]: "c_char a = c_char b \<longleftrightarrow> a = b"
  unfolding c_char_def by (metis signed_word_eqI)

lemma int_unat: "int (unat w) = uint w"
  by simp

declare of_nat_unat [simp del]

lemma last_child_bounds: "last_child ws p n = - 1 \<or> (0 \<le> last_child ws p n \<and> last_child ws p n < int n)"
  by (induction n) auto

lemma last_child_append:
  "p < length ws \<Longrightarrow> n < length ws \<Longrightarrow> last_child (ws @ xs) p n = last_child ws p n"
  by (induction n) (auto simp: is_child_def nth_append)

text \<open>The search along the edges of a state.\<close>

lemma edge_at:
  assumes "dfa_ok d ws ops" and "p < length ws" and "Suc n < length ws" and "is_child ws p n"
  shows "arr_get (dfa_edges d) (int n) =
    Some \<lparr>ed_ch = c_char (last (ws ! Suc n)), ed_next = last_child ws p n, ed_end = int (Suc n)\<rparr>"
proof -
  from assms have "dfa_edges d ! n =
      Some \<lparr>ed_ch = c_char (last (ws ! Suc n)), ed_next = last_child ws p n, ed_end = int (Suc n)\<rparr>"
    "n < length (dfa_edges d)" unfolding dfa_ok_def by (blast, linarith)
  then show ?thesis by (simp add: arr_get_def)
qed

lemma find_edge_step:
  assumes "dfa_ok d ws ops" and "p < length ws" and "Suc n < length ws"
  shows "dfa_find_edge (dfa_edges d) (c_char c) (last_child ws p (Suc n)) =
    (if ws ! Suc n = ws ! p @ [c] then Some (int n)
     else dfa_find_edge (dfa_edges d) (c_char c) (last_child ws p n))"
proof (cases "is_child ws p n")
  case True
  then have "last (ws ! Suc n) = c \<longleftrightarrow> ws ! Suc n = ws ! p @ [c]" by (auto simp: is_child_iff)
  with True show ?thesis
    by (simp add: dfa_find_edge.simps [of _ _ "int n"] edge_at [OF assms True] CLDM_DFA_EDGE_NONE_def)
next
  case False
  then have "ws ! Suc n \<noteq> ws ! p @ [c]" by (auto simp: is_child_iff)
  with False show ?thesis by simp
qed

lemma find_edge:
  assumes "dfa_ok d ws ops" and "p < length ws"
  shows "n < length ws \<Longrightarrow> (\<And>e. e < n \<Longrightarrow> ws ! Suc e \<noteq> ws ! p @ [c]) \<Longrightarrow>
      dfa_find_edge (dfa_edges d) (c_char c) (last_child ws p n) = Some (- 1)"
    and "n < length ws \<Longrightarrow> e < n \<Longrightarrow> ws ! Suc e = ws ! p @ [c] \<Longrightarrow>
      dfa_find_edge (dfa_edges d) (c_char c) (last_child ws p n) = Some (int e)"
proof (induction n)
  case 0
  {
    case 1
    then show ?case by (subst dfa_find_edge.simps) (simp add: CLDM_DFA_EDGE_NONE_def)
  next
    case 2
    then show ?case by simp
  }
next
  case (Suc n)
  note step = find_edge_step [OF assms, of n c]
  {
    case 1
    then show ?case using Suc.IH(1) step by simp
  next
    case 2
    show ?case
    proof (cases "e = n")
      case True
      with 2 step show ?thesis by simp
    next
      case False
      moreover have "distinct ws" using assms(1) by (simp add: dfa_ok_def trie_words_def)
      ultimately have "ws ! Suc n \<noteq> ws ! Suc e" using 2(1,2) nth_eq_iff_index_eq [of ws "Suc n" "Suc e"] by simp
      with 2 False Suc.IH(2) step show ?thesis by simp
    qed
  }
qed

text \<open>What the search finds from a state: the edge to the state of the extended word, if there is one.\<close>

lemma find_edge_word:
  assumes "dfa_ok d ws ops" and "p < length ws"
  shows "ws ! p @ [c] \<notin> set ws \<Longrightarrow>
      dfa_find_edge (dfa_edges d) (c_char c) (last_child ws p (length ws - 1)) = Some (- 1)"
    and "q < length ws \<Longrightarrow> ws ! q = ws ! p @ [c] \<Longrightarrow>
      dfa_find_edge (dfa_edges d) (c_char c) (last_child ws p (length ws - 1)) = Some (int (q - 1)) \<and>
      arr_get (dfa_edges d) (int (q - 1)) =
        Some \<lparr>ed_ch = c_char c, ed_next = last_child ws p (q - 1), ed_end = int q\<rparr>"
proof -
  have n: "length ws - 1 < length ws" using assms(2) by simp
  show "dfa_find_edge (dfa_edges d) (c_char c) (last_child ws p (length ws - 1)) = Some (- 1)"
    if "ws ! p @ [c] \<notin> set ws"
  proof (rule find_edge(1) [OF assms n])
    fix e assume "e < length ws - 1"
    then have "ws ! Suc e \<in> set ws" by simp
    with that show "ws ! Suc e \<noteq> ws ! p @ [c]" by auto
  qed
  assume q: "q < length ws" "ws ! q = ws ! p @ [c]"
  have "q \<noteq> 0" using q(2) assms(1) by (intro notI) (auto simp: dfa_ok_def trie_words_def)
  then obtain e where e: "q = Suc e" by (cases q) auto
  then have "is_child ws p e" using q(2) by (simp add: is_child_iff)
  with q e show "dfa_find_edge (dfa_edges d) (c_char c) (last_child ws p (length ws - 1)) = Some (int (q - 1)) \<and>
      arr_get (dfa_edges d) (int (q - 1)) =
        Some \<lparr>ed_ch = c_char c, ed_next = last_child ws p (q - 1), ed_end = int q\<rparr>"
    using find_edge(2) [OF assms n, of e c] edge_at [OF assms, of e] by simp
qed


section \<open>Growing the automaton\<close>

lemma sint_small: "unat (w :: u32) < 2 ^ 31 \<Longrightarrow> sint w = int (unat w)"
  by (simp add: sint_of_unat)

lemma grow_spec:
  assumes "length xs \<le> n"
  shows "length (grow xs n) = n" and "i < length xs \<Longrightarrow> grow xs n ! i = xs ! i"
  using assms by (auto simp: grow_def nth_append)

lemma grow_same: "grow xs (length xs) = xs"
  by (simp add: grow_def)

lemma state_pop:
  assumes "unat (state_idx d) = k" and "k < 2 ^ 30" and "length (dfa_states d) = unat (nstates d)"
    and "k \<le> unat (nstates d)" and "unat (nstates d) \<le> k + 64"
  shows "(\<not> (\<forall>n. alloc n) \<and> cldm_dfa_state_pop alloc d = (- 1, d)) \<or>
    (\<exists>n. k < unat n \<and> unat n \<le> Suc k + 64 \<and> unat (nstates d) \<le> unat n \<and>
       cldm_dfa_state_pop alloc d = (int k,
         d\<lparr>dfa_states := grow (dfa_states d) (unat n), nstates := n, state_idx := state_idx d + 1\<rparr>))"
proof -
  have idx: "unat (state_idx d + 1) = Suc k" using assms(1,2) by (simp add: unat_add_nowrap)
  have s: "sint (state_idx d) = int k" using assms(1,2) by (simp add: sint_small)
  show ?thesis
  proof (cases "Suc k < unat (nstates d)")
    case True
    then have "state_idx d + 1 < nstates d" using idx by (simp add: word_less_nat_alt)
    then have "cldm_dfa_state_pop alloc d = (int k, d\<lparr>dfa_states := grow (dfa_states d) (unat (nstates d)),
        nstates := nstates d, state_idx := state_idx d + 1\<rparr>)"
      using s grow_same [of "dfa_states d"] assms(3)
      by (simp add: cldm_dfa_state_pop_def cldm_dfa_ensure_state_capacity_def)
    with True assms show ?thesis by (intro disjI2 exI [of _ "nstates d"]) simp
  next
    case False
    then have "\<not> state_idx d + 1 < nstates d" using idx by (simp add: word_less_nat_alt)
    moreover have n: "unat (nstates d + of_nat CLDM_DFA_STATE_DELTA) = unat (nstates d) + 64"
      using assms by (simp add: unat_add_nowrap CLDM_DFA_STATE_DELTA_def)
    then have "c_alloc alloc (unat (nstates d + of_nat CLDM_DFA_STATE_DELTA) * 8) =
        alloc (unat (nstates d + of_nat CLDM_DFA_STATE_DELTA) * 8)"
      using assms by (simp add: c_alloc_def)
    ultimately show ?thesis using s n False assms
      by (cases "alloc (unat (nstates d + of_nat CLDM_DFA_STATE_DELTA) * 8)")
        (auto simp: cldm_dfa_state_pop_def cldm_dfa_ensure_state_capacity_def Let_def
          intro!: exI [of _ "nstates d + of_nat CLDM_DFA_STATE_DELTA"])
  qed
qed

lemma edge_pop:
  assumes "unat (edge_idx d) = k" and "k < 2 ^ 30" and "length (dfa_edges d) = unat (nedges d)"
    and "k \<le> unat (nedges d)" and "unat (nedges d) \<le> k + 129"
  shows "(\<not> (\<forall>n. alloc n) \<and> cldm_dfa_edge_pop alloc d = (- 1, d)) \<or>
    (\<exists>n. k < unat n \<and> unat n \<le> Suc k + 129 \<and> unat (nedges d) \<le> unat n \<and>
       cldm_dfa_edge_pop alloc d = (int k,
         d\<lparr>dfa_edges := grow (dfa_edges d) (unat n), nedges := n, edge_idx := edge_idx d + 1\<rparr>))"
proof -
  have idx: "unat (edge_idx d + 1) = Suc k" using assms(1,2) by (simp add: unat_add_nowrap)
  have s: "sint (edge_idx d) = int k" using assms(1,2) by (simp add: sint_small)
  show ?thesis
  proof (cases "Suc k < unat (nedges d)")
    case True
    then have "edge_idx d + 1 < nedges d" using idx by (simp add: word_less_nat_alt)
    then have "cldm_dfa_edge_pop alloc d = (int k, d\<lparr>dfa_edges := grow (dfa_edges d) (unat (nedges d)),
        nedges := nedges d, edge_idx := edge_idx d + 1\<rparr>)"
      using s grow_same [of "dfa_edges d"] assms(3)
      by (simp add: cldm_dfa_edge_pop_def cldm_dfa_ensure_edge_capacity_def)
    with True assms show ?thesis by (intro disjI2 exI [of _ "nedges d"]) simp
  next
    case False
    then have "\<not> edge_idx d + 1 < nedges d" using idx by (simp add: word_less_nat_alt)
    moreover have n: "unat (nedges d + of_nat CLDM_DFA_EDGE_DELTA) = unat (nedges d) + 128"
      using assms by (simp add: unat_add_nowrap CLDM_DFA_EDGE_DELTA_def)
    then have "c_alloc alloc (unat (nedges d + of_nat CLDM_DFA_EDGE_DELTA) * 12) =
        alloc (unat (nedges d + of_nat CLDM_DFA_EDGE_DELTA) * 12)"
      using assms by (simp add: c_alloc_def)
    ultimately show ?thesis using s n False assms
      by (cases "alloc (unat (nedges d + of_nat CLDM_DFA_EDGE_DELTA) * 12)")
        (auto simp: cldm_dfa_edge_pop_def cldm_dfa_ensure_edge_capacity_def Let_def
          intro!: exI [of _ "nedges d + of_nat CLDM_DFA_EDGE_DELTA"])
  qed
qed

text \<open>A word added to the trie, and what it does to the lists of edges.\<close>

lemma trie_words_append:
  assumes "trie_words ws" and "p < length ws" and "ws ! p @ [c] \<notin> set ws"
  shows "trie_words (ws @ [ws ! p @ [c]])"
proof -
  have "\<exists>q\<le>e. is_child (ws @ [ws ! p @ [c]]) q e" if "Suc e < length (ws @ [ws ! p @ [c]])" for e
  proof (cases "Suc e < length ws")
    case True
    with assms(1) obtain q where "q \<le> e" "is_child ws q e" by (auto simp: trie_words_def)
    with True show ?thesis by (intro exI [of _ q]) (auto simp: is_child_def nth_append)
  next
    case False
    with that have "Suc e = length ws" by simp
    with assms(2) show ?thesis by (intro exI [of _ p]) (auto simp: is_child_def nth_append)
  qed
  with assms show ?thesis by (auto simp: trie_words_def nth_append)
qed

lemma last_child_new:
  assumes "trie_words ws" and "p < length ws" and "ws ! p @ [c] \<notin> set ws" and "q < length ws"
  shows "last_child (ws @ [ws ! p @ [c]]) q (length ws) =
    (if q = p then int (length ws - 1) else last_child ws q (length ws - 1))"
proof -
  have n: "length ws = Suc (length ws - 1)" using assms(2) by simp
  have "is_child (ws @ [ws ! p @ [c]]) q (length ws - 1) \<longleftrightarrow> ws ! p = ws ! q"
    using assms(4) n by (simp add: is_child_def nth_append)
  also have "\<dots> \<longleftrightarrow> q = p" using assms by (auto simp: trie_words_def nth_eq_iff_index_eq)
  finally show ?thesis
    using assms(4) last_child_append [of q ws "length ws - 1"] by (subst n) simp
qed

lemma last_child_leaf:
  assumes "trie_words ws" and "p < length ws" and "ws ! p @ [c] \<notin> set ws"
  shows "n \<le> length ws \<Longrightarrow> last_child (ws @ [ws ! p @ [c]]) (length ws) n = - 1"
proof (induction n)
  case (Suc n)
  have "\<not> is_child (ws @ [ws ! p @ [c]]) (length ws) n"
  proof
    assume "is_child (ws @ [ws ! p @ [c]]) (length ws) n"
    then obtain x where x: "(ws @ [ws ! p @ [c]]) ! Suc n = (ws ! p @ [c]) @ [x]" by (auto simp: is_child_iff)
    show False
    proof (cases "Suc n < length ws")
      case True
      with assms(1) obtain q where "q \<le> n" "is_child ws q n" by (auto simp: trie_words_def)
      with x True have "ws ! q = ws ! p @ [c]" by (auto simp: nth_append is_child_def butlast_append)
      with \<open>q \<le> n\<close> True assms(3) show False by (metis Suc_lessD le_less_trans nth_mem)
    next
      case False
      with Suc.prems have "Suc n = length ws" by simp
      with x show False by (simp add: nth_append)
    qed
  qed
  with Suc show ?case by simp
qed simp

text \<open>
  What an appended word leaves in the arrays, which may have grown before: the state \<open>p\<close> has a new first
  edge, and the new state and its edge are behind the others.
\<close>

lemma appended_state:
  assumes "trie_words ws" and "length ops = length ws" and "p < length ws" and "ws ! p @ [c] \<notin> set ws"
    and "length ws < length xs" and "i \<le> length ws"
    and st: "\<And>i. i < length ws \<Longrightarrow> xs ! i =
        Some \<lparr>st_edges = last_child ws i (length ws - 1), st_shortop = ops ! i\<rparr>"
  shows "xs[p := Some \<lparr>st_edges = int (length ws - 1), st_shortop = ops ! p\<rparr>,
      length ws := Some \<lparr>st_edges = - 1, st_shortop = shortop\<rparr>] ! i =
    Some \<lparr>st_edges = last_child (ws @ [ws ! p @ [c]]) i (length ws), st_shortop = (ops @ [shortop]) ! i\<rparr>"
proof (cases "i = length ws")
  case True
  then show ?thesis
    using last_child_leaf [OF assms(1,3,4), of "length ws"] assms(2,5) by (simp add: nth_append)
next
  case False
  with assms(6) have i: "i < length ws" by simp
  with st [OF i] show ?thesis
    using last_child_new [OF assms(1,3,4) i] assms(2,3,5) by (simp add: nth_append nth_list_update)
qed

lemma appended_edge:
  assumes "trie_words ws" and "p < length ws" and "ws ! p @ [c] \<notin> set ws" and "length ws - 1 < length xs"
    and "Suc e < length ws + 1" and "q < length ws + 1" and "is_child (ws @ [ws ! p @ [c]]) q e"
    and ed: "\<And>e q. Suc e < length ws \<Longrightarrow> q < length ws \<Longrightarrow> is_child ws q e \<Longrightarrow> xs ! e =
        Some \<lparr>ed_ch = c_char (last (ws ! Suc e)), ed_next = last_child ws q e, ed_end = int (Suc e)\<rparr>"
  shows "xs[length ws - 1 := Some \<lparr>ed_ch = c_char c, ed_next = last_child ws p (length ws - 1), ed_end = int (length ws)\<rparr>] ! e =
    Some \<lparr>ed_ch = c_char (last ((ws @ [ws ! p @ [c]]) ! Suc e)),
      ed_next = last_child (ws @ [ws ! p @ [c]]) q e, ed_end = int (Suc e)\<rparr>"
proof -
  have q: "q < length ws"
    using last_child_leaf [OF assms(1-3), of "Suc e"] assms(5-7) by (cases "q = length ws") auto
  show ?thesis
  proof (cases "e = length ws - 1")
    case True
    then have se: "Suc e = length ws" using assms(2) by simp
    have "ws ! p = ws ! q" using assms(7) q unfolding is_child_def se by (simp add: nth_append)
    then have "q = p" using assms(1,2) q by (auto simp: trie_words_def nth_eq_iff_index_eq)
    with True se show ?thesis
      using assms(4) last_child_append [OF assms(2), of "length ws - 1" "[ws ! p @ [c]]"] by (simp add: nth_append)
  next
    case False
    with assms(5) have e: "Suc e < length ws" by simp
    with assms(7) q have "is_child ws q e" by (simp add: is_child_def nth_append)
    from ed [OF e q this] show ?thesis
      using e False last_child_append [OF q, of e "[ws ! p @ [c]]"] by (simp add: nth_append)
  qed
qed

text \<open>The step itself, on arrays that have grown to \<open>n\<close> edges and \<open>n'\<close> states.\<close>

lemma append_grown:
  assumes ok: "dfa_ok d ws ops" and p: "p < length ws" and w: "ws ! p @ [c] \<notin> set ws" and len: "length ws < 2 ^ 30"
    and n: "length ws - 1 < unat n" "unat n \<le> Suc (length ws - 1) + 129" "unat (nedges d) \<le> unat n"
    and n': "length ws < unat n'" "unat n' \<le> Suc (length ws) + 64" "unat (nstates d) \<le> unat n'"
  shows "dfa_ok (d\<lparr>nedges := n, edge_idx := edge_idx d + 1, nstates := n', state_idx := state_idx d + 1,
      dfa_edges := (grow (dfa_edges d) (unat n))[length ws - 1 :=
        Some \<lparr>ed_ch = c_char c, ed_next = last_child ws p (length ws - 1), ed_end = int (length ws)\<rparr>],
      dfa_states := (grow (dfa_states d) (unat n'))[p := Some \<lparr>st_edges = int (length ws - 1), st_shortop = ops ! p\<rparr>,
        length ws := Some \<lparr>st_edges = - 1, st_shortop = shortop\<rparr>]\<rparr>) (ws @ [ws ! p @ [c]]) (ops @ [shortop])"
proof -
  have d: "trie_words ws" "length ops = length ws" "dfa_start d = 0" "unat (state_idx d) = length ws"
    "Suc (unat (edge_idx d)) = length ws" "length (dfa_states d) = unat (nstates d)"
    "length (dfa_edges d) = unat (nedges d)" "length ws \<le> unat (nstates d)" "length ws \<le> Suc (unat (nedges d))"
    and st: "\<And>i. i < length ws \<Longrightarrow> dfa_states d ! i =
        Some \<lparr>st_edges = last_child ws i (length ws - 1), st_shortop = ops ! i\<rparr>"
    and ed: "\<And>e q. Suc e < length ws \<Longrightarrow> q < length ws \<Longrightarrow> is_child ws q e \<Longrightarrow> dfa_edges d ! e =
        Some \<lparr>ed_ch = c_char (last (ws ! Suc e)), ed_next = last_child ws q e, ed_end = int (Suc e)\<rparr>"
    using ok unfolding dfa_ok_def by auto
  have le: "length (dfa_edges d) \<le> unat n" and ls: "length (dfa_states d) \<le> unat n'"
    using n(3) n'(3) d(6,7) by simp_all
  have k: "length ws - 1 < length (grow (dfa_edges d) (unat n))" "length ws < length (grow (dfa_states d) (unat n'))"
    using n(1) n'(1) grow_spec(1) [OF le] grow_spec(1) [OF ls] by simp_all
  have "grow (dfa_states d) (unat n') ! i = Some \<lparr>st_edges = last_child ws i (length ws - 1), st_shortop = ops ! i\<rparr>"
    if "i < length ws" for i using st [OF that] grow_spec(2) [OF ls, of i] d(6,8) that by simp
  note states = appended_state [OF d(1,2) p w k(2) _ this]
  have "grow (dfa_edges d) (unat n) ! e =
      Some \<lparr>ed_ch = c_char (last (ws ! Suc e)), ed_next = last_child ws q e, ed_end = int (Suc e)\<rparr>"
    if "Suc e < length ws" "q < length ws" "is_child ws q e" for e q
    using ed [OF that] grow_spec(2) [OF le, of e] d(7,9) that(1) by simp
  note edges = appended_edge [OF d(1) p w k(1) _ _ _ this]
  have "unat (state_idx d + 1) = Suc (length ws)" "unat (edge_idx d + 1) = length ws"
    using d(4,5) len by (simp_all add: unat_add_nowrap)
  then show ?thesis
    unfolding dfa_ok_def
    using trie_words_append [OF d(1) p w] states edges d n n' grow_spec(1) [OF le] grow_spec(1) [OF ls] by simp
qed

lemma append_ok:
  assumes "dfa_ok d ws ops" and "p < length ws" and "ws ! p @ [c] \<notin> set ws" and "length ws < 2 ^ 30"
  shows "\<exists>r d'. cldm_dfa_append alloc d (int p) (c_char c) shortop = Some (r, d') \<and>
    (if r = - 1 then \<not> (\<forall>n. alloc n)
     else r = int (length ws) \<and> dfa_ok d' (ws @ [ws ! p @ [c]]) (ops @ [shortop]))"
proof -
  have ok: "unat (state_idx d) = length ws" "Suc (unat (edge_idx d)) = length ws"
    "length (dfa_states d) = unat (nstates d)" "length (dfa_edges d) = unat (nedges d)" "length ws \<le> unat (nstates d)"
    "unat (nstates d) \<le> length ws + 64" "length ws \<le> Suc (unat (nedges d))" "unat (nedges d) \<le> length ws + 128"
    and get: "arr_get (dfa_states d) (int p) =
        Some \<lparr>st_edges = last_child ws p (length ws - 1), st_shortop = ops ! p\<rparr>"
    using assms(1,2) unfolding dfa_ok_def by (auto simp: arr_get_def)
  let ?k = "length ws"
  have e: "unat (edge_idx d) = ?k - 1" "?k - 1 < 2 ^ 30" "?k - 1 \<le> unat (nedges d)"
    "unat (nedges d) \<le> ?k - 1 + 129" using ok assms(4) by auto
  note cases = edge_pop [OF e(1,2) ok(4) e(3,4), of alloc]
  show ?thesis
  proof (cases "cldm_dfa_edge_pop alloc d = (- 1, d)")
    case True
    with cases have "\<not> (\<forall>n. alloc n)" by auto
    with True show ?thesis by (simp add: cldm_dfa_append_def)
  next
    case False
    with cases obtain n where n: "?k - 1 < unat n" "unat n \<le> Suc (?k - 1) + 129" "unat (nedges d) \<le> unat n"
      and pop: "cldm_dfa_edge_pop alloc d = (int (?k - 1),
        d\<lparr>dfa_edges := grow (dfa_edges d) (unat n), nedges := n, edge_idx := edge_idx d + 1\<rparr>)" by auto
    let ?d = "d\<lparr>dfa_edges := grow (dfa_edges d) (unat n), nedges := n, edge_idx := edge_idx d + 1\<rparr>"
    have s: "unat (state_idx ?d) = ?k" "length (dfa_states ?d) = unat (nstates ?d)"
      "?k \<le> unat (nstates ?d)" "unat (nstates ?d) \<le> ?k + 64" using ok by auto
    note scases = state_pop [OF s(1) assms(4) s(2-4), of alloc]
    have le: "length (dfa_edges d) \<le> unat n" using n(3) ok(4) by simp
    show ?thesis
    proof (cases "cldm_dfa_state_pop alloc ?d = (- 1, ?d)")
      case True
      with scases have "\<not> (\<forall>n. alloc n)" by auto
      with True n(1) grow_spec(1) [OF le]
      show ?thesis by (auto simp: cldm_dfa_append_def pop get Let_def arr_set_def)
    next
      case False
      with scases obtain n' where n': "?k < unat n'" "unat n' \<le> Suc ?k + 64" "unat (nstates d) \<le> unat n'"
        and spop: "cldm_dfa_state_pop alloc ?d = (int ?k,
          ?d\<lparr>dfa_states := grow (dfa_states d) (unat n'), nstates := n', state_idx := state_idx d + 1\<rparr>)" by auto
      have ls: "length (dfa_states d) \<le> unat n'" using n'(3) ok(3) by simp
      have "ws \<noteq> []" "int (?k - 1) < int (unat n)" using assms(2) n(1) by auto
      then show ?thesis
        using n(1) n'(1) assms(2) grow_spec(1) [OF le] grow_spec(1) [OF ls]
          append_grown [OF assms n n', of shortop]
        by (simp add: cldm_dfa_append_def pop get Let_def spop arr_set_def CLDM_DFA_EDGE_NONE_def nat_diff_distrib')
    qed
  qed
qed


section \<open>The words and their operations\<close>

text \<open>
  \<open>dfa_holds d M\<close>: the automaton has a state for exactly the words in the domain of \<open>M\<close>, with the
  operation \<open>M\<close> gives; 0 stands for a proper prefix of an argument.
\<close>

definition dfa_holds :: "cldm_dfa \<Rightarrow> (u8 list \<rightharpoonup> int) \<Rightarrow> bool" where
  "dfa_holds d M \<longleftrightarrow> (\<exists>ws ops. dfa_ok d ws ops \<and> M = map_of (zip ws ops))"

definition add_prefixes :: "(u8 list \<rightharpoonup> int) \<Rightarrow> u8 list \<Rightarrow> (u8 list \<rightharpoonup> int)" where
  "add_prefixes M arg = (\<lambda>w. if M w = None \<and> prefix w arg then Some 0 else M w)"

lemma dfa_okD:
  assumes "dfa_ok d ws ops"
  shows "distinct ws" "length ops = length ws" "ws \<noteq> []" "ws ! 0 = []" "dfa_start d = 0" "trie_words ws"
  using assms by (auto simp: dfa_ok_def trie_words_def)

lemma get_state:
  assumes "dfa_ok d ws ops" and "p < length ws"
  shows "arr_get (dfa_states d) (int p) =
    Some \<lparr>st_edges = last_child ws p (length ws - 1), st_shortop = ops ! p\<rparr>"
proof -
  from assms have "dfa_states d ! p = Some \<lparr>st_edges = last_child ws p (length ws - 1), st_shortop = ops ! p\<rparr>"
    "p < length (dfa_states d)" unfolding dfa_ok_def by (blast, linarith)
  then show ?thesis by (simp add: arr_get_def)
qed

lemma dom_words: "length ops = length ws \<Longrightarrow> dom (map_of (zip ws ops)) = set ws"
  by simp

lemma words_prefix_closed:
  assumes "trie_words ws" shows "u @ v \<in> set ws \<Longrightarrow> u \<in> set ws"
proof (induction v rule: rev_induct)
  case (snoc x v)
  then obtain i where i: "i < length ws" "ws ! i = u @ v @ [x]" by (auto simp: in_set_conv_nth)
  with assms obtain e where e: "i = Suc e" by (cases i) (auto simp: trie_words_def)
  with i assms obtain p where p: "p \<le> e" "is_child ws p e" unfolding trie_words_def by blast
  then have "ws ! p = u @ v" using i e by (auto simp: is_child_def butlast_append)
  moreover have "ws ! p \<in> set ws" using p i e by simp
  ultimately show ?case using snoc.IH by simp
qed simp

lemma map_of_zip_snoc:
  "length ops = length ws \<Longrightarrow> w \<notin> set ws \<Longrightarrow>
   map_of (zip (ws @ [w]) (ops @ [x])) = (map_of (zip ws ops))(w \<mapsto> x)"
proof -
  assume h: "length ops = length ws" "w \<notin> set ws"
  then have n: "map_of (zip ws ops) w = None" by simp
  show ?thesis
  proof
    fix v
    show "map_of (zip (ws @ [w]) (ops @ [x])) v = ((map_of (zip ws ops))(w \<mapsto> x)) v"
      using h(1) n
      by (cases "v = w"; cases "map_of (zip ws ops) v")
        (simp_all add: map_add_def del: map_of_eq_None_iff map_of_zip_is_None)
  qed
qed

lemma map_of_zip_update:
  assumes "distinct ws" and "length ops = length ws" and "q < length ws"
  shows "map_of (zip ws (ops[q := x])) = (map_of (zip ws ops))(ws ! q \<mapsto> x)"
proof
  fix w
  show "map_of (zip ws (ops[q := x])) w = ((map_of (zip ws ops))(ws ! q \<mapsto> x)) w"
  proof (cases "w \<in> set ws")
    case True
    then obtain i where i: "i < length ws" "w = ws ! i" by (auto simp: in_set_conv_nth)
    with assms show ?thesis
      by (cases "i = q") (auto simp: map_of_zip_nth nth_eq_iff_index_eq)
  next
    case False
    then have "map_of (zip ws (ops[q := x])) w = None" "map_of (zip ws ops) w = None"
      using assms by simp_all
    with False assms(3) show ?thesis by auto
  qed
qed

lemma add_loop:
  "dfa_ok d ws ops \<Longrightarrow> p < length ws \<Longrightarrow> length ws + length arg < 2 ^ 30 \<Longrightarrow>
   \<exists>r d'. dfa_add_loop alloc d (int p) arg = Some (r, d') \<and>
     (if r = - 1 then \<not> (\<forall>n. alloc n)
      else \<exists>q ws' ops'. r = int q \<and> q < length ws' \<and> dfa_ok d' ws' ops' \<and> ws' ! q = ws ! p @ arg \<and>
        (\<forall>w. map_of (zip ws' ops') w =
          (if w \<notin> set ws \<and> prefix w (ws ! p @ arg) then Some 0 else map_of (zip ws ops) w)))"
proof (induction arg arbitrary: d ws ops p)
  case Nil
  have "w \<in> set ws" if "prefix w (ws ! p)" for w
    using that words_prefix_closed [OF dfa_okD(6) [OF Nil(1)], of w] nth_mem [OF Nil(2)] by (auto simp: prefix_def)
  with Nil show ?case by (auto intro!: exI [of _ p] exI [of _ ws] exI [of _ ops])
next
  case (Cons c arg)
  note ok = dfa_okD [OF Cons.prems(1)]
  let ?u = "ws ! p"
  show ?case
  proof (cases "?u @ [c] \<in> set ws")
    case True
    then obtain q where q: "q < length ws" "ws ! q = ?u @ [c]" by (auto simp: in_set_conv_nth)
    have step: "dfa_add_loop alloc d (int p) (c # arg) = dfa_add_loop alloc d (int q) arg"
      using find_edge_word(2) [OF Cons.prems(1,2) q]
      by (simp add: get_state [OF Cons.prems(1,2)] CLDM_DFA_EDGE_NONE_def)
    have w: "ws ! q @ arg = ?u @ c # arg" using q(2) by simp
    have "length ws + length arg < 2 ^ 30" using Cons.prems(3) by simp
    from Cons.IH [OF Cons.prems(1) q(1) this] show ?thesis unfolding step w .
  next
    case False
    let ?ws = "ws @ [?u @ [c]]"
    have len: "length ws < 2 ^ 30" using Cons.prems(3) by simp
    from append_ok [OF Cons.prems(1,2) False len, of alloc 0] obtain r d1 where
      r: "cldm_dfa_append alloc d (int p) (c_char c) 0 = Some (r, d1)" and
      rr: "if r = - 1 then \<not> (\<forall>n. alloc n) else r = int (length ws) \<and> dfa_ok d1 ?ws (ops @ [0])" by blast
    have step: "dfa_add_loop alloc d (int p) (c # arg) =
        (if r = - 1 then Some (- 1, d1) else dfa_add_loop alloc d1 r arg)"
      using find_edge_word(1) [OF Cons.prems(1,2) False]
      by (simp add: get_state [OF Cons.prems(1,2)] CLDM_DFA_EDGE_NONE_def r)
    show ?thesis
    proof (cases "r = - 1")
      case True
      with step rr show ?thesis by (auto simp del: dfa_add_loop.simps)
    next
      case nr: False
      with rr have r': "r = int (length ws)" "dfa_ok d1 ?ws (ops @ [0])" by auto
      have pre: "(w \<notin> set ?ws \<and> prefix w (?u @ c # arg)) \<or> w = ?u @ [c] \<longleftrightarrow>
          w \<notin> set ws \<and> prefix w (?u @ c # arg)" for w
        using False by auto
      have m: "map_of (zip ?ws (ops @ [0])) = (map_of (zip ws ops))(?u @ [c] \<mapsto> 0)"
        by (rule map_of_zip_snoc [OF ok(2) False])
      have w: "?ws ! length ws @ arg = ?u @ c # arg" by simp
      have "length ws < length ?ws" "length ?ws + length arg < 2 ^ 30" using Cons.prems(3) by simp_all
      from Cons.IH [OF r'(2) this] obtain r2 d2 where
        l: "dfa_add_loop alloc d1 r arg = Some (r2, d2)" and
        rest: "if r2 = - 1 then \<not> (\<forall>n. alloc n)
          else \<exists>q ws' ops'. r2 = int q \<and> q < length ws' \<and> dfa_ok d2 ws' ops' \<and> ws' ! q = ?u @ c # arg \<and>
          (\<forall>w. map_of (zip ws' ops') w = (if w \<notin> set ?ws \<and> prefix w (?u @ c # arg) then Some 0
             else map_of (zip ?ws (ops @ [0])) w))"
        unfolding r'(1) w by blast
      show ?thesis
      proof (cases "r2 = - 1")
        case True
        with step nr l rest show ?thesis by (auto simp del: dfa_add_loop.simps)
      next
        case nr2: False
        with rest obtain q ws' ops' where q: "r2 = int q" "q < length ws'" "dfa_ok d2 ws' ops'"
          "ws' ! q = ?u @ c # arg"
          "\<And>w. map_of (zip ws' ops') w = (if w \<notin> set ?ws \<and> prefix w (?u @ c # arg) then Some 0
             else map_of (zip ?ws (ops @ [0])) w)" by auto
        have "map_of (zip ws' ops') w =
            (if w \<notin> set ws \<and> prefix w (?u @ c # arg) then Some 0 else map_of (zip ws ops) w)" for w
          using q(5) [of w] pre [of w] unfolding m by auto
        then have ex: "\<exists>q ws' ops'. r2 = int q \<and> q < length ws' \<and> dfa_ok d2 ws' ops' \<and> ws' ! q = ?u @ c # arg \<and>
            (\<forall>w. map_of (zip ws' ops') w =
              (if w \<notin> set ws \<and> prefix w (?u @ c # arg) then Some 0 else map_of (zip ws ops) w))"
          using q(1-4) by blast
        have "dfa_add_loop alloc d (int p) (c # arg) = Some (r2, d2)" by (simp only: step nr l if_False)
        then show ?thesis using ex nr2
          by (intro exI [of _ r2] exI [of _ d2] conjI) (simp_all only: if_False)
      qed
    qed
  qed
qed

lemma set_shortop:
  assumes "dfa_ok d ws ops" and "q < length ws"
  shows "\<exists>states. arr_set (dfa_states d) (int q)
      (\<lparr>st_edges = last_child ws q (length ws - 1), st_shortop = ops ! q\<rparr>\<lparr>st_shortop := x\<rparr>) = Some states \<and>
    dfa_ok (d\<lparr>dfa_states := states\<rparr>) ws (ops[q := x])"
proof -
  from assms have "q < length (dfa_states d)" unfolding dfa_ok_def by linarith
  with assms show ?thesis
    by (auto simp: arr_set_def dfa_ok_def nth_list_update)
qed

lemma card_words: "dfa_ok d ws ops \<Longrightarrow> card (dom (map_of (zip ws ops))) = length ws"
  using dfa_okD [of d ws ops] by (simp add: distinct_card)

lemma add_argument':
  assumes "dfa_holds d M" and "card (dom M) + length arg < 2 ^ 30"
  shows "\<exists>b d'. cldm_dfa_add_argument alloc d arg x = Some (b, d') \<and>
    (if b then dfa_holds d' ((add_prefixes M arg)(arg \<mapsto> x)) else \<not> (\<forall>n. alloc n))"
proof -
  from assms(1) obtain ws ops where ok: "dfa_ok d ws ops" "M = map_of (zip ws ops)" by (auto simp: dfa_holds_def)
  note f = dfa_okD [OF ok(1)]
  have "0 < length ws" "length ws + length arg < 2 ^ 30"
    using f(3) assms(2) card_words [OF ok(1)] ok(2) by simp_all
  from add_loop [OF ok(1) this, of alloc] obtain r d1 where
    l: "dfa_add_loop alloc d (int 0) arg = Some (r, d1)" and
    rest: "if r = - 1 then \<not> (\<forall>n. alloc n)
      else \<exists>q ws' ops'. r = int q \<and> q < length ws' \<and> dfa_ok d1 ws' ops' \<and> ws' ! q = arg \<and>
        (\<forall>w. map_of (zip ws' ops') w = (if w \<notin> set ws \<and> prefix w arg then Some 0 else map_of (zip ws ops) w))"
    unfolding f(4) append_Nil by blast
  show ?thesis
  proof (cases "r = - 1")
    case True
    with l rest f(5) show ?thesis by (auto simp: cldm_dfa_add_argument_def)
  next
    case False
    with rest obtain q ws' ops' where q: "r = int q" "q < length ws'" "dfa_ok d1 ws' ops'" "ws' ! q = arg"
      and m: "\<And>w. map_of (zip ws' ops') w = (if w \<notin> set ws \<and> prefix w arg then Some 0 else map_of (zip ws ops) w)"
      by auto
    from set_shortop [OF q(3,2), of x] obtain states where
      "arr_set (dfa_states d1) (int q)
        (\<lparr>st_edges = last_child ws' q (length ws' - 1), st_shortop = ops' ! q\<rparr>\<lparr>st_shortop := x\<rparr>) = Some states"
      "dfa_ok (d1\<lparr>dfa_states := states\<rparr>) ws' (ops'[q := x])" by blast
    moreover have "map_of (zip ws' (ops'[q := x])) = (add_prefixes M arg)(arg \<mapsto> x)"
    proof -
      have "map_of (zip ws' ops') = add_prefixes M arg"
        using m f(2) ok(2) by (auto simp: add_prefixes_def fun_eq_iff map_of_zip_is_None)
      then show ?thesis using map_of_zip_update [OF dfa_okD(1,2) [OF q(3)] q(2), of x] dfa_okD [OF q(3)] q(4) by simp
    qed
    ultimately have "dfa_holds (d1\<lparr>dfa_states := states\<rparr>) ((add_prefixes M arg)(arg \<mapsto> x))"
      and set: "arr_set (dfa_states d1) (int q)
        (\<lparr>st_edges = last_child ws' q (length ws' - 1), st_shortop = ops' ! q\<rparr>\<lparr>st_shortop := x\<rparr>) = Some states"
      unfolding dfa_holds_def by metis+
    moreover have "cldm_dfa_add_argument alloc d arg x = Some (True, d1\<lparr>dfa_states := states\<rparr>)"
      using l q(1) False set by (simp add: cldm_dfa_add_argument_def f(5) get_state [OF q(3,2)])
    ultimately show ?thesis by (intro exI [of _ True] exI [of _ "d1\<lparr>dfa_states := states\<rparr>"]) simp
  qed
qed

lemma init_holds:
  "fst (cldm_dfa_init alloc d0) \<Longrightarrow> dfa_holds (snd (cldm_dfa_init alloc d0)) [[] \<mapsto> 0]"
  by (auto simp: cldm_dfa_init_def dfa_holds_def dfa_ok_def trie_words_def CLDM_DFA_STATE_DELTA_def
      CLDM_DFA_EDGE_DELTA_def CLDM_DFA_EDGE_NONE_def intro!: exI [of _ "[[]]"] exI [of _ "[0]"] split: if_splits)

section \<open>Simulation\<close>

lemma dfa_run_words:
  "dfa_ok d ws ops \<Longrightarrow> p < length ws \<Longrightarrow>
   \<exists>q n. dfa_run d \<lparr>st_edges = last_child ws p (length ws - 1), st_shortop = ops ! p\<rparr> input pos =
       Some (\<lparr>st_edges = last_child ws q (length ws - 1), st_shortop = ops ! q\<rparr>, pos + n) \<and>
     q < length ws \<and> ws ! q = ws ! p @ take n input \<and> n \<le> length input \<and>
     (n < length input \<longrightarrow> ws ! p @ take (Suc n) input \<notin> set ws)"
proof (induction input arbitrary: p pos)
  case Nil
  then show ?case by auto
next
  case (Cons c input)
  show ?case
  proof (cases "ws ! p @ [c] \<in> set ws")
    case True
    then obtain q where q: "q < length ws" "ws ! q = ws ! p @ [c]" by (auto simp: in_set_conv_nth)
    from Cons.IH [OF Cons.prems(1) q(1), of "Suc pos"] obtain q' n where
      "dfa_run d \<lparr>st_edges = last_child ws q (length ws - 1), st_shortop = ops ! q\<rparr> input (Suc pos) =
        Some (\<lparr>st_edges = last_child ws q' (length ws - 1), st_shortop = ops ! q'\<rparr>, Suc pos + n)"
      "q' < length ws" "ws ! q' = ws ! q @ take n input" "n \<le> length input"
      "n < length input \<longrightarrow> ws ! q @ take (Suc n) input \<notin> set ws" by auto
    with find_edge_word(2) [OF Cons.prems q] q(2) get_state [OF Cons.prems(1) q(1)] show ?thesis
      by (intro exI [of _ q'] exI [of _ "Suc n"]) (simp add: CLDM_DFA_EDGE_NONE_def)
  next
    case False
    with find_edge_word(1) [OF Cons.prems False] Cons.prems show ?thesis
      by (intro exI [of _ p] exI [of _ 0]) (simp add: CLDM_DFA_EDGE_NONE_def)
  qed
qed

lemma simulate':
  assumes "dfa_holds d M" and "length input < 2 ^ 31"
  shows "\<exists>n x. n \<le> length input \<and> M (take n input) = Some x \<and>
    (\<forall>k. n < k \<and> k \<le> length input \<longrightarrow> M (take k input) = None) \<and>
    cldm_dfa_simulate d input = Some (if x \<noteq> 0 then (int n, x) else (- 1, 0))"
proof -
  from assms(1) obtain ws ops where ok: "dfa_ok d ws ops" "M = map_of (zip ws ops)" by (auto simp: dfa_holds_def)
  note f = dfa_okD [OF ok(1)]
  have 0: "0 < length ws" using f(3) by simp
  from dfa_run_words [OF ok(1) 0, of input 0] f(4) obtain q n where
    run: "dfa_run d \<lparr>st_edges = last_child ws 0 (length ws - 1), st_shortop = ops ! 0\<rparr> input 0 =
       Some (\<lparr>st_edges = last_child ws q (length ws - 1), st_shortop = ops ! q\<rparr>, n)"
    and q: "q < length ws" "ws ! q = take n input" "n \<le> length input"
    "n < length input \<longrightarrow> take (Suc n) input \<notin> set ws" by auto
  have "M (take n input) = Some (ops ! q)"
    using map_of_zip_nth [of ws ops q] f(1,2) q(1,2) ok(2) by simp
  moreover have "M (take k input) = None" if "n < k" "k \<le> length input" for k
  proof -
    have "take k input = take (Suc n) input @ drop (Suc n) (take k input)"
      using that(1) by (metis Suc_leI append_take_drop_id min.absorb1 take_take)
    then have "take k input \<notin> set ws"
      using words_prefix_closed [OF f(6)] q(4) that by (metis less_le_trans)
    then show ?thesis using ok(2) f(2) by (simp add: map_of_zip_is_None)
  qed
  moreover have "sint (of_nat n :: u32) = int n"
    using q(3) assms(2) by (subst sint_small) (simp_all add: unat_of_nat)
  then have "cldm_dfa_simulate d input =
      Some (if ops ! q \<noteq> 0 then (int n, ops ! q) else (- 1, 0))"
    using get_state [OF ok(1) 0] run f(5) by (simp add: cldm_dfa_simulate_def)
  ultimately show ?thesis using q(3) by blast
qed


section \<open>A recogniser of prefixes\<close>

text \<open>
  The contract its client, the argument parser, relies on: arguments can be added, and a simulation
  stops after the longest prefix of the input that is a prefix of an argument.
\<close>

fun op_table :: "(u8 list \<rightharpoonup> int) \<Rightarrow> (u8 list \<times> int) list \<Rightarrow> (u8 list \<rightharpoonup> int)" where
  "op_table M [] = M"
| "op_table M ((w, x) # args) = op_table ((add_prefixes M w)(w \<mapsto> x)) args"

fun add_all :: "('d \<Rightarrow> u8 list \<Rightarrow> int \<Rightarrow> (bool \<times> 'd) option) \<Rightarrow> 'd \<Rightarrow> (u8 list \<times> int) list \<Rightarrow> (bool \<times> 'd) option" where
  "add_all add d [] = Some (True, d)"
| "add_all add d ((w, x) # args) =
     do { (ok, d) \<leftarrow> add d w x; if ok then add_all add d args else Some (False, d) }"

definition longest_match :: "(u8 list \<rightharpoonup> int) \<Rightarrow> u8 list \<Rightarrow> nat \<Rightarrow> int \<Rightarrow> bool" where
  "longest_match M input n x \<longleftrightarrow>
     n \<le> length input \<and> M (take n input) = Some x \<and>
     (\<forall>k. n < k \<and> k \<le> length input \<longrightarrow> M (take k input) = None)"

lemma prefixes_finite: "finite {w. prefix w arg}" and card_prefixes: "card {w. prefix w arg} = Suc (length arg)"
proof -
  have "{w. prefix w arg} = (\<lambda>n. take n arg) ` {..length arg}"
  proof (intro set_eqI iffI)
    fix w assume "w \<in> {w. prefix w arg}"
    then obtain v where "arg = w @ v" by (auto simp: prefix_def)
    then show "w \<in> (\<lambda>n. take n arg) ` {..length arg}" by (intro image_eqI [of _ _ "length w"]) auto
  qed (auto simp: take_is_prefix)
  moreover have "inj_on (\<lambda>n. take n arg) {..length arg}"
    by (rule inj_onI) (metis atMost_iff length_take min.absorb2)
  ultimately show "finite {w. prefix w arg}" "card {w. prefix w arg} = Suc (length arg)"
    by (simp_all add: card_image)
qed

lemma dom_add_prefixes: "dom ((add_prefixes M w)(w \<mapsto> x)) = dom M \<union> {v. prefix v w}"
  by (auto simp: add_prefixes_def split: if_splits)

locale prefix_matcher =
  fixes holds :: "'d \<Rightarrow> (u8 list \<rightharpoonup> int) \<Rightarrow> bool"
    and add :: "'d \<Rightarrow> u8 list \<Rightarrow> int \<Rightarrow> (bool \<times> 'd) option"
    and sim :: "'d \<Rightarrow> u8 list \<Rightarrow> (int \<times> int) option"
    and limit :: nat
    and max_input :: nat
  assumes add_law: "holds d M \<Longrightarrow> card (dom M) + length w < limit \<Longrightarrow>
      \<exists>d'. add d w x = Some (True, d') \<and> holds d' ((add_prefixes M w)(w \<mapsto> x))"
    and sim_law: "holds d M \<Longrightarrow> length input < max_input \<Longrightarrow>
      \<exists>n x. longest_match M input n x \<and> sim d input = Some (if x \<noteq> 0 then (int n, x) else (- 1, 0))"
begin

lemma add_all_holds:
  "holds d M \<Longrightarrow> finite (dom M) \<Longrightarrow> card (dom M) + (\<Sum>(w, x)\<leftarrow>args. Suc (length w)) < limit \<Longrightarrow>
   \<exists>d'. add_all add d args = Some (True, d') \<and> holds d' (op_table M args)"
proof (induction args arbitrary: d M)
  case (Cons a args)
  obtain w x where a: "a = (w, x)" by (cases a)
  let ?M = "(add_prefixes M w)(w \<mapsto> x)"
  from add_law [OF Cons.prems(1), of w x] Cons.prems(3) a obtain d1 where
    d1: "add d w x = Some (True, d1)" "holds d1 ?M" by auto
  have "card (dom ?M) \<le> card (dom M) + Suc (length w)"
    unfolding dom_add_prefixes using card_Un_le [of "dom M" "{v. prefix v w}"] by (simp add: card_prefixes)
  moreover have "finite (dom ?M)" unfolding dom_add_prefixes using Cons.prems(2) prefixes_finite by simp
  moreover from calculation have "card (dom ?M) + (\<Sum>(w, x)\<leftarrow>args. Suc (length w)) < limit"
    using Cons.prems(3) a by simp
  ultimately obtain d' where "add_all add d1 args = Some (True, d')" "holds d' (op_table ?M args)"
    using Cons.IH [OF d1(2)] by blast
  with d1 a show ?case by simp
qed simp

lemma sim_after_add_all:
  assumes "holds d [[] \<mapsto> 0]" and "(\<Sum>(w, x)\<leftarrow>args. Suc (length w)) + 1 < limit"
    and "length input < max_input"
  shows "\<exists>d' n x. add_all add d args = Some (True, d') \<and> longest_match (op_table [[] \<mapsto> 0] args) input n x \<and>
    sim d' input = Some (if x \<noteq> 0 then (int n, x) else (- 1, 0))"
proof -
  from add_all_holds [OF assms(1), of args] assms(2) obtain d' where
    d': "add_all add d args = Some (True, d')" "holds d' (op_table [[] \<mapsto> 0] args)" by auto
  from sim_law [OF d'(2) assms(3)] d'(1) show ?thesis by blast
qed

end

interpretation dfa: prefix_matcher dfa_holds "cldm_dfa_add_argument (\<lambda>n. True)" cldm_dfa_simulate
    "2 ^ 30" "2 ^ 31"
proof
  fix d :: cldm_dfa and M and w :: "u8 list" and x
  assume d: "dfa_holds d M" and w: "card (dom M) + length w < 2 ^ 30"
  from add_argument' [OF d w, of "\<lambda>n. True" x]
  show "\<exists>d'. cldm_dfa_add_argument (\<lambda>n. True) d w x = Some (True, d') \<and>
      dfa_holds d' ((add_prefixes M w)(w \<mapsto> x))" by (auto split: if_splits)
next
  fix d :: cldm_dfa and M and input :: "u8 list"
  assume d: "dfa_holds d M" and input: "length input < 2 ^ 31"
  from simulate' [OF d input] show "\<exists>n x. longest_match M input n x \<and>
      cldm_dfa_simulate d input = Some (if x \<noteq> 0 then (int n, x) else (- 1, 0))"
    by (auto simp: longest_match_def)
qed

text \<open>What the table of a list of arguments says.\<close>

lemma op_table_lookup:
  "distinct (map fst args) \<Longrightarrow>
   op_table M args w =
     (case map_of args w of
        Some x \<Rightarrow> Some x
      | None \<Rightarrow> if M w = None \<and> (\<exists>a \<in> fst ` set args. prefix w a) then Some 0 else M w)"
proof (induction args arbitrary: M)
  case (Cons a args)
  obtain v y where a: "a = (v, y)" by (cases a)
  have n: "map_of args v = None" using Cons.prems a by (simp add: map_of_eq_None_iff)
  show ?case
  proof (cases "w = v")
    case True
    with Cons a n show ?thesis by auto
  next
    case False
    with Cons a show ?thesis by (auto simp: add_prefixes_def split: option.splits)
  qed
qed simp

section \<open>Correctness\<close>

text \<open>A variable before its initialisation, for the examples.\<close>

definition dfa_blank :: cldm_dfa where
  "dfa_blank = \<lparr>dfa_states = [], dfa_edges = [], nstates = 0, state_idx = 0, nedges = 0, edge_idx = 0, dfa_start = 0\<rparr>"

text \<open>
  C19: adding an argument to an automaton returns; when it reports success, and it does so whenever
  memory can be had, the automaton has the new word with its operation and states for its prefixes,
  and every other word keeps its operation.
\<close>

theorem cldm_dfa_add_argument_correct:
  assumes "dfa_holds d M" and "card (dom M) + length arg < 2 ^ 30"
  shows "\<exists>b d'. cldm_dfa_add_argument alloc d arg x = Some (b, d') \<and>
    (if b then dfa_holds d' ((add_prefixes M arg)(arg \<mapsto> x)) else \<not> (\<forall>n. alloc n))"
  by (rule add_argument' [OF assms])

theorem cldm_dfa_add_argument_correct_witness:
  "\<exists>b d'. cldm_dfa_add_argument (\<lambda>n. True) (snd (cldm_dfa_init (\<lambda>n. True) dfa_blank)) [45, 45] 257 = Some (b, d') \<and>
     b \<and> dfa_holds d' [[] \<mapsto> 0, [45] \<mapsto> 0, [45, 45] \<mapsto> 257]"
proof -
  have "fst (cldm_dfa_init (\<lambda>n. True) dfa_blank)" by (simp add: cldm_dfa_init_def c_alloc_def CLDM_DFA_STATE_DELTA_def CLDM_DFA_EDGE_DELTA_def)
  from cldm_dfa_add_argument_correct [OF init_holds [OF this], of "[45, 45]" "\<lambda>n. True" 257]
  have "\<exists>b d'. cldm_dfa_add_argument (\<lambda>n. True) (snd (cldm_dfa_init (\<lambda>n. True) dfa_blank)) [45, 45] 257 = Some (b, d') \<and>
     b \<and> dfa_holds d' ((add_prefixes [[] \<mapsto> 0] [45, 45])([45, 45] \<mapsto> 257))"
    by (auto split: if_splits)
  moreover have "(add_prefixes [[] \<mapsto> 0] [45, 45])([45, 45] \<mapsto> 257) = [[] \<mapsto> 0, [45 :: u8] \<mapsto> 0, [45, 45] \<mapsto> 257]"
    by (auto simp: fun_eq_iff add_prefixes_def prefix_Cons)
  ultimately show ?thesis by simp
qed

text \<open>
  C20: simulating an automaton on an input returns; it stops after the longest prefix of the input
  for which there is a state, and accepts with that length and the operation of the word, or, if the
  word is only a prefix of an argument, rejects with \<open>-1\<close>, even when a shorter prefix is accepting.
\<close>

theorem cldm_dfa_simulate_correct:
  assumes "dfa_holds d M" and "length input < 2 ^ 31"
  shows "\<exists>n x. n \<le> length input \<and> M (take n input) = Some x \<and>
    (\<forall>k. n < k \<and> k \<le> length input \<longrightarrow> M (take k input) = None) \<and>
    cldm_dfa_simulate d input = Some (if x \<noteq> 0 then (int n, x) else (- 1, 0))"
  by (rule simulate' [OF assms])

theorem cldm_dfa_simulate_correct_witness:
  "cldm_dfa_simulate (snd (cldm_dfa_init (\<lambda>n. True) dfa_blank)) [45] = Some (- 1, 0)"
proof -
  have "fst (cldm_dfa_init (\<lambda>n. True) dfa_blank)" by (simp add: cldm_dfa_init_def c_alloc_def CLDM_DFA_STATE_DELTA_def CLDM_DFA_EDGE_DELTA_def)
  from cldm_dfa_simulate_correct [OF init_holds [OF this], of "[45]"] show ?thesis
    by (auto split: if_splits)
qed

text \<open>
  C7: after adding distinct arguments to a fresh automaton, with memory for its growth, every
  simulation stops after the longest prefix of the input that is a prefix of an argument, and
  succeeds exactly if that prefix is an argument with a non-zero operation.
\<close>

theorem cldm_dfa_switches:
  assumes "distinct (map fst args)" and "(\<Sum>(w, x)\<leftarrow>args. Suc (length w)) + 1 < 2 ^ 30"
    and "length input < 2 ^ 31"
  shows "\<exists>d n. add_all (cldm_dfa_add_argument (\<lambda>n. True)) (snd (cldm_dfa_init (\<lambda>n. True) d0)) args = Some (True, d) \<and>
    n \<le> length input \<and> (n = 0 \<or> (\<exists>a \<in> fst ` set args. prefix (take n input) a)) \<and>
    (\<forall>k. n < k \<and> k \<le> length input \<longrightarrow> \<not> (\<exists>a \<in> fst ` set args. prefix (take k input) a)) \<and>
    cldm_dfa_simulate d input =
      Some (case map_of args (take n input) of
              Some x \<Rightarrow> if x \<noteq> 0 then (int n, x) else (- 1, 0) | None \<Rightarrow> (- 1, 0))"
proof -
  have "fst (cldm_dfa_init (\<lambda>n. True) d0)" by (simp add: cldm_dfa_init_def c_alloc_def CLDM_DFA_STATE_DELTA_def CLDM_DFA_EDGE_DELTA_def)
  from dfa.sim_after_add_all [OF init_holds [OF this] assms(2,3)] obtain d n x where
    r: "add_all (cldm_dfa_add_argument (\<lambda>n. True)) (snd (cldm_dfa_init (\<lambda>n. True) d0)) args = Some (True, d)"
    "longest_match (op_table [[] \<mapsto> 0] args) input n x"
    "cldm_dfa_simulate d input = Some (if x \<noteq> 0 then (int n, x) else (- 1, 0))" by blast
  have m: "op_table [[] \<mapsto> 0] args w = (case map_of args w of Some x \<Rightarrow> Some x
      | None \<Rightarrow> if w = [] \<or> (\<exists>a \<in> fst ` set args. prefix w a) then Some 0 else None)" for w
    unfolding op_table_lookup [OF assms(1)] by (auto split: option.splits)
  have dom: "op_table [[] \<mapsto> 0] args w \<noteq> None \<longleftrightarrow> w = [] \<or> (\<exists>a \<in> fst ` set args. prefix w a)" for w
  proof (cases "map_of args w")
    case (Some x)
    then have "w \<in> fst ` set args" by (force dest: map_of_SomeD)
    then have "\<exists>a \<in> fst ` set args. prefix w a" by blast
    with Some show ?thesis by (simp add: m)
  qed (simp add: m)
  have n: "n \<le> length input" "op_table [[] \<mapsto> 0] args (take n input) = Some x"
    "\<forall>k. n < k \<and> k \<le> length input \<longrightarrow> op_table [[] \<mapsto> 0] args (take k input) = None"
    using r(2) unfolding longest_match_def by blast+
  have "n = 0 \<or> (\<exists>a \<in> fst ` set args. prefix (take n input) a)"
    using dom [of "take n input"] n(1,2) by (cases "n = 0") auto
  moreover have "\<not> (\<exists>a \<in> fst ` set args. prefix (take k input) a)" if "n < k" "k \<le> length input" for k
  proof -
    have e: "op_table [[] \<mapsto> 0] args (take k input) = None" using n(3) that by blast
    show ?thesis using dom [of "take k input"] unfolding e by blast
  qed
  moreover have "cldm_dfa_simulate d input = Some (case map_of args (take n input) of
              Some x \<Rightarrow> if x \<noteq> 0 then (int n, x) else (- 1, 0) | None \<Rightarrow> (- 1, 0))"
    using r(3) m [of "take n input"] n(2) by (auto split: option.splits if_splits)
  ultimately show ?thesis using r(1) n(1) by blast
qed

theorem cldm_dfa_switches_witness:
  "\<exists>d. add_all (cldm_dfa_add_argument (\<lambda>n. True)) (snd (cldm_dfa_init (\<lambda>n. True) dfa_blank))
       [([45, 45 :: u8], 257)] = Some (True, d) \<and>
     cldm_dfa_simulate d [45, 45, 120 :: u8] = Some (2, 257)"
proof -
  let ?args = "[([45, 45 :: u8], 257 :: int)]" and ?in = "[45, 45, 120 :: u8]"
  let ?P = "\<lambda>k. \<exists>a \<in> fst ` set ?args. prefix (take k ?in) a"
  have "distinct (map fst ?args)" "(\<Sum>(w, x)\<leftarrow>?args. Suc (length w)) + 1 < 2 ^ 30" "length ?in < 2 ^ 31"
    by simp_all
  from cldm_dfa_switches [OF this, of dfa_blank] obtain d n where
    d: "add_all (cldm_dfa_add_argument (\<lambda>n. True)) (snd (cldm_dfa_init (\<lambda>n. True) dfa_blank)) ?args = Some (True, d)"
    and n: "n \<le> length ?in" "n = 0 \<or> ?P n" "\<forall>k. n < k \<and> k \<le> length ?in \<longrightarrow> \<not> ?P k"
    and s: "cldm_dfa_simulate d ?in =
      Some (case map_of ?args (take n ?in) of
              Some x \<Rightarrow> if x \<noteq> 0 then (int n, x) else (- 1, 0) | None \<Rightarrow> (- 1, 0))" by blast
  have "?P 2" "\<not> ?P 3" by simp_all
  with n have "\<not> n < 2" "n \<noteq> 3" "n \<le> 3" by auto
  then have "n = 2" by linarith
  with d s show ?thesis by auto
qed

end
