(* ===== verification/Argp.thy ===== *)
theory Argp
  imports Dfa
begin

text \<open>
  \<^verbatim>\<open>cldm/cldm_argp.c\<close>, \<^verbatim>\<open>cldm/cldm_argp.h\<close>: the command line parser. Switches are taken where they are
  met, positional parameters are marked in a bit set, and a final partition moves them to the end of
  \<open>argv\<close>. A string is the list of its bytes without the terminator; a pointer into a string is the
  suffix it points to. Messages, usage included, are not represented.
\<close>

section \<open>Strings\<close>

text \<open>Reading byte \<open>i\<close> of a string: its terminator at most.\<close>

definition c_at :: "u8 list \<Rightarrow> nat \<Rightarrow> u8 option" where
  "c_at s i = (if i < length s then Some (s ! i) else if i = length s then Some 0 else None)"

text \<open>\<open>&s[i]\<close>, for an index inside the string.\<close>

definition c_suffix :: "u8 list \<Rightarrow> nat \<Rightarrow> u8 list option" where
  "c_suffix s i = (if i \<le> length s then Some (drop i s) else None)"

section \<open>\<^verbatim>\<open>strtoul\<close>\<close>

text \<open>
  \<open>strtoul(s, &end, 0)\<close>: leading white space, a sign, the base from the prefix, and the longest run
  of digits. A value too large for \<open>unsigned long\<close> is \<open>ULONG_MAX\<close>; a minus sign negates modulo
  \<open>2 ^ 64\<close>. The second component is \<open>end\<close>, the start of the string if there is no digit.
\<close>

definition c_isspace :: "u8 \<Rightarrow> bool" where
  "c_isspace c \<longleftrightarrow> c = 32 \<or> (9 \<le> c \<and> c \<le> 13)"

definition c_digit :: "nat \<Rightarrow> u8 \<Rightarrow> nat option" where
  "c_digit base c =
     (let v = (if 48 \<le> c \<and> c \<le> 57 then Some (unat c - 48)
               else if 97 \<le> c \<and> c \<le> 122 then Some (unat c - 87)
               else if 65 \<le> c \<and> c \<le> 90 then Some (unat c - 55)
               else None)
      in case v of Some d \<Rightarrow> if d < base then Some d else None | None \<Rightarrow> None)"

fun c_digits :: "nat \<Rightarrow> u8 list \<Rightarrow> nat \<Rightarrow> nat \<times> u8 list" where
  "c_digits base [] acc = (acc, [])"
| "c_digits base (c # cs) acc =
     (case c_digit base c of Some d \<Rightarrow> c_digits base cs (acc * base + d) | None \<Rightarrow> (acc, c # cs))"

definition c_base :: "u8 list \<Rightarrow> nat \<times> u8 list" where
  "c_base s =
     (case s of
        z # x # d # cs \<Rightarrow>
          if z = 48 \<and> (x = 120 \<or> x = 88) \<and> c_digit 16 d \<noteq> None then (16, d # cs)
          else if z = 48 then (8, s) else (10, s)
      | z # cs \<Rightarrow> if z = 48 then (8, s) else (10, s)
      | [] \<Rightarrow> (10, s))"

definition c_strtoul :: "u8 list \<Rightarrow> u64 \<times> u8 list" where
  "c_strtoul str =
     (let s = dropWhile c_isspace str;
          neg = (s \<noteq> [] \<and> hd s = 45);
          s = (if s \<noteq> [] \<and> (hd s = 45 \<or> hd s = 43) then tl s else s);
          (base, s) = c_base s
      in if s = [] \<or> c_digit base (hd s) = None then (0, str)
         else let (v, rest) = c_digits base s 0
              in (if 2 ^ 64 \<le> v then - 1 else if neg then - of_nat v else of_nat v, rest))"

section \<open>State\<close>

datatype cldm_capture = cldm_capture_none | cldm_capture_stdout | cldm_capture_stderr | cldm_capture_all

record cldm_args =
  redirect :: "u8 list option"
  posparams :: nat
  nposparams :: u32
  jobs :: u32
  capture :: cldm_capture
  fail_fast :: bool
  args_help :: bool
  version :: bool
  verbose :: bool

text \<open>The handlers the table of switches and \<open>assign_pending\<close> point to.\<close>

datatype cldm_argp_handle =
    set_verbose | set_version | set_help | set_fail_fast | set_capture | set_capture_none
  | set_redirect | set_posidx | set_jobs

record cldm_argp_ctx =
  assign_pending :: "cldm_argp_handle option"
  ctx_args :: cldm_args
  ctx_index :: int
  treat_as_posparam :: bool
  pending_arg :: bool

record cldm_argp_param =
  p_short :: int
  p_long :: "u8 list"
  p_argument :: "u8 list option"
  p_handle :: cldm_argp_handle

definition CLDM_ARGP_MAX_PARAMS :: nat where "CLDM_ARGP_MAX_PARAMS = 128"
definition cldm_argp_short_usage :: int where "cldm_argp_short_usage = 256"
definition cldm_argp_short_ddash :: int where "cldm_argp_short_ddash = 257"

definition chr :: "char \<Rightarrow> int" where
  "chr c = of_char c"

definition cldm_argp_params :: "cldm_argp_param list" where
  "cldm_argp_params =
    [\<lparr>p_short = chr CHR ''v'', p_long = cstr ''--verbose'', p_argument = None, p_handle = set_verbose\<rparr>,
     \<lparr>p_short = chr CHR ''V'', p_long = cstr ''--version'', p_argument = None, p_handle = set_version\<rparr>,
     \<lparr>p_short = chr CHR ''h'', p_long = cstr ''--help'', p_argument = None, p_handle = set_help\<rparr>,
     \<lparr>p_short = cldm_argp_short_usage, p_long = cstr ''--usage'', p_argument = None, p_handle = set_help\<rparr>,
     \<lparr>p_short = chr CHR ''x'', p_long = cstr ''--fail-fast'', p_argument = None, p_handle = set_fail_fast\<rparr>,
     \<lparr>p_short = chr CHR ''c'', p_long = cstr ''--capture'', p_argument = Some (cstr ''STREAM''),
       p_handle = set_capture\<rparr>,
     \<lparr>p_short = chr CHR ''s'', p_long = cstr ''--capture-none'', p_argument = None,
       p_handle = set_capture_none\<rparr>,
     \<lparr>p_short = chr CHR ''d'', p_long = cstr ''--redirect-captures'', p_argument = Some (cstr ''FILE''),
       p_handle = set_redirect\<rparr>,
     \<lparr>p_short = chr CHR ''j'', p_long = cstr ''--jobs'', p_argument = Some (cstr ''JOBS''),
       p_handle = set_jobs\<rparr>,
     \<lparr>p_short = cldm_argp_short_ddash, p_long = cstr ''--'', p_argument = None, p_handle = set_posidx\<rparr>]"

definition cldm_argp_valid_captures :: "(u8 list \<times> cldm_capture) list" where
  "cldm_argp_valid_captures =
    [(cstr ''none'', cldm_capture_none), (cstr ''stdout'', cldm_capture_stdout),
     (cstr ''stderr'', cldm_capture_stderr), (cstr ''all'', cldm_capture_all)]"

section \<open>Handlers\<close>

text \<open>The result is the return value with the context; \<open>optarg\<close> is never a null pointer.\<close>

definition cldm_argp_set_verbose :: "cldm_argp_ctx \<Rightarrow> u8 list \<Rightarrow> bool \<times> cldm_argp_ctx" where
  "cldm_argp_set_verbose ctx optarg = (True, ctx\<lparr>ctx_args := (ctx_args ctx)\<lparr>verbose := True\<rparr>\<rparr>)"

definition cldm_argp_set_version :: "cldm_argp_ctx \<Rightarrow> u8 list \<Rightarrow> bool \<times> cldm_argp_ctx" where
  "cldm_argp_set_version ctx optarg = (True, ctx\<lparr>ctx_args := (ctx_args ctx)\<lparr>version := True\<rparr>\<rparr>)"

definition cldm_argp_set_help :: "cldm_argp_ctx \<Rightarrow> u8 list \<Rightarrow> bool \<times> cldm_argp_ctx" where
  "cldm_argp_set_help ctx optarg = (True, ctx\<lparr>ctx_args := (ctx_args ctx)\<lparr>args_help := True\<rparr>\<rparr>)"

definition cldm_argp_set_fail_fast :: "cldm_argp_ctx \<Rightarrow> u8 list \<Rightarrow> bool \<times> cldm_argp_ctx" where
  "cldm_argp_set_fail_fast ctx optarg = (True, ctx\<lparr>ctx_args := (ctx_args ctx)\<lparr>fail_fast := True\<rparr>\<rparr>)"

definition cldm_argp_set_capture :: "cldm_argp_ctx \<Rightarrow> u8 list \<Rightarrow> bool \<times> cldm_argp_ctx" where
  "cldm_argp_set_capture ctx optarg =
     (if optarg = [] then (True, ctx\<lparr>pending_arg := True, assign_pending := Some set_capture\<rparr>)
      else case map_of cldm_argp_valid_captures optarg of
             Some c \<Rightarrow> (True, ctx\<lparr>ctx_args := (ctx_args ctx)\<lparr>capture := c\<rparr>\<rparr>)
           | None \<Rightarrow> (False, ctx))"

definition cldm_argp_set_capture_none :: "cldm_argp_ctx \<Rightarrow> u8 list \<Rightarrow> bool \<times> cldm_argp_ctx" where
  "cldm_argp_set_capture_none ctx optarg =
     (True, ctx\<lparr>ctx_args := (ctx_args ctx)\<lparr>capture := cldm_capture_none\<rparr>\<rparr>)"

definition cldm_argp_set_redirect :: "cldm_argp_ctx \<Rightarrow> u8 list \<Rightarrow> bool \<times> cldm_argp_ctx" where
  "cldm_argp_set_redirect ctx optarg =
     (if optarg = [] then (True, ctx\<lparr>pending_arg := True, assign_pending := Some set_redirect\<rparr>)
      else (True, ctx\<lparr>ctx_args := (ctx_args ctx)\<lparr>redirect := Some optarg\<rparr>\<rparr>))"

definition cldm_argp_set_jobs :: "cldm_argp_ctx \<Rightarrow> u8 list \<Rightarrow> bool \<times> cldm_argp_ctx" where
  "cldm_argp_set_jobs ctx optarg =
     (if optarg = [] then (True, ctx\<lparr>pending_arg := True, assign_pending := Some set_jobs\<rparr>)
      else let (n, end) = c_strtoul optarg in
        if end \<noteq> [] then (False, ctx)
        else if n = 0 then (False, ctx)
        else if of_nat CLDM_MAX_THREADS < n
        then (True, ctx\<lparr>ctx_args := (ctx_args ctx)\<lparr>jobs := of_nat CLDM_MAX_THREADS\<rparr>\<rparr>)
        else (True, ctx\<lparr>ctx_args := (ctx_args ctx)\<lparr>jobs := ucast n\<rparr>\<rparr>))"

definition cldm_argp_set_posidx :: "cldm_argp_ctx \<Rightarrow> u8 list \<Rightarrow> bool \<times> cldm_argp_ctx" where
  "cldm_argp_set_posidx ctx optarg = (True, ctx\<lparr>treat_as_posparam := True\<rparr>)"

text \<open>A call through a pointer to a handler.\<close>

fun argp_handle :: "cldm_argp_handle \<Rightarrow> cldm_argp_ctx \<Rightarrow> u8 list \<Rightarrow> bool \<times> cldm_argp_ctx" where
  "argp_handle set_verbose = cldm_argp_set_verbose"
| "argp_handle set_version = cldm_argp_set_version"
| "argp_handle set_help = cldm_argp_set_help"
| "argp_handle set_fail_fast = cldm_argp_set_fail_fast"
| "argp_handle set_capture = cldm_argp_set_capture"
| "argp_handle set_capture_none = cldm_argp_set_capture_none"
| "argp_handle set_redirect = cldm_argp_set_redirect"
| "argp_handle set_posidx = cldm_argp_set_posidx"
| "argp_handle set_jobs = cldm_argp_set_jobs"

section \<open>Switches\<close>

datatype cldm_argp_paramtype = cldm_argp_positional | cldm_argp_switch_short | cldm_argp_switch_long

definition cldm_argp_paramtype :: "u8 list \<Rightarrow> cldm_argp_paramtype option" where
  "cldm_argp_paramtype arg =
     do { a \<leftarrow> c_at arg 0;
          if a \<noteq> 45 then Some cldm_argp_positional
          else do { b \<leftarrow> c_at arg 1;
                    Some (if b = 45 then cldm_argp_switch_long else cldm_argp_switch_short) } }"

text \<open>
  The loop of \<open>cldm_argp_parse_short_switch\<close> over the bytes after the dash. When no row of the table
  matches, \<open>param\<close> points behind the table: the test \<open>!param\<close> does not hold, and the loop goes on.
\<close>

fun short_switch_loop :: "cldm_argp_ctx \<Rightarrow> u8 list \<Rightarrow> bool \<times> cldm_argp_ctx" where
  "short_switch_loop ctx [] = (True, ctx)"
| "short_switch_loop ctx (c # sw) =
     (case find (\<lambda>param. p_short param = c_char c) cldm_argp_params of
        Some param \<Rightarrow>
          (let (ok, ctx) = argp_handle (p_handle param) ctx sw in
           if \<not> ok then (False, ctx)
           else if p_argument param \<noteq> None then (True, ctx)
           else short_switch_loop ctx sw)
      | None \<Rightarrow> short_switch_loop ctx sw)"

definition cldm_argp_parse_short_switch ::
  "cldm_argp_ctx \<Rightarrow> u8 list \<Rightarrow> (bool \<times> cldm_argp_ctx) option" where
  "cldm_argp_parse_short_switch ctx sw =
     (case sw of [] \<Rightarrow> None | _ # rest \<Rightarrow> Some (short_switch_loop ctx rest))"

definition cldm_argp_parse_long_switch ::
  "cldm_argp_ctx \<Rightarrow> cldm_dfa \<Rightarrow> u8 list \<Rightarrow> (bool \<times> cldm_argp_ctx) option" where
  "cldm_argp_parse_long_switch ctx dfa sw =
     do { (len, shortop) \<leftarrow> cldm_dfa_simulate dfa sw;
          if len = - 1 then Some (False, ctx)
          else case find (\<lambda>param. p_short param = shortop) cldm_argp_params of
            None \<Rightarrow> Some (True, ctx)
          | Some param \<Rightarrow>
              if p_argument param \<noteq> None
              then do {
                c \<leftarrow> c_at sw (nat len);
                if c \<noteq> 61 then Some (False, ctx)
                else do {
                  c' \<leftarrow> c_at sw (Suc (nat len));
                  if c' = 0 then Some (False, ctx)
                  else do { optarg \<leftarrow> c_suffix sw (Suc (nat len));
                            Some (argp_handle (p_handle param) ctx optarg) } } }
              else do { optarg \<leftarrow> c_suffix sw (nat len);
                        Some (argp_handle (p_handle param) ctx optarg) } }"

section \<open>The parser\<close>

definition posflag_set :: "u8 list \<Rightarrow> nat \<Rightarrow> u8 list option" where
  "posflag_set posflags i =
     (if i div 8 < length posflags
      then Some (posflags[i div 8 := (posflags ! (i div 8)) OR push_bit (i mod 8) 1]) else None)"

definition posflag_get :: "u8 list \<Rightarrow> nat \<Rightarrow> bool option" where
  "posflag_get posflags i =
     (if i div 8 < length posflags
      then Some ((posflags ! (i div 8)) AND push_bit (i mod 8) 1 \<noteq> 0) else None)"

text \<open>The loop over \<open>argv[1]\<close>, \dots; \<open>i\<close> is the index of the first string of the list.\<close>

fun argp_loop ::
  "cldm_argp_ctx \<Rightarrow> cldm_dfa \<Rightarrow> u8 list \<Rightarrow> nat \<Rightarrow> u8 list list \<Rightarrow> (bool \<times> cldm_argp_ctx \<times> u8 list) option" where
  "argp_loop ctx dfa posflags i [] = Some (True, ctx, posflags)"
| "argp_loop ctx dfa posflags i (arg # argv) =
     (if pending_arg ctx
      then do {
        h \<leftarrow> assign_pending ctx;
        let (ok, ctx) = argp_handle h ctx arg;
        if \<not> ok then Some (False, ctx, posflags)
        else argp_loop (ctx\<lparr>pending_arg := False\<rparr>) dfa posflags (Suc i) argv }
      else do {
        ty \<leftarrow> cldm_argp_paramtype arg;
        case (if treat_as_posparam ctx then cldm_argp_positional else ty) of
          cldm_argp_positional \<Rightarrow>
            do { posflags \<leftarrow> posflag_set posflags (i - 1);
                 argp_loop ctx dfa posflags (Suc i) argv }
        | cldm_argp_switch_short \<Rightarrow>
            do { (ok, ctx) \<leftarrow> cldm_argp_parse_short_switch ctx arg;
                 if \<not> ok then Some (False, ctx, posflags)
                 else argp_loop ctx dfa posflags (Suc i) argv }
        | cldm_argp_switch_long \<Rightarrow>
            do { (ok, ctx) \<leftarrow> cldm_argp_parse_long_switch ctx dfa arg;
                 if \<not> ok then Some (False, ctx, posflags)
                 else argp_loop ctx dfa posflags (Suc i) argv } })"

text \<open>\<open>cldm_argp_partition\<close>: the scratch array has \<open>2 * argc\<close> slots.\<close>

fun partition_loop ::
  "u8 list \<Rightarrow> nat \<Rightarrow> 'a list \<Rightarrow> 'a option list \<Rightarrow> nat \<Rightarrow> nat \<Rightarrow> ('a option list \<times> nat \<times> nat) option" where
  "partition_loop posflags i [] tmp lidx hidx = Some (tmp, lidx, hidx)"
| "partition_loop posflags i (arg # argv) tmp lidx hidx =
     do { pos \<leftarrow> posflag_get posflags i;
          if pos then partition_loop posflags (Suc i) argv (tmp[hidx := Some arg]) lidx (Suc hidx)
          else partition_loop posflags (Suc i) argv (tmp[lidx := Some arg]) (Suc lidx) hidx }"

definition cldm_argp_partition ::
  "(nat \<Rightarrow> bool) \<Rightarrow> cldm_argp_ctx \<Rightarrow> u8 list \<Rightarrow> u8 list list \<Rightarrow>
   (bool \<times> cldm_argp_ctx \<times> u8 list list) option" where
  "cldm_argp_partition alloc ctx posflags argv =
     (let argc = length argv in
      if \<not> c_alloc alloc (2 * argc * 8) then Some (False, ctx, argv)
      else do {
        (tmp, lidx, hidx) \<leftarrow> partition_loop posflags 0 (tl argv) (replicate (2 * argc) None) 0 argc;
        let ctx = ctx\<lparr>ctx_args := (ctx_args ctx)\<lparr>posparams := lidx + 1,
                                                 nposparams := of_nat argc - of_nat lidx - 1\<rparr>\<rparr>;
        Some (True, ctx,
          take 1 argv @ map the (take lidx tmp) @ map the (take (hidx - argc) (drop argc tmp)) @
          drop (1 + lidx + (hidx - argc)) argv) })"

fun add_arguments :: "(nat \<Rightarrow> bool) \<Rightarrow> cldm_dfa \<Rightarrow> cldm_argp_param list \<Rightarrow> (bool \<times> cldm_dfa) option" where
  "add_arguments alloc dfa [] = Some (True, dfa)"
| "add_arguments alloc dfa (param # params) =
     do { (ok, dfa) \<leftarrow> cldm_dfa_add_argument alloc dfa (p_long param) (p_short param);
          if \<not> ok then Some (False, dfa) else add_arguments alloc dfa params }"

definition argp_args_init :: "nat \<Rightarrow> cldm_args" where
  "argp_args_init argc =
     \<lparr>redirect = None, posparams = argc, nposparams = 0, jobs = 1, capture = cldm_capture_all,
      fail_fast = False, args_help = False, version = False, verbose = False\<rparr>"

definition argp_ctx_init :: "nat \<Rightarrow> cldm_argp_ctx" where
  "argp_ctx_init argc =
     \<lparr>assign_pending = None, ctx_args = argp_args_init argc, ctx_index = 1, treat_as_posparam = False, pending_arg = False\<rparr>"

text \<open>The result is the return value with \<open>*args\<close> and \<open>argv\<close>; \<open>dfa\<close> is the uninitialised local variable.\<close>

definition cldm_argp_parse ::
  "(nat \<Rightarrow> bool) \<Rightarrow> cldm_dfa \<Rightarrow> u8 list list \<Rightarrow> (bool \<times> cldm_args \<times> u8 list list) option" where
  "cldm_argp_parse alloc dfa argv =
     (let argc = length argv; ctx = argp_ctx_init argc in
      if CLDM_ARGP_MAX_PARAMS < argc then Some (False, ctx_args ctx, argv)
      else let (ok, dfa) = cldm_dfa_init alloc dfa in
        if \<not> ok then Some (False, ctx_args ctx, argv)
        else do {
          (ok, dfa) \<leftarrow> add_arguments alloc dfa cldm_argp_params;
          if \<not> ok then Some (False, ctx_args ctx, argv)
          else do {
            (ok, ctx, posflags) \<leftarrow>
              argp_loop ctx dfa (replicate (CLDM_ARGP_MAX_PARAMS div 8) 0) 1 (tl argv);
            if \<not> ok then Some (False, ctx_args ctx, argv)
            else if pending_arg ctx then Some (False, ctx_args ctx, argv)
            else do {
              (ok, ctx, argv) \<leftarrow> cldm_argp_partition alloc ctx posflags argv;
              Some (ok, ctx_args ctx, argv) } } })"

end
