(* ===== verification/Argp_Correct.thy ===== *)
theory Argp_Correct
  imports Argp Dfa_Correct "HOL-Library.Multiset"
begin

text \<open>
  The argument parser: the switches it recognises, through the contract of the automaton; the loop
  over the parameters and its bit set, refined to a list of marks; the partition of \<open>argv\<close>.
\<close>

section \<open>The table of switches\<close>

definition switch_args :: "(u8 list \<times> int) list" where
  "switch_args = map (\<lambda>p. (p_long p, p_short p)) cldm_argp_params"

definition switch_words :: "u8 list \<rightharpoonup> int" where
  "switch_words = op_table [[] \<mapsto> 0] switch_args"

lemma switch_args_distinct: "distinct (map fst switch_args)"
  by code_simp

lemma switch_no_equals: "\<forall>a \<in> set switch_args. 61 \<notin> set (fst a)"
  by code_simp

lemma switch_third:
  "\<forall>a \<in> set switch_args. length (fst a) \<le> 2 \<or>
     fst a ! 2 \<in> {118, 104, 117, 102, 99, 114, 106}"
  by code_simp

lemma switch_shorts: "distinct (map p_short cldm_argp_params) \<and> (\<forall>p \<in> set cldm_argp_params. p_short p \<noteq> 0)"
  by code_simp

lemma switch_ddash: "map_of switch_args [45, 45] = Some 257"
  by code_simp

lemma switch_words_lookup:
  "switch_words w =
     (case map_of switch_args w of
        Some x \<Rightarrow> Some x
      | None \<Rightarrow> if w = [] \<or> (\<exists>a \<in> fst ` set switch_args. prefix w a) then Some 0 else None)"
  unfolding switch_words_def op_table_lookup [OF switch_args_distinct] by (auto split: option.splits)

lemma switch_words_dom: "switch_words w \<noteq> None \<Longrightarrow> w = [] \<or> (\<exists>a \<in> set switch_args. prefix w (fst a))"
  unfolding switch_words_lookup by (force split: option.splits if_splits dest: map_of_SomeD)

lemma switch_words_param:
  assumes "p \<in> set cldm_argp_params" shows "switch_words (p_long p) = Some (p_short p)"
proof -
  have "(p_long p, p_short p) \<in> set switch_args" using assms by (auto simp: switch_args_def)
  then have "map_of switch_args (p_long p) = Some (p_short p)"
    using switch_args_distinct by (simp add: map_of_is_SomeI)
  then show ?thesis by (simp add: switch_words_lookup)
qed

lemma longest_match_unique:
  assumes "longest_match M input n x" and "longest_match M input n' x'" shows "n' = n \<and> x' = x"
proof -
  have "\<not> n < n'" "\<not> n' < n" using assms by (auto simp: longest_match_def)
  then have "n' = n" by simp
  with assms show ?thesis by (simp add: longest_match_def)
qed

lemma simulate_longest:
  assumes "dfa_holds d M" and "longest_match M input n x" and "length input < 2 ^ 31"
  shows "cldm_dfa_simulate d input = Some (if x \<noteq> 0 then (int n, x) else (- 1, 0))"
proof -
  from simulate' [OF assms(1,3)] obtain n' x' where "longest_match M input n' x'"
    "cldm_dfa_simulate d input = Some (if x' \<noteq> 0 then (int n', x') else (- 1, 0))"
    unfolding longest_match_def by blast
  with longest_match_unique [OF assms(2)] show ?thesis by metis
qed

lemma find_param:
  assumes "p \<in> set cldm_argp_params"
  shows "find (\<lambda>q. p_short q = p_short p) cldm_argp_params = Some p"
proof -
  have "find (\<lambda>q. f q = f p) ps = Some p" if "distinct (map f ps)" "p \<in> set ps" for f :: "cldm_argp_param \<Rightarrow> int" and ps
    using that by (induction ps) (auto dest: image_eqI [of "f p" f])
  with assms switch_shorts show ?thesis by blast
qed

text \<open>A long switch, alone or followed by \<open>=\<close>: the automaton stops behind its name.\<close>

lemma longest_match_switch:
  assumes "p \<in> set cldm_argp_params" and "rest = [] \<or> hd rest = 61"
  shows "longest_match switch_words (p_long p @ rest) (length (p_long p)) (p_short p)"
proof -
  have "switch_words (take k (p_long p @ rest)) = None"
    if k: "length (p_long p) < k" "k \<le> length (p_long p @ rest)" for k
  proof (rule ccontr)
    assume none: "switch_words (take k (p_long p @ rest)) \<noteq> None"
    have "take k (p_long p @ rest) = p_long p @ take (k - length (p_long p)) rest" using k by simp
    moreover have "61 \<in> set (take (k - length (p_long p)) rest)"
      using k assms(2) by (cases rest; cases "k - length (p_long p)") auto
    ultimately have "61 \<in> set (take k (p_long p @ rest))" by simp
    moreover from this have "take k (p_long p @ rest) \<noteq> []" by (metis empty_iff list.set(1))
    ultimately obtain a where "a \<in> set switch_args" "61 \<in> set (fst a)"
      using switch_words_dom [OF none] set_mono_prefix by blast
    with switch_no_equals show False by blast
  qed
  then show ?thesis using switch_words_param [OF assms(1)] by (auto simp: longest_match_def)
qed

lemma find_switch:
  assumes "dfa_holds dfa switch_words" and "p \<in> set cldm_argp_params" and "rest = [] \<or> hd rest = 61"
    and "length (p_long p @ rest) < 2 ^ 31"
  shows "cldm_dfa_simulate dfa (p_long p @ rest) = Some (int (length (p_long p)), p_short p)"
  using simulate_longest [OF assms(1) longest_match_switch [OF assms(2,3)] assms(4)] switch_shorts assms(2)
  by auto

lemma long_switch':
  assumes "dfa_holds dfa switch_words" and "p \<in> set cldm_argp_params"
    and "length (p_long p) + length v < 2 ^ 31 - 1" and "0 \<notin> set v"
  shows "cldm_argp_parse_long_switch ctx dfa (p_long p) =
      Some (if p_argument p = None then argp_handle (p_handle p) ctx [] else (False, ctx))"
    and "p_argument p \<noteq> None \<Longrightarrow> cldm_argp_parse_long_switch ctx dfa (p_long p @ 61 # v) =
      Some (if v = [] then (False, ctx) else argp_handle (p_handle p) ctx v)"
proof -
  have "cldm_dfa_simulate dfa (p_long p) = Some (int (length (p_long p)), p_short p)"
    using find_switch [OF assms(1,2), of "[]"] assms(3) by simp
  then show "cldm_argp_parse_long_switch ctx dfa (p_long p) =
      Some (if p_argument p = None then argp_handle (p_handle p) ctx [] else (False, ctx))"
    by (auto simp: cldm_argp_parse_long_switch_def find_param [OF assms(2)] c_at_def c_suffix_def)
  assume "p_argument p \<noteq> None"
  moreover have "cldm_dfa_simulate dfa (p_long p @ 61 # v) = Some (int (length (p_long p)), p_short p)"
    using find_switch [OF assms(1,2), of "61 # v"] assms(3) by simp
  moreover have "v ! 0 \<noteq> 0" if "v \<noteq> []" using assms(4) that by (cases v) auto
  ultimately show "cldm_argp_parse_long_switch ctx dfa (p_long p @ 61 # v) =
      Some (if v = [] then (False, ctx) else argp_handle (p_handle p) ctx v)"
    by (auto simp: cldm_argp_parse_long_switch_def find_param [OF assms(2)] c_at_def c_suffix_def nth_append)
qed

text \<open>An option that no switch starts like is taken for \<open>--\<close>.\<close>

lemma unknown_long':
  assumes "dfa_holds dfa switch_words" and "c \<notin> {118, 104, 117, 102, 99, 114, 106}"
    and "length rest < 2 ^ 31 - 3"
  shows "cldm_argp_parse_long_switch ctx dfa (45 # 45 # c # rest) =
    Some (True, ctx\<lparr>treat_as_posparam := True\<rparr>)"
proof -
  let ?sw = "45 # 45 # c # rest"
  have "switch_words (take k ?sw) = None" if k: "2 < k" "k \<le> length ?sw" for k
  proof (rule ccontr)
    assume "switch_words (take k ?sw) \<noteq> None"
    moreover have t: "take k ?sw = 45 # 45 # c # take (k - 3) rest"
      using k by (auto simp: take_Cons' numeral_3_eq_3 numeral_2_eq_2)
    ultimately obtain a where a: "a \<in> set switch_args" "prefix (45 # 45 # c # take (k - 3) rest) (fst a)"
      using switch_words_dom [of "take k ?sw"] by auto
    then obtain zs where "fst a = 45 # 45 # c # take (k - 3) rest @ zs" by (auto simp: prefix_def)
    then have "\<not> length (fst a) \<le> 2" "fst a ! 2 = c" by simp_all
    with switch_third a(1) assms(2) show False by blast
  qed
  moreover have "switch_words [45, 45] = Some 257" by (simp add: switch_words_lookup switch_ddash)
  ultimately have "longest_match switch_words ?sw 2 257" by (auto simp: longest_match_def)
  from simulate_longest [OF assms(1) this] assms(3)
  have s: "cldm_dfa_simulate dfa ?sw = Some (2, 257)" by simp
  have "\<exists>p \<in> set cldm_argp_params. p_short p = 257 \<and> p_argument p = None \<and> p_handle p = set_posidx"
    by code_simp
  then obtain p where p: "p \<in> set cldm_argp_params" "p_short p = 257" "p_argument p = None"
    "p_handle p = set_posidx" by blast
  from find_param [OF p(1)] p(2) have "find (\<lambda>q. p_short q = 257) cldm_argp_params = Some p" by simp
  with s p(3,4) show ?thesis
    by (simp add: cldm_argp_parse_long_switch_def c_suffix_def cldm_argp_set_posidx_def)
qed

lemma add_arguments_op_table:
  "dfa_holds d M \<Longrightarrow> finite (dom M) \<Longrightarrow>
   card (dom M) + (\<Sum>(w, x)\<leftarrow>map (\<lambda>p. (p_long p, p_short p)) ps. Suc (length w)) < 2 ^ 30 \<Longrightarrow>
   \<exists>b d'. add_arguments alloc d ps = Some (b, d') \<and>
     (if b then dfa_holds d' (op_table M (map (\<lambda>p. (p_long p, p_short p)) ps)) else \<not> (\<forall>n. alloc n))"
proof (induction ps arbitrary: d M)
  case Nil
  then show ?case by (intro exI [of _ True] exI [of _ d]) simp
next
  case (Cons p ps)
  let ?M = "(add_prefixes M (p_long p))(p_long p \<mapsto> p_short p)"
  from Cons.prems(3) have "card (dom M) + length (p_long p) < 2 ^ 30" by simp
  from add_argument' [OF Cons.prems(1) this] obtain b d1 where
    d1: "cldm_dfa_add_argument alloc d (p_long p) (p_short p) = Some (b, d1)"
    "if b then dfa_holds d1 ?M else \<not> (\<forall>n. alloc n)" by blast
  show ?case
  proof (cases b)
    case False
    with d1 show ?thesis by auto
  next
    case True
    have "card (dom ?M) \<le> card (dom M) + Suc (length (p_long p))"
      unfolding dom_add_prefixes using card_Un_le [of "dom M" "{v. prefix v (p_long p)}"]
      by (simp add: card_prefixes)
    then have "card (dom ?M) + (\<Sum>(w, x)\<leftarrow>map (\<lambda>p. (p_long p, p_short p)) ps. Suc (length w)) < 2 ^ 30"
      using Cons.prems(3) by simp
    moreover have "finite (dom ?M)" unfolding dom_add_prefixes using Cons.prems(2) prefixes_finite by simp
    moreover have "dfa_holds d1 ?M" using d1(2) True by simp
    ultimately obtain b' d' where "add_arguments alloc d1 ps = Some (b', d')"
      "if b' then dfa_holds d' (op_table ?M (map (\<lambda>p. (p_long p, p_short p)) ps)) else \<not> (\<forall>n. alloc n)"
      using Cons.IH [of d1 ?M] by blast
    with d1(1) True show ?thesis by simp
  qed
qed

lemma params_size: "(\<Sum>(w, x)\<leftarrow>switch_args. Suc (length w)) \<le> 200"
  by code_simp

lemma add_arguments_switches:
  assumes "cldm_dfa_init alloc d0 = (True, d)"
  shows "\<exists>b d'. add_arguments alloc d cldm_argp_params = Some (b, d') \<and>
    (if b then dfa_holds d' switch_words else \<not> (\<forall>n. alloc n))"
proof -
  have "dfa_holds d [[] \<mapsto> 0]" using init_holds [of alloc d0] assms by simp
  moreover have "card (dom [[] \<mapsto> (0 :: int)]) + (\<Sum>(w, x)\<leftarrow>switch_args. Suc (length w)) < 2 ^ 30"
    using params_size by simp
  ultimately show ?thesis
    using add_arguments_op_table [of d "[[] \<mapsto> 0]" cldm_argp_params alloc]
    unfolding switch_words_def switch_args_def by simp
qed

section \<open>The loop over the parameters\<close>

text \<open>
  \<open>argp_marks\<close> is the loop with a list of truth values in place of the bit set: which parameters are
  positional.
\<close>

fun argp_marks :: "cldm_argp_ctx \<Rightarrow> cldm_dfa \<Rightarrow> u8 list list \<Rightarrow> (bool \<times> cldm_argp_ctx \<times> bool list) option" where
  "argp_marks ctx dfa [] = Some (True, ctx, [])"
| "argp_marks ctx dfa (arg # argv) =
     (let next = (\<lambda>mark (ok, ctx). if \<not> ok then Some (False, ctx, [])
            else do { (ok, ctx, marks) \<leftarrow> argp_marks ctx dfa argv; Some (ok, ctx, mark # marks) }) in
      if pending_arg ctx
      then do { h \<leftarrow> assign_pending ctx;
                let (ok, ctx) = argp_handle h ctx arg;
                next False (ok, if ok then ctx\<lparr>pending_arg := False\<rparr> else ctx) }
      else if treat_as_posparam ctx \<or> arg = [] \<or> hd arg \<noteq> 45 then next True (True, ctx)
      else if tl arg \<noteq> [] \<and> hd (tl arg) = 45
      then do { r \<leftarrow> cldm_argp_parse_long_switch ctx dfa arg; next False r }
      else next False (short_switch_loop ctx (tl arg)))"

text \<open>Strings that occur in \<open>argv\<close>: shorter than \<open>2 ^ 31\<close>, and without a terminator inside.\<close>

definition arg_ok :: "u8 list \<Rightarrow> bool" where
  "arg_ok s \<longleftrightarrow> length s < 2 ^ 31 - 1 \<and> 0 \<notin> set s"

definition ctx_ok :: "cldm_argp_ctx \<Rightarrow> bool" where
  "ctx_ok ctx \<longleftrightarrow> (pending_arg ctx \<longrightarrow> assign_pending ctx \<noteq> None) \<and>
     1 \<le> unat (jobs (ctx_args ctx)) \<and> unat (jobs (ctx_args ctx)) \<le> CLDM_MAX_THREADS"

named_theorems argp_handlers \<open>the definitions of the handlers\<close>

lemmas [argp_handlers] = cldm_argp_set_verbose_def cldm_argp_set_version_def cldm_argp_set_help_def
  cldm_argp_set_fail_fast_def cldm_argp_set_capture_def cldm_argp_set_capture_none_def
  cldm_argp_set_redirect_def cldm_argp_set_posidx_def cldm_argp_set_jobs_def

lemma set_jobs_ok: "ctx_ok ctx \<Longrightarrow> ctx_ok (snd (cldm_argp_set_jobs ctx v))"
proof -
  assume ok: "ctx_ok ctx"
  obtain n e where n: "c_strtoul v = (n, e)" by (cases "c_strtoul v")
  have "unat (ucast n :: u32) = unat n" if "\<not> 32 < n"
  proof -
    have "unat n \<le> 32" using that by (simp add: word_less_nat_alt)
    then show ?thesis by (simp add: unsigned_ucast_eq take_bit_nat_def)
  qed
  moreover have "1 \<le> unat n" if "n \<noteq> 0" using that by (simp add: Suc_leI unat_gt_0)
  moreover have "unat n \<le> 32" if "\<not> 32 < n" using that by (simp add: word_less_nat_alt)
  ultimately show ?thesis
    using ok by (auto simp: cldm_argp_set_jobs_def ctx_ok_def n CLDM_MAX_THREADS_def split: if_splits)
qed

lemma handle_ok: "ctx_ok ctx \<Longrightarrow> ctx_ok (snd (argp_handle h ctx v))"
  using set_jobs_ok [of ctx v]
  by (cases h) (auto simp: argp_handlers ctx_ok_def split: option.splits)

lemma short_loop_ok: "ctx_ok ctx \<Longrightarrow> ctx_ok (snd (short_switch_loop ctx sw))"
proof (induction sw arbitrary: ctx)
  case (Cons c sw)
  show ?case
  proof (cases "find (\<lambda>param. p_short param = c_char c) cldm_argp_params")
    case (Some p)
    with Cons.IH handle_ok [OF Cons.prems, of "p_handle p" sw] show ?thesis
      by (auto split: prod.splits)
  qed (use Cons in simp)
qed simp

lemma long_switch_ok:
  assumes "dfa_holds dfa M" and "ctx_ok ctx" and "arg_ok sw"
  shows "\<exists>ok ctx'. cldm_argp_parse_long_switch ctx dfa sw = Some (ok, ctx') \<and> ctx_ok ctx'"
proof -
  have len: "length sw < 2 ^ 31" using assms(3) by (simp add: arg_ok_def)
  from simulate' [OF assms(1) len] obtain n x where n: "n \<le> length sw" and
    sim: "cldm_dfa_simulate dfa sw = Some (if x \<noteq> 0 then (int n, x) else (- 1, 0))" by blast
  have get: "c_at sw i \<noteq> None" if "i \<le> length sw" for i using that by (auto simp: c_at_def)
  show ?thesis
  proof (cases "find (\<lambda>param. p_short param = x) cldm_argp_params")
    case None
    then show ?thesis using sim assms(2) by (auto simp: cldm_argp_parse_long_switch_def)
  next
    case (Some p)
    have h: "\<exists>ok ctx'. argp_handle (p_handle p) ctx v = (ok, ctx') \<and> ctx_ok ctx'" for v
      using handle_ok [OF assms(2), of "p_handle p" v] by (cases "argp_handle (p_handle p) ctx v") auto
    from n have "c_at sw n = Some 61 \<Longrightarrow> Suc n \<le> length sw"
      by (auto simp: c_at_def split: if_splits)
    with n sim Some assms(2) h show ?thesis
      by (auto simp: cldm_argp_parse_long_switch_def c_at_def c_suffix_def)
  qed
qed

text \<open>The bit set: one bit per parameter.\<close>

definition bits_are :: "u8 list \<Rightarrow> (nat \<Rightarrow> bool) \<Rightarrow> bool" where
  "bits_are pf f \<longleftrightarrow> length pf = 16 \<and> (\<forall>i<128. posflag_get pf i = Some (f i))"

lemma posflag_get_bit:
  "length pf = 16 \<Longrightarrow> i < 128 \<Longrightarrow> posflag_get pf i = Some (bit (pf ! (i div 8)) (i mod 8))"
proof -
  assume "length pf = 16" "i < 128"
  then have "i div 8 < length pf" by simp
  moreover have "(w AND push_bit n 1 \<noteq> 0) = bit w n" for w :: u8 and n
    by (rule bit_iff_and_push_bit_not_eq_0 [symmetric])
  ultimately show ?thesis unfolding posflag_get_def by (simp only: if_True)
qed

lemma bits_are_set:
  assumes "bits_are pf f" and "i < 128"
  shows "\<exists>pf'. posflag_set pf i = Some pf' \<and> bits_are pf' (f(i := True))"
proof -
  have len: "length pf = 16" using assms(1) by (simp add: bits_are_def)
  let ?pf = "pf[i div 8 := (pf ! (i div 8)) OR push_bit (i mod 8) 1]"
  have "posflag_get ?pf j = Some ((f(i := True)) j)" if j: "j < 128" for j
  proof -
    have f: "bit (pf ! (j div 8)) (j mod 8) = f j"
      using assms(1) j posflag_get_bit [OF len j] by (auto simp: bits_are_def)
    have "bit (?pf ! (j div 8)) (j mod 8) = (f(i := True)) j"
    proof (cases "j div 8 = i div 8")
      case True
      then have "j = i \<longleftrightarrow> j mod 8 = i mod 8" by (metis div_mult_mod_eq)
      with True f len assms(2) show ?thesis by (auto simp: bit_simps)
    next
      case False
      with f show ?thesis by auto
    qed
    with posflag_get_bit [of ?pf j] len j show ?thesis by simp
  qed
  with assms(2) len show ?thesis by (auto simp: posflag_set_def bits_are_def)
qed

lemma bits_are_zero: "bits_are (replicate (CLDM_ARGP_MAX_PARAMS div 8) 0) (\<lambda>i. False)"
  by (auto simp: bits_are_def CLDM_ARGP_MAX_PARAMS_def posflag_get_bit)

definition mark_bits :: "(nat \<Rightarrow> bool) \<Rightarrow> nat \<Rightarrow> bool list \<Rightarrow> (nat \<Rightarrow> bool)" where
  "mark_bits f i marks = (\<lambda>j. if i \<le> j \<and> j < i + length marks then marks ! (j - i) else f j)"

lemma mark_bits_Nil [simp]: "mark_bits f i [] = f"
  by (auto simp: mark_bits_def fun_eq_iff)

lemma mark_bits_Cons:
  "mark_bits f i (m # marks) = mark_bits (f(i := m)) (Suc i) marks"
  by (auto simp: mark_bits_def fun_eq_iff nth_Cons' Suc_diff_le)

lemma mark_bits_False:
  "\<not> f i \<Longrightarrow> mark_bits f i (False # marks) = mark_bits f (Suc i) marks"
  using mark_bits_Cons [of f i False marks] fun_upd_idem [of f i False] by simp

text \<open>
  The loop returns, with the result of \<open>argp_marks\<close>: when it succeeds, the bits it set are the marks.
\<close>

lemma argp_loop_marks:
  "dfa_holds dfa M \<Longrightarrow> ctx_ok ctx \<Longrightarrow> bits_are pf f \<Longrightarrow> 1 \<le> i \<Longrightarrow> i + length argv \<le> 129 \<Longrightarrow>
   (\<forall>arg \<in> set argv. arg_ok arg) \<Longrightarrow> (\<forall>j. i - 1 \<le> j \<longrightarrow> \<not> f j) \<Longrightarrow>
   \<exists>ok ctx' marks pf'. argp_marks ctx dfa argv = Some (ok, ctx', marks) \<and>
     argp_loop ctx dfa pf i argv = Some (ok, ctx', pf') \<and> ctx_ok ctx' \<and>
     (ok \<longrightarrow> length marks = length argv \<and> bits_are pf' (mark_bits f (i - 1) marks))"
proof (induction argv arbitrary: ctx pf f i)
  case Nil
  then show ?case by (intro exI [of _ True]) simp
next
  case (Cons arg argv)
  have arg: "arg_ok arg" "\<forall>arg \<in> set argv. arg_ok arg" using Cons.prems(6) by auto
  have i: "1 \<le> Suc i" "Suc i + length argv \<le> 129" using Cons.prems(5) by simp_all
  have skip: "\<exists>ok ctx' marks pf'. do { (ok, ctx, marks) \<leftarrow> argp_marks ctx1 dfa argv;
        Some (ok, ctx, False # marks) } = Some (ok, ctx', marks) \<and>
      argp_loop ctx1 dfa pf (Suc i) argv = Some (ok, ctx', pf') \<and> ctx_ok ctx' \<and>
      (ok \<longrightarrow> length marks = length (arg # argv) \<and> bits_are pf' (mark_bits f (i - 1) marks))"
    if "ctx_ok ctx1" for ctx1
  proof -
    have "\<forall>j. Suc i - 1 \<le> j \<longrightarrow> \<not> f j" using Cons.prems(4,7) by simp
    from Cons.IH [OF Cons.prems(1) that Cons.prems(3) i arg(2) this] obtain ok ctx' marks pf' where
      r: "argp_marks ctx1 dfa argv = Some (ok, ctx', marks)" "argp_loop ctx1 dfa pf (Suc i) argv = Some (ok, ctx', pf')"
        "ctx_ok ctx'" "ok \<longrightarrow> length marks = length argv \<and> bits_are pf' (mark_bits f (Suc i - 1) marks)" by blast
    have "mark_bits f (i - 1) (False # marks) = mark_bits f (Suc i - 1) marks"
      using mark_bits_False [of f "i - 1" marks] Cons.prems(4,7) by simp
    with r show ?thesis by simp
  qed
  show ?case
  proof (cases "pending_arg ctx")
    case True
    then obtain h where h: "assign_pending ctx = Some h" using Cons.prems(2) by (auto simp: ctx_ok_def)
    obtain ok ctx1 where 1: "argp_handle h ctx arg = (ok, ctx1)" by (cases "argp_handle h ctx arg")
    have c1: "ctx_ok ctx1" using handle_ok [OF Cons.prems(2), of h arg] 1 by simp
    then have "ctx_ok (ctx1\<lparr>pending_arg := False\<rparr>)" by (auto simp: ctx_ok_def)
    from skip [OF this] True h 1 c1 show ?thesis by (cases ok) auto
  next
    case np: False
    show ?thesis
    proof (cases "treat_as_posparam ctx \<or> arg = [] \<or> hd arg \<noteq> 45")
      case True
      then have ty: "\<exists>ty. cldm_argp_paramtype arg = Some ty \<and>
          (if treat_as_posparam ctx then cldm_argp_positional else ty) = cldm_argp_positional"
        by (cases arg) (auto simp: cldm_argp_paramtype_def c_at_def)
      have "i - 1 < 128" using Cons.prems(4,5) by simp
      from bits_are_set [OF Cons.prems(3) this] obtain pf1 where
        pf1: "posflag_set pf (i - 1) = Some pf1" "bits_are pf1 (f(i - 1 := True))" by blast
      have "\<forall>j. Suc i - 1 \<le> j \<longrightarrow> \<not> (f(i - 1 := True)) j" using Cons.prems(4,7) by auto
      from Cons.IH [OF Cons.prems(1,2) pf1(2) i arg(2) this] obtain ok ctx' marks pf' where
        r: "argp_marks ctx dfa argv = Some (ok, ctx', marks)" "argp_loop ctx dfa pf1 (Suc i) argv = Some (ok, ctx', pf')"
          "ctx_ok ctx'" "ok \<longrightarrow> length marks = length argv \<and>
            bits_are pf' (mark_bits (f(i - 1 := True)) (Suc i - 1) marks)" by blast
      have "mark_bits f (i - 1) (True # marks) = mark_bits (f(i - 1 := True)) (Suc i - 1) marks"
        using mark_bits_Cons [of f "i - 1" True marks] Cons.prems(4) by simp
      with r np True ty pf1(1) show ?thesis by auto
    next
      case False
      then obtain c where a: "arg = 45 # c" and nt: "\<not> treat_as_posparam ctx" by (cases arg) auto
      show ?thesis
      proof (cases "c \<noteq> [] \<and> hd c = 45")
        case True
        then have ty: "cldm_argp_paramtype arg = Some cldm_argp_switch_long"
          using a by (cases c) (auto simp: cldm_argp_paramtype_def c_at_def)
        from long_switch_ok [OF Cons.prems(1,2) arg(1)] obtain ok ctx1 where
          1: "cldm_argp_parse_long_switch ctx dfa arg = Some (ok, ctx1)" "ctx_ok ctx1" by blast
        from skip [OF 1(2)] 1 np nt ty True a show ?thesis by (cases ok) auto
      next
        case short: False
        then have ty: "cldm_argp_paramtype arg = Some cldm_argp_switch_short"
          using a by (cases c) (auto simp: cldm_argp_paramtype_def c_at_def)
        obtain ok ctx1 where 1: "short_switch_loop ctx c = (ok, ctx1)" by (cases "short_switch_loop ctx c")
        have "ctx_ok ctx1" using short_loop_ok [OF Cons.prems(2), of c] 1 by simp
        from skip [OF this] this 1 np nt ty short a show ?thesis
          by (cases ok) (auto simp: cldm_argp_parse_short_switch_def)
      qed
    qed
  qed
qed

section \<open>The partition\<close>

definition sel :: "bool \<Rightarrow> bool list \<Rightarrow> 'a list \<Rightarrow> 'a list" where
  "sel b marks xs = map snd (filter (\<lambda>(m, x). m = b) (zip marks xs))"

lemma sel_Cons: "sel b (m # marks) (x # xs) = (if m = b then x # sel b marks xs else sel b marks xs)"
  by (simp add: sel_def)

lemma sel_Nil [simp]: "sel b [] xs = []" "sel b marks [] = []"
  by (simp_all add: sel_def)

lemma sel_lengths:
  "length marks = length xs \<Longrightarrow> length (sel True marks xs) + length (sel False marks xs) = length xs"
  by (induction marks xs rule: list_induct2) (auto simp: sel_Cons)

lemma sel_mset: "length marks = length xs \<Longrightarrow> mset (sel False marks xs @ sel True marks xs) = mset xs"
  by (induction marks xs rule: list_induct2) (auto simp: sel_Cons)

lemma partition_loop_sel:
  "length marks = length argv \<Longrightarrow> (\<forall>k<length argv. posflag_get pf (i + k) = Some (marks ! k)) \<Longrightarrow>
   length tmp = 2 * argc \<Longrightarrow> lidx + length argv \<le> argc \<Longrightarrow> argc \<le> hidx \<Longrightarrow> hidx + length argv \<le> 2 * argc \<Longrightarrow>
   \<exists>tmp'. partition_loop pf i argv tmp lidx hidx =
       Some (tmp', lidx + length (sel False marks argv), hidx + length (sel True marks argv)) \<and>
     take (lidx + length (sel False marks argv)) tmp' = take lidx tmp @ map Some (sel False marks argv) \<and>
     take (hidx + length (sel True marks argv) - argc) (drop argc tmp') =
       take (hidx - argc) (drop argc tmp) @ map Some (sel True marks argv)"
proof (induction argv arbitrary: marks i tmp lidx hidx)
  case Nil
  then show ?case by simp
next
  case (Cons arg argv)
  then obtain m ms where m: "marks = m # ms" "length ms = length argv" by (cases marks) auto
  have get: "posflag_get pf i = Some m" "\<forall>k<length argv. posflag_get pf (Suc i + k) = Some (ms ! k)"
    using Cons.prems(2) m by (force dest: spec [of _ "Suc k" for k])+
  show ?case
  proof (cases m)
    case True
    have h: "hidx - argc < length (drop argc tmp)" using Cons.prems(3,5,6) by simp
    have d: "drop argc (tmp[hidx := Some arg]) = (drop argc tmp)[hidx - argc := Some arg]"
      using drop_update_add [of argc tmp "hidx - argc" "Some arg"] Cons.prems(5) by simp
    have l: "take lidx (tmp[hidx := Some arg]) = take lidx tmp" using Cons.prems(4,5) by simp
    have t: "take (Suc hidx - argc) (drop argc (tmp[hidx := Some arg])) = take (hidx - argc) (drop argc tmp) @ [Some arg]"
      using take_Suc_update [OF h, of "Some arg"] Cons.prems(5) unfolding d by (simp add: Suc_diff_le)
    from Cons.IH [OF m(2) get(2), of "tmp[hidx := Some arg]" lidx "Suc hidx"] Cons.prems(3-6) show ?thesis
      unfolding l t by (auto simp: get(1) True m(1) sel_Cons)
  next
    case False
    have h: "lidx < length tmp" using Cons.prems(3,4) by simp
    have d: "drop argc (tmp[lidx := Some arg]) = drop argc tmp" using Cons.prems(4) by simp
    from Cons.IH [OF m(2) get(2), of "tmp[lidx := Some arg]" "Suc lidx" hidx] Cons.prems(3-6) show ?thesis
      unfolding d take_Suc_update [OF h] by (auto simp: get(1) False m(1) sel_Cons)
  qed
qed

lemma partition_spec:
  assumes "argv \<noteq> []" and "length argv \<le> 128" and "length marks = length argv - 1"
    and "bits_are pf f" and "\<forall>k<length marks. f k = marks ! k" and "c_alloc alloc (2 * length argv * 8)"
  shows "cldm_argp_partition alloc ctx pf argv = Some (True,
    ctx\<lparr>ctx_args := (ctx_args ctx)\<lparr>posparams := Suc (length (sel False marks (tl argv))),
      nposparams := of_nat (length (sel True marks (tl argv)))\<rparr>\<rparr>,
    hd argv # sel False marks (tl argv) @ sel True marks (tl argv))"
proof -
  let ?n = "length argv" and ?lo = "sel False marks (tl argv)" and ?hi = "sel True marks (tl argv)"
  have len: "length marks = length (tl argv)" using assms(3) by simp
  have "\<forall>k<length (tl argv). posflag_get pf (0 + k) = Some (marks ! k)"
    using assms(2-5) by (auto simp: bits_are_def)
  from partition_loop_sel [OF len this, of "replicate (2 * ?n) None" ?n 0 ?n] obtain tmp where
    tmp: "partition_loop pf 0 (tl argv) (replicate (2 * ?n) None) 0 ?n =
        Some (tmp, length ?lo, ?n + length ?hi)"
      "take (length ?lo) tmp = map Some ?lo" "take (length ?hi) (drop ?n tmp) = map Some ?hi" by auto
  have s: "length ?hi + length ?lo = length (tl argv)" by (rule sel_lengths [OF len])
  have n: "?n = Suc (length ?lo + length ?hi)" using s assms(1) by (cases argv) auto
  have "of_nat ?n - of_nat (length ?lo) - 1 = (of_nat (length ?hi) :: u32)" unfolding n by simp
  moreover have "take 1 argv = [hd argv]" using assms(1) by (cases argv) auto
  moreover have "drop (1 + length ?lo + length ?hi) argv = []" using n by simp
  ultimately show ?thesis
    using assms(6) tmp by (simp add: cldm_argp_partition_def o_def)
qed

section \<open>Correctness\<close>

text \<open>The context before the first of two strings, for the examples.\<close>

definition argp_ctx0 :: cldm_argp_ctx where
  "argp_ctx0 = argp_ctx_init 2"

lemma switch_dfa_exists: "\<exists>dfa. dfa_holds dfa switch_words"
proof -
  obtain ok d where i: "cldm_dfa_init (\<lambda>n. True) undefined = (ok, d)"
    by (cases "cldm_dfa_init (\<lambda>n. True) undefined")
  then have ok by (simp add: cldm_dfa_init_def c_alloc_def CLDM_DFA_STATE_DELTA_def CLDM_DFA_EDGE_DELTA_def split: if_splits)
  with i add_arguments_switches [of "\<lambda>n. True" undefined d] show ?thesis by (auto split: if_splits)
qed

lemma arg_ok_cstr: "arg_ok (cstr ''cldm'')" "arg_ok (cstr ''foo'')" "hd (cstr ''foo'') \<noteq> 45" "cstr ''foo'' \<noteq> []"
proof -
  have "cstr ''cldm'' = [99, 108, 100, 109] \<and> cstr ''foo'' = [102, 111, 111]" by code_simp
  then show "arg_ok (cstr ''cldm'')" "arg_ok (cstr ''foo'')" "hd (cstr ''foo'') \<noteq> 45" "cstr ''foo'' \<noteq> []"
    by (simp_all add: arg_ok_def)
qed

definition marked :: "cldm_dfa \<Rightarrow> u8 list list \<Rightarrow> cldm_argp_ctx \<Rightarrow> bool list \<Rightarrow> bool" where
  "marked dfa argv ctx marks \<longleftrightarrow>
     dfa_holds dfa switch_words \<and> length marks = length argv - 1 \<and>
     argp_marks (argp_ctx_init (length argv)) dfa (tl argv) = Some (True, ctx, marks)"

lemma init_ok: "ctx_ok (argp_ctx_init n)"
  by (simp add: ctx_ok_def argp_ctx_init_def argp_args_init_def CLDM_MAX_THREADS_def)

text \<open>What the two halves of the parser give: the loop finds the marks, and the partition applies them.\<close>

lemma argp_loop_marked:
  assumes "dfa_holds dfa switch_words" and "argv \<noteq> []" and "length argv \<le> 128" and "\<forall>arg \<in> set argv. arg_ok arg"
  obtains ok ctx marks pf where
    "argp_loop (argp_ctx_init (length argv)) dfa (replicate (CLDM_ARGP_MAX_PARAMS div 8) 0) 1 (tl argv) = Some (ok, ctx, pf)"
    and "ctx_ok ctx" and "ok \<longrightarrow> marked dfa argv ctx marks \<and> bits_are pf (mark_bits (\<lambda>i. False) 0 marks)"
proof -
  have len: "1 + length (tl argv) \<le> 129" using assms(3) by simp
  have args: "\<forall>arg \<in> set (tl argv). arg_ok arg" using assms(2,4) by (metis list.set_sel(2))
  obtain ok ctx marks pf where
    m: "argp_marks (argp_ctx_init (length argv)) dfa (tl argv) = Some (ok, ctx, marks)"
      "argp_loop (argp_ctx_init (length argv)) dfa (replicate (CLDM_ARGP_MAX_PARAMS div 8) 0) 1 (tl argv) = Some (ok, ctx, pf)"
      "ctx_ok ctx" "ok \<longrightarrow> length marks = length argv - 1 \<and> bits_are pf (mark_bits (\<lambda>i. False) 0 marks)"
    using argp_loop_marks [OF assms(1) init_ok [of "length argv"] bits_are_zero _ len args] by auto
  show thesis
    by (rule that [OF m(2,3), of marks]) (use m(1,4) assms(1) in \<open>auto simp: marked_def\<close>)
qed

lemma argp_partition_marked:
  assumes "argv \<noteq> []" and "length argv \<le> 128" and "marked dfa argv ctx marks"
    and "bits_are pf (mark_bits (\<lambda>i. False) 0 marks)"
  shows "cldm_argp_partition alloc ctx pf argv = Some (
    if c_alloc alloc (2 * length argv * 8)
    then (True, ctx\<lparr>ctx_args := (ctx_args ctx)\<lparr>posparams := Suc (length (sel False marks (tl argv))),
        nposparams := of_nat (length (sel True marks (tl argv)))\<rparr>\<rparr>,
      hd argv # sel False marks (tl argv) @ sel True marks (tl argv))
    else (False, ctx, argv))"
proof -
  have "\<forall>k<length marks. mark_bits (\<lambda>i. False) 0 marks k = marks ! k" by (simp add: mark_bits_def)
  moreover have "length marks = length argv - 1" using assms(3) by (simp add: marked_def)
  ultimately show ?thesis
    using partition_spec [OF assms(1,2) _ assms(4)] by (auto simp: cldm_argp_partition_def)
qed

text \<open>
  C6: the parser returns for every non-empty \<open>argv\<close>. When it fails, \<open>argv\<close> is as before. When it
  succeeds, there are at most 128 strings, every switch was accepted and none waits for its argument,
  \<open>argv\<close> has been rearranged to the program's name, the parameters that are switches or their
  arguments, and the positional ones, each in their old order, \<open>posparams\<close> and \<open>nposparams\<close> delimit
  the latter, and the number of jobs is between 1 and 32.
\<close>

theorem cldm_argp_parse_correct:
  assumes "argv \<noteq> []" and "\<forall>arg \<in> set argv. arg_ok arg"
  shows "\<exists>ok args argv'. cldm_argp_parse alloc d0 argv = Some (ok, args, argv') \<and>
    (if ok
     then length argv \<le> 128 \<and>
       (\<exists>dfa ctx marks. marked dfa argv ctx marks \<and> \<not> pending_arg ctx \<and>
          args = (ctx_args ctx)\<lparr>posparams := Suc (length (sel False marks (tl argv))),
            nposparams := of_nat (length (sel True marks (tl argv)))\<rparr> \<and>
          argv' = hd argv # sel False marks (tl argv) @ sel True marks (tl argv)) \<and>
       1 \<le> unat (jobs args) \<and> unat (jobs args) \<le> 32
     else argv' = argv)"
proof (cases "length argv \<le> 128")
  case False
  then show ?thesis by (auto simp: cldm_argp_parse_def CLDM_ARGP_MAX_PARAMS_def Let_def)
next
  case short: True
  obtain ok d where init: "cldm_dfa_init alloc d0 = (ok, d)" by (cases "cldm_dfa_init alloc d0")
  note unfold = cldm_argp_parse_def CLDM_ARGP_MAX_PARAMS_def Let_def init
  show ?thesis
  proof (cases ok)
    case False
    with short show ?thesis by (auto simp: unfold)
  next
    case ok: True
    with init obtain b dfa where add: "add_arguments alloc d cldm_argp_params = Some (b, dfa)"
      "if b then dfa_holds dfa switch_words else \<not> (\<forall>n. alloc n)"
      using add_arguments_switches by metis
    show ?thesis
    proof (cases b)
      case False
      with short ok add show ?thesis by (auto simp: unfold)
    next
      case b: True
      then have "dfa_holds dfa switch_words" using add(2) by simp
      from argp_loop_marked [OF this assms(1) short assms(2)] obtain ok' ctx marks pf where
        loop: "argp_loop (argp_ctx_init (length argv)) dfa (replicate (CLDM_ARGP_MAX_PARAMS div 8) 0) 1 (tl argv) =
            Some (ok', ctx, pf)"
          "ctx_ok ctx" "ok' \<longrightarrow> marked dfa argv ctx marks \<and> bits_are pf (mark_bits (\<lambda>i. False) 0 marks)" .
      have parse: "cldm_argp_parse alloc d0 argv =
          (if ok' \<and> \<not> pending_arg ctx
           then do { (ok, ctx, argv) \<leftarrow> cldm_argp_partition alloc ctx pf argv; Some (ok, ctx_args ctx, argv) }
           else Some (False, ctx_args ctx, argv))"
        using short ok add(1) b loop(1)
        by (simp add: unfold flip: One_nat_def del: argp_loop.simps)
      show ?thesis
      proof (cases "ok' \<and> \<not> pending_arg ctx \<and> c_alloc alloc (2 * length argv * 8)")
        case True
        moreover have "1 \<le> unat (jobs (ctx_args ctx))" "unat (jobs (ctx_args ctx)) \<le> 32"
          using loop(2) by (simp_all add: ctx_ok_def CLDM_MAX_THREADS_def)
        ultimately show ?thesis using loop(3) short argp_partition_marked [OF assms(1) short, of dfa ctx marks pf alloc]
          by (auto simp: parse intro!: exI [of _ dfa] exI [of _ ctx] exI [of _ marks])
      next
        case False
        then show ?thesis
          using loop(3) argp_partition_marked [OF assms(1) short, of dfa ctx marks pf alloc] by (auto simp: parse)
      qed
    qed
  qed
qed

theorem cldm_argp_parse_correct_witness:
  "\<exists>ok args argv'. cldm_argp_parse (\<lambda>n. True) dfa_blank [cstr ''cldm'', cstr ''foo''] = Some (ok, args, argv') \<and>
     (ok \<longrightarrow> argv' = [cstr ''cldm'', cstr ''foo''] \<and> posparams args = 1 \<and> nposparams args = 1)"
proof -
  let ?argv = "[cstr ''cldm'', cstr ''foo'']"
  have "marks = [True]" if "marked dfa ?argv ctx marks" for dfa ctx marks
    using that arg_ok_cstr by (simp add: marked_def argp_ctx_init_def Let_def)
  moreover have "?argv \<noteq> []" "\<forall>arg \<in> set ?argv. arg_ok arg" using arg_ok_cstr by auto
  ultimately show ?thesis
    using cldm_argp_parse_correct [of ?argv "\<lambda>n. True" dfa_blank] by (fastforce simp: sel_def split: if_splits)
qed

text \<open>
  C17: in the automaton of all the switches, a long switch without an argument runs its handler, a
  switch with an argument needs \<open>=\<close> and a non-empty value, which is what its handler gets, and
  without one it is an error.
\<close>

theorem cldm_argp_long_switch_correct:
  assumes "dfa_holds dfa switch_words" and "p \<in> set cldm_argp_params"
    and "length (p_long p) + length v < 2 ^ 31 - 1" and "0 \<notin> set v"
  shows "cldm_argp_parse_long_switch ctx dfa (p_long p) =
      Some (if p_argument p = None then argp_handle (p_handle p) ctx [] else (False, ctx)) \<and>
    (p_argument p \<noteq> None \<longrightarrow> cldm_argp_parse_long_switch ctx dfa (p_long p @ 61 # v) =
      Some (if v = [] then (False, ctx) else argp_handle (p_handle p) ctx v))"
  using long_switch' [OF assms] by blast

theorem cldm_argp_long_switch_correct_witness:
  "\<exists>dfa. dfa_holds dfa switch_words \<and> cldm_argp_parse_long_switch argp_ctx0 dfa (cstr ''--jobs=4'') =
     Some (True, argp_ctx0\<lparr>ctx_args := (ctx_args argp_ctx0)\<lparr>jobs := 4\<rparr>\<rparr>)"
proof -
  obtain dfa where dfa: "dfa_holds dfa switch_words" using switch_dfa_exists by blast
  let ?p = "cldm_argp_params ! 8"
  have p: "?p \<in> set cldm_argp_params" by (simp add: cldm_argp_params_def)
  have f: "p_long ?p @ [61, 52] = cstr ''--jobs=4'' \<and> p_argument ?p \<noteq> None \<and> p_handle ?p = set_jobs \<and>
      length (p_long ?p) < 10" by code_simp
  have n: "c_strtoul [52] = (4, [])"
    by (simp add: c_strtoul_def c_isspace_def c_base_def c_digit_def)
  from cldm_argp_long_switch_correct [OF dfa p, of "[52]" argp_ctx0] f
  have "cldm_argp_parse_long_switch argp_ctx0 dfa (cstr ''--jobs=4'') = Some (cldm_argp_set_jobs argp_ctx0 [52])" by simp
  with dfa n show ?thesis by (auto simp: cldm_argp_set_jobs_def CLDM_MAX_THREADS_def)
qed

text \<open>
  An option that starts with two dashes and a letter that no switch has there is not reported as
  unrecognised: the automaton stops at the switch \<open>--\<close>, a prefix of every long switch, so that the
  option is dropped and everything that follows becomes positional.
\<close>

theorem cldm_argp_unknown_long_switch:
  assumes "dfa_holds dfa switch_words" and "c \<notin> {118, 104, 117, 102, 99, 114, 106}"
    and "length rest < 2 ^ 31 - 3"
  shows "cldm_argp_parse_long_switch ctx dfa (45 # 45 # c # rest) =
    Some (True, ctx\<lparr>treat_as_posparam := True\<rparr>)"
  by (rule unknown_long' [OF assms])

theorem cldm_argp_unknown_long_switch_witness:
  "\<exists>dfa. dfa_holds dfa switch_words \<and>
     cldm_argp_parse_long_switch argp_ctx0 dfa (cstr ''--xyz'') = Some (True, argp_ctx0\<lparr>treat_as_posparam := True\<rparr>)"
proof -
  obtain dfa where dfa: "dfa_holds dfa switch_words" using switch_dfa_exists by blast
  have "cstr ''--xyz'' = 45 # 45 # 120 # [121, 122]" by code_simp
  with dfa cldm_argp_unknown_long_switch [OF dfa, of 120 "[121, 122]" argp_ctx0] show ?thesis by auto
qed

text \<open>
  C18: in a group of short switches, a switch with an argument takes the rest of the string as its
  value, or, when there is no rest, the next string of \<open>argv\<close>; a byte that is no switch at all is
  skipped without an error.
\<close>

theorem cldm_argp_short_switch_correct:
  "((\<forall>p \<in> set cldm_argp_params. p_short p \<noteq> c_char c) \<longrightarrow>
     cldm_argp_parse_short_switch ctx (45 # c # sw) = cldm_argp_parse_short_switch ctx (45 # sw)) \<and>
   (\<forall>p \<in> set cldm_argp_params. p_short p = c_char c \<longrightarrow>
     cldm_argp_parse_short_switch ctx (45 # c # sw) =
       (if p_argument p = None
        then cldm_argp_parse_short_switch (snd (argp_handle (p_handle p) ctx sw)) (45 # sw)
        else if sw = []
        then Some (True, ctx\<lparr>pending_arg := True, assign_pending := Some (p_handle p)\<rparr>)
        else Some (argp_handle (p_handle p) ctx sw)))"
proof (intro conjI impI ballI)
  assume "\<forall>p \<in> set cldm_argp_params. p_short p \<noteq> c_char c"
  then have "find (\<lambda>p. p_short p = c_char c) cldm_argp_params = None" by (simp add: find_None_iff)
  then show "cldm_argp_parse_short_switch ctx (45 # c # sw) = cldm_argp_parse_short_switch ctx (45 # sw)"
    by (simp add: cldm_argp_parse_short_switch_def)
next
  fix p
  assume p: "p \<in> set cldm_argp_params" "p_short p = c_char c"
  then have f: "find (\<lambda>q. p_short q = c_char c) cldm_argp_params = Some p" using find_param [OF p(1)] by simp
  have flag: "fst (argp_handle (p_handle p) ctx sw)" if "p_argument p = None"
    using p(1) that by (auto simp: cldm_argp_params_def argp_handlers)
  have arg: "argp_handle (p_handle p) ctx [] = (True, ctx\<lparr>pending_arg := True, assign_pending := Some (p_handle p)\<rparr>)"
    if "p_argument p \<noteq> None"
    using p(1) that by (auto simp: cldm_argp_params_def argp_handlers)
  show "cldm_argp_parse_short_switch ctx (45 # c # sw) =
       (if p_argument p = None
        then cldm_argp_parse_short_switch (snd (argp_handle (p_handle p) ctx sw)) (45 # sw)
        else if sw = []
        then Some (True, ctx\<lparr>pending_arg := True, assign_pending := Some (p_handle p)\<rparr>)
        else Some (argp_handle (p_handle p) ctx sw))"
    using flag arg
    by (cases "argp_handle (p_handle p) ctx sw"; cases "p_argument p")
      (auto simp: cldm_argp_parse_short_switch_def f split: prod.splits)
qed

theorem cldm_argp_short_switch_correct_witness:
  "cldm_argp_parse_short_switch argp_ctx0 [45, 122, 106] =
     Some (True, argp_ctx0\<lparr>pending_arg := True, assign_pending := Some set_jobs\<rparr>)"
proof -
  have p: "cldm_argp_params ! 8 \<in> set cldm_argp_params" by (simp add: cldm_argp_params_def)
  have "(\<forall>p \<in> set cldm_argp_params. p_short p \<noteq> c_char 122) \<and>
      p_short (cldm_argp_params ! 8) = c_char 106 \<and> p_argument (cldm_argp_params ! 8) \<noteq> None \<and>
      p_handle (cldm_argp_params ! 8) = set_jobs" by code_simp
  with cldm_argp_short_switch_correct [of 122 argp_ctx0 "[106]"] cldm_argp_short_switch_correct [of 106 argp_ctx0 "[]"] p
  show ?thesis by auto
qed

text \<open>
  After \<open>--\<close>, every string up to the end of \<open>argv\<close> is marked as positional, whatever it looks
  like, and nothing else changes.
\<close>

theorem cldm_argp_ddash_correct:
  assumes "treat_as_posparam ctx" and "\<not> pending_arg ctx" and "bits_are pf f" and "1 \<le> i"
    and "i + length argv \<le> 129" and "\<forall>arg \<in> set argv. arg_ok arg"
  shows "\<exists>pf'. argp_loop ctx dfa pf i argv = Some (True, ctx, pf') \<and>
    bits_are pf' (\<lambda>j. f j \<or> (i - 1 \<le> j \<and> j < i - 1 + length argv))"
  using assms(3-6)
proof (induction argv arbitrary: pf f i)
  case (Cons arg argv)
  have "i - 1 < 128" using Cons.prems(2,3) by simp
  from bits_are_set [OF Cons.prems(1) this] obtain pf1 where
    pf1: "posflag_set pf (i - 1) = Some pf1" "bits_are pf1 (f(i - 1 := True))" by blast
  from Cons.IH [OF pf1(2), of "Suc i"] Cons.prems obtain pf' where
    pf': "argp_loop ctx dfa pf1 (Suc i) argv = Some (True, ctx, pf')"
    "bits_are pf' (\<lambda>j. (f(i - 1 := True)) j \<or> (Suc i - 1 \<le> j \<and> j < Suc i - 1 + length argv))" by auto
  have "(\<lambda>j. (f(i - 1 := True)) j \<or> (Suc i - 1 \<le> j \<and> j < Suc i - 1 + length argv)) =
      (\<lambda>j. f j \<or> (i - 1 \<le> j \<and> j < i - 1 + length (arg # argv)))"
    using Cons.prems(2) by (auto simp: fun_eq_iff)
  moreover have "cldm_argp_paramtype arg \<noteq> None"
    by (cases arg; cases "tl arg") (auto simp: cldm_argp_paramtype_def c_at_def)
  ultimately show ?case using pf' pf1(1) assms(1,2) by auto
next
  case Nil
  have "(\<lambda>j. f j \<or> (i - 1 \<le> j \<and> j < i - 1 + length [])) = f" by (auto simp: fun_eq_iff)
  with Nil.prems(1) show ?case by simp
qed

theorem cldm_argp_ddash_correct_witness:
  "\<exists>pf'. argp_loop (argp_ctx0\<lparr>treat_as_posparam := True\<rparr>) dfa_blank
       (replicate (CLDM_ARGP_MAX_PARAMS div 8) 0) 1 [[45, 118]] =
     Some (True, argp_ctx0\<lparr>treat_as_posparam := True\<rparr>, pf') \<and> posflag_get pf' 0 = Some True"
  using cldm_argp_ddash_correct [of "argp_ctx0\<lparr>treat_as_posparam := True\<rparr>", OF _ _ bits_are_zero,
      of 1 "[[45, 118]]" dfa_blank]
  by (auto simp: argp_ctx0_def argp_ctx_init_def arg_ok_def bits_are_def)

section \<open>The number of jobs\<close>

text \<open>A number in decimal.\<close>

fun decimal :: "nat \<Rightarrow> u8 list" where
  "decimal n = (if n < 10 then [of_nat (48 + n)] else decimal (n div 10) @ [of_nat (48 + n mod 10)])"

declare decimal.simps [simp del]

lemma digit_char: "d < 10 \<Longrightarrow> c_digit 10 (of_nat (48 + d)) = Some d"
proof -
  assume d: "d < 10"
  have u: "unat (of_nat (48 + d) :: u8) = 48 + d" using d by (simp add: unat_of_nat del: of_nat_add)
  with d show ?thesis by (simp add: c_digit_def word_le_nat_alt del: of_nat_add)
qed

lemma c_digits_decimal: "c_digits 10 (decimal n @ rest) acc =
    c_digits 10 rest (acc * 10 ^ length (decimal n) + n)"
proof (induction n arbitrary: rest acc rule: decimal.induct)
  case (1 n)
  show ?case
  proof (cases "n < 10")
    case True
    with digit_char [OF True] show ?thesis by (simp add: decimal.simps [of n] del: of_nat_add)
  next
    case False
    have m: "n mod 10 < 10" by simp
    have "c_digits 10 (decimal n @ rest) acc =
        c_digits 10 ([of_nat (48 + n mod 10)] @ rest) (acc * 10 ^ length (decimal (n div 10)) + n div 10)"
      using False 1(1) [OF False] by (simp add: decimal.simps [of n] del: of_nat_add)
    also have "\<dots> = c_digits 10 rest ((acc * 10 ^ length (decimal (n div 10)) + n div 10) * 10 + n mod 10)"
      using digit_char [OF m] by (simp del: of_nat_add)
    also have "(acc * 10 ^ length (decimal (n div 10)) + n div 10) * 10 + n mod 10 =
        acc * 10 ^ length (decimal n) + n"
      using False by (simp add: decimal.simps [of n] algebra_simps)
    finally show ?thesis .
  qed
qed

lemma hd_decimal: "\<exists>d cs. decimal n = of_nat (48 + d) # cs \<and> d < 10 \<and> (n \<noteq> 0 \<longrightarrow> d \<noteq> 0)"
proof (induction n rule: decimal.induct)
  case (1 n)
  show ?case
  proof (cases "n < 10")
    case False
    with 1 obtain d cs where "decimal (n div 10) = of_nat (48 + d) # cs" "d < 10" "n div 10 \<noteq> 0 \<longrightarrow> d \<noteq> 0"
      by auto
    with False show ?thesis by (auto simp: decimal.simps [of n] simp del: of_nat_add)
  qed (auto simp: decimal.simps [of n] simp del: of_nat_add)
qed

lemma strtoul_decimal: "0 < n \<Longrightarrow> n < 2 ^ 64 \<Longrightarrow> c_strtoul (decimal n) = (of_nat n, [])"
proof -
  assume n: "0 < n" "n < 2 ^ 64"
  obtain d cs where d: "decimal n = of_nat (48 + d) # cs" "d < 10" "d \<noteq> 0" using hd_decimal [of n] n by auto
  let ?c = "of_nat (48 + d) :: u8"
  have u: "unat ?c = 48 + d" using d(2) by (simp add: unat_of_nat del: of_nat_add)
  have "\<not> c_isspace ?c" "?c \<noteq> 45" "?c \<noteq> 43" "?c \<noteq> 48"
    using u d(3) by (auto simp: c_isspace_def word_le_nat_alt word_unat_eq_iff simp del: of_nat_add)
  moreover have "c_base (?c # cs) = (10, ?c # cs)"
    using calculation(4) by (simp add: c_base_def split: list.split del: of_nat_add)
  moreover have "c_digits 10 (decimal n) 0 = (n, [])" using c_digits_decimal [of n "[]" 0] by simp
  ultimately show ?thesis
    using d n(2) digit_char [OF d(2)] by (simp add: c_strtoul_def del: of_nat_add)
qed

text \<open>
  C28: a positive number in decimal given to \<open>--jobs\<close> is accepted and becomes the number of jobs,
  capped at 32; this is the only field of the context that changes.
\<close>

theorem cldm_argp_set_jobs_correct:
  assumes "0 < n" and "n < 2 ^ 64"
  shows "cldm_argp_set_jobs ctx (decimal n) =
    (True, ctx\<lparr>ctx_args := (ctx_args ctx)\<lparr>jobs := of_nat (min n CLDM_MAX_THREADS)\<rparr>\<rparr>)"
proof -
  have ne: "decimal n \<noteq> []" using hd_decimal [of n] by auto
  have u: "unat (of_nat n :: u64) = n" using assms(2) by (simp add: unat_of_nat)
  have "(of_nat n :: u64) \<noteq> 0" using u assms(1) by (metis less_numeral_extra(3) unsigned_0)
  moreover have "(of_nat CLDM_MAX_THREADS :: u64) < of_nat n \<longleftrightarrow> CLDM_MAX_THREADS < n"
    using u by (simp add: word_less_nat_alt CLDM_MAX_THREADS_def)
  moreover have "ucast (of_nat n :: u64) = (of_nat n :: u32)" if "n \<le> 32"
    using u that by (simp add: word_unat_eq_iff unsigned_ucast_eq take_bit_nat_def unat_of_nat)
  ultimately show ?thesis
    using ne by (auto simp: cldm_argp_set_jobs_def strtoul_decimal [OF assms] CLDM_MAX_THREADS_def min_def)
qed

theorem cldm_argp_set_jobs_correct_witness:
  "cldm_argp_set_jobs argp_ctx0 [49, 50] = (True, argp_ctx0\<lparr>ctx_args := (ctx_args argp_ctx0)\<lparr>jobs := 12\<rparr>\<rparr>)"
proof -
  have "decimal 12 = [49, 50]" by (simp add: decimal.simps)
  with cldm_argp_set_jobs_correct [of 12 argp_ctx0] show ?thesis by (simp add: CLDM_MAX_THREADS_def)
qed

end
