(* ===== verification/Testrec.thy ===== *)
theory Testrec
  imports Cmem
begin

text \<open>
  \<^verbatim>\<open>cldm/cldm_testrec.h\<close>, \<^verbatim>\<open>cldm/cldm_auxprocs.h\<close>: the record of a test and the order in which records
  are kept. The functions of a test, its setup and its teardown act on a state \<open>'s\<close>; the members that
  only link the record into the tree are in the tree's own heap.
\<close>

type_synonym 's proc = "'s \<Rightarrow> 's option"

record 's cldm_testrec =
  rec_name :: "u8 list"
  rec_file :: "u8 list"
  rec_handle :: "'s proc"
  rec_setup :: "'s proc option"
  rec_teardown :: "'s proc option"

record 's cldm_auxprocs =
  aux_local_setup :: "'s proc"
  aux_global_setup :: "'s proc"
  aux_local_teardown :: "'s proc"
  aux_global_teardown :: "'s proc"

text \<open>\<open>strcmp\<close> and \<open>strncmp\<close> of two strings given by their bytes.\<close>

fun str_cmp :: "u8 list \<Rightarrow> u8 list \<Rightarrow> int" where
  "str_cmp [] [] = 0"
| "str_cmp (x # xs) [] = uint x"
| "str_cmp [] (y # ys) = - uint y"
| "str_cmp (x # xs) (y # ys) = (if x \<noteq> y then uint x - uint y else str_cmp xs ys)"

definition str_ncmp :: "nat \<Rightarrow> u8 list \<Rightarrow> u8 list \<Rightarrow> int" where
  "str_ncmp n xs ys = str_cmp (take n xs) (take n ys)"

definition cldm_testrec_compare :: "'s cldm_testrec \<Rightarrow> 's cldm_testrec \<Rightarrow> int" where
  "cldm_testrec_compare l r =
     (let diff = str_cmp (rec_file l) (rec_file r) in
      - 1 * (diff + (if diff = 0 then 1 else 0) * str_cmp (rec_name l) (rec_name r)))"

section \<open>The order\<close>

text \<open>The order of strings without the byte 0: lexicographic, by unsigned bytes.\<close>

lemma str_cmp_refl [simp]: "str_cmp xs xs = 0"
  by (induction xs) auto

lemma str_cmp_sym: "str_cmp xs ys = - str_cmp ys xs"
  by (induction xs ys rule: str_cmp.induct) auto

lemma uint_eq_iff: "uint x = uint y \<longleftrightarrow> x = y"
  by (rule word_uint_eq_iff [symmetric])

lemma str_cmp_zero: "0 \<notin> set xs \<Longrightarrow> 0 \<notin> set ys \<Longrightarrow> str_cmp xs ys = 0 \<longleftrightarrow> xs = ys"
  by (induction xs ys rule: str_cmp.induct) (auto simp: uint_0_iff uint_eq_iff)

lemma str_cmp_trans: "str_cmp xs ys < 0 \<Longrightarrow> str_cmp ys zs < 0 \<Longrightarrow> str_cmp xs zs < 0"
proof (induction xs ys arbitrary: zs rule: str_cmp.induct)
  case 1
  then show ?case by simp
next
  case (2 x xs)
  then show ?case by (simp add: not_less)
next
  case (3 y ys)
  then obtain z zs' where zs: "zs = z # zs'" by (cases zs) (auto simp: not_less)
  have "0 < uint z"
  proof (cases "y = z")
    case True
    with 3(1) show ?thesis by simp
  next
    case False
    with 3 zs show ?thesis by (simp add: less_le_trans)
  qed
  then show ?case by (simp add: zs)
next
  case (4 x xs y ys)
  then obtain z zs' where zs: "zs = z # zs'" by (cases zs) (auto simp: not_less)
  consider "x = y" "y = z" | "x = y" "y \<noteq> z" | "x \<noteq> y" "y = z" | "x \<noteq> y" "y \<noteq> z" by blast
  then show ?case
  proof cases
    case 1
    then show ?thesis using 4 zs by simp
  next
    case 4
    then have "uint x < uint z" using \<open>str_cmp (x # xs) (y # ys) < 0\<close> \<open>str_cmp (y # ys) zs < 0\<close> zs by simp
    then show ?thesis using zs by auto
  qed (use 4 zs in simp_all)
qed

definition rec_key :: "'s cldm_testrec \<Rightarrow> u8 list \<times> u8 list" where
  "rec_key r = (rec_file r, rec_name r)"

definition rec_less :: "'s cldm_testrec \<Rightarrow> 's cldm_testrec \<Rightarrow> bool" where
  "rec_less l r \<longleftrightarrow> 0 < cldm_testrec_compare l r"

definition rec_strings :: "'s cldm_testrec \<Rightarrow> bool" where
  "rec_strings r \<longleftrightarrow> 0 \<notin> set (rec_file r) \<and> 0 \<notin> set (rec_name r)"

lemma cldm_testrec_compare_zero:
  "rec_strings l \<Longrightarrow> rec_strings r \<Longrightarrow> cldm_testrec_compare l r = 0 \<longleftrightarrow> rec_key l = rec_key r"
  by (auto simp: cldm_testrec_compare_def rec_key_def rec_strings_def str_cmp_zero Let_def)

lemma cldm_testrec_compare_sym: "cldm_testrec_compare l r = - cldm_testrec_compare r l"
  unfolding cldm_testrec_compare_def
  by (subst str_cmp_sym, subst str_cmp_sym [of "rec_name l"]) (simp add: Let_def)

end
