(* ===== verification/Elf.thy ===== *)
theory Elf
  imports Byteseq
begin

text \<open>
  \<^verbatim>\<open>cldm/cldm_elf.c\<close>, \<^verbatim>\<open>cldm/cldm_elf.h\<close>: reading the program's own
  executable. The file is mapped into the memory at the address \<open>m_addr\<close>; a header is copied out of
  the map byte by byte and decoded, little endian. A read outside the memory has no defined result.
  The system calls \<open>open\<close>, \<open>fstat\<close>, \<open>mmap\<close> and the address of \<open>main\<close> are arguments. A C string that
  is an argument is the list of its bytes; error messages are not represented.
\<close>

section \<open>The file format\<close>

fun le :: "u8 list \<Rightarrow> 'a::len word" where
  "le [] = 0"
| "le (b # bs) = ucast b OR push_bit 8 (le bs)"

definition field :: "u8 list \<Rightarrow> nat \<Rightarrow> nat \<Rightarrow> 'a::len word" where
  "field bs off n = le (take n (drop off bs))"

type_synonym u16 = "16 word"

record Elf64_Shdr =
  sh_name :: u32
  sh_type :: u32
  sh_flags :: u64
  sh_addr :: u64
  sh_offset :: u64
  sh_size :: u64

record Elf64_Sym =
  st_name :: u32
  st_info :: u8
  st_other :: u8
  st_shndx :: u16
  st_value :: u64
  st_size :: u64

record Elf64_Dyn =
  d_tag :: u64
  d_val :: u64

text \<open>\<open>cldm_memcpy(&x, addr, sizeof(x))\<close> into a local structure.\<close>

definition read_shdr :: "mem \<Rightarrow> u64 \<Rightarrow> Elf64_Shdr option" where
  "read_shdr m a =
     do { bs \<leftarrow> mem_rdn m a 64;
          Some \<lparr>sh_name = field bs 0 4, sh_type = field bs 4 4, sh_flags = field bs 8 8,
                sh_addr = field bs 16 8, sh_offset = field bs 24 8, sh_size = field bs 32 8\<rparr> }"

definition read_sym :: "mem \<Rightarrow> u64 \<Rightarrow> Elf64_Sym option" where
  "read_sym m a =
     do { bs \<leftarrow> mem_rdn m a 24;
          Some \<lparr>st_name = field bs 0 4, st_info = field bs 4 1, st_other = field bs 5 1,
                st_shndx = field bs 6 2, st_value = field bs 8 8, st_size = field bs 16 8\<rparr> }"

definition read_dyn :: "mem \<Rightarrow> u64 \<Rightarrow> Elf64_Dyn option" where
  "read_dyn m a =
     do { bs \<leftarrow> mem_rdn m a 16; Some \<lparr>d_tag = field bs 0 8, d_val = field bs 8 8\<rparr> }"

text \<open>\<open>p_vaddr\<close> of a program header of 56 bytes.\<close>

definition read_phdr_vaddr :: "mem \<Rightarrow> u64 \<Rightarrow> u64 option" where
  "read_phdr_vaddr m a = do { bs \<leftarrow> mem_rdn m a 56; Some (field bs 16 8) }"

definition rd16 :: "mem \<Rightarrow> u64 \<Rightarrow> u16 option" where
  "rd16 m a = do { bs \<leftarrow> mem_rdn m a 2; Some (le bs) }"

definition rd64 :: "mem \<Rightarrow> u64 \<Rightarrow> u64 option" where
  "rd64 m a = do { bs \<leftarrow> mem_rdn m a 8; Some (le bs) }"

definition SHT_SYMTAB :: u32 where "SHT_SYMTAB = 2"
definition SHT_STRTAB :: u32 where "SHT_STRTAB = 3"
definition SHT_DYNAMIC :: u32 where "SHT_DYNAMIC = 6"
definition SHN_UNDEF :: u16 where "SHN_UNDEF = 0"
definition SHN_ABS :: u16 where "SHN_ABS = 0xfff1"
definition STN_UNDEF :: u32 where "STN_UNDEF = 0"
definition DT_NEEDED :: u64 where "DT_NEEDED = 1"
definition ET_EXEC :: u16 where "ET_EXEC = 2"
definition ET_DYN :: u16 where "ET_DYN = 3"

section \<open>State\<close>

record cldm_strtab =
  str_addr :: u64
  str_size :: u64

record cldm_elfmap =
  map_size :: u64
  m_addr :: u64
  map_shstrtab :: u64
  map_strtab :: cldm_strtab
  map_dynstr :: cldm_strtab
  baseaddr :: u64

text \<open>The members of the header of the executable, through \<open>map->m_un.ehdr\<close>.\<close>

definition e_type :: "mem \<Rightarrow> cldm_elfmap \<Rightarrow> u16 option" where "e_type m em = rd16 m (m_addr em + 16)"
definition e_phoff :: "mem \<Rightarrow> cldm_elfmap \<Rightarrow> u64 option" where "e_phoff m em = rd64 m (m_addr em + 32)"
definition e_shoff :: "mem \<Rightarrow> cldm_elfmap \<Rightarrow> u64 option" where "e_shoff m em = rd64 m (m_addr em + 40)"
definition e_phentsize :: "mem \<Rightarrow> cldm_elfmap \<Rightarrow> u16 option" where "e_phentsize m em = rd16 m (m_addr em + 54)"
definition e_phnum :: "mem \<Rightarrow> cldm_elfmap \<Rightarrow> u16 option" where "e_phnum m em = rd16 m (m_addr em + 56)"
definition e_shentsize :: "mem \<Rightarrow> cldm_elfmap \<Rightarrow> u16 option" where "e_shentsize m em = rd16 m (m_addr em + 58)"
definition e_shnum :: "mem \<Rightarrow> cldm_elfmap \<Rightarrow> u16 option" where "e_shnum m em = rd16 m (m_addr em + 60)"
definition e_shstrndx :: "mem \<Rightarrow> cldm_elfmap \<Rightarrow> u16 option" where "e_shstrndx m em = rd16 m (m_addr em + 62)"

text \<open>\<open>strcmp\<close> with a string given by its bytes as the first argument.\<close>

fun strcmp_to :: "mem \<Rightarrow> u8 list \<Rightarrow> u64 \<Rightarrow> int option" where
  "strcmp_to m [] a = do { x \<leftarrow> m a; Some (- uint x) }"
| "strcmp_to m (c # cs) a =
     do { x \<leftarrow> m a; if x \<noteq> c then Some (uint c - uint x) else strcmp_to m cs (a + 1) }"

text \<open>\<open>".strtab"\<close>, \<open>".dynstr"\<close>, \<open>".dynamic"\<close> and \<open>"main"\<close>.\<close>

definition str_strtab :: "u8 list" where "str_strtab = [46, 115, 116, 114, 116, 97, 98]"
definition str_dynstr :: "u8 list" where "str_dynstr = [46, 100, 121, 110, 115, 116, 114]"
definition str_dynamic :: "u8 list" where "str_dynamic = [46, 100, 121, 110, 97, 109, 105, 99]"
definition str_main :: "u8 list" where "str_main = [109, 97, 105, 110]"

section \<open>Sections\<close>

text \<open>The product \<open>n * e_shentsize\<close> is of type \<open>unsigned\<close>.\<close>

definition cldm_elf_shdr :: "mem \<Rightarrow> cldm_elfmap \<Rightarrow> u32 \<Rightarrow> u64 option" where
  "cldm_elf_shdr m em n =
     do { shoff \<leftarrow> e_shoff m em;
          shentsize \<leftarrow> e_shentsize m em;
          Some (m_addr em + shoff + ucast (n * ucast shentsize)) }"

text \<open>The result is 0, the null pointer, when the file has no table of section names.\<close>

definition cldm_elf_shstrtab :: "mem \<Rightarrow> cldm_elfmap \<Rightarrow> u64 option" where
  "cldm_elf_shstrtab m em =
     do { ndx \<leftarrow> e_shstrndx m em;
          if ndx = SHN_UNDEF then Some 0
          else do { addr \<leftarrow> cldm_elf_shdr m em (ucast ndx);
                    shdr \<leftarrow> read_shdr m addr;
                    Some (m_addr em + sh_offset shdr) } }"

definition cldm_map_strtab :: "mem \<Rightarrow> u64 \<Rightarrow> u64 \<Rightarrow> cldm_strtab option" where
  "cldm_map_strtab m mapaddr hdr =
     do { shdr \<leftarrow> read_shdr m hdr;
          Some \<lparr>str_addr = mapaddr + sh_offset shdr, str_size = sh_size shdr - 1\<rparr> }"

text \<open>The loop of \<open>cldm_elf_map_sections\<close> over the indices left; the result is \<open>strtab_hdr\<close> and \<open>dynstr_hdr\<close>.\<close>

fun map_sections_loop ::
  "mem \<Rightarrow> cldm_elfmap \<Rightarrow> nat list \<Rightarrow> u64 option \<Rightarrow> u64 option \<Rightarrow> (u64 option \<times> u64 option) option" where
  "map_sections_loop m em [] strtab_hdr dynstr_hdr = Some (strtab_hdr, dynstr_hdr)"
| "map_sections_loop m em (i # is) strtab_hdr dynstr_hdr =
     do { addr \<leftarrow> cldm_elf_shdr m em (of_nat i);
          shdr \<leftarrow> read_shdr m addr;
          if sh_type shdr = SHT_STRTAB
          then do {
            c \<leftarrow> strcmp_to m str_strtab (map_shstrtab em + ucast (sh_name shdr));
            if c = 0 then map_sections_loop m em is (Some addr) dynstr_hdr
            else do {
              d \<leftarrow> strcmp_to m str_dynstr (map_shstrtab em + ucast (sh_name shdr));
              map_sections_loop m em is strtab_hdr (if d = 0 then Some addr else dynstr_hdr) } }
          else map_sections_loop m em is strtab_hdr dynstr_hdr }"

definition cldm_elf_map_sections :: "mem \<Rightarrow> cldm_elfmap \<Rightarrow> (nat \<times> cldm_elfmap) option" where
  "cldm_elf_map_sections m em =
     do { shnum \<leftarrow> e_shnum m em;
          (strtab_hdr, dynstr_hdr) \<leftarrow> map_sections_loop m em [0..<unat shnum] None None;
          em \<leftarrow> (case strtab_hdr of
                   None \<Rightarrow> Some em
                 | Some hdr \<Rightarrow> do { t \<leftarrow> cldm_map_strtab m (m_addr em) hdr; Some (em\<lparr>map_strtab := t\<rparr>) });
          em \<leftarrow> (case dynstr_hdr of
                   None \<Rightarrow> Some em
                 | Some hdr \<Rightarrow> do { t \<leftarrow> cldm_map_strtab m (m_addr em) hdr; Some (em\<lparr>map_dynstr := t\<rparr>) });
          Some ((if strtab_hdr = None then 0 else 1) + (if dynstr_hdr = None then 0 else 1), em) }"

fun section_loop ::
  "mem \<Rightarrow> cldm_elfmap \<Rightarrow> nat list \<Rightarrow> u32 \<Rightarrow> u8 list \<Rightarrow> u64 option option" where
  "section_loop m em [] type secname = Some None"
| "section_loop m em (i # is) type secname =
     do { addr \<leftarrow> cldm_elf_shdr m em (of_nat i);
          shdr \<leftarrow> read_shdr m addr;
          found \<leftarrow> (if sh_type shdr = type
                   then do { c \<leftarrow> strcmp_to m secname (map_shstrtab em + ucast (sh_name shdr)); Some (c = 0) }
                   else Some False);
          if found then Some (Some addr) else section_loop m em is type secname }"

definition cldm_elf_section :: "mem \<Rightarrow> cldm_elfmap \<Rightarrow> u32 \<Rightarrow> u8 list \<Rightarrow> u64 option option" where
  "cldm_elf_section m em type secname =
     do { shnum \<leftarrow> e_shnum m em; section_loop m em [0..<unat shnum] type secname }"

definition cldm_elf_strtab :: "mem \<Rightarrow> cldm_elfmap \<Rightarrow> u8 list \<Rightarrow> u64 option option" where
  "cldm_elf_strtab m em sec = cldm_elf_section m em SHT_STRTAB sec"

definition cldm_elf_dynamic :: "mem \<Rightarrow> cldm_elfmap \<Rightarrow> u64 option option" where
  "cldm_elf_dynamic m em = cldm_elf_section m em SHT_DYNAMIC str_dynamic"

section \<open>Symbols\<close>

text \<open>The inner loop of \<open>cldm_elf_sym\<close>, over one symbol table.\<close>

partial_function (option) sym_loop ::
  "mem \<Rightarrow> cldm_elfmap \<Rightarrow> u8 list \<Rightarrow> Elf64_Shdr \<Rightarrow> u64 \<Rightarrow> u64 option option" where
  "sym_loop m em symbol shdr j =
     (if j < sh_size shdr
      then do {
        esym \<leftarrow> read_sym m (m_addr em + sh_offset shdr + j);
        found \<leftarrow> (if st_name esym \<noteq> STN_UNDEF
                 then do { c \<leftarrow> strcmp_to m symbol (str_addr (map_strtab em) + ucast (st_name esym)); Some (c = 0) }
                 else Some False);
        if found then Some (Some (m_addr em + sh_offset shdr + j))
        else sym_loop m em symbol shdr (j + 24) }
      else Some None)"

fun sym_sections_loop :: "mem \<Rightarrow> cldm_elfmap \<Rightarrow> u8 list \<Rightarrow> nat list \<Rightarrow> u64 option option" where
  "sym_sections_loop m em symbol [] = Some None"
| "sym_sections_loop m em symbol (i # is) =
     do { addr \<leftarrow> cldm_elf_shdr m em (of_nat i);
          shdr \<leftarrow> read_shdr m addr;
          r \<leftarrow> (if sh_type shdr = SHT_SYMTAB then sym_loop m em symbol shdr 0 else Some None);
          case r of Some a \<Rightarrow> Some (Some a) | None \<Rightarrow> sym_sections_loop m em symbol is }"

definition cldm_elf_sym :: "mem \<Rightarrow> cldm_elfmap \<Rightarrow> u8 list \<Rightarrow> u64 option option" where
  "cldm_elf_sym m em symbol =
     do { shnum \<leftarrow> e_shnum m em; sym_sections_loop m em symbol [0..<unat shnum] }"

text \<open>
  \<open>i * e_phentsize\<close> is a signed product; the minimum is computed without a branch. The result is 0
  on an error.
\<close>

fun phdr_loop :: "mem \<Rightarrow> cldm_elfmap \<Rightarrow> nat list \<Rightarrow> u64 \<Rightarrow> u64 option" where
  "phdr_loop m em [] base = Some base"
| "phdr_loop m em (i # is) base =
     do { phoff \<leftarrow> e_phoff m em;
          phentsize \<leftarrow> e_phentsize m em;
          if 2 ^ 31 \<le> int i * uint phentsize then None
          else do {
            vaddr \<leftarrow> read_phdr_vaddr m (m_addr em + phoff + of_int (int i * uint phentsize));
            phdr_loop m em is (base XOR ((vaddr XOR base) AND (if vaddr < base then - 1 else 0))) } }"

definition cldm_elf_baseaddr :: "mem \<Rightarrow> u64 \<Rightarrow> cldm_elfmap \<Rightarrow> u64 option" where
  "cldm_elf_baseaddr m main em =
     do { phnum \<leftarrow> e_phnum m em;
          base \<leftarrow> phdr_loop m em [0..<unat phnum] (NOT 0);
          relmain \<leftarrow> cldm_elf_sym m em str_main;
          esym \<leftarrow> (case relmain of None \<Rightarrow> None | Some a \<Rightarrow> read_sym m a);
          if st_shndx esym = SHN_UNDEF then Some 0
          else if st_shndx esym = SHN_ABS then Some 0
          else do {
            addr \<leftarrow> cldm_elf_shdr m em (ucast (st_shndx esym));
            shdr \<leftarrow> read_shdr m addr;
            Some (main - st_value esym - base) } }"

definition cldm_elf_symaddr :: "mem \<Rightarrow> cldm_elfmap \<Rightarrow> Elf64_Sym \<Rightarrow> u64 option" where
  "cldm_elf_symaddr m em esym =
     (if st_shndx esym = SHN_UNDEF then Some 0
      else if st_shndx esym = SHN_ABS then Some (st_value esym)
      else do { addr \<leftarrow> cldm_elf_shdr m em (ucast (st_shndx esym));
                shdr \<leftarrow> read_shdr m addr;
                Some (baseaddr em + st_value esym) })"

definition cldm_elf_symlookup :: "mem \<Rightarrow> cldm_elfmap \<Rightarrow> u8 list \<Rightarrow> u64 option" where
  "cldm_elf_symlookup m em symname =
     do { symaddr \<leftarrow> cldm_elf_sym m em symname;
          case symaddr of
            None \<Rightarrow> Some 0
          | Some a \<Rightarrow> do { esym \<leftarrow> read_sym m a; cldm_elf_symaddr m em esym } }"

section \<open>Mapping the file\<close>

record elf_os =
  os_open :: "u8 list \<Rightarrow> int"
  os_fstat :: "int \<Rightarrow> u64 option"
  os_mmap :: "u64 \<Rightarrow> int \<Rightarrow> u64 option"
  os_munmap :: "u64 \<Rightarrow> u64 \<Rightarrow> bool"

text \<open>The calls that release a resource, in their order.\<close>

datatype elf_call = Munmap u64 u64 | Close int

definition cldm_unmap_elf :: "elf_os \<Rightarrow> cldm_elfmap \<Rightarrow> int \<times> elf_call list" where
  "cldm_unmap_elf os em = (if os_munmap os (m_addr em) (map_size em) then 0 else - 1, [Munmap (m_addr em) (map_size em)])"

definition zero_elfmap :: cldm_elfmap where
  "zero_elfmap = \<lparr>map_size = 0, m_addr = 0, map_shstrtab = 0, map_strtab = \<lparr>str_addr = 0, str_size = 0\<rparr>,
     map_dynstr = \<lparr>str_addr = 0, str_size = 0\<rparr>, baseaddr = 0\<rparr>"

text \<open>The status, the map and the calls; the function ends at \<open>epilogue\<close>, which closes the file.\<close>

definition cldm_map_elf ::
  "mem \<Rightarrow> elf_os \<Rightarrow> u64 \<Rightarrow> cldm_elfmap \<Rightarrow> u8 list \<Rightarrow> (int \<times> cldm_elfmap \<times> elf_call list) option" where
  "cldm_map_elf m os main em file =
     (let fd = os_open os file in
      if fd = - 1 then Some (- 1, em, [])
      else case os_fstat os fd of
        None \<Rightarrow> Some (- 1, em, [Close fd])
      | Some sb_size \<Rightarrow>
          (case os_mmap os sb_size fd of
             None \<Rightarrow> Some (- 1, em, [Close fd])
           | Some addr \<Rightarrow>
               do { let em = zero_elfmap\<lparr>m_addr := addr, map_size := sb_size\<rparr>;
                    shstrtab \<leftarrow> cldm_elf_shstrtab m em;
                    let em = em\<lparr>map_shstrtab := shstrtab\<rparr>;
                    if shstrtab = 0
                    then Some (- 1, em, snd (cldm_unmap_elf os em) @ [Close fd])
                    else do {
                      (nmapped, em) \<leftarrow> cldm_elf_map_sections m em;
                      if nmapped \<noteq> 2 then Some (- 1, em, [Close fd])
                      else do {
                        base \<leftarrow> cldm_elf_baseaddr m main em;
                        let em = em\<lparr>baseaddr := base\<rparr>;
                        Some (if base = 0 then - 1 else 0, em, [Close fd]) } } }))"

definition cldm_is_elf64 :: "mem \<Rightarrow> cldm_elfmap \<Rightarrow> bool option" where
  "cldm_is_elf64 m em =
     do { b0 \<leftarrow> m (m_addr em);
          if b0 \<noteq> 0x7f then Some False
          else do { b1 \<leftarrow> m (m_addr em + 1);
            if b1 \<noteq> 69 then Some False
            else do { b2 \<leftarrow> m (m_addr em + 2);
              if b2 \<noteq> 76 then Some False
              else do { b3 \<leftarrow> m (m_addr em + 3);
                if b3 \<noteq> 70 then Some False
                else do { b4 \<leftarrow> m (m_addr em + 4); Some (b4 = 2) } } } } }"

definition cldm_elf_is_executable :: "mem \<Rightarrow> cldm_elfmap \<Rightarrow> bool option" where
  "cldm_elf_is_executable m em = do { t \<leftarrow> e_type m em; Some (t = ET_EXEC \<or> t = ET_DYN) }"

section \<open>Reading tables into a buffer\<close>

text \<open>
  The results are the return value and the memory after the writes to the buffer. Each function
  returns a \<open>ssize_t\<close>.
\<close>

definition cldm_elf_read_strtab ::
  "mem \<Rightarrow> cldm_elfmap \<Rightarrow> u64 \<Rightarrow> u8 list \<Rightarrow> u64 \<Rightarrow> (int \<times> mem) option" where
  "cldm_elf_read_strtab m em buffer sec bufsize =
     (if sec = str_strtab
      then if bufsize < str_size (map_strtab em) then Some (- E2BIG, m)
           else do { m \<leftarrow> cldm_memcpy m buffer (str_addr (map_strtab em)) (str_size (map_strtab em));
                     Some (sint (str_size (map_strtab em)), m) }
      else if sec = str_dynstr
      then if bufsize < str_size (map_dynstr em) then Some (- E2BIG, m)
           else do { m \<leftarrow> cldm_memcpy m buffer (str_addr (map_dynstr em)) (str_size (map_dynstr em));
                     Some (sint (str_size (map_dynstr em)), m) }
      else do {
        strtab \<leftarrow> cldm_elf_strtab m em sec;
        case strtab of
          None \<Rightarrow> Some (- 1, m)
        | Some hdr \<Rightarrow>
            do { shdr \<leftarrow> read_shdr m hdr;
                 if bufsize < sh_size shdr then Some (- E2BIG, m)
                 else do { m \<leftarrow> cldm_memcpy m buffer (m_addr em + sh_offset shdr + 1) (sh_size shdr - 1);
                           Some (sint (sh_size shdr - 1), m) } } })"

text \<open>The loop returns early with the length of the name that filled the buffer.\<close>

partial_function (option) needed_loop ::
  "mem \<Rightarrow> cldm_elfmap \<Rightarrow> u64 \<Rightarrow> u64 \<Rightarrow> Elf64_Shdr \<Rightarrow> u64 \<Rightarrow> int \<Rightarrow> (int \<times> mem) option" where
  "needed_loop m em buffer bufsize shdr i offset =
     (if i < sh_size shdr
      then do {
        dyn \<leftarrow> read_dyn m (m_addr em + sh_offset shdr + i);
        if d_tag dyn = DT_NEEDED
        then do {
          (nbytes, m) \<leftarrow> cldm_strscpy m (buffer + of_int offset) (str_addr (map_dynstr em) + d_val dyn)
                           (bufsize - of_int offset);
          if nbytes < 0 \<or> bufsize \<le> of_int (offset + nbytes + 1) then Some (nbytes, m)
          else needed_loop m em buffer bufsize shdr (i + 16) (offset + nbytes + 1) }
        else needed_loop m em buffer bufsize shdr (i + 16) offset }
      else Some (offset - 1, m))"

definition cldm_elf_read_needed :: "mem \<Rightarrow> cldm_elfmap \<Rightarrow> u64 \<Rightarrow> u64 \<Rightarrow> (int \<times> mem) option" where
  "cldm_elf_read_needed m em buffer bufsize =
     do { dynamic \<leftarrow> cldm_elf_dynamic m em;
          case dynamic of
            None \<Rightarrow> Some (- 1, m)
          | Some hdr \<Rightarrow> do { shdr \<leftarrow> read_shdr m hdr; needed_loop m em buffer bufsize shdr 0 0 } }"

declare sym_loop.simps [code] needed_loop.simps [code]

end
