(* ===== verification/Mock.thy ===== *)
theory Mock
  imports Jmpstack Byteseq Elf
begin

text \<open>
  \<^verbatim>\<open>cldm/cldm_mock.h\<close>, \<^verbatim>\<open>cldm/cldm_mock.c\<close>, \<^verbatim>\<open>cldm/cldm_noreturn.h\<close>: the functions that the mocking
  macros generate. The model is about one mocked function: its contexts, one for each thread, and
  what its generated body does on a call. A function pointer is an address, and \<open>env\<close> says what the
  function there does; \<open>dlsym_next\<close> and \<open>dlresolve\<close> are the operations of the symbol cache for the name
  of the function, on a state \<open>'d\<close> of their own. Values are the lists of their bytes; parameters are
  objects in memory, given by address and size. Warnings are not represented.
\<close>

section \<open>State\<close>

datatype cldm_mockop =
    cldm_mockop_invoke | cldm_mockop_return | cldm_mockop_increment | cldm_mockop_return_param
  | cldm_mockop_return_pointee | cldm_mockop_assign | cldm_mockop_assign_param

text \<open>The union \<open>un_act\<close>: the member stored last. Reading another member has no defined result.\<close>

datatype cldm_mockact =
    act_invoke u64
  | act_retval "u8 list"
  | act_counter u32
  | act_paramidx u32
  | act_assign u64 u64 u32
  | act_assign_param u64 u32 u32

record cldm_mockctx =
  mk_invocations :: int
  mk_op :: cldm_mockop
  mk_act :: cldm_mockact

definition CLDM_MOCK_INFINITE :: int where
  "CLDM_MOCK_INFINITE = - 1"

record 'd cldm_mock =
  mk_mem :: mem
  mk_force_disable :: "bool list"
  mk_global_context :: bool
  mk_ctxs :: "cldm_mockctx list"
  mk_dl :: 'd
  mk_jmpstacks :: "u64 jmpstack list"

text \<open>\<open>cldm_mock_populate_ctx\<close>: the contexts at program start.\<close>

definition cldm_mock_populate_ctx :: "cldm_mockctx list" where
  "cldm_mock_populate_ctx =
     replicate 32 \<lparr>mk_invocations = 0, mk_op = cldm_mockop_invoke, mk_act = act_invoke 0\<rparr>"

text \<open>How a call ends: with a value, by \<open>exit\<close> in a failed assertion, or by \<open>longjmp\<close>.\<close>

datatype cldm_call = Ret "u8 list" | Exit int | Longjmp u64

type_synonym 'd mock_env = "u64 \<Rightarrow> u8 list list \<Rightarrow> 'd cldm_mock \<Rightarrow> (u8 list \<times> 'd cldm_mock) option"

text \<open>\<open>paramaddrs\<close> and \<open>paramsizes\<close>.\<close>

type_synonym params = "(u64 \<times> nat) list"

fun param_values :: "mem \<Rightarrow> params \<Rightarrow> u8 list list option" where
  "param_values m [] = Some []"
| "param_values m ((a, n) # ps) = do { v \<leftarrow> mem_rdn m a n; vs \<leftarrow> param_values m ps; Some (v # vs) }"

section \<open>Enabling and disabling\<close>

definition cldm_mock_enable_all :: "('d, 'a) cldm_mock_scheme \<Rightarrow> ('d, 'a) cldm_mock_scheme" where
  "cldm_mock_enable_all s = s\<lparr>mk_force_disable := map (\<lambda>_. False) (mk_force_disable s)\<rparr>"

definition cldm_mock_disable_all :: "('d, 'a) cldm_mock_scheme \<Rightarrow> ('d, 'a) cldm_mock_scheme" where
  "cldm_mock_disable_all s = s\<lparr>mk_force_disable := map (\<lambda>_. True) (mk_force_disable s)\<rparr>"

definition cldm_mock_disabled :: "('d, 'a) cldm_mock_scheme \<Rightarrow> nat \<Rightarrow> bool option" where
  "cldm_mock_disabled s tid =
     (if tid < length (mk_force_disable s) then Some (mk_force_disable s ! tid) else None)"

definition cldm_mock_enabled :: "('d, 'a) cldm_mock_scheme \<Rightarrow> nat \<Rightarrow> bool option" where
  "cldm_mock_enabled s tid = map_option Not (cldm_mock_disabled s tid)"

definition set_force_disable :: "('d, 'a) cldm_mock_scheme \<Rightarrow> nat \<Rightarrow> bool \<Rightarrow> ('d, 'a) cldm_mock_scheme" where
  "set_force_disable s tid b = s\<lparr>mk_force_disable := (mk_force_disable s)[tid := b]\<rparr>"

text \<open>
  The blocks \<open>cldm_mock_enable() {...}\<close>, \<open>cldm_mock_disable() {...}\<close> and \<open>cldm_mock_global() {...}\<close>: each
  runs its body once and restores what it changed.
\<close>

definition cldm_mock_enable ::
  "nat \<Rightarrow> (('d, 'a) cldm_mock_scheme \<Rightarrow> ('r \<times> ('d, 'a) cldm_mock_scheme) option) \<Rightarrow> ('d, 'a) cldm_mock_scheme \<Rightarrow> ('r \<times> ('d, 'a) cldm_mock_scheme) option" where
  "cldm_mock_enable tid body s =
     do { sav \<leftarrow> cldm_mock_disabled s tid;
          (r, s) \<leftarrow> body (set_force_disable s tid False);
          Some (r, set_force_disable s tid sav) }"

definition cldm_mock_disable ::
  "nat \<Rightarrow> (('d, 'a) cldm_mock_scheme \<Rightarrow> ('r \<times> ('d, 'a) cldm_mock_scheme) option) \<Rightarrow> ('d, 'a) cldm_mock_scheme \<Rightarrow> ('r \<times> ('d, 'a) cldm_mock_scheme) option" where
  "cldm_mock_disable tid body s =
     do { sav \<leftarrow> cldm_mock_disabled s tid;
          (r, s) \<leftarrow> body (set_force_disable s tid True);
          Some (r, set_force_disable s tid sav) }"

definition cldm_mock_global ::
  "(('d, 'a) cldm_mock_scheme \<Rightarrow> ('r \<times> ('d, 'a) cldm_mock_scheme) option) \<Rightarrow> ('d, 'a) cldm_mock_scheme \<Rightarrow> ('r \<times> ('d, 'a) cldm_mock_scheme) option" where
  "cldm_mock_global body s =
     do { (r, s') \<leftarrow> body (s\<lparr>mk_global_context := True\<rparr>);
          Some (r, s'\<lparr>mk_global_context := mk_global_context s\<rparr>) }"

section \<open>Setting an action\<close>

text \<open>
  \<open>WHEN_CALLED(f).SHOULD_N_TIMES(n, action)\<close>: in the global context the contexts of all threads are
  set, otherwise that of the calling thread. A count below -1 ends the program.
\<close>

definition cldm_mock_lower_bound :: "bool \<Rightarrow> nat \<Rightarrow> nat" where
  "cldm_mock_lower_bound gbl tid = (if gbl then 0 else tid)"

definition cldm_mock_upper_bound :: "bool \<Rightarrow> nat \<Rightarrow> nat \<Rightarrow> nat" where
  "cldm_mock_upper_bound gbl jobs tid = (if gbl then jobs else tid + 1)"

fun when_called_loop ::
  "cldm_mockop \<Rightarrow> cldm_mockact \<Rightarrow> int \<Rightarrow> nat list \<Rightarrow> cldm_mockctx list \<Rightarrow> (bool \<times> cldm_mockctx list) option" where
  "when_called_loop op act n [] ctxs = Some (True, ctxs)"
| "when_called_loop op act n (i # is) ctxs =
     (if length ctxs \<le> i then None
      else if \<not> (n \<ge> 0 \<or> n = CLDM_MOCK_INFINITE)
      then Some (False, ctxs[i := (ctxs ! i)\<lparr>mk_act := act, mk_op := op\<rparr>])
      else when_called_loop op act n is (ctxs[i := \<lparr>mk_invocations = n, mk_op = op, mk_act = act\<rparr>]))"

definition CLDM_WHEN_CALLED ::
  "nat \<Rightarrow> nat \<Rightarrow> cldm_mockop \<Rightarrow> cldm_mockact \<Rightarrow> int \<Rightarrow> 'd cldm_mock \<Rightarrow> (int option \<times> 'd cldm_mock) option" where
  "CLDM_WHEN_CALLED jobs tid op act n s =
     do { (ok, ctxs) \<leftarrow> when_called_loop op act n
            [cldm_mock_lower_bound (mk_global_context s) tid..<cldm_mock_upper_bound (mk_global_context s) jobs tid]
            (mk_ctxs s);
          Some (if ok then None else Some 2, s\<lparr>mk_ctxs := ctxs\<rparr>) }"

section \<open>The parts the generated functions share\<close>

text \<open>
  \<open>if(cldm_mock_enabled() && invocations) { if(invocations != CLDM_MOCK_INFINITE) --invocations\<close>: whether
  the action is taken, with the context.
\<close>

definition mock_begin :: "nat \<Rightarrow> 'd cldm_mock \<Rightarrow> (cldm_mockctx option \<times> 'd cldm_mock) option" where
  "mock_begin tid s =
     do { enabled \<leftarrow> cldm_mock_enabled s tid;
          if \<not> enabled then Some (None, s)
          else if length (mk_ctxs s) \<le> tid then None
          else let c = mk_ctxs s ! tid in
            if mk_invocations c = 0 then Some (None, s)
            else if mk_invocations c = CLDM_MOCK_INFINITE then Some (Some c, s)
            else let c = c\<lparr>mk_invocations := mk_invocations c - 1\<rparr> in
              Some (Some c, s\<lparr>mk_ctxs := (mk_ctxs s)[tid := c]\<rparr>) }"

text \<open>The block that calls the function of the next library: a missing one ends the program.\<close>

definition mock_call_real ::
  "'d mock_env \<Rightarrow> ('d \<Rightarrow> (u64 \<times> 'd) option) \<Rightarrow> ('d \<Rightarrow> 'd option) \<Rightarrow> nat \<Rightarrow> u8 list list \<Rightarrow> 'd cldm_mock \<Rightarrow>
   (cldm_call \<times> 'd cldm_mock) option" where
  "mock_call_real env dlsym_next dlresolve tid args s =
     cldm_mock_disable tid
       (\<lambda>s. do { (handle, d) \<leftarrow> dlsym_next (mk_dl s);
                 let s = s\<lparr>mk_dl := d\<rparr>;
                 if handle = 0 then Some (Exit 2, s)
                 else do { (rv, s) \<leftarrow> env handle args s;
                           d \<leftarrow> dlresolve (mk_dl s);
                           Some (Ret rv, s\<lparr>mk_dl := d\<rparr>) } })
       s"

definition mock_invoke ::
  "'d mock_env \<Rightarrow> cldm_mockctx \<Rightarrow> u8 list list \<Rightarrow> 'd cldm_mock \<Rightarrow> (u8 list \<times> 'd cldm_mock) option" where
  "mock_invoke env c args s =
     (case mk_act c of act_invoke f \<Rightarrow> if f = 0 then None else env f args s | _ \<Rightarrow> None)"

definition mock_assign :: "cldm_mockctx \<Rightarrow> 'd cldm_mock \<Rightarrow> 'd cldm_mock option" where
  "mock_assign c s =
     (case mk_act c of
        act_assign lhs rhs sz \<Rightarrow>
          do { m \<leftarrow> cldm_memcpy (mk_mem s) lhs rhs (ucast sz); Some (s\<lparr>mk_mem := m\<rparr>) }
      | _ \<Rightarrow> None)"

text \<open>The result is false when the index of the parameter is too large: the program ends.\<close>

definition mock_assign_param :: "cldm_mockctx \<Rightarrow> params \<Rightarrow> 'd cldm_mock \<Rightarrow> (bool \<times> 'd cldm_mock) option" where
  "mock_assign_param c ps s =
     (case mk_act c of
        act_assign_param addr idx dstsize \<Rightarrow>
          if length ps \<le> unat idx then Some (False, s)
          else do { m \<leftarrow> cldm_memcpy (mk_mem s) addr (fst (ps ! unat idx)) (ucast dstsize);
                    Some (True, s\<lparr>mk_mem := m\<rparr>) }
      | _ \<Rightarrow> None)"

text \<open>\<open>++counter\<close> and the copy of the first \<open>sizeof(rv)\<close> bytes of the union, of which four are the counter.\<close>

definition mock_increment :: "nat \<Rightarrow> nat \<Rightarrow> cldm_mockctx \<Rightarrow> 'd cldm_mock \<Rightarrow> (u8 list \<times> 'd cldm_mock) option" where
  "mock_increment rsize tid c s =
     (case mk_act c of
        act_counter k \<Rightarrow>
          if 4 < rsize then None
          else Some (map (\<lambda>i. ucast (drop_bit (8 * i) (k + 1))) [0..<rsize],
                     s\<lparr>mk_ctxs := (mk_ctxs s)[tid := c\<lparr>mk_act := act_counter (k + 1)\<rparr>]\<rparr>)
      | _ \<Rightarrow> None)"

text \<open>
  The copy of a parameter into \<open>rv\<close> has the size of the parameter: a longer one is written past the
  end of \<open>rv\<close>. The result is \<open>None\<close> inside when the index is too large.
\<close>

definition mock_return_param :: "nat \<Rightarrow> cldm_mockctx \<Rightarrow> params \<Rightarrow> mem \<Rightarrow> u8 list option option" where
  "mock_return_param rsize c ps m =
     (case mk_act c of
        act_paramidx idx \<Rightarrow>
          if length ps \<le> unat idx then Some None
          else do { bs \<leftarrow> mem_rdn m (fst (ps ! unat idx)) (snd (ps ! unat idx));
                    if rsize < length bs then None
                    else Some (Some (bs @ replicate (rsize - length bs) 0)) }
      | _ \<Rightarrow> None)"

definition mock_return_pointee :: "nat \<Rightarrow> cldm_mockctx \<Rightarrow> params \<Rightarrow> mem \<Rightarrow> u8 list option option" where
  "mock_return_pointee rsize c ps m =
     (case mk_act c of
        act_paramidx idx \<Rightarrow>
          if length ps \<le> unat idx then Some None
          else do { p \<leftarrow> rd64 m (fst (ps ! unat idx)); bs \<leftarrow> mem_rdn m p rsize; Some (Some bs) }
      | _ \<Rightarrow> None)"

section \<open>The generated functions\<close>

text \<open>\<open>rtassert(0, ...)\<close> in the default branch of a switch ends the program with status 2.\<close>

definition cldm_mock_procedure_nullary ::
  "'d mock_env \<Rightarrow> ('d \<Rightarrow> (u64 \<times> 'd) option) \<Rightarrow> ('d \<Rightarrow> 'd option) \<Rightarrow> nat \<Rightarrow> 'd cldm_mock \<Rightarrow>
   (cldm_call \<times> 'd cldm_mock) option" where
  "cldm_mock_procedure_nullary env dlsym_next dlresolve tid s =
     do { (c, s) \<leftarrow> mock_begin tid s;
          case c of
            None \<Rightarrow> do { (r, s) \<leftarrow> mock_call_real env dlsym_next dlresolve tid [] s;
                         Some (case r of Ret _ \<Rightarrow> Ret [] | _ \<Rightarrow> r, s) }
          | Some c \<Rightarrow>
              (case mk_op c of
                 cldm_mockop_invoke \<Rightarrow> do { (rv, s) \<leftarrow> mock_invoke env c [] s; Some (Ret [], s) }
               | cldm_mockop_return \<Rightarrow> Some (Ret [], s)
               | cldm_mockop_assign \<Rightarrow> do { s \<leftarrow> mock_assign c s; Some (Ret [], s) }
               | _ \<Rightarrow> Some (Exit 2, s)) }"

definition mock_retval :: "cldm_mockctx \<Rightarrow> u8 list option" where
  "mock_retval c = (case mk_act c of act_retval v \<Rightarrow> Some v | _ \<Rightarrow> None)"

definition cldm_mock_function_nullary ::
  "'d mock_env \<Rightarrow> ('d \<Rightarrow> (u64 \<times> 'd) option) \<Rightarrow> ('d \<Rightarrow> 'd option) \<Rightarrow> nat \<Rightarrow> nat \<Rightarrow> 'd cldm_mock \<Rightarrow>
   (cldm_call \<times> 'd cldm_mock) option" where
  "cldm_mock_function_nullary env dlsym_next dlresolve rsize tid s =
     do { (c, s) \<leftarrow> mock_begin tid s;
          case c of
            None \<Rightarrow> mock_call_real env dlsym_next dlresolve tid [] s
          | Some c \<Rightarrow>
              (case mk_op c of
                 cldm_mockop_invoke \<Rightarrow> do { (rv, s) \<leftarrow> mock_invoke env c [] s; Some (Ret rv, s) }
               | cldm_mockop_return \<Rightarrow> do { rv \<leftarrow> mock_retval c; Some (Ret rv, s) }
               | cldm_mockop_increment \<Rightarrow> do { (rv, s) \<leftarrow> mock_increment rsize tid c s; Some (Ret rv, s) }
               | cldm_mockop_assign \<Rightarrow> do { s \<leftarrow> mock_assign c s; Some (Ret (replicate rsize 0), s) }
               | _ \<Rightarrow> Some (Exit 2, s)) }"

definition cldm_mock_procedure_variadic ::
  "'d mock_env \<Rightarrow> ('d \<Rightarrow> (u64 \<times> 'd) option) \<Rightarrow> ('d \<Rightarrow> 'd option) \<Rightarrow> nat \<Rightarrow> params \<Rightarrow> 'd cldm_mock \<Rightarrow>
   (cldm_call \<times> 'd cldm_mock) option" where
  "cldm_mock_procedure_variadic env dlsym_next dlresolve tid ps s =
     do { args \<leftarrow> param_values (mk_mem s) ps;
          (c, s) \<leftarrow> mock_begin tid s;
          case c of
            None \<Rightarrow> do { (r, s) \<leftarrow> mock_call_real env dlsym_next dlresolve tid args s;
                         Some (case r of Ret _ \<Rightarrow> Ret [] | _ \<Rightarrow> r, s) }
          | Some c \<Rightarrow>
              (case mk_op c of
                 cldm_mockop_invoke \<Rightarrow> do { (rv, s) \<leftarrow> mock_invoke env c args s; Some (Ret [], s) }
               | cldm_mockop_return \<Rightarrow> Some (Ret [], s)
               | cldm_mockop_assign \<Rightarrow> do { s \<leftarrow> mock_assign c s; Some (Ret [], s) }
               | cldm_mockop_assign_param \<Rightarrow>
                   do { (ok, s) \<leftarrow> mock_assign_param c ps s; Some (if ok then Ret [] else Exit 2, s) }
               | _ \<Rightarrow> Some (Exit 2, s)) }"

definition cldm_mock_function_variadic ::
  "'d mock_env \<Rightarrow> ('d \<Rightarrow> (u64 \<times> 'd) option) \<Rightarrow> ('d \<Rightarrow> 'd option) \<Rightarrow> nat \<Rightarrow> nat \<Rightarrow> params \<Rightarrow> 'd cldm_mock \<Rightarrow>
   (cldm_call \<times> 'd cldm_mock) option" where
  "cldm_mock_function_variadic env dlsym_next dlresolve rsize tid ps s =
     do { args \<leftarrow> param_values (mk_mem s) ps;
          (c, s) \<leftarrow> mock_begin tid s;
          case c of
            None \<Rightarrow> mock_call_real env dlsym_next dlresolve tid args s
          | Some c \<Rightarrow>
              (case mk_op c of
                 cldm_mockop_invoke \<Rightarrow> do { (rv, s) \<leftarrow> mock_invoke env c args s; Some (Ret rv, s) }
               | cldm_mockop_return \<Rightarrow> do { rv \<leftarrow> mock_retval c; Some (Ret rv, s) }
               | cldm_mockop_increment \<Rightarrow> do { (rv, s) \<leftarrow> mock_increment rsize tid c s; Some (Ret rv, s) }
               | cldm_mockop_return_param \<Rightarrow>
                   do { rv \<leftarrow> mock_return_param rsize c ps (mk_mem s);
                        Some (case rv of Some v \<Rightarrow> Ret v | None \<Rightarrow> Exit 2, s) }
               | cldm_mockop_return_pointee \<Rightarrow>
                   do { rv \<leftarrow> mock_return_pointee rsize c ps (mk_mem s);
                        Some (case rv of Some v \<Rightarrow> Ret v | None \<Rightarrow> Exit 2, s) }
               | cldm_mockop_assign \<Rightarrow> do { s \<leftarrow> mock_assign c s; Some (Ret (replicate rsize 0), s) }
               | cldm_mockop_assign_param \<Rightarrow>
                   do { (ok, s) \<leftarrow> mock_assign_param c ps s;
                        Some (if ok then Ret (replicate rsize 0) else Exit 2, s) }) }"

text \<open>
  The functions that do not return take a jump buffer from the stack of the thread first, and end
  with a jump to it.
\<close>

definition mock_take_retaddr :: "nat \<Rightarrow> 'd cldm_mock \<Rightarrow> (u64 \<times> 'd cldm_mock) option" where
  "mock_take_retaddr tid s =
     (if length (mk_jmpstacks s) \<le> tid then None
      else do { retaddr \<leftarrow> cldm_jmpstack_top (mk_jmpstacks s ! tid);
                Some (retaddr, s\<lparr>mk_jmpstacks := (mk_jmpstacks s)[tid := cldm_jmpstack_pop (mk_jmpstacks s ! tid)]\<rparr>) })"

definition cldm_mock_noreturn_function_nullary ::
  "'d mock_env \<Rightarrow> ('d \<Rightarrow> (u64 \<times> 'd) option) \<Rightarrow> ('d \<Rightarrow> 'd option) \<Rightarrow> nat \<Rightarrow> 'd cldm_mock \<Rightarrow>
   (cldm_call \<times> 'd cldm_mock) option" where
  "cldm_mock_noreturn_function_nullary env dlsym_next dlresolve tid s =
     do { (retaddr, s) \<leftarrow> mock_take_retaddr tid s;
          (c, s) \<leftarrow> mock_begin tid s;
          case c of
            None \<Rightarrow> do { (r, s) \<leftarrow> mock_call_real env dlsym_next dlresolve tid [] s;
                         Some (case r of Ret _ \<Rightarrow> Longjmp retaddr | _ \<Rightarrow> r, s) }
          | Some c \<Rightarrow>
              (case mk_op c of
                 cldm_mockop_invoke \<Rightarrow> do { (rv, s) \<leftarrow> mock_invoke env c [] s; Some (Longjmp retaddr, s) }
               | cldm_mockop_return \<Rightarrow> Some (Longjmp retaddr, s)
               | cldm_mockop_assign \<Rightarrow> do { s \<leftarrow> mock_assign c s; Some (Longjmp retaddr, s) }
               | _ \<Rightarrow> Some (Exit 2, s)) }"

definition cldm_mock_noreturn_function_n_ary ::
  "'d mock_env \<Rightarrow> ('d \<Rightarrow> (u64 \<times> 'd) option) \<Rightarrow> ('d \<Rightarrow> 'd option) \<Rightarrow> nat \<Rightarrow> params \<Rightarrow> 'd cldm_mock \<Rightarrow>
   (cldm_call \<times> 'd cldm_mock) option" where
  "cldm_mock_noreturn_function_n_ary env dlsym_next dlresolve tid ps s =
     do { args \<leftarrow> param_values (mk_mem s) ps;
          (retaddr, s) \<leftarrow> mock_take_retaddr tid s;
          (c, s) \<leftarrow> mock_begin tid s;
          case c of
            None \<Rightarrow> do { (r, s) \<leftarrow> mock_call_real env dlsym_next dlresolve tid args s;
                         Some (case r of Ret _ \<Rightarrow> Longjmp retaddr | _ \<Rightarrow> r, s) }
          | Some c \<Rightarrow>
              (case mk_op c of
                 cldm_mockop_invoke \<Rightarrow> do { (rv, s) \<leftarrow> mock_invoke env c args s; Some (Longjmp retaddr, s) }
               | cldm_mockop_return \<Rightarrow> Some (Longjmp retaddr, s)
               | cldm_mockop_assign \<Rightarrow> do { s \<leftarrow> mock_assign c s; Some (Longjmp retaddr, s) }
               | cldm_mockop_assign_param \<Rightarrow>
                   do { (ok, s) \<leftarrow> mock_assign_param c ps s;
                        Some (if ok then Longjmp retaddr else Exit 2, s) }
               | _ \<Rightarrow> Some (Exit 2, s)) }"

section \<open>Counting the calls\<close>

text \<open>The results of a number of calls, one after the other.\<close>

fun run_calls :: "('s \<Rightarrow> ('r \<times> 's) option) \<Rightarrow> nat \<Rightarrow> 's \<Rightarrow> ('r list \<times> 's) option" where
  "run_calls f 0 s = Some ([], s)"
| "run_calls f (Suc k) s = do { (r, s) \<leftarrow> f s; (rs, s) \<leftarrow> run_calls f k s; Some (r # rs, s) }"

definition with_ctx :: "nat \<Rightarrow> int \<Rightarrow> cldm_mockop \<Rightarrow> cldm_mockact \<Rightarrow> 'd cldm_mock \<Rightarrow> 'd cldm_mock" where
  "with_ctx tid n op act s =
     s\<lparr>mk_ctxs := (mk_ctxs s)[tid := \<lparr>mk_invocations = n, mk_op = op, mk_act = act\<rparr>]\<rparr>"

lemma with_ctx_simps [simp]:
  "mk_mem (with_ctx tid n op act s) = mk_mem s"
  "mk_force_disable (with_ctx tid n op act s) = mk_force_disable s"
  "length (mk_ctxs (with_ctx tid n op act s)) = length (mk_ctxs s)"
  "with_ctx tid k op act (with_ctx tid n op' act' s) = with_ctx tid k op act s"
  "tid < length (mk_ctxs s) \<Longrightarrow>
   mk_ctxs (with_ctx tid n op act s) ! tid = \<lparr>mk_invocations = n, mk_op = op, mk_act = act\<rparr>"
  by (simp_all add: with_ctx_def)

lemma mock_begin_with_ctx:
  assumes "cldm_mock_enabled s tid = Some True" and "tid < length (mk_ctxs s)"
  shows "mock_begin tid (with_ctx tid n op act s) =
    (if n = 0 then Some (None, with_ctx tid 0 op act s)
     else let k = (if n = CLDM_MOCK_INFINITE then n else n - 1) in
       Some (Some \<lparr>mk_invocations = k, mk_op = op, mk_act = act\<rparr>, with_ctx tid k op act s))"
proof -
  have "cldm_mock_enabled (with_ctx tid n op act s) tid = Some True"
    using assms(1) by (auto simp: cldm_mock_enabled_def cldm_mock_disabled_def split: if_splits)
  then show ?thesis
    using assms(2) by (simp add: mock_begin_def Let_def with_ctx_def)
qed

lemma when_called_own:
  assumes "\<not> mk_global_context s" and "tid < length (mk_ctxs s)" and "0 \<le> n \<or> n = CLDM_MOCK_INFINITE"
  shows "CLDM_WHEN_CALLED jobs tid op act n s = Some (None, with_ctx tid n op act s)"
proof -
  have "[tid..<tid + 1] = [tid]" by simp
  then show ?thesis
    using assms by (auto simp: CLDM_WHEN_CALLED_def cldm_mock_lower_bound_def cldm_mock_upper_bound_def with_ctx_def)
qed

lemma run_returns:
  assumes "cldm_mock_enabled s tid = Some True" and "tid < length (mk_ctxs s)"
    and "param_values (mk_mem s) ps = Some args"
  shows "run_calls (cldm_mock_function_variadic env dlsym_next dlresolve rsize tid ps) k
      (with_ctx tid (int (k + j)) cldm_mockop_return (act_retval v) s) =
    Some (replicate k (Ret v), with_ctx tid (int j) cldm_mockop_return (act_retval v) s)"
proof (induction k)
  case 0
  then show ?case by simp
next
  case (Suc k)
  have "mock_begin tid (with_ctx tid (int (Suc k + j)) cldm_mockop_return (act_retval v) s) =
      Some (Some \<lparr>mk_invocations = int (k + j), mk_op = cldm_mockop_return, mk_act = act_retval v\<rparr>,
            with_ctx tid (int (k + j)) cldm_mockop_return (act_retval v) s)"
    by (simp add: mock_begin_with_ctx [OF assms(1,2)] CLDM_MOCK_INFINITE_def Let_def)
  then have "cldm_mock_function_variadic env dlsym_next dlresolve rsize tid ps
      (with_ctx tid (int (Suc k + j)) cldm_mockop_return (act_retval v) s) =
      Some (Ret v, with_ctx tid (int (k + j)) cldm_mockop_return (act_retval v) s)"
    by (simp add: cldm_mock_function_variadic_def assms(3) mock_retval_def)
  with Suc.IH show ?case by simp
qed

lemma run_returns_repeatedly:
  assumes "cldm_mock_enabled s tid = Some True" and "tid < length (mk_ctxs s)"
    and "param_values (mk_mem s) ps = Some args"
  shows "run_calls (cldm_mock_function_variadic env dlsym_next dlresolve rsize tid ps) k
      (with_ctx tid CLDM_MOCK_INFINITE cldm_mockop_return (act_retval v) s) =
    Some (replicate k (Ret v), with_ctx tid CLDM_MOCK_INFINITE cldm_mockop_return (act_retval v) s)"
proof (induction k)
  case 0
  then show ?case by simp
next
  case (Suc k)
  have "mock_begin tid (with_ctx tid CLDM_MOCK_INFINITE cldm_mockop_return (act_retval v) s) =
      Some (Some \<lparr>mk_invocations = CLDM_MOCK_INFINITE, mk_op = cldm_mockop_return, mk_act = act_retval v\<rparr>,
            with_ctx tid CLDM_MOCK_INFINITE cldm_mockop_return (act_retval v) s)"
    by (simp add: mock_begin_with_ctx [OF assms(1,2)] CLDM_MOCK_INFINITE_def Let_def)
  then have "cldm_mock_function_variadic env dlsym_next dlresolve rsize tid ps
      (with_ctx tid CLDM_MOCK_INFINITE cldm_mockop_return (act_retval v) s) =
      Some (Ret v, with_ctx tid CLDM_MOCK_INFINITE cldm_mockop_return (act_retval v) s)"
    by (simp add: cldm_mock_function_variadic_def assms(3) mock_retval_def)
  with Suc.IH show ?case by simp
qed

text \<open>C14: a mock that \<^verbatim>\<open>SHOULD_N_TIMES(n, RETURN(v))\<close> returns \<open>v\<close> for exactly the next \<open>n\<close> calls of the
  thread, without calling the real function, and the call after them is the real one; a mock that
  \<^verbatim>\<open>SHOULD_REPEATEDLY(RETURN(v))\<close> returns \<open>v\<close> for any number of calls.\<close>

theorem cldm_mock_should_n_times:
  assumes "cldm_mock_enabled s tid = Some True" and "tid < length (mk_ctxs s)" and "\<not> mk_global_context s"
    and "param_values (mk_mem s) ps = Some args"
    and "CLDM_WHEN_CALLED jobs tid cldm_mockop_return (act_retval v) n s = Some (None, s1)"
    and "f = cldm_mock_function_variadic env dlsym_next dlresolve rsize tid ps"
  shows "if n = CLDM_MOCK_INFINITE then run_calls f k s1 = Some (replicate k (Ret v), s1)
    else \<exists>s2. run_calls f (nat n) s1 = Some (replicate (nat n) (Ret v), s2) \<and>
           s2 = with_ctx tid 0 cldm_mockop_return (act_retval v) s \<and>
           f s2 = mock_call_real env dlsym_next dlresolve tid args s2"
proof -
  have n: "0 \<le> n \<or> n = CLDM_MOCK_INFINITE"
    using assms(2,3,5) by (auto simp: CLDM_WHEN_CALLED_def cldm_mock_lower_bound_def cldm_mock_upper_bound_def
        upt_rec [of tid] split: if_splits)
  from when_called_own [OF assms(3,2) n] assms(5)
  have s1: "s1 = with_ctx tid n cldm_mockop_return (act_retval v) s" by simp
  show ?thesis
  proof (cases "n = CLDM_MOCK_INFINITE")
    case True
    with run_returns_repeatedly [OF assms(1,2,4)] show ?thesis by (simp add: s1 assms(6))
  next
    case False
    with n have "n = int (nat n + 0)" by simp
    with run_returns [OF assms(1,2,4), of env dlsym_next dlresolve rsize "nat n" 0 v]
    have "run_calls f (nat n) s1 = Some (replicate (nat n) (Ret v), with_ctx tid 0 cldm_mockop_return (act_retval v) s)"
      by (simp add: s1 assms(6))
    moreover have "f (with_ctx tid 0 cldm_mockop_return (act_retval v) s) =
        mock_call_real env dlsym_next dlresolve tid args (with_ctx tid 0 cldm_mockop_return (act_retval v) s)"
      by (simp add: assms(4,6) cldm_mock_function_variadic_def mock_begin_with_ctx [OF assms(1,2)])
    ultimately show ?thesis using False by simp
  qed
qed

text \<open>A mock of a function of one byte without parameters, on one thread.\<close>

definition sample_mock :: "unit cldm_mock" where
  "sample_mock = \<lparr>mk_mem = Map.empty, mk_force_disable = [False], mk_global_context = False,
     mk_ctxs = [\<lparr>mk_invocations = 0, mk_op = cldm_mockop_invoke, mk_act = act_invoke 0\<rparr>],
     mk_dl = (), mk_jmpstacks = []\<rparr>"

theorem cldm_mock_should_n_times_witness:
  "\<exists>s2. run_calls (cldm_mock_function_variadic (\<lambda>_ _ s. Some ([9], s)) (\<lambda>d. Some (64, d)) Some 1 0 []) 2
      (with_ctx 0 2 cldm_mockop_return (act_retval [7]) sample_mock) = Some ([Ret [7], Ret [7]], s2)"
proof -
  have "CLDM_WHEN_CALLED 1 0 cldm_mockop_return (act_retval [7]) 2 sample_mock =
      Some (None, with_ctx 0 2 cldm_mockop_return (act_retval [7]) sample_mock)"
    by (rule when_called_own) (simp_all add: sample_mock_def)
  from cldm_mock_should_n_times [OF _ _ _ _ this refl, of "[]" "[]"]
  show ?thesis
    by (auto simp: sample_mock_def cldm_mock_enabled_def cldm_mock_disabled_def CLDM_MOCK_INFINITE_def numeral_2_eq_2)
qed

end
