(* ===== verification/Testlog.thy ===== *)
theory Testlog
  imports Testrec Algo Byteseq Mock
begin

text \<open>
  \<^verbatim>\<open>cldm/cldm_test.c\<close>, \<^verbatim>\<open>cldm/cldm_test.h\<close>, \<^verbatim>\<open>cldm/cldm_thread.c\<close>: running a test, the assertions it makes,
  the logs of every thread and the buffered output. The state extends that of the mocks, because a
  test runs with its mocks enabled. The functions of the tests are functions on this state. Output
  is a list of lines for each of the two streams; the lock around it makes a thread's lines contiguous.
\<close>

section \<open>Threads\<close>

text \<open>The mutex functions: dummies, or those of the thread library, for which \<open>pthread\<close> stands.\<close>

datatype mutex_ops = DummyMutex | PthreadMutex

definition cldm_thread_init :: "u32 \<Rightarrow> u32 \<times> mutex_ops" where
  "cldm_thread_init jobs = (jobs, if jobs = 1 then DummyMutex else PthreadMutex)"

definition cldm_dummy_mutex :: "u64 \<Rightarrow> int" where
  "cldm_dummy_mutex mutex = (if mutex = 0 then 1 else 0)"

text \<open>The number of a thread: its position in \<open>cldm_threads\<close>, counted from 1; 0 for any other thread.\<close>

fun thread_id_loop :: "u64 list \<Rightarrow> u64 \<Rightarrow> nat list \<Rightarrow> nat option" where
  "thread_id_loop threads ptid [] = Some 0"
| "thread_id_loop threads ptid (i # is) =
     (if length threads \<le> i - 1 then None
      else if ptid = threads ! (i - 1) then Some i else thread_id_loop threads ptid is)"

definition cldm_thread_id :: "u32 \<Rightarrow> u64 list \<Rightarrow> u64 \<Rightarrow> nat option" where
  "cldm_thread_id jobs threads ptid = thread_id_loop threads ptid [1..<unat jobs]"

section \<open>State\<close>

definition CLDM_TESTBUFFER_SIZE :: nat where "CLDM_TESTBUFFER_SIZE = 16"
definition CLDM_LOG_INITIAL_CAP :: u64 where "CLDM_LOG_INITIAL_CAP = 32"
definition CLDM_TEST_PRINT_WIDTH :: int where "CLDM_TEST_PRINT_WIDTH = 64"
definition CLDM_TEST_PRINT_VERBOSE_ADJUST :: int where "CLDM_TEST_PRINT_VERBOSE_ADJUST = 32"
definition CLDM_INDEX_PRINT_WIDTH :: int where "CLDM_INDEX_PRINT_WIDTH = 10"
definition CLDM_MAX_EXPAND_SIZE :: nat where "CLDM_MAX_EXPAND_SIZE = 256"
definition CLDM_ASSERTION_SIZE :: nat where "CLDM_ASSERTION_SIZE = 1024"

text \<open>
  The block of a log is the messages written to it, of which there are \<open>log_size\<close>, or \<open>None\<close> when
  there is no block.
\<close>

record cldm_testlog =
  log_buffer :: "u8 list list option"
  log_size :: u64
  log_capacity :: u64
  failed_assertions :: u64
  failed_tests :: u64
  total_assertions :: u64

record cldm_teststats =
  stat_name :: "u8 list"
  stat_pass :: bool
  stat_fatal_error :: bool

record cldm_bufstat =
  buf_name :: "u8 list"
  buf_file :: "u8 list"
  buf_namepad :: int
  buf_pass :: bool

text \<open>The first \<open>buf_size\<close> entries of a buffer.\<close>

type_synonym cldm_testbuffer = "cldm_bufstat list"

record 'd tests = "'d cldm_mock" +
  testlogs :: "cldm_testlog list"
  current_tests :: "cldm_teststats list"
  buffered_tests :: "cldm_testbuffer list"
  io_index :: u64
  io_total :: u64
  io_verbose :: bool
  io_out :: "u8 list list"
  io_err :: "u8 list list"

definition zero_testlog :: cldm_testlog where
  "zero_testlog = \<lparr>log_buffer = None, log_size = 0, log_capacity = 0, failed_assertions = 0,
     failed_tests = 0, total_assertions = 0\<rparr>"

definition upd_log :: "nat \<Rightarrow> (cldm_testlog \<Rightarrow> cldm_testlog) \<Rightarrow> 'd tests \<Rightarrow> 'd tests option" where
  "upd_log tid f s =
     (if tid < length (testlogs s) then Some (s\<lparr>testlogs := (testlogs s)[tid := f (testlogs s ! tid)]\<rparr>) else None)"

definition upd_current :: "nat \<Rightarrow> (cldm_teststats \<Rightarrow> cldm_teststats) \<Rightarrow> 'd tests \<Rightarrow> 'd tests option" where
  "upd_current tid f s =
     (if tid < length (current_tests s)
      then Some (s\<lparr>current_tests := (current_tests s)[tid := f (current_tests s ! tid)]\<rparr>) else None)"

definition get_log :: "nat \<Rightarrow> 'd tests \<Rightarrow> cldm_testlog option" where
  "get_log tid s = (if tid < length (testlogs s) then Some (testlogs s ! tid) else None)"

definition get_current :: "nat \<Rightarrow> 'd tests \<Rightarrow> cldm_teststats option" where
  "get_current tid s = (if tid < length (current_tests s) then Some (current_tests s ! tid) else None)"

section \<open>Assertions\<close>

definition cldm_test_ensure_capacity :: "(nat \<Rightarrow> bool) \<Rightarrow> nat \<Rightarrow> 'd tests \<Rightarrow> (bool \<times> 'd tests) option" where
  "cldm_test_ensure_capacity alloc tid s =
     do { l \<leftarrow> get_log tid s;
          if log_size l + 1 < log_capacity l then Some (True, s)
          else let newcap = 2 * log_capacity l in
            if c_alloc alloc (unat (newcap * of_nat CLDM_ASSERTION_SIZE))
            then do { s \<leftarrow> upd_log tid (\<lambda>l. l\<lparr>log_buffer := Some (case log_buffer l of Some b \<Rightarrow> b | None \<Rightarrow> []),
                                             log_capacity := newcap\<rparr>) s;
                      Some (True, s) }
            else Some (False, s) }"

definition record_failed_assertion :: "(nat \<Rightarrow> bool) \<Rightarrow> nat \<Rightarrow> u8 list \<Rightarrow> 'd tests \<Rightarrow> 'd tests option" where
  "record_failed_assertion alloc tid msg s =
     do { t \<leftarrow> get_current tid s;
          s \<leftarrow> (if stat_pass t
               then do { s \<leftarrow> upd_log tid (\<lambda>l. l\<lparr>failed_tests := failed_tests l + 1\<rparr>) s;
                         upd_current tid (\<lambda>t. t\<lparr>stat_pass := False\<rparr>) s }
               else Some s);
          s \<leftarrow> upd_log tid (\<lambda>l. l\<lparr>failed_assertions := failed_assertions l + 1\<rparr>) s;
          (ok, s) \<leftarrow> cldm_test_ensure_capacity alloc tid s;
          if \<not> ok then upd_current tid (\<lambda>t. t\<lparr>stat_fatal_error := True\<rparr>) s
          else do { l \<leftarrow> get_log tid s;
                    case log_buffer l of
                      None \<Rightarrow> None
                    | Some b \<Rightarrow>
                        if log_size l < log_capacity l
                        then upd_log tid (\<lambda>l. l\<lparr>log_buffer := Some (take (unat (log_size l)) b @
                                                   [c_snprintf CLDM_ASSERTION_SIZE msg]),
                                                log_size := log_size l + 1\<rparr>) s
                        else None } }"

text \<open>The line that every message begins with.\<close>

definition assertion_failure :: "u8 list \<Rightarrow> u8 list \<Rightarrow> u8 list \<Rightarrow> u8 list" where
  "assertion_failure file line name =
     cstr ''| '' @ cldm_basename file @ cstr '':'' @ line @ cstr '': Assertion failure in '' @ name @ cstr '':'' @ [10]"

definition quoted :: "u8 list \<Rightarrow> u8 list" where
  "quoted t = [39] @ t @ [39]"

definition cldm_assert_true ::
  "(nat \<Rightarrow> bool) \<Rightarrow> nat \<Rightarrow> bool \<Rightarrow> u8 list \<Rightarrow> u8 list \<Rightarrow> u8 list \<Rightarrow> 'd tests \<Rightarrow> 'd tests option" where
  "cldm_assert_true alloc tid eval expand file line s =
     do { s \<leftarrow> upd_log tid (\<lambda>l. l\<lparr>total_assertions := total_assertions l + 1\<rparr>) s;
          if eval then Some s
          else do { t \<leftarrow> get_current tid s;
                    record_failed_assertion alloc tid
                      (assertion_failure file line (stat_name t) @ cstr ''| '' @ quoted expand) s } }"

text \<open>\<open>while(*ll++ == *rr++)\<close>, over the bytes with the terminators: it has no result on equal strings.\<close>

fun first_diff :: "u8 list \<Rightarrow> u8 list \<Rightarrow> nat option" where
  "first_diff (x # xs) (y # ys) = (if x = y then map_option Suc (first_diff xs ys) else Some 0)"
| "first_diff _ _ = None"

definition expand_string :: "nat \<Rightarrow> u8 list \<Rightarrow> u8 list" where
  "expand_string n str = take n str @ (if CLDM_MAX_EXPAND_SIZE < length str then cstr ''...'' else [])"

definition cldm_assert_streq ::
  "(nat \<Rightarrow> bool) \<Rightarrow> nat \<Rightarrow> u8 list \<Rightarrow> u8 list \<Rightarrow> int \<Rightarrow> u8 list \<Rightarrow> u8 list \<Rightarrow> u8 list \<Rightarrow> u8 list \<Rightarrow> 'd tests \<Rightarrow>
   'd tests option" where
  "cldm_assert_streq alloc tid l r n lname rname file line s =
     do { s \<leftarrow> upd_log tid (\<lambda>l. l\<lparr>total_assertions := total_assertions l + 1\<rparr>) s;
          if (n < 0 \<and> str_cmp l r = 0) \<or> (0 \<le> n \<and> str_ncmp (nat n) l r = 0) then Some s
          else do {
            d \<leftarrow> first_diff (l @ [0]) (r @ [0]);
            t \<leftarrow> get_current tid s;
            let size = (if n < 0 then CLDM_MAX_EXPAND_SIZE else min (nat n) CLDM_MAX_EXPAND_SIZE);
            let strings = cstr ''| string 0 is '' @ quoted (expand_string size l) @ cstr '' and '' @ [10] @
                          cstr ''| string 1 is '' @ quoted (expand_string size r) @ [10] @
                          cstr ''  '' @ c_pad (int (13 + d)) @ cstr ''^'' @ [10];
            record_failed_assertion alloc tid
              (assertion_failure file line (stat_name t) @
               (if n < 0
                then cstr ''| expected '' @ quoted lname @ cstr '' to be equal to '' @ quoted rname @
                     cstr '' where '' @ [10]
                else cstr ''| expected '' @ c_dec (nat n) @ cstr '' initial bytes of '' @ quoted lname @
                     cstr '' and '' @ quoted rname @ cstr '' to be equal where'' @ [10]) @
               strings) s } }"

text \<open>
  The assertions that \<open>cldm_genassert_defs\<close> generates: one for each comparison and each type, the values
  of the type as integers. \<open>fmt\<close> is the conversion of the type.
\<close>

datatype cmp_op = OpEq | OpNe | OpGt | OpGe | OpLt | OpLe

fun cmp_eval :: "cmp_op \<Rightarrow> int \<Rightarrow> int \<Rightarrow> bool" where
  "cmp_eval OpEq l r = (l = r)"
| "cmp_eval OpNe l r = (l \<noteq> r)"
| "cmp_eval OpGt l r = (l > r)"
| "cmp_eval OpGe l r = (l \<ge> r)"
| "cmp_eval OpLt l r = (l < r)"
| "cmp_eval OpLe l r = (l \<le> r)"

fun cmp_str :: "cmp_op \<Rightarrow> u8 list" where
  "cmp_str OpEq = cstr ''==''"
| "cmp_str OpNe = cstr ''!=''"
| "cmp_str OpGt = cstr ''>''"
| "cmp_str OpGe = cstr ''>=''"
| "cmp_str OpLt = cstr ''<''"
| "cmp_str OpLe = cstr ''<=''"

definition generic_cmp_assertion ::
  "(nat \<Rightarrow> bool) \<Rightarrow> (int \<Rightarrow> u8 list) \<Rightarrow> nat \<Rightarrow> cmp_op \<Rightarrow> int \<Rightarrow> int \<Rightarrow> u8 list \<Rightarrow> u8 list \<Rightarrow> u8 list \<Rightarrow> u8 list \<Rightarrow>
   'd tests \<Rightarrow> 'd tests option" where
  "generic_cmp_assertion alloc fmt tid op l r lexpand rexpand file line s =
     do { s \<leftarrow> upd_log tid (\<lambda>l. l\<lparr>total_assertions := total_assertions l + 1\<rparr>) s;
          if cmp_eval op l r then Some s
          else do {
            t \<leftarrow> get_current tid s;
            record_failed_assertion alloc tid
              (assertion_failure file line (stat_name t) @
               cstr ''| '' @ quoted (lexpand @ cstr '' '' @ cmp_str op @ cstr '' '' @ rexpand) @
               cstr '' with expansion'' @ [10] @
               cstr ''| '' @ quoted (fmt l @ cstr '' '' @ cmp_str op @ cstr '' '' @ fmt r) @ [10]) s } }"

section \<open>Output\<close>

definition log_line :: "u8 list \<Rightarrow> 'd tests \<Rightarrow> 'd tests" where
  "log_line t s = s\<lparr>io_out := io_out s @ [t]\<rparr>"

definition err_line :: "u8 list \<Rightarrow> 'd tests \<Rightarrow> 'd tests" where
  "err_line t s = s\<lparr>io_err := io_err s @ [t]\<rparr>"

fun test_print_loop :: "nat \<Rightarrow> cldm_bufstat list \<Rightarrow> 'd tests \<Rightarrow> 'd tests" where
  "test_print_loop tid [] s = s"
| "test_print_loop tid (b # bs) s =
     (let s = s\<lparr>io_index := io_index s + 1\<rparr>;
          l = 3 + sint (cldm_ndigits (io_index s)) + sint (cldm_ndigits (io_total s));
          idxpad = (if l \<le> CLDM_INDEX_PRINT_WIDTH then CLDM_INDEX_PRINT_WIDTH - l else 0);
          index = cstr '' ('' @ c_dec (unat (io_index s)) @ cstr ''/'' @ c_dec (unat (io_total s)) @ cstr '')'' @
                  c_pad idxpad @ cstr ''  '' @ (if buf_pass b then cstr ''pass'' else cstr ''fail'')
      in test_print_loop tid bs
           (log_line
              (if io_verbose s
               then cstr ''[Thread '' @ c_dec tid @ cstr '':'' @ c_pad (sint (2 - cldm_ndigits (of_nat tid))) @
                    cstr '' running '' @ buf_file b @ cstr ''::'' @ buf_name b @ cstr '']'' @ c_pad (buf_namepad b) @ index
               else cstr ''[Running '' @ buf_name b @ cstr '']'' @ c_pad (buf_namepad b) @ index) s))"

definition cldm_test_print :: "nat \<Rightarrow> 'd tests \<Rightarrow> 'd tests option" where
  "cldm_test_print tid s =
     (if tid < length (buffered_tests s) then Some (test_print_loop tid (buffered_tests s ! tid) s) else None)"

definition cldm_test_schedule_print :: "nat \<Rightarrow> u8 list \<Rightarrow> 'd tests \<Rightarrow> 'd tests option" where
  "cldm_test_schedule_print tid file s =
     (if length (buffered_tests s) \<le> tid then None
      else do {
        s \<leftarrow> (if CLDM_TESTBUFFER_SIZE \<le> length (buffered_tests s ! tid)
             then do { s \<leftarrow> cldm_test_print tid s; Some (s\<lparr>buffered_tests := (buffered_tests s)[tid := []]\<rparr>) }
             else Some s);
        t \<leftarrow> get_current tid s;
        let f = cldm_basename file;
        let l0 = int (length (stat_name t)) + 10 + (if io_verbose s then int (length f) + 8 else 0);
        let l1 = CLDM_TEST_PRINT_WIDTH + (if io_verbose s then CLDM_TEST_PRINT_VERBOSE_ADJUST else 0);
        let b = \<lparr>buf_name = stat_name t, buf_file = f, buf_namepad = (if l0 \<le> l1 then l1 - l0 else 0),
                 buf_pass = stat_pass t\<rparr>;
        Some (s\<lparr>buffered_tests := (buffered_tests s)[tid := (buffered_tests s ! tid) @ [b]]\<rparr>) })"

definition cldm_test_flush :: "nat \<Rightarrow> 'd tests \<Rightarrow> 'd tests option" where
  "cldm_test_flush tid s = cldm_test_print tid s"

definition cldm_test_register :: "u64 \<Rightarrow> bool \<Rightarrow> 'd tests \<Rightarrow> 'd tests" where
  "cldm_test_register n verbose s =
     (log_line (cstr ''Collected '' @ c_dec (unat n) @ cstr '' tests'') s)\<lparr>io_total := n, io_verbose := verbose\<rparr>"

text \<open>The messages of the logs of all threads, for a failed run.\<close>

fun summary_loop :: "nat list \<Rightarrow> 'd tests \<Rightarrow> 'd tests option" where
  "summary_loop [] s = Some s"
| "summary_loop (i # is) s =
     do { l \<leftarrow> get_log i s;
          case log_buffer l of
            None \<Rightarrow> if log_size l = 0 then summary_loop is s else None
          | Some b \<Rightarrow>
              if length b < unat (log_size l) then None
              else summary_loop is (fold (\<lambda>t. err_line ([10] @ t)) (take (unat (log_size l)) b) s) }"

definition plural_tests :: "u64 \<Rightarrow> u8 list" where
  "plural_tests n = c_dec (unat n) @ cstr '' test'' @ (if n = 1 then [] else cstr ''s'')"

definition cldm_test_summary :: "u32 \<Rightarrow> 'd tests \<Rightarrow> (int \<times> 'd tests) option" where
  "cldm_test_summary jobs s =
     do { l \<leftarrow> get_log 0 s;
          if failed_tests l \<noteq> 0
          then do {
            let s = err_line ([10] @ c_dec (unat (failed_assertions l)) @ cstr ''/'' @ c_dec (unat (total_assertions l)) @
              cstr '' assertions failed across '' @ c_dec (unat (failed_tests l)) @ cstr ''/'' @
              plural_tests (io_total s)) s;
            s \<leftarrow> summary_loop [0..<unat jobs] s;
            Some (1, s) }
          else Some (0, log_line ([10] @ cstr ''Successfully finished '' @ c_dec (unat (total_assertions l)) @
              cstr '' assertions across '' @ plural_tests (io_total s)) s) }"

section \<open>Running a test\<close>

text \<open>\<open>mutex_init\<close> is what the initialisation of the lock returns.\<close>

definition cldm_test_init :: "(nat \<Rightarrow> bool) \<Rightarrow> int \<Rightarrow> nat \<Rightarrow> 'd tests \<Rightarrow> (bool \<times> 'd tests) option" where
  "cldm_test_init alloc mutex_init tid s =
     (let ok = c_alloc alloc (unat (CLDM_LOG_INITIAL_CAP * of_nat CLDM_ASSERTION_SIZE)) in
      do { s \<leftarrow> upd_log tid (\<lambda>_. zero_testlog\<lparr>log_buffer := if ok then Some [] else None,
                                            log_capacity := CLDM_LOG_INITIAL_CAP\<rparr>) s;
           if \<not> ok then Some (False, s)
           else if length (buffered_tests s) \<le> tid then None
           else let s = s\<lparr>buffered_tests := (buffered_tests s)[tid := []]\<rparr> in
             Some (tid \<noteq> 0 \<or> mutex_init = 0, s) })"

definition cldm_test_free :: "nat \<Rightarrow> 'd tests \<Rightarrow> 'd tests option" where
  "cldm_test_free tid s = upd_log tid (\<lambda>l. l\<lparr>log_buffer := None\<rparr>) s"

definition run_proc :: "'s proc option \<Rightarrow> 's proc" where
  "run_proc p s = (case p of None \<Rightarrow> Some s | Some f \<Rightarrow> f s)"

definition cldm_test_run ::
  "nat \<Rightarrow> 'd tests cldm_testrec \<Rightarrow> 'd tests cldm_auxprocs \<Rightarrow> bool \<Rightarrow> 'd tests \<Rightarrow> (bool \<times> 'd tests) option" where
  "cldm_test_run tid r aux fail_fast s =
     do { s \<leftarrow> upd_current tid (\<lambda>_. \<lparr>stat_name = rec_name r, stat_pass = True, stat_fatal_error = False\<rparr>) s;
          (_, s) \<leftarrow> cldm_mock_enable tid
            (\<lambda>s. do { s \<leftarrow> aux_local_setup aux s;
                      s \<leftarrow> run_proc (rec_setup r) s;
                      s \<leftarrow> rec_handle r s;
                      s \<leftarrow> run_proc (rec_teardown r) s;
                      s \<leftarrow> aux_local_teardown aux s;
                      Some ((), s) }) s;
          s \<leftarrow> cldm_test_schedule_print tid (rec_file r) s;
          t \<leftarrow> get_current tid s;
          Some (\<not> stat_fatal_error t \<and> (\<not> fail_fast \<or> (fail_fast \<and> stat_pass t)), s) }"

definition cldm_test_reduce :: "nat \<Rightarrow> nat \<Rightarrow> 'd tests \<Rightarrow> 'd tests option" where
  "cldm_test_reduce tid off s =
     do { o' \<leftarrow> get_log (tid + off) s;
          upd_log tid (\<lambda>l. l\<lparr>failed_assertions := failed_assertions l + failed_assertions o',
                            failed_tests := failed_tests l + failed_tests o',
                            total_assertions := total_assertions l + total_assertions o'\<rparr>) s }"

end
