(* ===== verification/Rbtree.thy ===== *)
theory Rbtree
  imports Prelude
begin

text \<open>
  \<^verbatim>\<open>cldm/cldm_rbtree.c\<close>, \<^verbatim>\<open>cldm/cldm_rbtree.h\<close>: an intrusive red-black tree whose missing children are
  threads to the neighbours in order. The nodes live in a heap, a partial map from addresses; the
  sentinel is a node of its own, whose left link is the root. An access to an address without a node
  has no defined result. A comparison of two nodes is the callback \<open>compare\<close>.
\<close>

section \<open>State\<close>

type_synonym addr = nat

datatype cldm_rbcolor = cldm_rbcolor_black | cldm_rbcolor_red

text \<open>The directions \<open>cldm_rbdir_left\<close> and \<open>cldm_rbdir_right\<close> are the numbers 0 and 1.\<close>

type_synonym cldm_rbdir = bool

abbreviation (input) cldm_rbdir_left :: cldm_rbdir where "cldm_rbdir_left \<equiv> False"
abbreviation (input) cldm_rbdir_right :: cldm_rbdir where "cldm_rbdir_right \<equiv> True"

record cldm_rbnode =
  rb_left :: addr
  rb_right :: addr
  rb_color :: cldm_rbcolor
  rb_flags :: u8

definition CLDM_RBLEAF :: u8 where "CLDM_RBLEAF = 3"

type_synonym rbheap = "addr \<Rightarrow> cldm_rbnode option"

text \<open>A tree is the address of its sentinel and its size; the nodes are in the heap.\<close>

record cldm_rbtree =
  rb_heap :: rbheap
  rb_size :: u64

definition zero_rbnode :: cldm_rbnode where
  "zero_rbnode = \<lparr>rb_left = 0, rb_right = 0, rb_color = cldm_rbcolor_black, rb_flags = 0\<rparr>"

definition rb_upd :: "rbheap \<Rightarrow> addr \<Rightarrow> (cldm_rbnode \<Rightarrow> cldm_rbnode) \<Rightarrow> rbheap option" where
  "rb_upd h a f = (case h a of Some n \<Rightarrow> Some (h(a \<mapsto> f n)) | None \<Rightarrow> None)"

text \<open>\<open>link(node, dir)\<close>, as a value and as the target of an assignment.\<close>

definition link :: "cldm_rbnode \<Rightarrow> cldm_rbdir \<Rightarrow> addr" where
  "link n dir = (if dir then rb_right n else rb_left n)"

definition with_link :: "cldm_rbdir \<Rightarrow> addr \<Rightarrow> cldm_rbnode \<Rightarrow> cldm_rbnode" where
  "with_link dir x n = (if dir then n\<lparr>rb_right := x\<rparr> else n\<lparr>rb_left := x\<rparr>)"

definition set_link :: "rbheap \<Rightarrow> addr \<Rightarrow> cldm_rbdir \<Rightarrow> addr \<Rightarrow> rbheap option" where
  "set_link h a dir x = rb_upd h a (with_link dir x)"

section \<open>Nodes\<close>

definition dir_bit :: "cldm_rbdir \<Rightarrow> u8" where
  "dir_bit dir = (if dir then 2 else 1)"

definition cldm_rbnode_make_red :: "rbheap \<Rightarrow> addr \<Rightarrow> rbheap option" where
  "cldm_rbnode_make_red h a = rb_upd h a (\<lambda>n. n\<lparr>rb_color := cldm_rbcolor_red\<rparr>)"

definition cldm_rbnode_make_black :: "rbheap \<Rightarrow> addr \<Rightarrow> rbheap option" where
  "cldm_rbnode_make_black h a = rb_upd h a (\<lambda>n. n\<lparr>rb_color := cldm_rbcolor_black\<rparr>)"

definition cldm_rbnode_is_red :: "rbheap \<Rightarrow> addr \<Rightarrow> bool option" where
  "cldm_rbnode_is_red h a = do { n \<leftarrow> h a; Some (rb_color n = cldm_rbcolor_red) }"

definition cldm_rbnode_make_leaf :: "rbheap \<Rightarrow> addr \<Rightarrow> rbheap option" where
  "cldm_rbnode_make_leaf h a = rb_upd h a (\<lambda>n. n\<lparr>rb_flags := CLDM_RBLEAF\<rparr>)"

definition is_thread :: "cldm_rbnode \<Rightarrow> cldm_rbdir \<Rightarrow> bool" where
  "is_thread n dir \<longleftrightarrow> rb_flags n AND dir_bit dir \<noteq> 0"

definition cldm_rbnode_is_thread :: "rbheap \<Rightarrow> addr \<Rightarrow> cldm_rbdir \<Rightarrow> bool option" where
  "cldm_rbnode_is_thread h a dir = do { n \<leftarrow> h a; Some (is_thread n dir) }"

definition cldm_rbnode_unset_thread :: "rbheap \<Rightarrow> addr \<Rightarrow> cldm_rbdir \<Rightarrow> rbheap option" where
  "cldm_rbnode_unset_thread h a dir = rb_upd h a (\<lambda>n. n\<lparr>rb_flags := rb_flags n AND NOT (dir_bit dir)\<rparr>)"

definition cldm_rbnode_set_thread :: "rbheap \<Rightarrow> addr \<Rightarrow> cldm_rbdir \<Rightarrow> rbheap option" where
  "cldm_rbnode_set_thread h a dir = rb_upd h a (\<lambda>n. n\<lparr>rb_flags := rb_flags n OR dir_bit dir\<rparr>)"

definition cldm_rbnode_assign_thread_from :: "rbheap \<Rightarrow> addr \<Rightarrow> addr \<Rightarrow> cldm_rbdir \<Rightarrow> rbheap option" where
  "cldm_rbnode_assign_thread_from h to from dir =
     do { n \<leftarrow> h from;
          rb_upd h to (\<lambda>m. m\<lparr>rb_flags := (rb_flags m AND NOT (dir_bit dir)) OR (rb_flags n AND dir_bit dir)\<rparr>) }"

definition cldm_rbnode_is_red_safe :: "rbheap \<Rightarrow> addr \<Rightarrow> cldm_rbdir \<Rightarrow> bool option" where
  "cldm_rbnode_is_red_safe h a dir =
     do { n \<leftarrow> h a; if is_thread n dir then Some False else cldm_rbnode_is_red h (link n dir) }"

definition cldm_rbnode_has_child :: "rbheap \<Rightarrow> addr \<Rightarrow> cldm_rbdir \<Rightarrow> bool option" where
  "cldm_rbnode_has_child h a dir = do { n \<leftarrow> h a; Some (\<not> is_thread n dir) }"

section \<open>Rotations and balancing\<close>

definition cldm_rbtree_rotate_single :: "rbheap \<Rightarrow> addr \<Rightarrow> cldm_rbdir \<Rightarrow> (addr \<times> rbheap) option" where
  "cldm_rbtree_rotate_single h root dir =
     do { r \<leftarrow> h root;
          let n = link r (\<not> dir);
          nn \<leftarrow> h n;
          h \<leftarrow> (if is_thread nn dir
               then do { h \<leftarrow> cldm_rbnode_set_thread h root (\<not> dir); cldm_rbnode_unset_thread h n dir }
               else set_link h root (\<not> dir) (link nn dir));
          h \<leftarrow> set_link h n dir root;
          h \<leftarrow> cldm_rbnode_make_red h root;
          h \<leftarrow> cldm_rbnode_make_black h n;
          Some (n, h) }"

definition cldm_rbtree_rotate_double :: "rbheap \<Rightarrow> addr \<Rightarrow> cldm_rbdir \<Rightarrow> (addr \<times> rbheap) option" where
  "cldm_rbtree_rotate_double h root dir =
     do { r \<leftarrow> h root;
          (x, h) \<leftarrow> cldm_rbtree_rotate_single h (link r (\<not> dir)) (\<not> dir);
          h \<leftarrow> set_link h root (\<not> dir) x;
          cldm_rbtree_rotate_single h root dir }"

definition cldm_rbtree_balance_insertion ::
  "rbheap \<Rightarrow> addr \<Rightarrow> addr \<Rightarrow> addr \<Rightarrow> addr \<Rightarrow> rbheap option" where
  "cldm_rbtree_balance_insertion h n p gp ggp =
     do { h \<leftarrow> cldm_rbnode_make_red h n;
          nn \<leftarrow> h n;
          h \<leftarrow> (if \<not> is_thread nn cldm_rbdir_left \<and> \<not> is_thread nn cldm_rbdir_right
               then do { h \<leftarrow> cldm_rbnode_make_black h (rb_left nn);
                         nn \<leftarrow> h n;
                         cldm_rbnode_make_black h (rb_right nn) }
               else Some h);
          red \<leftarrow> cldm_rbnode_is_red h p;
          if red
          then do {
            h \<leftarrow> cldm_rbnode_make_red h gp;
            pn \<leftarrow> h p; gpn \<leftarrow> h gp; ggpn \<leftarrow> h ggp;
            let pdir = (rb_right pn = n);
            let gpdir = (rb_right gpn = p);
            let ggpdir = (rb_right ggpn = gp);
            if pdir \<noteq> gpdir
            then do { (x, h) \<leftarrow> cldm_rbtree_rotate_double h gp (\<not> gpdir);
                      h \<leftarrow> set_link h ggp ggpdir x;
                      cldm_rbnode_make_black h n }
            else do { (x, h) \<leftarrow> cldm_rbtree_rotate_single h gp (\<not> gpdir);
                      h \<leftarrow> set_link h ggp ggpdir x;
                      cldm_rbnode_make_black h p } }
          else Some h }"

text \<open>The result is \<open>*p\<close> with the heap.\<close>

definition cldm_rbtree_balance_removal ::
  "rbheap \<Rightarrow> addr \<Rightarrow> addr \<Rightarrow> addr \<Rightarrow> cldm_rbdir \<Rightarrow> (addr \<times> rbheap) option" where
  "cldm_rbtree_balance_removal h n p gp dir =
     do { pn \<leftarrow> h p; gpn \<leftarrow> h gp;
          let pdir = (rb_right pn = n);
          let gpdir = (rb_right gpn = p);
          red \<leftarrow> cldm_rbnode_is_red_safe h n (\<not> dir);
          if red
          then do { (x, h) \<leftarrow> cldm_rbtree_rotate_single h n dir;
                    h \<leftarrow> set_link h p pdir x;
                    pn \<leftarrow> h p;
                    Some (link pn pdir, h) }
          else if \<not> is_thread pn (\<not> pdir)
          then do {
            let sibling = link pn (\<not> pdir);
            sl \<leftarrow> cldm_rbnode_is_red_safe h sibling cldm_rbdir_left;
            sr \<leftarrow> (if sl then Some True else cldm_rbnode_is_red_safe h sibling cldm_rbdir_right);
            if sl \<or> sr
            then do {
              inner \<leftarrow> cldm_rbnode_is_red_safe h sibling pdir;
              h \<leftarrow> (if inner
                   then do { (x, h) \<leftarrow> cldm_rbtree_rotate_double h p pdir; set_link h gp gpdir x }
                   else do { outer \<leftarrow> cldm_rbnode_is_red_safe h sibling (\<not> pdir);
                             if outer
                             then do { (x, h) \<leftarrow> cldm_rbtree_rotate_single h p pdir; set_link h gp gpdir x }
                             else Some h });
              h \<leftarrow> cldm_rbnode_make_red h n;
              gpn \<leftarrow> h gp;
              h \<leftarrow> cldm_rbnode_make_red h (link gpn gpdir);
              gpn \<leftarrow> h gp; x \<leftarrow> h (link gpn gpdir);
              h \<leftarrow> cldm_rbnode_make_black h (rb_left x);
              gpn \<leftarrow> h gp; x \<leftarrow> h (link gpn gpdir);
              h \<leftarrow> cldm_rbnode_make_black h (rb_right x);
              Some (p, h) }
            else do { h \<leftarrow> cldm_rbnode_make_red h n;
                      h \<leftarrow> cldm_rbnode_make_red h sibling;
                      h \<leftarrow> cldm_rbnode_make_black h p;
                      Some (p, h) } }
          else Some (p, h) }"

section \<open>Searching\<close>

text \<open>\<open>s\<close> is the address of the sentinel, \<open>&tree->sentinel\<close>.\<close>

definition cldm_rbtree_init :: "rbheap \<Rightarrow> addr \<Rightarrow> cldm_rbtree" where
  "cldm_rbtree_init h s = \<lparr>rb_heap = h(s \<mapsto> zero_rbnode\<lparr>rb_flags := CLDM_RBLEAF\<rparr>), rb_size = 0\<rparr>"

definition cldm_rbroot :: "rbheap \<Rightarrow> addr \<Rightarrow> addr option" where
  "cldm_rbroot h s = do { n \<leftarrow> h s; Some (rb_left n) }"

definition cldm_rbtree_empty :: "rbheap \<Rightarrow> addr \<Rightarrow> bool option" where
  "cldm_rbtree_empty h s = do { n \<leftarrow> h s; Some (rb_flags n = CLDM_RBLEAF) }"

definition cldm_rbtree_clear :: "cldm_rbtree \<Rightarrow> addr \<Rightarrow> cldm_rbtree option" where
  "cldm_rbtree_clear tree s =
     do { h \<leftarrow> rb_upd (rb_heap tree) s (\<lambda>n. n\<lparr>rb_flags := CLDM_RBLEAF\<rparr>);
          Some \<lparr>rb_heap = h, rb_size = 0\<rparr> }"

definition cldm_rbtree_size :: "cldm_rbtree \<Rightarrow> u64" where
  "cldm_rbtree_size tree = rb_size tree"

partial_function (option) find_parent_loop ::
  "(addr \<Rightarrow> addr \<Rightarrow> int) \<Rightarrow> rbheap \<Rightarrow> addr \<Rightarrow> addr \<Rightarrow> addr \<Rightarrow> cldm_rbdir \<Rightarrow> addr option" where
  "find_parent_loop compare h node p n dir =
     do { pn \<leftarrow> h p;
          if \<not> is_thread pn dir \<and> n \<noteq> node
          then do { nn \<leftarrow> h n;
                    let dir = (compare n node > 0);
                    find_parent_loop compare h node n (link nn dir) dir }
          else Some p }"

definition cldm_rbtree_find_parent_of ::
  "(addr \<Rightarrow> addr \<Rightarrow> int) \<Rightarrow> rbheap \<Rightarrow> addr \<Rightarrow> addr \<Rightarrow> addr option" where
  "cldm_rbtree_find_parent_of compare h s node =
     do { n \<leftarrow> cldm_rbroot h s; find_parent_loop compare h node s n cldm_rbdir_left }"

text \<open>The result is the node found, or the null pointer.\<close>

partial_function (option) find_loop ::
  "(addr \<Rightarrow> addr \<Rightarrow> int) \<Rightarrow> rbheap \<Rightarrow> addr \<Rightarrow> addr \<Rightarrow> addr \<Rightarrow> cldm_rbdir \<Rightarrow> addr option option" where
  "find_loop compare h node p n dir =
     do { pn \<leftarrow> h p;
          if is_thread pn dir then Some None
          else do { nn \<leftarrow> h n;
                    if compare n node = 0 then Some (Some n)
                    else let dir = (compare n node > 0) in
                      find_loop compare h node n (link nn dir) dir } }"

definition cldm_rbtree_find ::
  "(addr \<Rightarrow> addr \<Rightarrow> int) \<Rightarrow> rbheap \<Rightarrow> addr \<Rightarrow> addr \<Rightarrow> addr option option" where
  "cldm_rbtree_find compare h s node =
     do { n \<leftarrow> cldm_rbroot h s; find_loop compare h node s n cldm_rbdir_left }"

partial_function (option) cldm_rbtree_leftmost :: "rbheap \<Rightarrow> addr \<Rightarrow> addr option" where
  "cldm_rbtree_leftmost h node =
     do { n \<leftarrow> h node;
          if is_thread n cldm_rbdir_left then Some node else cldm_rbtree_leftmost h (rb_left n) }"

definition cldm_rbnode_successor :: "rbheap \<Rightarrow> addr \<Rightarrow> addr option" where
  "cldm_rbnode_successor h node =
     do { n \<leftarrow> h node;
          if is_thread n cldm_rbdir_right then Some (rb_right n) else cldm_rbtree_leftmost h (rb_right n) }"

text \<open>\<open>cldm_rbtree_for_each(iter, tree)\<close>: the nodes the loop visits, in order.\<close>

partial_function (option) for_each_loop :: "rbheap \<Rightarrow> addr \<Rightarrow> addr \<Rightarrow> addr list option" where
  "for_each_loop h s iter =
     (if iter = s then Some []
      else do { next \<leftarrow> cldm_rbnode_successor h iter;
                rest \<leftarrow> for_each_loop h s next;
                Some (iter # rest) })"

definition cldm_rbtree_for_each :: "cldm_rbtree \<Rightarrow> addr \<Rightarrow> addr list option" where
  "cldm_rbtree_for_each tree s =
     (if rb_size tree \<noteq> 0
      then do { root \<leftarrow> cldm_rbroot (rb_heap tree) s;
                first \<leftarrow> cldm_rbtree_leftmost (rb_heap tree) root;
                for_each_loop (rb_heap tree) s first }
      else Some [])"

section \<open>Insertion\<close>

text \<open>\<open>cldm_rbnode_make_black(cldm_rbroot(tree))\<close>\<close>

definition blacken_root :: "rbheap \<Rightarrow> addr \<Rightarrow> rbheap option" where
  "blacken_root h s = do { root \<leftarrow> cldm_rbroot h s; cldm_rbnode_make_black h root }"

text \<open>The end of \<open>cldm_rbtree_insert\<close>, from the comment "Prepare node".\<close>

definition insert_leaf ::
  "rbheap \<Rightarrow> addr \<Rightarrow> addr \<Rightarrow> addr \<Rightarrow> addr \<Rightarrow> addr \<Rightarrow> cldm_rbdir \<Rightarrow> rbheap option" where
  "insert_leaf h s node n p gp dir =
     do { h \<leftarrow> cldm_rbnode_make_leaf h node;
          nn \<leftarrow> h n;
          h \<leftarrow> set_link h node dir (link nn dir);
          h \<leftarrow> set_link h node (\<not> dir) n;
          h \<leftarrow> set_link h n dir node;
          h \<leftarrow> cldm_rbnode_unset_thread h n dir;
          h \<leftarrow> cldm_rbtree_balance_insertion h node n p gp;
          blacken_root h s }"

text \<open>The descent: \<open>Inl\<close> when the key is there already, \<open>Inr\<close> after the insertion.\<close>

partial_function (option) insert_loop ::
  "(addr \<Rightarrow> addr \<Rightarrow> int) \<Rightarrow> rbheap \<Rightarrow> addr \<Rightarrow> addr \<Rightarrow> addr \<Rightarrow> addr \<Rightarrow> addr \<Rightarrow> addr \<Rightarrow> (rbheap + rbheap) option" where
  "insert_loop compare h s node n p gp ggp =
     do { l \<leftarrow> cldm_rbnode_is_red_safe h n cldm_rbdir_left;
          r \<leftarrow> (if l then cldm_rbnode_is_red_safe h n cldm_rbdir_right else Some False);
          h \<leftarrow> (if l \<and> r then cldm_rbtree_balance_insertion h n p gp ggp else Some h);
          if compare n node = 0
          then do { h \<leftarrow> blacken_root h s; Some (Inl h) }
          else do {
            let dir = (compare n node > 0);
            nn \<leftarrow> h n;
            if is_thread nn dir
            then do { h \<leftarrow> insert_leaf h s node n p gp dir; Some (Inr h) }
            else insert_loop compare h s node (link nn dir) n p gp } }"

text \<open>
  \<open>l0\<close> and \<open>l1\<close> are the addresses of the two compound literals that \<open>gp\<close> and \<open>ggp\<close> point to at
  first; they are gone when the function returns.
\<close>

definition cldm_rbtree_insert ::
  "(addr \<Rightarrow> addr \<Rightarrow> int) \<Rightarrow> addr \<Rightarrow> addr \<Rightarrow> cldm_rbtree \<Rightarrow> addr \<Rightarrow> addr \<Rightarrow> (bool \<times> cldm_rbtree) option" where
  "cldm_rbtree_insert compare l0 l1 tree s node =
     do { let h = rb_heap tree;
          empty \<leftarrow> cldm_rbtree_empty h s;
          if empty
          then do {
            h \<leftarrow> rb_upd h node (\<lambda>_. \<lparr>rb_left = s, rb_right = s, rb_color = cldm_rbcolor_black,
                                    rb_flags = CLDM_RBLEAF\<rparr>);
            h \<leftarrow> set_link h s cldm_rbdir_left node;
            h \<leftarrow> cldm_rbnode_unset_thread h s cldm_rbdir_left;
            h \<leftarrow> set_link h s cldm_rbdir_right s;
            Some (True, \<lparr>rb_heap = h, rb_size = 1\<rparr>) }
          else do {
            let h = h(l0 \<mapsto> zero_rbnode\<lparr>rb_left := s\<rparr>, l1 \<mapsto> zero_rbnode\<lparr>rb_left := l0\<rparr>);
            root \<leftarrow> cldm_rbroot h s;
            r \<leftarrow> insert_loop compare h s node root s l0 l1;
            case r of
              Inl h \<Rightarrow> Some (False, tree\<lparr>rb_heap := h(l0 := None, l1 := None)\<rparr>)
            | Inr h \<Rightarrow> Some (True, \<lparr>rb_heap = h(l0 := None, l1 := None), rb_size = rb_size tree + 1\<rparr>) } }"

section \<open>Removal\<close>

text \<open>The descent returns \<open>gp\<close>, \<open>p\<close>, \<open>dir\<close> and \<open>found\<close>.\<close>

partial_function (option) remove_loop ::
  "(addr \<Rightarrow> addr \<Rightarrow> int) \<Rightarrow> rbheap \<Rightarrow> addr \<Rightarrow> addr \<Rightarrow> addr \<Rightarrow> addr \<Rightarrow> cldm_rbdir \<Rightarrow> addr option \<Rightarrow>
   (rbheap \<times> addr \<times> addr \<times> cldm_rbdir \<times> addr option) option" where
  "remove_loop compare h node gp p n dir found =
     do { pn \<leftarrow> h p;
          if is_thread pn dir then Some (h, gp, p, dir, found)
          else do {
            let found = (if compare n node = 0 then Some n else found);
            let dir = (compare n node > 0);
            red \<leftarrow> cldm_rbnode_is_red h n;
            down \<leftarrow> (if red then Some True else cldm_rbnode_is_red_safe h n dir);
            (p, h) \<leftarrow> (if \<not> red \<and> \<not> down then cldm_rbtree_balance_removal h n p gp dir else Some (p, h));
            nn \<leftarrow> h n;
            remove_loop compare h node p n (link nn dir) dir found } }"

text \<open>
  The replacement of \<open>found\<close> by \<open>p\<close>, statement by statement: \<open>link(p, dir)\<close> is read after the links of
  \<open>p\<close> have been overwritten.
\<close>

definition replace_found ::
  "rbheap \<Rightarrow> addr \<Rightarrow> addr \<Rightarrow> addr \<Rightarrow> addr \<Rightarrow> cldm_rbdir \<Rightarrow> addr \<Rightarrow> rbheap option" where
  "replace_found h s gp p fparent dir found =
     do { fpn \<leftarrow> h fparent; gpn \<leftarrow> h gp;
          let fdir = (rb_right fpn = found);
          let gpdir = (rb_right gpn = p);
          h \<leftarrow> cldm_rbnode_assign_thread_from h gp p gpdir;
          f \<leftarrow> h found;
          h \<leftarrow> set_link h p cldm_rbdir_left (if rb_left f \<noteq> p then rb_left f else s);
          f \<leftarrow> h found;
          h \<leftarrow> set_link h p cldm_rbdir_right (if rb_right f \<noteq> p then rb_right f else s);
          f \<leftarrow> h found;
          h \<leftarrow> rb_upd h p (\<lambda>n. n\<lparr>rb_color := rb_color f\<rparr>);
          f \<leftarrow> h found;
          h \<leftarrow> rb_upd h p (\<lambda>n. n\<lparr>rb_flags := rb_flags f\<rparr>);
          h \<leftarrow> set_link h fparent fdir p;
          pn \<leftarrow> h p;
          h \<leftarrow> set_link h gp gpdir (link pn dir);
          rb_upd h found (\<lambda>_. zero_rbnode) }"

definition cldm_rbtree_remove ::
  "(addr \<Rightarrow> addr \<Rightarrow> int) \<Rightarrow> addr \<Rightarrow> cldm_rbtree \<Rightarrow> addr \<Rightarrow> addr \<Rightarrow> (addr option \<times> cldm_rbtree) option" where
  "cldm_rbtree_remove compare l0 tree s node =
     do { let h = rb_heap tree;
          root \<leftarrow> cldm_rbroot h s;
          if root = 0 then Some (None, tree)
          else do {
            let h = h(l0 \<mapsto> zero_rbnode\<lparr>rb_left := s\<rparr>);
            (h, gp, p, dir, found) \<leftarrow> remove_loop compare h node l0 s root cldm_rbdir_left None;
            (h, n) \<leftarrow> (case found of
                None \<Rightarrow> Some (h, rb_size tree)
              | Some f \<Rightarrow>
                  do { fparent \<leftarrow> cldm_rbtree_find_parent_of compare h s f;
                       h \<leftarrow> replace_found h s gp p fparent dir f;
                       Some (h, rb_size tree - 1) });
            thread \<leftarrow> cldm_rbnode_is_thread h s cldm_rbdir_left;
            h \<leftarrow> (if \<not> thread then blacken_root h s else Some h);
            Some (found, \<lparr>rb_heap = h(l0 := None), rb_size = n\<rparr>) } }"

text \<open>The equations of the loops, for evaluation.\<close>

declare find_parent_loop.simps [code] find_loop.simps [code] cldm_rbtree_leftmost.simps [code]
  for_each_loop.simps [code] insert_loop.simps [code] remove_loop.simps [code]

end
