(* ===== verification/Collect.thy ===== *)
theory Collect
  imports Hash Rbtree Elf Testrec
begin

text \<open>
  \<^verbatim>\<open>cldm/cldm_collect.c\<close>: finding the test records of the executable and keeping those that are asked
  for. A test record is read from memory, where the loader put it at the address a symbol lookup
  returns; \<open>procs\<close> says what the function at an address does. The nodes of the tree are the members
  \<open>rbnode\<close> of the records, in the heap of the tree. Messages are not represented.
\<close>

section \<open>Records in memory\<close>

definition c_string :: "mem \<Rightarrow> u64 \<Rightarrow> u8 list option" where
  "c_string m a = do { n \<leftarrow> c_strlen m a; mem_rdn m a n }"

text \<open>\<open>strncmp\<close> of a literal and the string at an address, over the length of the literal.\<close>

fun strncmp_to :: "mem \<Rightarrow> u8 list \<Rightarrow> u64 \<Rightarrow> int option" where
  "strncmp_to m [] a = Some 0"
| "strncmp_to m (c # cs) a =
     do { x \<leftarrow> m a; if x \<noteq> c then Some (uint c - uint x) else strncmp_to m cs (a + 1) }"

definition testrec_prefix :: "u8 list" where
  "testrec_prefix = cstr ''cldm_testrec_''"

text \<open>The offsets of the members of \<open>struct cldm_testrec\<close>: \<open>rbnode\<close> takes 24 bytes at 16.\<close>

definition optional_proc :: "(u64 \<Rightarrow> 's proc) \<Rightarrow> u64 \<Rightarrow> 's proc option" where
  "optional_proc procs p = (if p = 0 then None else Some (procs p))"

definition read_testrec :: "mem \<Rightarrow> (u64 \<Rightarrow> 's proc) \<Rightarrow> u64 \<Rightarrow> 's cldm_testrec option" where
  "read_testrec m procs a =
     do { name_p \<leftarrow> rd64 m a; file_p \<leftarrow> rd64 m (a + 8);
          name \<leftarrow> c_string m name_p; file \<leftarrow> c_string m file_p;
          handle \<leftarrow> rd64 m (a + 40); setup_p \<leftarrow> rd64 m (a + 48); teardown_p \<leftarrow> rd64 m (a + 56);
          Some \<lparr>rec_name = name, rec_file = file, rec_handle = procs handle,
                rec_setup = optional_proc procs setup_p, rec_teardown = optional_proc procs teardown_p\<rparr> }"

definition rbnode_of :: "u64 \<Rightarrow> addr" where
  "rbnode_of record = unat record + 16"

definition cldm_testrec_get :: "addr \<Rightarrow> u64" where
  "cldm_testrec_get node = of_nat (node - 16)"

text \<open>\<open>cldm_testrec_compare\<close> of two nodes; it is only used on the nodes of records.\<close>

definition testrec_node_compare :: "mem \<Rightarrow> addr \<Rightarrow> addr \<Rightarrow> int" where
  "testrec_node_compare m a b =
     (case (read_testrec m (\<lambda>_. Some) (cldm_testrec_get a), read_testrec m (\<lambda>_. Some) (cldm_testrec_get b)) of
        (Some l, Some r) \<Rightarrow> cldm_testrec_compare l (r :: unit cldm_testrec)
      | _ \<Rightarrow> 0)"

section \<open>All tests\<close>

text \<open>
  The loop over the string table from the offset \<open>i\<close>. \<open>s\<close>, \<open>l0\<close> and \<open>l1\<close> are the addresses of the
  sentinel and of the literals that an insertion uses.
\<close>

partial_function (option) collect_loop ::
  "mem \<Rightarrow> cldm_elfmap \<Rightarrow> addr \<Rightarrow> addr \<Rightarrow> addr \<Rightarrow> cldm_rbtree \<Rightarrow> u64 \<Rightarrow> (int \<times> cldm_rbtree) option" where
  "collect_loop m em l0 l1 s tree i =
     (if i < str_size (map_strtab em)
      then do {
        let a = str_addr (map_strtab em) + i;
        c \<leftarrow> strncmp_to m testrec_prefix a;
        t \<leftarrow> (if c = 0
             then do {
               name \<leftarrow> c_string m a;
               record \<leftarrow> cldm_elf_symlookup m em name;
               if record = 0 then Some None
               else do {
                 (_, tree) \<leftarrow> cldm_rbtree_insert (testrec_node_compare m) l0 l1 tree s (rbnode_of record);
                 Some (Some tree) } }
             else Some (Some tree));
        case t of
          None \<Rightarrow> Some (- 1, tree)
        | Some tree \<Rightarrow> do { n \<leftarrow> c_strlen m a; collect_loop m em l0 l1 s tree (i + of_nat n + 1) } }
      else Some (sint (cldm_rbtree_size tree), tree))"

definition cldm_collect ::
  "mem \<Rightarrow> cldm_elfmap \<Rightarrow> addr \<Rightarrow> addr \<Rightarrow> addr \<Rightarrow> rbheap \<Rightarrow> (int \<times> cldm_rbtree) option" where
  "cldm_collect m em l0 l1 s h = collect_loop m em l0 l1 s (cldm_rbtree_init h s) 0"

section \<open>The tests asked for\<close>

definition cldm_ht_mkentry_str :: "mem \<Rightarrow> u64 \<Rightarrow> cldm_ht_entry option" where
  "cldm_ht_mkentry_str m str = do { n \<leftarrow> c_strlen m str; Some \<lparr>ent_key = str, ent_size = of_nat n\<rparr> }"

text \<open>\<open>str[strlen(str)] = 1\<close>\<close>

definition mark_terminator :: "mem \<Rightarrow> u64 \<Rightarrow> mem option" where
  "mark_terminator m str = do { n \<leftarrow> c_strlen m str; mem_wr m (str + of_nat n) 1 }"

type_synonym mem_cmp = "mem \<Rightarrow> u64 \<Rightarrow> u64 \<Rightarrow> u64 \<Rightarrow> int option"

text \<open>Entering the identifiers; the terminator of a duplicate is overwritten.\<close>

fun insert_idents ::
  "mem_cmp \<Rightarrow> (nat \<Rightarrow> bool) \<Rightarrow> u64 list \<Rightarrow> mem \<Rightarrow> cldm_ht \<Rightarrow> (mem \<times> cldm_ht) option" where
  "insert_idents cmp alloc [] m ht = Some (m, ht)"
| "insert_idents cmp alloc (p # ps) m ht =
     do { e \<leftarrow> cldm_ht_mkentry_str m p;
          (slot, ht) \<leftarrow> cldm_ht_insert cmp alloc m ht e;
          m \<leftarrow> (if slot = None then mark_terminator m p else Some m);
          insert_idents cmp alloc ps m ht }"

text \<open>
  Looking the identifiers of a record up, the file first. The first one that is found has the
  terminator of its key overwritten; the result says whether there is one.
\<close>

fun match_idents :: "mem_cmp \<Rightarrow> cldm_ht \<Rightarrow> u64 list \<Rightarrow> mem \<Rightarrow> (bool \<times> mem) option" where
  "match_idents cmp ht [] m = Some (False, m)"
| "match_idents cmp ht (p # ps) m =
     do { e \<leftarrow> cldm_ht_mkentry_str m p;
          slot \<leftarrow> cldm_ht_find cmp m ht e;
          case slot of
            None \<Rightarrow> match_idents cmp ht ps m
          | Some idx \<Rightarrow>
              do { entries \<leftarrow> cldm_ht_storage ht;
                   m \<leftarrow> mark_terminator m (ent_key (entries ! unat idx));
                   Some (True, m) } }"

text \<open>\<open>cldm_basename(record->file)\<close> and \<open>record->name\<close>, as pointers.\<close>

definition record_idents :: "mem \<Rightarrow> u64 \<Rightarrow> u64 list option" where
  "record_idents m record =
     do { name_p \<leftarrow> rd64 m record; file_p \<leftarrow> rd64 m (record + 8);
          file \<leftarrow> c_string m file_p;
          Some [file_p + of_nat (length file - length (cldm_basename file)), name_p] }"

partial_function (option) collect_from_loop ::
  "mem_cmp \<Rightarrow> cldm_elfmap \<Rightarrow> addr \<Rightarrow> addr \<Rightarrow> addr \<Rightarrow> cldm_ht \<Rightarrow> mem \<Rightarrow> cldm_rbtree \<Rightarrow> u64 \<Rightarrow>
   (bool \<times> mem \<times> cldm_rbtree) option" where
  "collect_from_loop cmp em l0 l1 s ht m tree i =
     (if i < str_size (map_strtab em)
      then do {
        let a = str_addr (map_strtab em) + i;
        c \<leftarrow> strncmp_to m testrec_prefix a;
        t \<leftarrow> (if c = 0
             then do {
               name \<leftarrow> c_string m a;
               record \<leftarrow> cldm_elf_symlookup m em name;
               if record = 0 then Some None
               else do {
                 ids \<leftarrow> record_idents m record;
                 (found, m) \<leftarrow> match_idents cmp ht ids m;
                 if found
                 then do {
                   (_, tree) \<leftarrow> cldm_rbtree_insert (testrec_node_compare m) l0 l1 tree s (rbnode_of record);
                   Some (Some (m, tree)) }
                 else Some (Some (m, tree)) } }
             else Some (Some (m, tree)));
        case t of
          None \<Rightarrow> Some (False, m, tree)
        | Some (m, tree) \<Rightarrow>
            do { n \<leftarrow> c_strlen m a; collect_from_loop cmp em l0 l1 s ht m tree (i + of_nat n + 1) } }
      else Some (True, m, tree))"

text \<open>Whether every identifier is marked: the first byte below 2 is not the terminator 0.\<close>

fun idents_valid :: "mem \<Rightarrow> u64 list \<Rightarrow> bool option" where
  "idents_valid m [] = Some True"
| "idents_valid m (p # ps) =
     do { pos \<leftarrow> cldm_scan_lt m p 2;
          b \<leftarrow> m (p + ucast pos);
          if b = 0 then Some False else idents_valid m ps }"

definition cldm_collect_from ::
  "mem_cmp \<Rightarrow> (nat \<Rightarrow> bool) \<Rightarrow> mem \<Rightarrow> cldm_elfmap \<Rightarrow> addr \<Rightarrow> addr \<Rightarrow> addr \<Rightarrow> rbheap \<Rightarrow> u64 list \<Rightarrow>
   (int \<times> mem \<times> cldm_rbtree) option" where
  "cldm_collect_from cmp alloc m em l0 l1 s h idents =
     do { let tree = cldm_rbtree_init h s;
          (m, ht) \<leftarrow> insert_idents cmp alloc idents m cldm_ht_init;
          (ok, m, tree) \<leftarrow> collect_from_loop cmp em l0 l1 s ht m tree 0;
          if \<not> ok then Some (- 1, m, tree)
          else do {
            valid \<leftarrow> idents_valid m idents;
            Some (if valid then sint (cldm_rbtree_size tree) else - 1, m, tree) } }"

section \<open>The auxiliary procedures\<close>

definition lookup_proc :: "mem \<Rightarrow> cldm_elfmap \<Rightarrow> (u64 \<Rightarrow> 's proc) \<Rightarrow> string \<Rightarrow> (nat \<times> 's proc) option" where
  "lookup_proc m em procs ident =
     do { p \<leftarrow> cldm_elf_symlookup m em (cstr ident);
          Some (if p = 0 then (0, Some) else (1, procs p)) }"

definition cldm_collect_auxprocs ::
  "mem \<Rightarrow> cldm_elfmap \<Rightarrow> (u64 \<Rightarrow> 's proc) \<Rightarrow> (nat \<times> 's cldm_auxprocs) option" where
  "cldm_collect_auxprocs m em procs =
     do { (n0, gs) \<leftarrow> lookup_proc m em procs ''cldm_global_setup'';
          (n1, ls) \<leftarrow> lookup_proc m em procs ''cldm_local_setup'';
          (n2, gt) \<leftarrow> lookup_proc m em procs ''cldm_global_teardown'';
          (n3, lt) \<leftarrow> lookup_proc m em procs ''cldm_local_teardown'';
          Some (n0 + n1 + n2 + n3,
                \<lparr>aux_local_setup = ls, aux_global_setup = gs, aux_local_teardown = lt, aux_global_teardown = gt\<rparr>) }"

declare collect_loop.simps [code] collect_from_loop.simps [code]

end
