(* ===== verification/Run.thy ===== *)
theory Run
  imports Testlog Collect
begin

text \<open>
  \<^verbatim>\<open>cldm/cldm_sequential.c\<close> and \<^verbatim>\<open>cldm/cldm_parallel.c\<close>: collecting the tests and running them, on one
  thread or on several. What a thread of a parallel run does between two synchronisation points is a
  function here; the theory Parallel puts the threads together.
\<close>

section \<open>Both kinds of run\<close>

text \<open>What a run works on: the executable, its loaded memory and the functions in it.\<close>

record 's program =
  prg_mem :: mem
  prg_map :: cldm_elfmap
  prg_procs :: "u64 \<Rightarrow> 's proc"
  prg_heap :: rbheap
  prg_sentinel :: addr
  prg_l0 :: addr
  prg_l1 :: addr

text \<open>\<open>posparams\<close> points into \<open>argv\<close>: the addresses of the positional parameters.\<close>

definition collect_tests ::
  "mem_cmp \<Rightarrow> (nat \<Rightarrow> bool) \<Rightarrow> 's program \<Rightarrow> u64 list \<Rightarrow> (int \<times> mem \<times> cldm_rbtree) option" where
  "collect_tests cmp alloc prg posp =
     (if posp \<noteq> []
      then cldm_collect_from cmp alloc (prg_mem prg) (prg_map prg) (prg_l0 prg) (prg_l1 prg) (prg_sentinel prg)
             (prg_heap prg) posp
      else do { (n, tree) \<leftarrow> cldm_collect (prg_mem prg) (prg_map prg) (prg_l0 prg) (prg_l1 prg) (prg_sentinel prg)
                              (prg_heap prg);
                Some (n, prg_mem prg, tree) })"

text \<open>The records in the order of \<open>cldm_rbtree_for_each\<close>.\<close>

fun read_records :: "mem \<Rightarrow> (u64 \<Rightarrow> 's proc) \<Rightarrow> addr list \<Rightarrow> 's cldm_testrec list option" where
  "read_records m procs [] = Some []"
| "read_records m procs (a # as) =
     do { r \<leftarrow> read_testrec m procs (cldm_testrec_get a); rs \<leftarrow> read_records m procs as; Some (r # rs) }"

text \<open>\<open>cldm_mock_global() { cldm_mock_enable() { proc(); } }\<close>\<close>

definition run_global :: "nat \<Rightarrow> 'd tests proc \<Rightarrow> 'd tests \<Rightarrow> 'd tests option" where
  "run_global tid p s =
     map_option snd (cldm_mock_global (cldm_mock_enable tid (\<lambda>s. do { s \<leftarrow> p s; Some ((), s) })) s)"

section \<open>Sequential runs\<close>

text \<open>Each round reads the record of its node.\<close>

fun sequential_loop ::
  "mem \<Rightarrow> (u64 \<Rightarrow> 'd tests proc) \<Rightarrow> 'd tests cldm_auxprocs \<Rightarrow> bool \<Rightarrow> addr list \<Rightarrow> 'd tests \<Rightarrow> 'd tests option" where
  "sequential_loop m procs aux fail_fast [] s = Some s"
| "sequential_loop m procs aux fail_fast (a # as) s =
     do { r \<leftarrow> read_testrec m procs (cldm_testrec_get a);
          (ok, s) \<leftarrow> cldm_test_run 0 r aux fail_fast s;
          if ok then sequential_loop m procs aux fail_fast as s else Some s }"

text \<open>From \<open>cldm_test_register\<close> to the end, with the nodes of the tree in the order of \<open>cldm_rbtree_for_each\<close>.\<close>

definition sequential_tests ::
  "(nat \<Rightarrow> bool) \<Rightarrow> bool \<Rightarrow> bool \<Rightarrow> mem \<Rightarrow> (u64 \<Rightarrow> 'd tests proc) \<Rightarrow> 'd tests cldm_auxprocs \<Rightarrow> addr list \<Rightarrow> u64 \<Rightarrow>
   'd tests \<Rightarrow> (int \<times> 'd tests) option" where
  "sequential_tests alloc verbose fail_fast m procs aux nodes ntests s =
     do { let s = cldm_test_register ntests verbose s;
          (ok, s) \<leftarrow> cldm_test_init alloc 0 0 s;
          if \<not> ok then Some (1, s)
          else do {
            s \<leftarrow> run_global 0 (aux_global_setup aux) s;
            s \<leftarrow> sequential_loop m procs aux fail_fast nodes s;
            s \<leftarrow> run_global 0 (aux_global_teardown aux) s;
            s \<leftarrow> cldm_test_flush 0 s;
            (status, s) \<leftarrow> cldm_test_summary 1 s;
            s \<leftarrow> cldm_test_free 0 s;
            Some (status, s) } }"

definition cldm_sequential_run ::
  "mem_cmp \<Rightarrow> (nat \<Rightarrow> bool) \<Rightarrow> 'd tests program \<Rightarrow> u32 \<Rightarrow> bool \<Rightarrow> bool \<Rightarrow> u64 list \<Rightarrow> 'd tests \<Rightarrow>
   (int \<times> 'd tests) option" where
  "cldm_sequential_run cmp alloc prg jobs verbose fail_fast posp s =
     (if jobs \<noteq> 1 then Some (1, s)
      else do {
        (ntests, m, tree) \<leftarrow> collect_tests cmp alloc prg posp;
        if ntests < 0 then Some (1, s)
        else do {
          (n, aux) \<leftarrow> cldm_collect_auxprocs m (prg_map prg) (prg_procs prg);
          nodes \<leftarrow> cldm_rbtree_for_each tree (prg_sentinel prg);
          sequential_tests alloc verbose fail_fast m (prg_procs prg) aux nodes (of_int ntests) s } })"

section \<open>The parts of a parallel run\<close>

record 'd par =
  par_tests :: "'d tests"
  thread_ntests :: "u64 list"
  thread_startidx :: "u64 list"
  par_aux :: "'d tests cldm_auxprocs"
  early_abort :: bool
  par_records :: "'d tests cldm_testrec list option"

text \<open>The distribution of the tests, the loop in \<open>cldm_parallel_collect_and_run\<close> from the thread \<open>i\<close> on.\<close>

fun distribute :: "u64 \<Rightarrow> u32 \<Rightarrow> nat list \<Rightarrow> u64 \<Rightarrow> u64 list \<Rightarrow> u64 list \<Rightarrow> (u64 list \<times> u64 list) option" where
  "distribute ntests jobs [] startidx ns ss = Some (ns, ss)"
| "distribute ntests jobs (i # is) startidx ns ss =
     (if length ns \<le> i \<or> length ss \<le> i \<or> jobs = 0 then None
      else let n = ntests div ucast jobs + (if of_nat i < ntests mod ucast jobs then 1 else 0)
           in distribute ntests jobs is (startidx + n) (ns[i := n]) (ss[i := startidx]))"

text \<open>
  \<open>cldm_parallel_collect_and_run\<close> up to the run of its own tests. A failed collection leaves all
  threads without tests; so does a failed allocation, whose threads keep the counts they have.
\<close>

definition cldm_parallel_collect ::
  "mem_cmp \<Rightarrow> (nat \<Rightarrow> bool) \<Rightarrow> 'd tests program \<Rightarrow> u32 \<Rightarrow> bool \<Rightarrow> u64 list \<Rightarrow> nat \<Rightarrow> 'd par \<Rightarrow> 'd par option" where
  "cldm_parallel_collect cmp alloc prg jobs verbose posp tid s =
     do { (ntests, m, tree) \<leftarrow> collect_tests cmp alloc prg posp;
          if ntests < 0 then Some (s\<lparr>thread_ntests := map (\<lambda>_. 0) (thread_ntests s)\<rparr>)
          else do {
            let s = s\<lparr>par_tests := cldm_test_register (of_int ntests) verbose (par_tests s)\<rparr>;
            if \<not> c_alloc alloc (nat ntests * 64) then Some (s\<lparr>par_records := None\<rparr>)
            else do {
              nodes \<leftarrow> cldm_rbtree_for_each tree (prg_sentinel prg);
              records \<leftarrow> read_records m (prg_procs prg) nodes;
              if nat ntests < length records then None
              else do {
                (ns, ss) \<leftarrow> distribute (of_int ntests) jobs [0..<unat jobs] 0 (thread_ntests s) (thread_startidx s);
                (n, aux) \<leftarrow> cldm_collect_auxprocs m (prg_map prg) (prg_procs prg);
                t \<leftarrow> run_global tid (aux_global_setup aux) (par_tests s);
                Some (s\<lparr>par_tests := t, thread_ntests := ns, thread_startidx := ss, par_aux := aux,
                        par_records := Some records\<rparr>) } } } }"

text \<open>
  One round of the loop over the tests of a thread: the test at index \<open>i\<close>, a 32-bit counter, and whether the
  loop ends.
\<close>

definition thread_run_test :: "nat \<Rightarrow> bool \<Rightarrow> u32 \<Rightarrow> 'd par \<Rightarrow> (bool \<times> 'd par) option" where
  "thread_run_test tid fail_fast i s =
     do { records \<leftarrow> par_records s;
          if length (thread_startidx s) \<le> tid then None
          else do {
            let k = unat (thread_startidx s ! tid + ucast i);
            if length records \<le> k then None
            else do {
              (ok, t) \<leftarrow> cldm_test_run tid (records ! k) (par_aux s) fail_fast (par_tests s);
              let s = s\<lparr>par_tests := t\<rparr>;
              if \<not> ok then Some (True, if fail_fast then s\<lparr>early_abort := True\<rparr> else s)
              else if fail_fast then Some (early_abort s, s)
              else Some (False, s) } } }"

end
