(* ===== verification/Rbtree_Heap.thy ===== *)
theory Rbtree_Heap
  imports Rbtree
begin

text \<open>
  The heap of a threaded tree, seen as a tree: what the operations on nodes do to links, threads and
  colours, the relation between a heap and a tree of colours and addresses, and the rotations.
\<close>

section \<open>The heap as links, threads and colours\<close>

text \<open>The link, the thread flag and the colour of the node at an address.\<close>

definition lk :: "rbheap \<Rightarrow> addr \<Rightarrow> cldm_rbdir \<Rightarrow> addr" where "lk h a d = link (the (h a)) d"
definition th :: "rbheap \<Rightarrow> addr \<Rightarrow> cldm_rbdir \<Rightarrow> bool" where "th h a d = is_thread (the (h a)) d"
definition col :: "rbheap \<Rightarrow> addr \<Rightarrow> cldm_rbcolor" where "col h a = rb_color (the (h a))"

text \<open>The updates the operations make, on a heap that has the node.\<close>

definition put_lk :: "addr \<Rightarrow> cldm_rbdir \<Rightarrow> addr \<Rightarrow> rbheap \<Rightarrow> rbheap" where
  "put_lk a d x h = h(a \<mapsto> with_link d x (the (h a)))"

definition put_col :: "addr \<Rightarrow> cldm_rbcolor \<Rightarrow> rbheap \<Rightarrow> rbheap" where
  "put_col a c h = h(a \<mapsto> (the (h a))\<lparr>rb_color := c\<rparr>)"

definition put_th :: "addr \<Rightarrow> cldm_rbdir \<Rightarrow> bool \<Rightarrow> rbheap \<Rightarrow> rbheap" where
  "put_th a d b h = h(a \<mapsto> (the (h a))\<lparr>rb_flags :=
     if b then rb_flags (the (h a)) OR dir_bit d else rb_flags (the (h a)) AND NOT (dir_bit d)\<rparr>)"

definition put_leaf :: "addr \<Rightarrow> rbheap \<Rightarrow> rbheap" where
  "put_leaf a h = h(a \<mapsto> (the (h a))\<lparr>rb_flags := CLDM_RBLEAF\<rparr>)"

lemmas put_defs = put_lk_def put_col_def put_th_def put_leaf_def

lemma put_other [simp]:
  "a \<noteq> y \<Longrightarrow> put_lk a d x h y = h y" "a \<noteq> y \<Longrightarrow> put_col a c h y = h y"
  "a \<noteq> y \<Longrightarrow> put_th a d b h y = h y" "a \<noteq> y \<Longrightarrow> put_leaf a h y = h y"
  by (simp_all add: put_defs)

lemma put_dom [simp]:
  "dom (put_lk a d x h) = insert a (dom h)" "dom (put_col a c h) = insert a (dom h)"
  "dom (put_th a d b h) = insert a (dom h)" "dom (put_leaf a h) = insert a (dom h)"
  by (auto simp: put_defs)

lemma is_thread_or: "is_thread (n\<lparr>rb_flags := rb_flags n OR dir_bit d\<rparr>) e = (d = e \<or> is_thread n e)"
proof -
  have "(f OR 1) AND 1 \<noteq> 0" "(f OR 2) AND 2 \<noteq> 0" "(f OR 1) AND 2 = f AND 2" "(f OR 2) AND 1 = f AND 1" for f :: u8
    by (simp_all add: bit.conj_disj_distrib2 or_eq_0_iff)
  then show ?thesis by (cases d; cases e) (simp_all add: is_thread_def dir_bit_def)
qed

lemma is_thread_and: "is_thread (n\<lparr>rb_flags := rb_flags n AND NOT (dir_bit d)\<rparr>) e = (d \<noteq> e \<and> is_thread n e)"
proof -
  have "(f AND NOT 1) AND 1 = 0" "(f AND NOT 2) AND 2 = 0" "(f AND NOT 1) AND 2 = f AND 2" "(f AND NOT 2) AND 1 = f AND 1" for f :: u8
    by (simp_all add: and.assoc)
  then show ?thesis by (cases d; cases e) (simp_all add: is_thread_def dir_bit_def)
qed

lemma is_thread_leaf: "rb_flags n = CLDM_RBLEAF \<Longrightarrow> is_thread n d"
  by (cases d) (simp_all add: is_thread_def dir_bit_def CLDM_RBLEAF_def)

lemma is_thread_more [simp]: "is_thread (with_link d x n) e = is_thread n e" "is_thread (n\<lparr>rb_color := c\<rparr>) e = is_thread n e"
  by (simp_all add: is_thread_def with_link_def)

lemma link_more [simp]: "link (n\<lparr>rb_flags := f\<rparr>) e = link n e" "link (n\<lparr>rb_color := c\<rparr>) e = link n e"
  "link (with_link d x n) e = (if d = e then x else link n e)"
  by (auto simp: link_def with_link_def)

lemma lk_put [simp]:
  "lk (put_lk a d x h) y e = (if a = y \<and> d = e then x else lk h y e)" "lk (put_col a c h) y e = lk h y e"
  "lk (put_th a d b h) y e = lk h y e" "lk (put_leaf a h) y e = lk h y e"
  by (simp_all add: lk_def put_defs)

lemma th_put [simp]:
  "th (put_lk a d x h) y e = th h y e" "th (put_col a c h) y e = th h y e"
  "th (put_th a d b h) y e = (if a = y \<and> d = e then b else th h y e)" "th (put_leaf a h) y e = (a = y \<or> th h y e)"
  by (simp_all add: th_def put_defs is_thread_or is_thread_and is_thread_leaf)

lemma col_put [simp]:
  "col (put_lk a d x h) y = col h y" "col (put_col a c h) y = (if a = y then c else col h y)"
  "col (put_th a d b h) y = col h y" "col (put_leaf a h) y = col h y"
  by (simp_all add: col_def put_defs with_link_def)

section \<open>The operations on a heap that has the nodes\<close>

lemma heap_bind: "a \<in> dom h \<Longrightarrow> Option.bind (h a) f = f (the (h a))"
  by auto

lemma link_the: "link (the (h a)) d = lk h a d" "is_thread (the (h a)) d = th h a d" "rb_color (the (h a)) = col h a"
  by (simp_all add: lk_def th_def col_def)

lemma rb_left_the: "rb_left (the (h a)) = lk h a False" "rb_right (the (h a)) = lk h a True"
  by (simp_all add: lk_def link_def)

lemma rb_ops [simp]:
  assumes "a \<in> dom h"
  shows "set_link h a d x = Some (put_lk a d x h)"
    and "cldm_rbnode_make_red h a = Some (put_col a cldm_rbcolor_red h)"
    and "cldm_rbnode_make_black h a = Some (put_col a cldm_rbcolor_black h)"
    and "cldm_rbnode_set_thread h a d = Some (put_th a d True h)"
    and "cldm_rbnode_unset_thread h a d = Some (put_th a d False h)"
    and "cldm_rbnode_make_leaf h a = Some (put_leaf a h)"
    and "cldm_rbnode_is_red h a = Some (col h a = cldm_rbcolor_red)"
    and "cldm_rbnode_is_thread h a d = Some (th h a d)"
    and "cldm_rbroot h a = Some (lk h a False)"
  using assms by (auto simp: set_link_def rb_upd_def put_defs cldm_rbnode_make_red_def cldm_rbnode_make_black_def
      cldm_rbnode_set_thread_def cldm_rbnode_unset_thread_def cldm_rbnode_make_leaf_def cldm_rbnode_is_red_def col_def
      cldm_rbnode_is_thread_def th_def cldm_rbroot_def lk_def link_def)

lemma is_red_safe_dom:
  assumes "a \<in> dom h" and "\<not> th h a d \<Longrightarrow> lk h a d \<in> dom h"
  shows "cldm_rbnode_is_red_safe h a d = Some (\<not> th h a d \<and> col h (lk h a d) = cldm_rbcolor_red)"
  using assms by (simp add: cldm_rbnode_is_red_safe_def heap_bind link_the)

lemma rotate_single_dom:
  assumes "root \<in> dom h" and "lk h root (\<not> dir) \<in> dom h"
  shows "cldm_rbtree_rotate_single h root dir =
    Some (lk h root (\<not> dir),
      put_col (lk h root (\<not> dir)) cldm_rbcolor_black (put_col root cldm_rbcolor_red
        (put_lk (lk h root (\<not> dir)) dir root
          (if th h (lk h root (\<not> dir)) dir
           then put_th (lk h root (\<not> dir)) dir False (put_th root (\<not> dir) True h)
           else put_lk root (\<not> dir) (lk h (lk h root (\<not> dir)) dir) h))))"
  using assms by (auto simp: cldm_rbtree_rotate_single_def heap_bind link_the Let_def)

section \<open>Trees\<close>

text \<open>A node with its colour, its address and the subtree on each side.\<close>

datatype rtree = Lf | Nd cldm_rbcolor addr "cldm_rbdir \<Rightarrow> rtree"

primrec inorder :: "rtree \<Rightarrow> addr list" where
  "inorder Lf = []"
| "inorder (Nd c a f) = inorder (f False) @ a # inorder (f True)"

abbreviation nodes :: "rtree \<Rightarrow> addr set" where "nodes t \<equiv> set (inorder t)"

text \<open>
  \<open>sub h t x d b\<close>: the link of \<open>x\<close> in direction \<open>d\<close> is the tree \<open>t\<close>, whose outermost threads lead to
  \<open>b False\<close> and \<open>b True\<close>.
\<close>

primrec sub :: "rbheap \<Rightarrow> rtree \<Rightarrow> addr \<Rightarrow> cldm_rbdir \<Rightarrow> (cldm_rbdir \<Rightarrow> addr) \<Rightarrow> bool" where
  "sub h Lf x d b \<longleftrightarrow> x \<in> dom h \<and> th h x d \<and> lk h x d = b d"
| "sub h (Nd c a f) x d b \<longleftrightarrow> x \<in> dom h \<and> \<not> th h x d \<and> lk h x d = a \<and> a \<in> dom h \<and> col h a = c \<and>
     (\<forall>e. sub h (f e) a e (b(\<not> e := a)))"

lemma all_dir: "(\<forall>e. P e) \<longleftrightarrow> P d \<and> P (\<not> d)" for d :: bool
  by (cases d) (auto simp: all_bool_eq)

lemma nodes_Nd: "nodes (Nd c a f) = insert a (nodes (f d) \<union> nodes (f (\<not> d)))"
  by (cases d) auto

lemma sub_cong:
  assumes "\<And>a. a \<in> nodes t \<Longrightarrow> h' a = h a" and "x \<in> dom h'" and "lk h' x d = lk h x d" and "th h' x d = th h x d"
    and "sub h t x d b"
  shows "sub h' t x d b"
  using assms
proof (induction t arbitrary: x d b)
  case Lf
  then show ?case by simp
next
  case (Nd c a f)
  have a: "h' a = h a" using Nd.prems(1) by simp
  have "sub h' (f e) a e (b(\<not> e := a))" for e
  proof (rule Nd.IH)
    show "f e \<in> range f" by simp
    show "h' y = h y" if "y \<in> nodes (f e)" for y using Nd.prems(1) that by (cases e) auto
    show "a \<in> dom h'" "lk h' a e = lk h a e" "th h' a e = th h a e" using a Nd.prems(5) by (auto simp: lk_def th_def)
    show "sub h (f e) a e (b(\<not> e := a))" using Nd.prems(5) by simp
  qed
  then show ?case using Nd.prems a by (auto simp: col_def)
qed

lemma sub_dom: "sub h t x d b \<Longrightarrow> nodes t \<subseteq> dom h"
proof (induction t arbitrary: x d b)
  case Lf
  then show ?case by simp
next
  case (Nd c a f)
  then have "nodes (f e) \<subseteq> dom h" for e by (metis rangeI sub.simps(2))
  from this [of False] this [of True] Nd.prems show ?case by auto
qed


text \<open>A subtree at another place: its root keeps its links.\<close>

lemma sub_move:
  assumes "sub h t y e b" and "\<And>a. a \<in> nodes t \<Longrightarrow> h' a = h a" and "x \<in> dom h'" and "th h' x d = th h y e"
    and "if th h y e then lk h' x d = b d else lk h' x d = lk h y e"
  shows "sub h' t x d b"
proof (cases t)
  case Lf
  then show ?thesis using assms by simp
next
  case (Nd c a f)
  have "sub h' (f i) a i (b(\<not> i := a))" for i
  proof (rule sub_cong)
    show "h' z = h z" if "z \<in> nodes (f i)" for z using assms(2) that Nd by (cases i) auto
    show "sub h (f i) a i (b(\<not> i := a))" using assms(1) Nd by simp
  qed (use assms Nd in \<open>auto simp: lk_def th_def\<close>)
  then show ?thesis using assms Nd by (auto simp: col_def)
qed

lemma rotate_single_sub:
  assumes t: "sub h (Nd c a f) x d b" and n: "f (\<not> r) = Nd c' n g" and dist: "distinct (inorder (Nd c a f))"
    and x: "x \<notin> nodes (Nd c a f)"
  shows "\<exists>h'. cldm_rbtree_rotate_single h a r = Some (n, h') \<and>
    sub (put_lk x d n h') (Nd cldm_rbcolor_black n (g(r := Nd cldm_rbcolor_red a (f(\<not> r := g r))))) x d b \<and>
    (\<forall>y. y \<noteq> a \<and> y \<noteq> n \<longrightarrow> h' y = h y) \<and> dom h' = dom h"
proof -
  from t have a: "x \<in> dom h" "\<not> th h x d" "lk h x d = a" "a \<in> dom h"
    and fr: "sub h (f r) a r (b(\<not> r := a))" and "sub h (f (\<not> r)) a (\<not> r) (b(r := a))"
    by (simp_all add: all_dir [of _ r])
  with n have n': "\<not> th h a (\<not> r)" "lk h a (\<not> r) = n" "n \<in> dom h"
    and gr: "sub h (g r) n r (b(r := a, \<not> r := n))" and gl: "sub h (g (\<not> r)) n (\<not> r) (b(r := n))"
    by (simp_all add: all_dir [of _ r])
  from dist n have d: "a \<noteq> n" "a \<notin> nodes (g r)" "a \<notin> nodes (g (\<not> r))" "n \<notin> nodes (g r)" "n \<notin> nodes (g (\<not> r))"
      "a \<notin> nodes (f r)" "n \<notin> nodes (f r)" by (cases r; force)+
  from x n have xa: "x \<noteq> a" "x \<noteq> n" "x \<notin> nodes (f r)" "x \<notin> nodes (g r)" "x \<notin> nodes (g (\<not> r))" by (cases r; force)+
  obtain h' where h': "h' = put_col n cldm_rbcolor_black (put_col a cldm_rbcolor_red (put_lk n r a
        (if th h n r then put_th n r False (put_th a (\<not> r) True h) else put_lk a (\<not> r) (lk h n r) h)))" by blast
  have rot: "cldm_rbtree_rotate_single h a r = Some (n, h')" using a n' by (simp add: rotate_single_dom h')
  have other: "\<forall>y. y \<noteq> a \<and> y \<noteq> n \<longrightarrow> h' y = h y" by (simp add: h')
  have dom: "dom h' = dom h" using a n' by (auto simp: h')
  let ?h = "put_lk x d n h'"
  have dom': "a \<in> dom ?h" "n \<in> dom ?h" "x \<in> dom ?h" using a(4) n'(3) dom by auto
  have acc: "lk ?h a r = lk h a r" "th ?h a r = th h a r" "th ?h a (\<not> r) = th h n r"
      "lk ?h a (\<not> r) = (if th h n r then n else lk h n r)" "col ?h a = cldm_rbcolor_red"
      "lk ?h n (\<not> r) = lk h n (\<not> r)" "th ?h n (\<not> r) = th h n (\<not> r)" "lk ?h n r = a" "\<not> th ?h n r"
      "col ?h n = cldm_rbcolor_black" "lk ?h x d = n" "\<not> th ?h x d"
    using d(1) xa(1,2) a n' by (simp_all add: h')
  have agree: "?h y = h y" if "y \<in> nodes (f r) \<union> nodes (g r) \<union> nodes (g (\<not> r))" for y
  proof -
    have "y \<noteq> a" "y \<noteq> n" "y \<noteq> x" using that d xa by blast+
    then show ?thesis using other by simp
  qed
  have "sub ?h (f r) a r (b(\<not> r := a))"
    by (rule sub_cong [OF _ _ _ _ fr]) (use agree dom' acc in simp_all)
  moreover have "sub ?h (g r) a (\<not> r) (b(r := a, \<not> r := n))"
    by (rule sub_move [OF gr]) (use agree dom' acc in simp_all)
  moreover have "sub ?h (g (\<not> r)) n (\<not> r) (b(r := n))"
    by (rule sub_cong [OF _ _ _ _ gl]) (use agree dom' acc in simp_all)
  ultimately have "sub ?h (Nd cldm_rbcolor_black n (g(r := Nd cldm_rbcolor_red a (f(\<not> r := g r))))) x d b"
    using acc dom' by (simp add: all_dir [of _ r] fun_upd_twist del: put_dom)
  then show ?thesis using rot other dom by blast
qed

end
