(* ===== verification/Rbtree_Balance.thy ===== *)
theory Rbtree_Balance
  imports Rbtree_Heap
begin

text \<open>
  Trees with a hole in the heap of a threaded tree, and the rebalancing of an insertion in such a
  context: the flip of colours, the single and the double rotation.
\<close>

section \<open>Contexts\<close>

text \<open>
  A context is a tree with a hole: the frames from the hole up to the root, each with the direction
  taken, the colour and the address of the node, and the subtree on the other side. The hole is the
  link \<open>hole_dir C\<close> of the node \<open>hole_at s C\<close>; \<open>bounds s C\<close> are the neighbours of the hole in order.
\<close>

type_synonym frame = "cldm_rbdir \<times> cldm_rbcolor \<times> addr \<times> rtree"

fun hole_at :: "addr \<Rightarrow> frame list \<Rightarrow> addr" where
  "hole_at s [] = s"
| "hole_at s ((e, c, a, t) # C) = a"

fun hole_dir :: "frame list \<Rightarrow> cldm_rbdir" where
  "hole_dir [] = cldm_rbdir_left"
| "hole_dir ((e, c, a, t) # C) = e"

fun bounds :: "addr \<Rightarrow> frame list \<Rightarrow> cldm_rbdir \<Rightarrow> addr" where
  "bounds s [] = (\<lambda>_. s)"
| "bounds s ((e, c, a, t) # C) = (bounds s C)(\<not> e := a)"

definition node2 :: "cldm_rbdir \<Rightarrow> cldm_rbcolor \<Rightarrow> addr \<Rightarrow> rtree \<Rightarrow> rtree \<Rightarrow> rtree" where
  "node2 e c a t sib = Nd c a ((\<lambda>_. sib)(e := t))"

fun plug :: "frame list \<Rightarrow> rtree \<Rightarrow> rtree" where
  "plug [] t = t"
| "plug ((e, c, a, sib) # C) t = plug C (node2 e c a t sib)"

lemma node2_Nd: "node2 e c a (f e) (f (\<not> e)) = Nd c a f"
  by (auto simp: node2_def fun_eq_iff)

fun holds :: "rbheap \<Rightarrow> addr \<Rightarrow> frame list \<Rightarrow> bool" where
  "holds h s [] \<longleftrightarrow> s \<in> dom h \<and> col h s = cldm_rbcolor_black \<and> lk h s True = s \<and> th h s True"
| "holds h s ((e, c, a, t) # C) \<longleftrightarrow> holds h s C \<and> \<not> th h (hole_at s C) (hole_dir C) \<and>
     lk h (hole_at s C) (hole_dir C) = a \<and> a \<in> dom h \<and> col h a = c \<and>
     sub h t a (\<not> e) ((bounds s C)(e := a))"

text \<open>The heap is the context with the tree in its hole.\<close>

definition heap_at :: "rbheap \<Rightarrow> addr \<Rightarrow> frame list \<Rightarrow> rtree \<Rightarrow> bool" where
  "heap_at h s C t \<longleftrightarrow> holds h s C \<and> sub h t (hole_at s C) (hole_dir C) (bounds s C)"

lemma holds_hole: "holds h s C \<Longrightarrow> hole_at s C \<in> dom h"
  by (cases C) auto

lemma heap_at_node2: "heap_at h s C (node2 e c a t sib) \<longleftrightarrow> heap_at h s ((e, c, a, sib) # C) t"
  unfolding heap_at_def node2_def using holds_hole [of h s C] by (auto simp: all_dir [of _ e])

lemma heap_at_down: "heap_at h s C (Nd c a f) \<longleftrightarrow> heap_at h s ((e, c, a, f (\<not> e)) # C) (f e)"
  using heap_at_node2 [of h s C e c a "f e" "f (\<not> e)"] by (simp add: node2_Nd)

lemma heap_at_plug: "heap_at h s C t \<longleftrightarrow> heap_at h s [] (plug C t)"
proof (induction C arbitrary: t)
  case Nil
  then show ?case by simp
next
  case (Cons F C)
  then show ?case by (cases F) (simp add: heap_at_node2 [symmetric])
qed

subsection \<open>The order of the nodes\<close>

fun lefts :: "frame list \<Rightarrow> addr list" where
  "lefts [] = []"
| "lefts ((e, c, a, t) # C) = (if e then lefts C @ inorder t @ [a] else lefts C)"

fun rights :: "frame list \<Rightarrow> addr list" where
  "rights [] = []"
| "rights ((e, c, a, t) # C) = (if e then rights C else a # inorder t @ rights C)"

abbreviation cnodes :: "frame list \<Rightarrow> addr set" where "cnodes C \<equiv> set (lefts C) \<union> set (rights C)"

lemma inorder_node2: "inorder (node2 e c a t sib) = (if e then inorder sib @ a # inorder t else inorder t @ a # inorder sib)"
  by (simp add: node2_def)

lemma inorder_plug: "inorder (plug C t) = lefts C @ inorder t @ rights C"
proof (induction C arbitrary: t)
  case Nil
  then show ?case by simp
next
  case (Cons F C)
  then show ?case by (cases F) (simp add: inorder_node2)
qed

lemma cnodes_Cons: "cnodes ((e, c, a, t) # C) = insert a (nodes t \<union> cnodes C)"
  by (cases e) auto

lemma hole_at_cnodes: "hole_at s C \<in> insert s (cnodes C)"
  by (cases C) auto

subsection \<open>Changes inside the hole\<close>

lemma holds_agree:
  assumes "holds h s C" and "\<And>y. y \<in> insert s (cnodes C) \<Longrightarrow> h' y = h y"
  shows "holds h' s C"
  using assms
proof (induction C)
  case Nil
  then show ?case by (simp add: domIff col_def lk_def th_def)
next
  case (Cons F C)
  obtain e c a t where F: "F = (e, c, a, t)" by (cases F) auto
  have h: "h' y = h y" if "y \<in> insert s (insert a (nodes t \<union> cnodes C))" for y
    using Cons.prems(2) that by (auto simp: F split: if_splits)
  have "holds h' s C" using Cons.IH Cons.prems(1) h by (auto simp: F)
  moreover have "h' (hole_at s C) = h (hole_at s C)" using h hole_at_cnodes [of s C] by blast
  moreover have "h' a = h a" using h by simp
  moreover have "sub h' t a (\<not> e) ((bounds s C)(e := a))"
    by (rule sub_cong [of _ _ h]) (use Cons.prems(1) h in \<open>auto simp: F lk_def th_def\<close>)
  ultimately show ?case using Cons.prems(1) by (auto simp: F lk_def th_def col_def)
qed

lemma holds_cong:
  assumes "holds h s C" and "\<And>y. y \<in> insert s (cnodes C) - {hole_at s C} \<Longrightarrow> h' y = h y"
    and "hole_at s C \<in> dom h'" and "col h' (hole_at s C) = col h (hole_at s C)"
    and "lk h' (hole_at s C) (\<not> hole_dir C) = lk h (hole_at s C) (\<not> hole_dir C)"
    and "th h' (hole_at s C) (\<not> hole_dir C) = th h (hole_at s C) (\<not> hole_dir C)"
    and "distinct (s # lefts C @ rights C)"
  shows "holds h' s C"
proof (cases C)
  case Nil
  then show ?thesis using assms by simp
next
  case (Cons F C')
  obtain e c a t where F: "F = (e, c, a, t)" by (cases F) auto
  have d: "a \<notin> insert s (cnodes C')" "a \<notin> nodes t" using assms(7) by (auto simp: Cons F split: if_splits)
  have h: "h' y = h y" if "y \<in> insert s (cnodes C') \<union> nodes t" for y
  proof -
    have "y \<noteq> a" using that d by blast
    moreover have "y \<in> insert s (cnodes C)" using that by (simp only: Cons F cnodes_Cons) blast
    ultimately show ?thesis using assms(2) by (simp add: Cons F)
  qed
  have "holds h' s C'" using holds_agree [of h s C' h'] assms(1) h by (auto simp: Cons F)
  moreover have "h' (hole_at s C') = h (hole_at s C')" using h hole_at_cnodes [of s C'] by blast
  moreover have "sub h' t a (\<not> e) ((bounds s C')(e := a))"
    by (rule sub_cong [of _ _ h]) (use assms h in \<open>auto simp: Cons F\<close>)
  ultimately show ?thesis using assms(1,3,4) by (auto simp: Cons F lk_def th_def col_def)
qed


lemma heap_at_replace:
  assumes "heap_at h s C t" and "distinct (s # inorder (plug C t))"
    and "\<And>y. y \<in> insert s (cnodes C) \<Longrightarrow> y \<notin> nodes t \<Longrightarrow> y \<noteq> hole_at s C \<Longrightarrow> h' y = h y"
    and "hole_at s C \<in> dom h'" and "col h' (hole_at s C) = col h (hole_at s C)"
    and "lk h' (hole_at s C) (\<not> hole_dir C) = lk h (hole_at s C) (\<not> hole_dir C)"
    and "th h' (hole_at s C) (\<not> hole_dir C) = th h (hole_at s C) (\<not> hole_dir C)"
    and "sub h' t' (hole_at s C) (hole_dir C) (bounds s C)"
  shows "heap_at h' s C t'"
proof -
  have "holds h' s C"
  proof (rule holds_cong)
    show "holds h s C" using assms(1) by (simp add: heap_at_def)
    show "h' y = h y" if "y \<in> insert s (cnodes C) - {hole_at s C}" for y
      using assms(2,3) that by (auto simp: inorder_plug)
    show "distinct (s # lefts C @ rights C)" using assms(2) by (auto simp: inorder_plug)
  qed (use assms in auto)
  then show ?thesis using assms(8) by (simp add: heap_at_def)
qed

lemma heap_at_paint:
  assumes "heap_at h s C (Nd c a f)" and "distinct (s # inorder (plug C (Nd c a f)))"
  shows "heap_at (put_col a c' h) s C (Nd c' a f)"
proof -
  have x: "hole_at s C \<noteq> a" using assms(2) hole_at_cnodes [of s C] by (auto simp: inorder_plug)
  have sub: "hole_at s C \<in> dom h" "\<not> th h (hole_at s C) (hole_dir C)" "lk h (hole_at s C) (hole_dir C) = a" "a \<in> dom h"
    and kids: "\<And>e. sub h (f e) a e ((bounds s C)(\<not> e := a))"
    using assms(1) by (auto simp: heap_at_def)
  have a: "a \<notin> nodes (f e)" for e using assms(2) by (cases e) (auto simp: inorder_plug)
  have "sub (put_col a c' h) (f e) a e ((bounds s C)(\<not> e := a))" for e
  proof (rule sub_cong [OF _ _ _ _ kids])
    show "put_col a c' h y = h y" if "y \<in> nodes (f e)" for y using a [of e] that by (metis put_other(2))
  qed simp_all
  with sub x have "sub (put_col a c' h) (Nd c' a f) (hole_at s C) (hole_dir C) (bounds s C)" by auto
  then show ?thesis by (rule heap_at_replace [OF assms, rotated -1]) (use sub x in auto)
qed

text \<open>The link of a node that does not lead into the hole.\<close>

lemma bounds_cnodes: "bounds s C e \<in> insert s (cnodes C)"
  by (induction C rule: list.induct) (auto split: prod.splits)

lemma hole_dir_test:
  assumes "holds h s C" and "lk h (hole_at s C) (hole_dir C) = n" and "n \<notin> insert s (cnodes C)"
  shows "(lk h (hole_at s C) True = n) = hole_dir C"
proof (cases C)
  case Nil
  then show ?thesis using assms by auto
next
  case (Cons F C')
  obtain e c a t where F: "F = (e, c, a, t)" by (cases F) auto
  have "lk h a (\<not> e) \<noteq> n"
  proof (cases t)
    case Lf
    have "bounds s C' (\<not> e) \<in> insert s (cnodes C')" by (rule bounds_cnodes)
    with Lf assms show ?thesis by (cases e) (auto simp: Cons F)
  next
    case (Nd c' b f)
    then show ?thesis using assms by (cases e) (auto simp: Cons F)
  qed
  then show ?thesis using assms(2) by (cases e) (auto simp: Cons F)
qed


section \<open>Rebalancing an insertion\<close>

abbreviation "black \<equiv> cldm_rbcolor_black"
abbreviation "red \<equiv> cldm_rbcolor_red"

text \<open>The second half of \<open>cldm_rbtree_balance_insertion\<close>, which rotates.\<close>

definition balance_up :: "rbheap \<Rightarrow> addr \<Rightarrow> addr \<Rightarrow> addr \<Rightarrow> addr \<Rightarrow> rbheap option" where
  "balance_up h n p gp ggp =
     do { is_red \<leftarrow> cldm_rbnode_is_red h p;
          if is_red
          then do {
            h \<leftarrow> cldm_rbnode_make_red h gp;
            pn \<leftarrow> h p; gpn \<leftarrow> h gp; ggpn \<leftarrow> h ggp;
            let pdir = (rb_right pn = n);
            let gpdir = (rb_right gpn = p);
            let ggpdir = (rb_right ggpn = gp);
            if pdir \<noteq> gpdir
            then do { (x, h) \<leftarrow> cldm_rbtree_rotate_double h gp (\<not> gpdir);
                      h \<leftarrow> set_link h ggp ggpdir x;
                      cldm_rbnode_make_black h n }
            else do { (x, h) \<leftarrow> cldm_rbtree_rotate_single h gp (\<not> gpdir);
                      h \<leftarrow> set_link h ggp ggpdir x;
                      cldm_rbnode_make_black h p } }
          else Some h }"

lemma heap_at_rotate_single:
  assumes "heap_at h s C (Nd c a f)" and "f (\<not> r) = Nd c' n g" and "distinct (s # inorder (plug C (Nd c a f)))"
  shows "\<exists>h'. cldm_rbtree_rotate_single h a r = Some (n, h') \<and> dom h' = dom h \<and>
    heap_at (put_lk (hole_at s C) (hole_dir C) n h') s C (Nd black n (g(r := Nd red a (f(\<not> r := g r))))) \<and>
    (\<forall>y. y \<notin> nodes (Nd c a f) \<longrightarrow> h' y = h y)"
proof -
  let ?x = "hole_at s C" and ?d = "hole_dir C"
  have x: "?x \<notin> nodes (Nd c a f)" using assms(3) hole_at_cnodes [of s C] by (auto simp: inorder_plug)
  have "distinct (inorder (Nd c a f))" using assms(3) by (auto simp: inorder_plug)
  moreover have "sub h (Nd c a f) ?x ?d (bounds s C)" using assms(1) by (simp add: heap_at_def)
  ultimately obtain h' where h': "cldm_rbtree_rotate_single h a r = Some (n, h')"
      "sub (put_lk ?x ?d n h') (Nd black n (g(r := Nd red a (f(\<not> r := g r))))) ?x ?d (bounds s C)"
      "\<forall>y. y \<noteq> a \<and> y \<noteq> n \<longrightarrow> h' y = h y" "dom h' = dom h"
    using rotate_single_sub [OF _ assms(2) _ x] by blast
  have n: "n \<in> nodes (Nd c a f)" using assms(2) by (cases r) auto
  have "?x \<noteq> a" "?x \<noteq> n" using x n by auto
  then have hx: "h' ?x = h ?x" using h'(3) by simp
  have dom: "?x \<in> dom h" using assms(1) by (simp add: heap_at_def)
  have "heap_at (put_lk ?x ?d n h') s C (Nd black n (g(r := Nd red a (f(\<not> r := g r)))))"
  proof (rule heap_at_replace [OF assms(1,3)])
    show "put_lk ?x ?d n h' y = h y" if "y \<notin> nodes (Nd c a f)" "y \<noteq> ?x" for y
    proof -
      have "y \<noteq> a" "y \<noteq> n" using that(1) n by auto
      then show ?thesis using that(2) h'(3) by simp
    qed
    show "col (put_lk ?x ?d n h') ?x = col h ?x" by (simp only: col_put) (simp add: col_def hx)
    show "lk (put_lk ?x ?d n h') ?x (\<not> ?d) = lk h ?x (\<not> ?d)" by (simp only: lk_put) (simp add: lk_def hx)
    show "th (put_lk ?x ?d n h') ?x (\<not> ?d) = th h ?x (\<not> ?d)" by (simp only: th_put) (simp add: th_def hx)
  qed (use h' in simp_all)
  moreover have "\<forall>y. y \<notin> nodes (Nd c a f) \<longrightarrow> h' y = h y"
  proof (intro allI impI)
    fix y
    assume y: "y \<notin> nodes (Nd c a f)"
    have "y \<noteq> n" using y n by blast
    moreover have "y \<noteq> a" using y by auto
    ultimately show "h' y = h y" using h'(3) by blast
  qed
  ultimately show ?thesis using h' by blast
qed


text \<open>A double rotation: the first one is one level further down.\<close>

lemma heap_at_rotate_double:
  assumes t: "heap_at h s C (Nd c a f)" and p: "f (\<not> r) = Nd red p g" and n: "g r = Nd red n k"
    and dist: "distinct (s # inorder (plug C (Nd c a f)))"
  shows "\<exists>h'. cldm_rbtree_rotate_double h a r = Some (n, h') \<and> dom h' = dom h \<and> (\<forall>y. y \<notin> nodes (Nd c a f) \<longrightarrow> h' y = h y) \<and>
    heap_at (put_lk (hole_at s C) (hole_dir C) n h') s C
      (Nd black n (k(r := Nd red a (f(\<not> r := k r)), \<not> r := Nd red p (g(r := k (\<not> r))))))"
proof -
  let ?C = "(\<not> r, c, a, f r) # C"
  have "heap_at h s ?C (Nd red p g)" using t p heap_at_down [of h s C c a f "\<not> r"] by simp
  moreover have "g (\<not> \<not> r) = Nd red n k" using n by simp
  moreover have eq: "plug ?C (Nd red p g) = plug C (Nd c a f)" using p node2_Nd [of "\<not> r" c a f] by simp
  ultimately obtain h1 where h1: "cldm_rbtree_rotate_single h p (\<not> r) = Some (n, h1)" "dom h1 = dom h"
      "\<And>y. y \<notin> nodes (Nd red p g) \<Longrightarrow> h1 y = h y"
    and t1: "heap_at (put_lk a (\<not> r) n h1) s ?C (Nd black n (k(\<not> r := Nd red p (g(r := k (\<not> r))))))"
    using heap_at_rotate_single [of h s ?C red p g "\<not> r" red n k] dist by fastforce
  let ?h = "put_lk a (\<not> r) n h1" and ?k = "k(\<not> r := Nd red p (g(r := k (\<not> r))))"
  let ?f = "f(\<not> r := Nd black n ?k)"
  have t2: "heap_at ?h s C (Nd c a ?f)" using t1 heap_at_down [of ?h s C c a ?f "\<not> r"] by simp
  have same: "inorder (Nd c a ?f) = inorder (Nd c a f)" using p n by (cases r) simp_all
  have "distinct (s # inorder (plug C (Nd c a ?f)))" using dist unfolding inorder_plug same .
  from heap_at_rotate_single [OF t2 _ this, of r black n ?k] obtain h' where
    h': "cldm_rbtree_rotate_single ?h a r = Some (n, h')" "dom h' = dom ?h"
      "\<And>y. y \<notin> nodes (Nd c a ?f) \<Longrightarrow> h' y = ?h y"
    and t': "heap_at (put_lk (hole_at s C) (hole_dir C) n h') s C (Nd black n (?k(r := Nd red a (?f(\<not> r := ?k r)))))"
    by auto
  have a: "a \<in> dom h" "lk h a (\<not> r) = p" using t p by (auto simp: heap_at_def all_dir [of _ r])
  have "cldm_rbtree_rotate_double h a r = Some (n, h')"
    using a h1 h'(1) by (simp add: cldm_rbtree_rotate_double_def heap_bind link_the Let_def)
  moreover have "dom h' = dom h" using h'(2) h1(2) a by auto
  moreover have "\<forall>y. y \<notin> nodes (Nd c a f) \<longrightarrow> h' y = h y"
  proof (intro allI impI)
    fix y
    assume y: "y \<notin> nodes (Nd c a f)"
    then have "y \<notin> nodes (Nd red p g)" "y \<noteq> a" using p by (cases r; auto)+
    moreover have "y \<notin> nodes (Nd c a ?f)" using y unfolding same .
    ultimately show "h' y = h y" using h'(3) h1(3) by simp
  qed
  moreover have "?k(r := Nd red a (?f(\<not> r := ?k r))) =
      k(r := Nd red a (f(\<not> r := k r)), \<not> r := Nd red p (g(r := k (\<not> r))))" by (auto simp: fun_eq_iff)
  ultimately show ?thesis using t' by metis
qed


definition rotated ::
  "cldm_rbdir \<Rightarrow> cldm_rbdir \<Rightarrow> addr \<Rightarrow> rtree \<Rightarrow> addr \<Rightarrow> rtree \<Rightarrow> addr \<Rightarrow> (cldm_rbdir \<Rightarrow> rtree) \<Rightarrow> rtree" where
  "rotated e1 e2 p s1 gp s2 n f =
     (if e1 = e2 then node2 e2 black p (Nd red n f) (node2 e2 red gp s1 s2)
      else node2 e2 black n (node2 e2 red p s1 (f e2)) (node2 e2 red gp (f (\<not> e2)) s2))"

lemma hole_dir_root:
  assumes "heap_at h s C (Nd c n f)" and "distinct (s # inorder (plug C (Nd c n f)))"
  shows "hole_at s C \<in> dom h" "(rb_right (the (h (hole_at s C))) = n) = hole_dir C" "n \<in> dom h"
proof -
  have "n \<notin> insert s (cnodes C)" using assms(2) by (auto simp: inorder_plug)
  then show "hole_at s C \<in> dom h" "(rb_right (the (h (hole_at s C))) = n) = hole_dir C" "n \<in> dom h"
    using hole_dir_test [of h s C n] assms(1) by (auto simp: heap_at_def rb_left_the)
qed

lemma balance_up_rotate:
  assumes t: "heap_at h s ((e1, red, p, s1) # (e2, c2, gp, s2) # C) (Nd red n f)"
    and dist: "distinct (s # inorder (plug ((e1, red, p, s1) # (e2, c2, gp, s2) # C) (Nd red n f)))"
    and ggp: "ggp = hole_at s C"
  shows "\<exists>h'. balance_up h n p gp ggp = Some h' \<and> dom h' = dom h \<and> heap_at h' s C (rotated e1 e2 p s1 gp s2 n f)"
proof -
  let ?P = "node2 e1 red p (Nd red n f) s1"
  let ?G = "(\<lambda>_. s1)(e1 := Nd red n f)" and ?F = "(\<lambda>_. s2)(e2 := ?P)" and ?r = "\<not> e2"
  let ?h = "put_col gp red h"
  have tp: "heap_at h s ((e2, c2, gp, s2) # C) ?P" and tg: "heap_at h s C (Nd c2 gp ?F)"
    using t by (simp_all add: heap_at_node2 [symmetric]) (simp add: node2_def)
  have dp: "distinct (s # inorder (plug ((e2, c2, gp, s2) # C) ?P))" and dg: "distinct (s # inorder (plug C (Nd c2 gp ?F)))"
    using dist by (simp_all add: node2_def)
  have dirs: "p \<in> dom h" "(rb_right (the (h p)) = n) = e1" "gp \<in> dom h" "(rb_right (the (h gp)) = p) = e2"
      "ggp \<in> dom h" "(rb_right (the (h ggp)) = gp) = hole_dir C"
    using hole_dir_root [OF t dist] hole_dir_root [of h s "(e2, c2, gp, s2) # C" red p ?G] hole_dir_root [OF tg dg] tp dp ggp
    by (simp_all add: node2_def)
  have colp: "col h p = red" using t by (simp add: heap_at_def)
  have tr: "heap_at ?h s C (Nd red gp ?F)" by (rule heap_at_paint [OF tg dg])
  have dr: "distinct (s # inorder (plug C (Nd red gp ?F)))" using dg by (simp add: inorder_plug)
  have n: "n \<in> dom h" by (rule hole_dir_root(3) [OF t dist])
  have reads: "p \<in> dom ?h" "gp \<in> dom ?h" "ggp \<in> dom ?h" "(rb_right (the (?h p)) = n) = e1" "(rb_right (the (?h gp)) = p) = e2"
      "(rb_right (the (?h ggp)) = gp) = hole_dir C" "col h p = red"
    using dirs colp by (simp_all add: rb_left_the)
  have right: "(rb_right (the (?h p)) = n) = e1" "(rb_right (the (?h gp)) = p) = e2"
    using reads by simp_all
  show ?thesis
  proof (cases "e1 = e2")
    case True
    have "?F (\<not> ?r) = Nd red p ?G" by (simp add: node2_def)
    from heap_at_rotate_single [OF tr this dr] obtain h1 where
      h1: "cldm_rbtree_rotate_single ?h gp ?r = Some (p, h1)" "dom h1 = dom ?h"
      and t1: "heap_at (put_lk ggp (hole_dir C) p h1) s C (Nd black p (?G(?r := Nd red gp (?F(\<not> ?r := ?G ?r)))))"
      unfolding ggp by blast
    have T: "Nd black p (?G(?r := Nd red gp (?F(\<not> ?r := ?G ?r)))) = rotated e1 e2 p s1 gp s2 n f"
      using True by (auto simp: rotated_def node2_def fun_eq_iff)
    let ?h' = "put_col p black (put_lk ggp (hole_dir C) p h1)"
    have "balance_up h n p gp ggp = Some ?h'"
      using reads right h1 dirs True by (simp add: balance_up_def heap_bind Let_def)
    moreover have "heap_at ?h' s C (Nd black p (?G(?r := Nd red gp (?F(\<not> ?r := ?G ?r)))))"
      by (rule heap_at_paint [OF t1]) (use dr True in \<open>cases e2; simp add: inorder_plug node2_def\<close>)
    moreover have "dom ?h' = dom h" using h1(2) dirs by auto
    ultimately show ?thesis unfolding T by blast
  next
    case False
    have "?F (\<not> ?r) = Nd red p ?G" "?G ?r = Nd red n f" using False by (auto simp: node2_def)
    from heap_at_rotate_double [OF tr this dr] obtain h1 where
      h1: "cldm_rbtree_rotate_double ?h gp ?r = Some (n, h1)" "dom h1 = dom ?h"
      and t1: "heap_at (put_lk ggp (hole_dir C) n h1) s C
        (Nd black n (f(?r := Nd red gp (?F(\<not> ?r := f ?r)), \<not> ?r := Nd red p (?G(?r := f (\<not> ?r))))))"
      unfolding ggp by blast
    have T: "Nd black n (f(?r := Nd red gp (?F(\<not> ?r := f ?r)), \<not> ?r := Nd red p (?G(?r := f (\<not> ?r))))) =
        rotated e1 e2 p s1 gp s2 n f"
      using False by (cases e1; cases e2) (auto simp: rotated_def node2_def fun_eq_iff)
    let ?h' = "put_col n black (put_lk ggp (hole_dir C) n h1)"
    have "balance_up h n p gp ggp = Some ?h'"
      using reads right h1 dirs False n by (simp add: balance_up_def heap_bind Let_def)
    moreover have "heap_at ?h' s C (Nd black n (f(?r := Nd red gp (?F(\<not> ?r := f ?r)), \<not> ?r := Nd red p (?G(?r := f (\<not> ?r))))))"
      by (rule heap_at_paint [OF t1]) (use dr False in \<open>cases e2; simp add: inorder_plug node2_def\<close>)
    moreover have "dom ?h' = dom h" using h1(2) dirs n by auto
    ultimately show ?thesis unfolding T by blast
  qed
qed


text \<open>The first half makes the node red and its children black.\<close>

fun paint :: "cldm_rbcolor \<Rightarrow> rtree \<Rightarrow> rtree" where
  "paint c Lf = Lf"
| "paint c (Nd c' a f) = Nd c a f"

lemma inorder_paint [simp]: "inorder (paint c t) = inorder t"
  by (cases t) simp_all

lemma heap_at_paint_child:
  assumes "heap_at h s C (Nd c n f)" and "distinct (s # inorder (plug C (Nd c n f)))" and "f e = Nd c' a g"
  shows "heap_at (put_col a c'' h) s C (Nd c n (f(e := Nd c'' a g)))"
proof -
  have "heap_at h s ((e, c, n, f (\<not> e)) # C) (Nd c' a g)"
    using assms(1) unfolding assms(3) [symmetric] by (rule heap_at_down [THEN iffD1])
  moreover have "distinct (s # inorder (plug ((e, c, n, f (\<not> e)) # C) (Nd c' a g)))"
    using assms(2) by (simp add: assms(3) [symmetric] node2_Nd)
  ultimately have "heap_at (put_col a c'' h) s ((e, c, n, f (\<not> e)) # C) (Nd c'' a g)" by (rule heap_at_paint)
  then show ?thesis using heap_at_down [of "put_col a c'' h" s C c n "f(e := Nd c'' a g)" e] by simp
qed

lemma inorder_fun_upd: "inorder t = inorder (f e) \<Longrightarrow> inorder (Nd c n (f(e := t))) = inorder (Nd c' n f)"
  by (cases e) simp_all

lemma balance_insertion_flip:
  assumes t: "heap_at h s C (Nd c n f)" and dist: "distinct (s # inorder (plug C (Nd c n f)))"
    and kids: "f False = Nd cl l gl" "f True = Nd cr r gr"
  shows "\<exists>h'. cldm_rbtree_balance_insertion h n p gp ggp = balance_up h' n p gp ggp \<and> dom h' = dom h \<and>
    heap_at h' s C (Nd red n (\<lambda>e. paint black (f e)))"
proof -
  let ?h1 = "put_col n red h"
  let ?h2 = "put_col l black ?h1"
  let ?h3 = "put_col r black ?h2"
  have t1: "heap_at ?h1 s C (Nd red n f)" by (rule heap_at_paint [OF t dist])
  have d1: "distinct (s # inorder (plug C (Nd red n f)))" using dist by (simp add: inorder_plug)
  have t2: "heap_at ?h2 s C (Nd red n (f(False := Nd black l gl)))" by (rule heap_at_paint_child [OF t1 d1 kids(1)])
  have d2: "distinct (s # inorder (plug C (Nd red n (f(False := Nd black l gl)))))"
    using dist by (simp add: inorder_plug kids)
  have "heap_at ?h3 s C (Nd red n (f(False := Nd black l gl, True := Nd black r gr)))"
    by (rule heap_at_paint_child [OF t2 d2]) (simp add: kids)
  moreover have "f(False := Nd black l gl, True := Nd black r gr) = (\<lambda>e. paint black (f e))"
    using kids by (auto simp: fun_eq_iff all_bool_eq)
  moreover have "n \<in> dom h" "\<not> th h n False" "\<not> th h n True" "lk h n False = l" "lk h n True = r" "l \<in> dom h" "r \<in> dom h"
    using t kids by (auto simp: heap_at_def all_bool_eq)
  ultimately show ?thesis
    by (intro exI [of _ ?h3])
      (auto simp: cldm_rbtree_balance_insertion_def balance_up_def heap_bind link_the rb_left_the Let_def domI simp del: not_None_eq)
qed

end
