(* ===== verification/Rbtree_Insert.thy ===== *)
theory Rbtree_Insert
  imports Rbtree_Balance
begin

text \<open>
  The insertion into a red-black tree: the invariants of colours and heights, the loop that descends
  and rebalances on the way, and the contract of the comparison.
\<close>

section \<open>Red-black trees\<close>

fun colr :: "rtree \<Rightarrow> cldm_rbcolor" where
  "colr Lf = black"
| "colr (Nd c a f) = c"

text \<open>No red node has a red child.\<close>

primrec invc :: "rtree \<Rightarrow> bool" where
  "invc Lf \<longleftrightarrow> True"
| "invc (Nd c a f) \<longleftrightarrow> (c = red \<longrightarrow> (\<forall>e. colr (f e) = black)) \<and> (\<forall>e. invc (f e))"

text \<open>Every path from the root to a leaf has \<open>k\<close> black nodes.\<close>

primrec bal :: "rtree \<Rightarrow> nat \<Rightarrow> bool" where
  "bal Lf k \<longleftrightarrow> k = 0"
| "bal (Nd c a f) k \<longleftrightarrow> (if c = black then \<exists>j. k = Suc j \<and> (\<forall>e. bal (f e) j) else \<forall>e. bal (f e) k)"

text \<open>The same for a context whose hole has the given colour or height.\<close>

fun cinvc :: "frame list \<Rightarrow> cldm_rbcolor \<Rightarrow> bool" where
  "cinvc [] c \<longleftrightarrow> True"
| "cinvc ((e, c, a, t) # C) c' \<longleftrightarrow> (c = red \<longrightarrow> c' = black \<and> colr t = black) \<and> invc t \<and> cinvc C c"

fun cbal :: "frame list \<Rightarrow> nat \<Rightarrow> bool" where
  "cbal [] k \<longleftrightarrow> True"
| "cbal ((e, c, a, t) # C) k \<longleftrightarrow> bal t k \<and> cbal C (if c = black then Suc k else k)"

lemma not_black: "c \<noteq> black \<longleftrightarrow> c = red"
  by (cases c) simp_all

lemma colr_node2 [simp]: "colr (node2 e c a t sib) = c"
  by (simp add: node2_def)

lemma invc_node2 [simp]:
  "invc (node2 e c a t sib) \<longleftrightarrow> (c = red \<longrightarrow> colr t = black \<and> colr sib = black) \<and> invc t \<and> invc sib"
  by (auto simp: node2_def)

lemma bal_node2 [simp]:
  "bal (node2 e c a t sib) k \<longleftrightarrow> (if c = black then \<exists>j. k = Suc j \<and> bal t j \<and> bal sib j else bal t k \<and> bal sib k)"
  by (auto simp: node2_def split: if_splits)

lemma invc_plug: "invc (plug C t) \<longleftrightarrow> invc t \<and> cinvc C (colr t)"
proof (induction C arbitrary: t)
  case Nil
  then show ?case by simp
next
  case (Cons F C)
  then show ?case by (cases F) auto
qed

lemma bal_plug: "bal t k \<Longrightarrow> cbal C k \<Longrightarrow> \<exists>m. bal (plug C t) m"
proof (induction C arbitrary: t k)
  case Nil
  then show ?case by auto
next
  case (Cons F C)
  obtain e c a sib where F: "F = (e, c, a, sib)" by (cases F) auto
  show ?case using Cons.prems Cons.IH [of "node2 e c a t sib" "if c = black then Suc k else k"] by (auto simp: F)
qed

lemma invc_paint: "invc t \<Longrightarrow> invc (paint black t)"
  by (cases t) auto

lemma bal_paint: "bal t k \<Longrightarrow> \<exists>m. bal (paint black t) m"
  by (cases t) (auto split: if_splits)

lemma colr_paint [simp]: "colr (paint black t) = black"
  by (cases t) auto

text \<open>A rotation makes the tree valid again, keeps the order and the height.\<close>

lemma rotated_valid:
  assumes "\<forall>e. invc (f e) \<and> colr (f e) = black \<and> bal (f e) k" and "invc s1" "colr s1 = black" "bal s1 k"
    and "invc s2" "colr s2 = black" "bal s2 k"
  shows "invc (rotated e1 e2 p s1 gp s2 n f)" and "colr (rotated e1 e2 p s1 gp s2 n f) = black"
    and "bal (rotated e1 e2 p s1 gp s2 n f) (Suc k)"
  using assms by (auto simp: rotated_def)

lemma inorder_rotated:
  "inorder (rotated e1 e2 p s1 gp s2 n f) = inorder (node2 e2 c2 gp (node2 e1 red p (Nd red n f) s1) s2)"
  by (cases e1; cases e2) (simp_all add: rotated_def inorder_node2)

section \<open>The heap of a tree\<close>

definition rb_tree :: "rbheap \<Rightarrow> addr \<Rightarrow> rtree \<Rightarrow> bool" where
  "rb_tree h s t \<longleftrightarrow> heap_at h s [] t \<and> distinct (s # inorder t) \<and> invc t \<and> colr t = black \<and> (\<exists>k. bal t k)"

lemma plug_Lf: "plug C t = Lf \<longleftrightarrow> C = [] \<and> t = Lf"
proof (induction C arbitrary: t)
  case Nil
  then show ?case by simp
next
  case (Cons F C)
  then show ?case by (cases F) (simp add: node2_def)
qed

lemma blacken_root_at:
  assumes "heap_at h s C t" and "C \<noteq> [] \<or> t \<noteq> Lf" and "distinct (s # inorder (plug C t))"
    and "invc t" and "cinvc C (colr t)" and "bal t k" and "cbal C k"
  shows "\<exists>h' T. blacken_root h s = Some h' \<and> dom h' = dom h \<and> rb_tree h' s T \<and> inorder T = inorder (plug C t)"
proof -
  obtain c a f where T: "plug C t = Nd c a f" using assms(2) plug_Lf [of C t] by (cases "plug C t") auto
  have h: "heap_at h s [] (Nd c a f)" using assms(1) heap_at_plug [of h s C t] by (simp add: T)
  have d: "distinct (s # inorder (plug [] (Nd c a f)))" using assms(3) by (simp add: T)
  from h have "s \<in> dom h" "lk h s False = a" "a \<in> dom h" by (auto simp: heap_at_def)
  then have "blacken_root h s = Some (put_col a black h)" "dom (put_col a black h) = dom h"
    by (auto simp: blacken_root_def)
  moreover have "heap_at (put_col a black h) s [] (paint black (plug C t))"
    using heap_at_paint [OF h d] by (simp add: T)
  moreover have "invc (paint black (plug C t))" using assms(4,5) invc_plug invc_paint by blast
  moreover have "\<exists>m. bal (paint black (plug C t)) m" using bal_plug [OF assms(6,7)] bal_paint by blast
  ultimately show ?thesis using assms(3)
    by (intro exI [of _ "put_col a black h"] exI [of _ "paint black (plug C t)"]) (simp add: rb_tree_def)
qed

section \<open>The new node\<close>

text \<open>The place of the node \<open>gp\<close> that \<open>insert_leaf\<close> needs when it rotates: the sibling is black.\<close>

fun leaf_ok :: "addr \<Rightarrow> addr \<Rightarrow> addr \<Rightarrow> frame list \<Rightarrow> bool" where
  "leaf_ok p gp s ((e, c, a, t) # C) \<longleftrightarrow> p = a \<and> gp = hole_at s C \<and> colr t = black"
| "leaf_ok p gp s [] \<longleftrightarrow> False"

lemma balance_insertion_leaf:
  assumes "heap_at h s C (Nd c node (\<lambda>_. Lf))"
  shows "cldm_rbtree_balance_insertion h node n p gp = balance_up (put_col node red h) node n p gp"
  using assms
  by (auto simp: heap_at_def cldm_rbtree_balance_insertion_def balance_up_def heap_bind link_the Let_def domI
      simp del: not_None_eq)

lemma hang_leaf:
  assumes t: "heap_at h s C (Nd c n f)" and lf: "f dir = Lf" and dist: "distinct (s # inorder (plug C (Nd c n f)))"
    and new: "node \<in> dom h" "node \<notin> insert s (nodes (plug C (Nd c n f)))"
    and h': "h' = put_th n dir False (put_lk n dir node (put_lk node (\<not> dir) n (put_lk node dir (lk h n dir) (put_leaf node h))))"
  shows "heap_at h' s ((dir, c, n, f (\<not> dir)) # C) (Nd (col h node) node (\<lambda>_. Lf)) \<and> dom h' = dom h"
proof -
  let ?D = "(dir, c, n, f (\<not> dir)) # C"
  have d: "heap_at h s ?D Lf" using t lf heap_at_down [of h s C c n f dir] by simp
  have n: "n \<noteq> node" "n \<in> dom h" "lk h n dir = (bounds s ?D) dir" using new t lf by (auto simp: heap_at_def all_dir [of _ dir] inorder_plug)
  have "heap_at h' s ?D (Nd (col h node) node (\<lambda>_. Lf))"
  proof (rule heap_at_replace [OF d])
    have "plug ?D Lf = plug C (Nd c n f)" using node2_Nd [of dir c n f] by (simp add: lf)
    then show "distinct (s # inorder (plug ?D Lf))" using dist by simp
    show "h' y = h y" if "y \<in> insert s (cnodes ?D)" "y \<noteq> hole_at s ?D" for y
    proof -
      have "y \<in> insert s (nodes (plug C (Nd c n f)))"
        using that(1) lf nodes_Nd [of c n f dir] unfolding cnodes_Cons by (auto simp: inorder_plug)
      then have "y \<noteq> node" using new(2) by blast
      then show ?thesis using that(2) by (simp add: h')
    qed
  qed (use n new in \<open>simp_all add: h'\<close>)
  then show ?thesis using n new by (auto simp: h')
qed


lemma insert_leaf_at:
  assumes t: "heap_at h s C (Nd c n f)" and lf: "f dir = Lf" and dist: "distinct (s # inorder (plug C (Nd c n f)))"
    and new: "node \<in> dom h" "node \<notin> insert s (nodes (plug C (Nd c n f)))"
    and valid: "invc (Nd c n f)" "cinvc C c" "bal (Nd c n f) k" "cbal C k" and ok: "c = red \<Longrightarrow> leaf_ok p gp s C"
  shows "\<exists>h' T. insert_leaf h s node n p gp dir = Some h' \<and> dom h' = dom h \<and> rb_tree h' s T \<and>
    inorder T = lefts ((dir, c, n, f (\<not> dir)) # C) @ node # rights ((dir, c, n, f (\<not> dir)) # C)"
proof -
  let ?D = "(dir, c, n, f (\<not> dir)) # C" and ?t = "Nd red node (\<lambda>_. Lf)"
  let ?h1 = "put_th n dir False (put_lk n dir node (put_lk node (\<not> dir) n (put_lk node dir (lk h n dir) (put_leaf node h))))"
  have t1: "heap_at ?h1 s ?D (Nd (col h node) node (\<lambda>_. Lf))" and dom1: "dom ?h1 = dom h"
    using hang_leaf [OF t lf dist new refl] by auto
  have io: "inorder (plug C (Nd c n f)) = lefts ?D @ rights ?D"
    using inorder_plug [of ?D Lf] node2_Nd [of dir c n f] by (simp add: lf)
  have d1: "distinct (s # inorder (plug ?D (Nd c' node (\<lambda>_. Lf))))" for c'
    using dist new(2) unfolding io inorder_plug by auto
  have t2: "heap_at (put_col node red ?h1) s ?D ?t" by (rule heap_at_paint [OF t1 d1])
  have n: "n \<noteq> node" "n \<in> dom h" using new t by (auto simp: heap_at_def inorder_plug)
  have leaf: "insert_leaf h s node n p gp dir =
      do { h \<leftarrow> balance_up (put_col node red ?h1) node n p gp; blacken_root h s }"
    using n new(1) balance_insertion_leaf [OF t1, of n p gp]
    by (simp add: insert_leaf_def heap_bind link_the Let_def)
  have dom2: "dom (put_col node red ?h1) = dom h" using dom1 new(1) by auto
  have kf: "bal (f e) (if c = black then k - 1 else k)" "c = black \<longrightarrow> 0 < k" for e using valid(3) by auto
  have iD: "inorder (plug ?D ?t) = lefts ?D @ node # rights ?D" by (simp only: inorder_plug [of ?D]) simp
  show ?thesis unfolding iD [symmetric] leaf
  proof (cases c)
    case cldm_rbcolor_black
    have "cldm_rbnode_is_red (put_col node red ?h1) n = Some False"
      using t2 cldm_rbcolor_black by (simp add: heap_at_def)
    then have "balance_up (put_col node red ?h1) node n p gp = Some (put_col node red ?h1)" by (simp add: balance_up_def)
    moreover have "\<exists>h' T. blacken_root (put_col node red ?h1) s = Some h' \<and> dom h' = dom (put_col node red ?h1) \<and>
        rb_tree h' s T \<and> inorder T = inorder (plug ?D ?t)"
    proof (rule blacken_root_at [OF t2 _ d1])
      show "invc ?t" "cinvc ?D (colr ?t)" using valid cldm_rbcolor_black by simp_all
      show "bal ?t 0" by simp
      have "k = 1" using kf(1) [of dir] kf(2) lf cldm_rbcolor_black by simp
      then show "cbal ?D 0" using kf(1) [of "\<not> dir"] valid(4) cldm_rbcolor_black by simp
    qed simp
    ultimately show "\<exists>h' T. do { h \<leftarrow> balance_up (put_col node red ?h1) node n p gp; blacken_root h s } = Some h' \<and>
        dom h' = dom h \<and> rb_tree h' s T \<and> inorder T = inorder (plug ?D ?t)"
      using dom2 by (simp only: bind.simps)
  next
    case cldm_rbcolor_red
    with ok obtain e2 c2 s2 C3 where C: "C = (e2, c2, p, s2) # C3" and gp: "gp = hole_at s C3" and s2: "colr s2 = black"
      by (cases C rule: hole_dir.cases) auto
    have k: "k = 0" using kf(1) [of dir] lf cldm_rbcolor_red by simp
    have up: "bal (f (\<not> dir)) 0" "bal s2 0" "cbal C3 1" "invc s2" "cinvc C3 black" "c2 = black" "colr (f (\<not> dir)) = black" "invc (f (\<not> dir))"
      using valid kf(1) [of "\<not> dir"] k by (auto simp: C cldm_rbcolor_red not_black [symmetric] split: if_splits)
    obtain h3 where h3: "balance_up (put_col node red ?h1) node n p gp = Some h3" "dom h3 = dom (put_col node red ?h1)"
      and t3: "heap_at h3 s C3 (rotated dir e2 n (f (\<not> dir)) p s2 node (\<lambda>_. Lf))"
      using balance_up_rotate [of "put_col node red ?h1" s dir n "f (\<not> dir)" e2 c2 p s2 C3 node "\<lambda>_. Lf" gp]
        t2 d1 [of red] by (auto simp: C cldm_rbcolor_red gp)
    let ?T = "rotated dir e2 n (f (\<not> dir)) p s2 node (\<lambda>_. Lf)"
    have T: "invc ?T" "colr ?T = black" "bal ?T (Suc 0)" using rotated_valid [of "\<lambda>_. Lf" 0 "f (\<not> dir)" s2] up s2 by simp_all
    have iT: "inorder (plug C3 ?T) = inorder (plug ?D ?t)"
      by (simp add: C cldm_rbcolor_red inorder_plug [of C3] inorder_rotated [where ?c2.0 = c2])
    have "\<exists>h' T. blacken_root h3 s = Some h' \<and> dom h' = dom h3 \<and> rb_tree h' s T \<and> inorder T = inorder (plug C3 ?T)"
    proof (rule blacken_root_at [OF t3 _ _ T(1) _ T(3)])
      show "C3 \<noteq> [] \<or> ?T \<noteq> Lf" by (simp add: rotated_def node2_def)
      show "distinct (s # inorder (plug C3 ?T))" using d1 [of red] iT by metis
    qed (use T(2) up in simp_all)
    then show "\<exists>h' T. do { h \<leftarrow> balance_up (put_col node red ?h1) node n p gp; blacken_root h s } = Some h' \<and>
        dom h' = dom h \<and> rb_tree h' s T \<and> inorder T = inorder (plug ?D ?t)"
      using h3 dom2 iT by (simp only: bind.simps)
  qed
qed


section \<open>The descent\<close>

text \<open>The frames lead where the comparisons with the new node send the descent.\<close>

definition steers :: "(addr \<Rightarrow> addr \<Rightarrow> int) \<Rightarrow> addr \<Rightarrow> frame list \<Rightarrow> bool" where
  "steers compare node C \<longleftrightarrow> (\<forall>(e, c, a, t) \<in> set C. compare a node \<noteq> 0 \<and> (0 < compare a node) = e)"

fun two :: "rtree \<Rightarrow> bool" where
  "two Lf \<longleftrightarrow> False"
| "two (Nd c a f) \<longleftrightarrow> (\<forall>e. colr (f e) = red)"

text \<open>The next step of the descent exists and needs no flip.\<close>

fun skips :: "(addr \<Rightarrow> addr \<Rightarrow> int) \<Rightarrow> addr \<Rightarrow> rtree \<Rightarrow> bool" where
  "skips compare node Lf \<longleftrightarrow> False"
| "skips compare node (Nd c n f) \<longleftrightarrow> f (0 < compare n node) \<noteq> Lf \<and> \<not> two (f (0 < compare n node))"

text \<open>The nodes that a rotation needs: the sibling of the parent is black.\<close>

fun rot_ok :: "addr \<Rightarrow> addr \<Rightarrow> addr \<Rightarrow> frame list \<Rightarrow> bool" where
  "rot_ok gp ggp s (F # (e, c, a, t) # C) \<longleftrightarrow> gp = a \<and> ggp = hole_at s C \<and> colr t = black"
| "rot_ok gp ggp s _ \<longleftrightarrow> False"

fun hole_black :: "frame list \<Rightarrow> bool" where
  "hole_black [] \<longleftrightarrow> True"
| "hole_black ((e, c, a, t) # C) \<longleftrightarrow> c = black"

definition descent ::
  "(addr \<Rightarrow> addr \<Rightarrow> int) \<Rightarrow> addr \<Rightarrow> addr \<Rightarrow> rbheap \<Rightarrow> frame list \<Rightarrow> rtree \<Rightarrow> bool" where
  "descent compare node s h C t \<longleftrightarrow>
     heap_at h s C t \<and> distinct (s # inorder (plug C t)) \<and> node \<in> dom h \<and> node \<notin> insert s (nodes (plug C t)) \<and>
     invc t \<and> cinvc C (colr t) \<and> (\<exists>k. bal t k \<and> cbal C k) \<and> steers compare node C"

text \<open>What the loop returns on a tree with the nodes \<open>L\<close>.\<close>

definition inserted ::
  "(addr \<Rightarrow> addr \<Rightarrow> int) \<Rightarrow> addr \<Rightarrow> addr \<Rightarrow> addr set \<Rightarrow> addr list \<Rightarrow> rbheap + rbheap \<Rightarrow> bool" where
  "inserted compare node s D L r \<longleftrightarrow>
     (case r of
        Inl h \<Rightarrow> dom h = D \<and> (\<exists>T. rb_tree h s T \<and> inorder T = L) \<and> (\<exists>a \<in> set L. compare a node = 0)
      | Inr h \<Rightarrow> dom h = D \<and> (\<exists>T ls rs. rb_tree h s T \<and> L = ls @ rs \<and> inorder T = ls @ node # rs \<and>
          (ls \<noteq> [] \<longrightarrow> 0 < compare (last ls) node) \<and> (rs \<noteq> [] \<longrightarrow> compare (hd rs) node < 0)))"

lemma steers_ends:
  "steers compare node C \<Longrightarrow> (lefts C \<noteq> [] \<longrightarrow> 0 < compare (last (lefts C)) node) \<and>
    (rights C \<noteq> [] \<longrightarrow> compare (hd (rights C)) node < 0)"
proof (induction C)
  case Nil
  then show ?case by simp
next
  case (Cons F C)
  then show ?case by (cases F) (auto simp: steers_def)
qed

text \<open>The part of the loop after the flip.\<close>

definition insert_after ::
  "(addr \<Rightarrow> addr \<Rightarrow> int) \<Rightarrow> rbheap \<Rightarrow> addr \<Rightarrow> addr \<Rightarrow> addr \<Rightarrow> addr \<Rightarrow> addr \<Rightarrow> (rbheap + rbheap) option" where
  "insert_after compare h s node n p gp =
     (if compare n node = 0
      then do { h \<leftarrow> blacken_root h s; Some (Inl h) }
      else do {
        let dir = (compare n node > 0);
        nn \<leftarrow> h n;
        if is_thread nn dir
        then do { h \<leftarrow> insert_leaf h s node n p gp dir; Some (Inr h) }
        else insert_loop compare h s node (link nn dir) n p gp })"

lemma insert_loop_after:
  assumes "heap_at h s C (Nd c n f)"
  shows "insert_loop compare h s node n p gp ggp =
    (if two (Nd c n f)
     then do { h \<leftarrow> cldm_rbtree_balance_insertion h n p gp ggp; insert_after compare h s node n p gp }
     else insert_after compare h s node n p gp)"
proof -
  have "cldm_rbnode_is_red_safe h n e = Some (colr (f e) = red)" for e
  proof -
    have n: "n \<in> dom h" and "sub h (f e) n e ((bounds s C)(\<not> e := n))" using assms by (auto simp: heap_at_def)
    then show ?thesis by (subst is_red_safe_dom [OF n]) (cases "f e"; auto)+
  qed
  then show ?thesis by (subst insert_loop.simps) (simp add: insert_after_def all_bool_eq)
qed

lemma insert_after_correct:
  assumes inv: "descent compare node s h C (Nd c n f)"
    and leaf: "c = red \<Longrightarrow> leaf_ok p gp s C \<or> skips compare node (Nd c n f)"
    and child: "colr (f (0 < compare n node)) = red \<Longrightarrow>
      (p = hole_at s C \<and> colr (f (\<not> 0 < compare n node)) = black) \<or> skips compare node (f (0 < compare n node))"
    and loop: "\<And>C' c' n' f'. f (0 < compare n node) = Nd c' n' f' \<Longrightarrow> descent compare node s h C' (Nd c' n' f') \<Longrightarrow>
      n = hole_at s C' \<Longrightarrow>
      (c' = red \<Longrightarrow> leaf_ok n p s C' \<or> skips compare node (Nd c' n' f')) \<Longrightarrow>
      (two (Nd c' n' f') \<Longrightarrow> hole_black C' \<or> rot_ok p gp s C') \<Longrightarrow>
      \<exists>r. insert_loop compare h s node n' n p gp = Some r \<and>
        inserted compare node s (dom h) (inorder (plug C' (Nd c' n' f'))) r"
  shows "\<exists>r. insert_after compare h s node n p gp = Some r \<and>
    inserted compare node s (dom h) (inorder (plug C (Nd c n f))) r"
proof -
  let ?dir = "0 < compare n node" and ?t = "Nd c n f"
  let ?D = "(?dir, c, n, f (\<not> ?dir)) # C"
  from inv obtain k where t: "heap_at h s C ?t" and dist: "distinct (s # inorder (plug C ?t))"
    and new: "node \<in> dom h" "node \<notin> insert s (nodes (plug C ?t))"
    and valid: "invc ?t" "cinvc C c" "bal ?t k" "cbal C k" and st: "steers compare node C"
    by (auto simp: descent_def)
  from t have n: "n \<in> dom h" by (auto simp: heap_at_def)
  have plug: "plug ?D (f ?dir) = plug C ?t" by (simp add: node2_Nd)
  show ?thesis
  proof (cases "compare n node = 0")
    case True
    have "\<exists>h' T. blacken_root h s = Some h' \<and> dom h' = dom h \<and> rb_tree h' s T \<and> inorder T = inorder (plug C ?t)"
      by (rule blacken_root_at [OF t _ dist]) (use valid in simp_all)
    moreover have "n \<in> set (inorder (plug C ?t))" by (simp add: inorder_plug)
    ultimately show ?thesis using True by (auto simp: insert_after_def inserted_def)
  next
    case False
    have stD: "steers compare node ?D" using st False by (simp add: steers_def)
    show ?thesis
    proof (cases "f ?dir")
      case Lf
      obtain h' T where h': "insert_leaf h s node n p gp ?dir = Some h'" "dom h' = dom h" "rb_tree h' s T"
          "inorder T = lefts ?D @ node # rights ?D"
        using insert_leaf_at [OF t Lf dist new valid, of p gp] leaf Lf by auto
      have "th h n ?dir" using t Lf by (simp add: heap_at_def all_dir [of _ ?dir])
      with h'(1) have "insert_after compare h s node n p gp = Some (Inr h')"
        using False n by (simp add: insert_after_def heap_bind link_the Let_def)
      moreover have "inorder (plug C ?t) = lefts ?D @ rights ?D"
        using inorder_plug [of ?D Lf] plug by (simp only: Lf) simp
      ultimately show ?thesis using h'(2-4) steers_ends [OF stD]
        unfolding inserted_def by (intro exI [of _ "Inr h'"]) (simp only: sum.case, blast)
    next
      case (Nd c' n' f')
      have D: "heap_at h s ?D (Nd c' n' f')" using t heap_at_down [of h s C c n f ?dir] by (simp add: Nd)
      have th: "\<not> th h n ?dir" "lk h n ?dir = n'" using D by (simp_all add: heap_at_def)
      have kids: "c = red \<longrightarrow> colr (f e) = black" "invc (f e)" for e using valid(1) by auto
      have inv': "descent compare node s h ?D (Nd c' n' f')"
        unfolding descent_def
      proof (intro conjI)
        show "distinct (s # inorder (plug ?D (Nd c' n' f')))" "node \<notin> insert s (nodes (plug ?D (Nd c' n' f')))"
          using dist new(2) unfolding Nd [symmetric] plug by simp_all
        show "invc (Nd c' n' f')" using kids(2) [of ?dir] unfolding Nd .
        show "cinvc ?D (colr (Nd c' n' f'))"
          using kids [of ?dir] kids [of "\<not> ?dir"] valid(2) by (simp add: Nd)
        have "bal (f e) (if c = black then k - 1 else k) \<and> (c = black \<longrightarrow> k = Suc (k - 1))" for e using valid(3) by auto
        from this [of ?dir] this [of "\<not> ?dir"] valid(4)
        show "\<exists>k. bal (Nd c' n' f') k \<and> cbal ?D k"
          unfolding Nd by (intro exI [of _ "if c = black then k - 1 else k"]) auto
      qed (use D new stD in simp_all)
      have "\<exists>r. insert_loop compare h s node n' n p gp = Some r \<and>
          inserted compare node s (dom h) (inorder (plug ?D (Nd c' n' f'))) r"
      proof (rule loop [OF Nd inv'])
        show "leaf_ok n p s ?D \<or> skips compare node (Nd c' n' f')" if "c' = red"
          using child that by (auto simp: Nd)
        show "hole_black ?D \<or> rot_ok p gp s ?D" if "two (Nd c' n' f')"
        proof (cases c)
          case cldm_rbcolor_red
          with leaf that have "leaf_ok p gp s C" by (auto simp: Nd)
          then show ?thesis by (cases C rule: hole_dir.cases) auto
        qed simp
      qed simp
      then show ?thesis using False n th unfolding Nd [symmetric] plug
        by (simp add: insert_after_def heap_bind link_the Let_def)
    qed
  qed
qed


text \<open>The nodes the descent visits below the root of a tree; a flip on the way counts as a step.\<close>

primrec plen :: "(addr \<Rightarrow> addr \<Rightarrow> int) \<Rightarrow> addr \<Rightarrow> rtree \<Rightarrow> nat" where
  "plen compare node Lf = 0"
| "plen compare node (Nd c a f) = Suc (plen compare node (f (0 < compare a node)))"

lemma plen_paint [simp]: "plen compare node (paint c t) = plen compare node t"
  by (cases t) simp_all

definition steps_left :: "(addr \<Rightarrow> addr \<Rightarrow> int) \<Rightarrow> addr \<Rightarrow> rtree \<Rightarrow> nat" where
  "steps_left compare node t = 2 * plen compare node t + (if two t then 1 else 0)"

definition loop_ok :: "(addr \<Rightarrow> addr \<Rightarrow> int) \<Rightarrow> addr \<Rightarrow> addr \<Rightarrow> addr set \<Rightarrow> addr list \<Rightarrow> (rbheap + rbheap) option \<Rightarrow> bool" where
  "loop_ok compare node s D L o' \<longleftrightarrow> (\<exists>r. o' = Some r \<and> inserted compare node s D L r)"

text \<open>What the loop needs to go on with the tree \<open>t\<close>.\<close>

definition loop_inv ::
  "(addr \<Rightarrow> addr \<Rightarrow> int) \<Rightarrow> addr \<Rightarrow> addr \<Rightarrow> rbheap \<Rightarrow> frame list \<Rightarrow> rtree \<Rightarrow> addr \<Rightarrow> addr \<Rightarrow> addr \<Rightarrow> bool" where
  "loop_inv compare node s h C t p gp ggp \<longleftrightarrow>
     descent compare node s h C t \<and> p = hole_at s C \<and>
     (colr t = red \<longrightarrow> leaf_ok p gp s C \<or> skips compare node t) \<and>
     (two t \<longrightarrow> hole_black C \<or> rot_ok gp ggp s C)"

lemma insert_after_loop:
  assumes inv: "descent compare node s h C (Nd c n f)"
    and leaf: "c = red \<Longrightarrow> leaf_ok p gp s C \<or> skips compare node (Nd c n f)"
    and child: "colr (f (0 < compare n node)) = red \<Longrightarrow>
      (p = hole_at s C \<and> colr (f (\<not> 0 < compare n node)) = black) \<or> skips compare node (f (0 < compare n node))"
    and less: "steps_left compare node (f (0 < compare n node)) < M"
    and loop: "\<And>h C c n f p gp ggp. steps_left compare node (Nd c n f) < M \<Longrightarrow>
      loop_inv compare node s h C (Nd c n f) p gp ggp \<Longrightarrow>
      loop_ok compare node s (dom h) (inorder (plug C (Nd c n f))) (insert_loop compare h s node n p gp ggp)"
  shows "loop_ok compare node s (dom h) (inorder (plug C (Nd c n f))) (insert_after compare h s node n p gp)"
  unfolding loop_ok_def
proof (rule insert_after_correct [OF inv leaf child], assumption, assumption)
  fix C' c' n' f'
  assume "f (0 < compare n node) = Nd c' n' f'" "descent compare node s h C' (Nd c' n' f')" "n = hole_at s C'"
    "c' = red \<Longrightarrow> leaf_ok n p s C' \<or> skips compare node (Nd c' n' f')"
    "two (Nd c' n' f') \<Longrightarrow> hole_black C' \<or> rot_ok p gp s C'"
  then show "\<exists>r. insert_loop compare h s node n' n p gp = Some r \<and>
      inserted compare node s (dom h) (inorder (plug C' (Nd c' n' f'))) r"
    using loop [of c' n' f' h C' n p gp] less by (auto simp: loop_inv_def loop_ok_def)
qed

text \<open>A node with two red children that was just flipped.\<close>

lemma flipped:
  assumes "invc (Nd c n f)" and "two (Nd c n f)" and "bal (Nd c n f) k"
  shows "c = black" and "\<And>e. colr (paint black (f e)) = black \<and> invc (paint black (f e)) \<and> bal (paint black (f e)) k"
    and "\<And>e. \<not> two (paint black (f e)) \<and> f e \<noteq> Lf \<and> paint black (f e) \<noteq> Lf"
proof -
  show c: "c = black" using assms(1,2) not_black [of c] by (cases c) auto
  fix e
  obtain a g where fe: "f e = Nd red a g" using assms(2) by (cases "f e") (auto dest: spec [of _ e])
  have "bal (f e) (k - 1)" "0 < k" "invc (f e)" using assms(1,3) c by auto
  then show "colr (paint black (f e)) = black \<and> invc (paint black (f e)) \<and> bal (paint black (f e)) k"
    using fe by (cases k) auto
  show "\<not> two (paint black (f e)) \<and> f e \<noteq> Lf \<and> paint black (f e) \<noteq> Lf"
    using \<open>invc (f e)\<close> fe by (auto dest: spec [of _ False])
qed


lemma inorder_Nd_cong: "(\<And>e. inorder (f e) = inorder (g e)) \<Longrightarrow> inorder (Nd c n f) = inorder (Nd c' n g)"
  by simp

lemma descentI:
  assumes "heap_at h' s C' t'" and "inorder (plug C' t') = inorder (plug C t)" and "dom h' = dom h"
    and "descent compare node s h C t" and "invc t'" and "cinvc C' (colr t')" and "bal t' k" and "cbal C' k"
    and "steers compare node C'"
  shows "descent compare node s h' C' t'"
  using assms unfolding descent_def by auto

lemma flip_no_rotation:
  assumes inv: "descent compare node s h C (Nd c n f)" and p: "p = hole_at s C" and "two (Nd c n f)" and "hole_black C"
  shows "\<exists>h'. cldm_rbtree_balance_insertion h n p gp ggp = Some h' \<and> dom h' = dom h \<and>
    descent compare node s h' C (Nd red n (\<lambda>e. paint black (f e)))"
proof -
  from inv obtain k where t: "heap_at h s C (Nd c n f)" and dist: "distinct (s # inorder (plug C (Nd c n f)))"
    and valid: "invc (Nd c n f)" "cinvc C c" "bal (Nd c n f) k" "cbal C k" and st: "steers compare node C"
    by (auto simp: descent_def)
  note fl = flipped [OF valid(1) assms(3) valid(3)]
  obtain l r gl gr where "f False = Nd red l gl" "f True = Nd red r gr"
    using assms(3) by (metis colr.elims not_black two.simps(2) cldm_rbcolor.distinct(1))
  from balance_insertion_flip [OF t dist this] obtain h' where
    h': "cldm_rbtree_balance_insertion h n p gp ggp = balance_up h' n p gp ggp" "dom h' = dom h"
    and t': "heap_at h' s C (Nd red n (\<lambda>e. paint black (f e)))" by blast
  have "holds h' s C" using t' by (simp add: heap_at_def)
  then have "hole_at s C \<in> dom h'" "col h' (hole_at s C) = black" using assms(4) by (cases C rule: hole_dir.cases; simp)+
  then have "balance_up h' n p gp ggp = Some h'" by (simp add: balance_up_def p)
  moreover have "descent compare node s h' C (Nd red n (\<lambda>e. paint black (f e)))"
  proof (rule descentI [OF t' _ h'(2) inv])
    show "bal (Nd red n (\<lambda>e. paint black (f e))) k" using fl(2) by simp
    show "cinvc C (colr (Nd red n (\<lambda>e. paint black (f e))))" using valid(2) assms(4) by (cases C rule: hole_dir.cases) auto
  qed (use fl(2) valid(4) st in \<open>simp_all add: inorder_plug\<close>)
  ultimately show ?thesis using h' by simp
qed

lemma flip_rotation:
  assumes inv: "descent compare node s h C (Nd c n f)" and C: "C = (e1, red, p, s1) # (e2, c2, gp, s2) # C3"
    and two: "two (Nd c n f)" and s2: "colr s2 = black" and ggp: "ggp = hole_at s C3"
  shows "\<exists>h'. cldm_rbtree_balance_insertion h n p gp ggp = Some h' \<and> dom h' = dom h \<and>
    descent compare node s h' C3 (rotated e1 e2 p s1 gp s2 n (\<lambda>e. paint black (f e))) \<and>
    inorder (plug C3 (rotated e1 e2 p s1 gp s2 n (\<lambda>e. paint black (f e)))) = inorder (plug C (Nd c n f))"
proof -
  let ?f = "\<lambda>e. paint black (f e)"
  let ?T = "rotated e1 e2 p s1 gp s2 n ?f"
  from inv obtain k where t: "heap_at h s C (Nd c n f)" and dist: "distinct (s # inorder (plug C (Nd c n f)))"
    and valid: "invc (Nd c n f)" "cinvc C c" "bal (Nd c n f) k" "cbal C k" and st: "steers compare node C"
    by (auto simp: descent_def)
  note fl = flipped [OF valid(1) two valid(3)]
  obtain l r gl gr where "f False = Nd red l gl" "f True = Nd red r gr"
    using two by (metis colr.elims not_black two.simps(2) cldm_rbcolor.distinct(1))
  from balance_insertion_flip [OF t dist this] obtain h1 where
    h1: "cldm_rbtree_balance_insertion h n p gp ggp = balance_up h1 n p gp ggp" "dom h1 = dom h"
    and t1: "heap_at h1 s C (Nd red n ?f)" by blast
  have d1: "distinct (s # inorder (plug C (Nd red n ?f)))" using dist by (simp add: inorder_plug)
  obtain h' where h': "balance_up h1 n p gp ggp = Some h'" "dom h' = dom h1" and t': "heap_at h' s C3 ?T"
    using balance_up_rotate [of h1 s e1 p s1 e2 c2 gp s2 C3 n ?f ggp] t1 d1 ggp by (auto simp: C)
  have ctx: "colr s1 = black" "invc s1" "invc s2" "c2 = black" "cinvc C3 black" "bal s1 k" "bal s2 k" "cbal C3 (Suc k)"
    using valid(2,4) by (auto simp: C not_black [symmetric] split: if_splits)
  have T: "invc ?T" "colr ?T = black" "bal ?T (Suc k)"
    by (rule rotated_valid; use fl(2) ctx s2 in simp)+
  have io: "inorder (plug C3 ?T) = inorder (plug C (Nd c n f))"
    by (simp add: C inorder_plug [of C3] inorder_rotated [where ?c2.0 = c2] inorder_node2)
  have "descent compare node s h' C3 ?T"
    by (rule descentI [OF t' io _ inv T(1) _ T(3)]) (use T(2) ctx st h' h1 in \<open>simp_all add: C steers_def\<close>)
  then show ?thesis using h1 h' io by simp
qed


text \<open>After a rotation the descent goes on with the rest of the loop, whichever way it went.\<close>

lemma insert_after_rotated:
  assumes C: "C = (e1, red, p, s1) # (e2, c2, gp, s2) # C3" and st: "steers compare node C"
    and inv1: "descent compare node s h1 C3 (rotated e1 e2 p s1 gp s2 n f)"
    and f: "\<And>e. colr (f e) \<noteq> red \<and> \<not> two (f e) \<and> f e \<noteq> Lf" and M: "2 * Suc (plen compare node (f (0 < compare n node))) < M"
    and loop: "\<And>h C c n f p gp ggp. steps_left compare node (Nd c n f) < M \<Longrightarrow>
      loop_inv compare node s h C (Nd c n f) p gp ggp \<Longrightarrow>
      loop_ok compare node s (dom h) (inorder (plug C (Nd c n f))) (insert_loop compare h s node n p gp ggp)"
  shows "loop_ok compare node s (dom h1) (inorder (plug C3 (rotated e1 e2 p s1 gp s2 n f)))
    (insert_after compare h1 s node n p gp)"
proof (cases "e1 = e2")
  case True
  let ?dir = "0 < compare n node"
  let ?C = "(e2, black, p, node2 e2 red gp s1 s2) # C3"
  have T: "rotated e1 e2 p s1 gp s2 n f = node2 e2 black p (Nd red n f) (node2 e2 red gp s1 s2)"
    using True by (simp add: rotated_def)
  have inv2: "descent compare node s h1 ?C (Nd red n f)"
    using inv1 st unfolding T descent_def heap_at_node2 by (auto simp: C True steers_def)
  have skip: "skips compare node (Nd red n f)" using f by simp
  have "steps_left compare node (f ?dir) < M" using f [of ?dir] M by (simp add: steps_left_def)
  then have "loop_ok compare node s (dom h1) (inorder (plug ?C (Nd red n f))) (insert_after compare h1 s node n p gp)"
    by (intro insert_after_loop [OF inv2 disjI2 [OF skip] _ _ loop]) (use f in auto)
  then show ?thesis unfolding T by simp
next
  case False
  let ?dir = "0 < compare n node"
  let ?F = "(\<lambda>_. node2 e2 red gp (f (\<not> e2)) s2)(e2 := node2 e2 red p s1 (f e2))"
  have T: "rotated e1 e2 p s1 gp s2 n f = Nd black n ?F" using False by (simp add: rotated_def node2_def)
  have dirs: "(0 < compare p node) = (\<not> e2)" "(0 < compare gp node) = e2"
    using st False by (auto simp: C steers_def)
  have kid: "skips compare node (?F ?dir) \<and> steps_left compare node (?F ?dir) = 2 * Suc (plen compare node (f ?dir))"
  proof (cases "?dir = e2")
    case True
    then show ?thesis using dirs f [of e2] by (simp add: node2_def steps_left_def) auto
  next
    case False
    then have "?dir = (\<not> e2)" by simp
    then show ?thesis using dirs f [of "\<not> e2"] by (simp add: node2_def steps_left_def) auto
  qed
  then have "loop_ok compare node s (dom h1) (inorder (plug C3 (Nd black n ?F))) (insert_after compare h1 s node n p gp)"
    by (intro insert_after_loop [OF inv1 [unfolded T] _ _ _ loop]) (use M in auto)
  then show ?thesis unfolding T .
qed

lemma insert_loop_ok:
  assumes "loop_inv compare node s h C (Nd c n f) p gp ggp"
  shows "loop_ok compare node s (dom h) (inorder (plug C (Nd c n f))) (insert_loop compare h s node n p gp ggp)"
  using assms
proof (induction "steps_left compare node (Nd c n f)" arbitrary: h C c n f p gp ggp rule: less_induct)
  case less
  let ?dir = "0 < compare n node" and ?f = "\<lambda>e. paint black (f e)"
  from less.prems have inv: "descent compare node s h C (Nd c n f)" and p: "p = hole_at s C"
    and leaf: "c = red \<Longrightarrow> leaf_ok p gp s C \<or> skips compare node (Nd c n f)"
    and rot: "two (Nd c n f) \<Longrightarrow> hole_black C \<or> rot_ok gp ggp s C"
    by (auto simp: loop_inv_def)
  from inv have t: "heap_at h s C (Nd c n f)" and valid: "invc (Nd c n f)" by (auto simp: descent_def)
  show ?case
  proof (cases "two (Nd c n f)")
    case False
    have "loop_ok compare node s (dom h) (inorder (plug C (Nd c n f))) (insert_after compare h s node n p gp)"
    proof (rule insert_after_loop [OF inv leaf _ _ less.hyps])
      show "(p = hole_at s C \<and> colr (f (\<not> ?dir)) = black) \<or> skips compare node (f ?dir)" if "colr (f ?dir) = red"
        using False that p by (auto simp: all_dir [of _ ?dir] not_black [symmetric])
      show "steps_left compare node (f ?dir) < steps_left compare node (Nd c n f)"
        using False by (simp add: steps_left_def)
    qed
    then show ?thesis unfolding insert_loop_after [OF t] using False by (simp only: if_False)
  next
    case two: True
    obtain k where "bal (Nd c n f) k" using inv by (auto simp: descent_def)
    note fl = flipped [OF valid two this]
    have plen: "steps_left compare node (?f e) = 2 * plen compare node (f e)" for e
      using fl(3) [of e] by (simp add: steps_left_def)
    have small: "steps_left compare node (Nd c n f) = Suc (2 * Suc (plen compare node (f ?dir)))"
      using two by (simp add: steps_left_def)
    have skip: "skips compare node (Nd red n ?f)" using fl(3) by simp
    have none: "colr (?f e) \<noteq> red" for e using fl(2) [of e] by simp
    show ?thesis
    proof (cases "hole_black C")
      case True
      from flip_no_rotation [OF inv p two True] obtain h1 where
        h1: "cldm_rbtree_balance_insertion h n p gp ggp = Some h1" "dom h1 = dom h"
        and inv1: "descent compare node s h1 C (Nd red n ?f)" by blast
      have "loop_ok compare node s (dom h1) (inorder (plug C (Nd red n ?f))) (insert_after compare h1 s node n p gp)"
        by (rule insert_after_loop [OF inv1 disjI2 [OF skip] _ _ less.hyps])
          (use none plen small in \<open>auto simp: \<close>)
      then show ?thesis using insert_loop_after [OF t] two h1 by (simp add: inorder_plug)
    next
      case False
      with rot [OF two] obtain e1 p1 s1 e2 c2 s2 C3 where C: "C = (e1, red, p1, s1) # (e2, c2, gp, s2) # C3"
        and ggp: "ggp = hole_at s C3" and s2: "colr s2 = black"
        by (cases "(gp, ggp, s, C)" rule: rot_ok.cases) (auto simp: not_black)
      have p1: "p1 = p" using p by (simp add: C)
      let ?T = "rotated e1 e2 p s1 gp s2 n ?f"
      from flip_rotation [OF inv C [unfolded p1] two s2 ggp] obtain h1 where
        h1: "cldm_rbtree_balance_insertion h n p gp ggp = Some h1" "dom h1 = dom h"
        and inv1: "descent compare node s h1 C3 ?T"
        and io: "inorder (plug C3 ?T) = inorder (plug C (Nd c n f))" by blast
      have st: "steers compare node C" using inv by (simp add: descent_def)
      have "loop_ok compare node s (dom h1) (inorder (plug C3 ?T)) (insert_after compare h1 s node n p gp)"
        by (rule insert_after_rotated [OF C [unfolded p1] st [unfolded p1] inv1 _ _ less.hyps])
          (use fl(3) none small in auto)
      then show ?thesis using insert_loop_after [OF t] two h1 io by simp
    qed
  qed
qed


section \<open>Insertion into a tree\<close>

lemma rb_tree_agree:
  assumes "rb_tree h s T" and "\<And>y. y \<in> insert s (nodes T) \<Longrightarrow> h' y = h y"
  shows "rb_tree h' s T"
proof -
  have "holds h' s []" using holds_agree [of h s "[]" h'] assms by (simp add: rb_tree_def heap_at_def)
  moreover have "sub h' T s False (\<lambda>_. s)"
    by (rule sub_cong [of _ _ h]) (use assms in \<open>auto simp: rb_tree_def heap_at_def lk_def th_def domIff\<close>)
  ultimately show ?thesis using assms(1) by (simp add: rb_tree_def heap_at_def)
qed

text \<open>An empty tree is one whose sentinel has two threads, whatever its links are.\<close>

definition rb_holds :: "cldm_rbtree \<Rightarrow> addr \<Rightarrow> rtree \<Rightarrow> bool" where
  "rb_holds tree s T \<longleftrightarrow>
     rb_size tree = of_nat (length (inorder T)) \<and>
     (if T = Lf then \<exists>n. rb_heap tree s = Some n \<and> rb_flags n = CLDM_RBLEAF \<and> rb_color n = black
      else rb_tree (rb_heap tree) s T)"

text \<open>The contract of a comparison, on a set of nodes: it orders them by a key.\<close>

locale rb_order =
  fixes compare :: "addr \<Rightarrow> addr \<Rightarrow> int" and key :: "addr \<Rightarrow> 'k::linorder" and A :: "addr set"
  assumes compare_zero: "a \<in> A \<Longrightarrow> b \<in> A \<Longrightarrow> compare a b = 0 \<longleftrightarrow> key a = key b"
    and compare_pos: "a \<in> A \<Longrightarrow> b \<in> A \<Longrightarrow> 0 < compare a b \<longleftrightarrow> key a < key b"
begin

lemma compare_neg: "a \<in> A \<Longrightarrow> b \<in> A \<Longrightarrow> compare a b < 0 \<longleftrightarrow> key b < key a"
  using compare_zero [of a b] compare_pos [of a b] by (metis linorder_neqE_linordered_idom not_less_iff_gr_or_eq)

lemma sorted_between:
  assumes "sorted_wrt (<) (map key (ls @ rs))" and "insert node (set (ls @ rs)) \<subseteq> A"
    and "ls \<noteq> [] \<longrightarrow> 0 < compare (last ls) node" and "rs \<noteq> [] \<longrightarrow> compare (hd rs) node < 0"
  shows "sorted_wrt (<) (map key (ls @ node # rs))" and "key node \<notin> key ` set (ls @ rs)"
proof -
  have l: "key a < key node" if "a \<in> set ls" for a
  proof -
    obtain ls' x where ls: "ls = ls' @ [x]" using \<open>a \<in> set ls\<close> by (cases ls rule: rev_cases) auto
    have "key x < key node" using assms(2,3) compare_pos [of x node] by (simp add: ls)
    moreover have "a = x \<or> key a < key x" using assms(1) that by (auto simp: ls sorted_wrt_append)
    ultimately show ?thesis by auto
  qed
  have r: "key node < key a" if "a \<in> set rs" for a
  proof -
    obtain b rs' where rs: "rs = b # rs'" using \<open>a \<in> set rs\<close> by (cases rs) auto
    have "key node < key b" using assms(2,4) rs compare_neg [of b node] by auto
    then show ?thesis using that assms(1) rs by (auto simp: sorted_wrt_append)
  qed
  show "sorted_wrt (<) (map key (ls @ node # rs))" using assms(1) l r by (auto simp: sorted_wrt_append)
  show "key node \<notin> key ` set (ls @ rs)" using l r by fastforce
qed

lemma insert_nonempty:
  assumes T: "rb_tree h s T" "T \<noteq> Lf" and A: "insert node (nodes T) \<subseteq> A" and sorted: "sorted_wrt (<) (map key (inorder T))"
    and node: "node \<in> dom h" "node \<notin> insert s (nodes T)"
  shows "\<exists>r. insert_loop compare h s node (lk h s False) s l0 l1 = Some r \<and>
    (case r of
       Inl h' \<Rightarrow> dom h' = dom h \<and> key node \<in> key ` nodes T \<and> (\<exists>T'. rb_tree h' s T' \<and> inorder T' = inorder T)
     | Inr h' \<Rightarrow> dom h' = dom h \<and> key node \<notin> key ` nodes T \<and> (\<exists>T'. rb_tree h' s T' \<and>
         nodes T' = insert node (nodes T) \<and> length (inorder T') = Suc (length (inorder T)) \<and>
         sorted_wrt (<) (map key (inorder T'))))"
proof -
  obtain c n f where Nd: "T = Nd c n f" using T(2) by (cases T) auto
  have root: "lk h s False = n" using T(1) by (simp add: rb_tree_def heap_at_def Nd)
  have "loop_inv compare node s h [] (Nd c n f) s l0 l1"
    using T(1) node by (auto simp: loop_inv_def descent_def rb_tree_def Nd steers_def) blast+
  from insert_loop_ok [OF this] obtain r where
    r: "insert_loop compare h s node n s l0 l1 = Some r" "inserted compare node s (dom h) (inorder T) r"
    by (auto simp: loop_ok_def Nd)
  show ?thesis
  proof (cases r)
    case (Inl h')
    with r(2) obtain T' a where "dom h' = dom h" "rb_tree h' s T'" "inorder T' = inorder T" "a \<in> nodes T" "compare a node = 0"
      by (auto simp: inserted_def)
    moreover from this have "key a = key node" using A compare_zero [of a node] by auto
    ultimately have "key node \<in> key ` nodes T" by (metis imageI)
    then show ?thesis using r(1) root Inl \<open>dom h' = dom h\<close> \<open>rb_tree h' s T'\<close> \<open>inorder T' = inorder T\<close> by auto
  next
    case (Inr h')
    with r(2) obtain T' ls rs where T': "dom h' = dom h" "rb_tree h' s T'" "inorder T = ls @ rs" "inorder T' = ls @ node # rs"
      and ends: "ls \<noteq> [] \<longrightarrow> 0 < compare (last ls) node" "rs \<noteq> [] \<longrightarrow> compare (hd rs) node < 0"
      by (auto simp: inserted_def)
    have "sorted_wrt (<) (map key (ls @ node # rs)) \<and> key node \<notin> key ` set (ls @ rs)"
      using sorted_between [OF _ _ ends] sorted A T'(3) by simp
    then show ?thesis using r(1) root Inr T' by auto
  qed
qed

end

end
