(* ===== verification/Rbtree_Correct.thy ===== *)
theory Rbtree_Correct
  imports Rbtree_Insert
begin

text \<open>
  The operations of the red-black tree on valid trees: insertion, search, iteration, and a tree built
  by insertions.
\<close>

section \<open>Insertion\<close>

lemma put_lk_dom: "dom (h(l0 := None, l1 := None)) = dom h - {l0, l1}"
  by auto

lemma rbtree_insert_empty:
  assumes T: "rb_holds tree s Lf" and node: "node \<in> dom (rb_heap tree)" "node \<noteq> s"
  shows "\<exists>tree'. cldm_rbtree_insert compare l0 l1 tree s node = Some (True, tree') \<and>
    rb_holds tree' s (Nd black node (\<lambda>_. Lf)) \<and> dom (rb_heap tree') = dom (rb_heap tree)"
proof -
  let ?h = "rb_heap tree"
  let ?n = "\<lparr>rb_left = s, rb_right = s, rb_color = cldm_rbcolor_black, rb_flags = CLDM_RBLEAF\<rparr>"
  let ?h1 = "?h(node \<mapsto> ?n)"
  let ?h' = "put_lk s cldm_rbdir_right s (put_th s cldm_rbdir_left False (put_lk s cldm_rbdir_left node ?h1))"
  from T obtain n where n: "?h s = Some n" "rb_flags n = CLDM_RBLEAF" "rb_color n = black" by (auto simp: rb_holds_def)
  have new: "node \<noteq> s" "?h node \<noteq> None" using node by auto
  have ins: "cldm_rbtree_insert compare l0 l1 tree s node = Some (True, \<lparr>rb_heap = ?h', rb_size = 1\<rparr>)"
  proof -
    obtain m where m: "?h node = Some m" using new(2) by auto
    have s: "s \<in> dom ?h1" using n(1) by auto
    then show ?thesis using n m by (simp add: cldm_rbtree_insert_def cldm_rbtree_empty_def rb_upd_def)
  qed
  have sdom: "s \<in> dom (rb_heap tree)" using n by auto
  have "th ?h1 s e" "th ?h1 node e" "lk ?h1 node e = s" "col ?h1 s = black" "col ?h1 node = black" for e
    using n new(1) by (simp_all add: th_def lk_def col_def is_thread_leaf link_def)
  moreover have "insert s (insert node (dom ?h1)) = dom ?h1" using n by auto
  ultimately have "rb_tree ?h' s (Nd black node (\<lambda>_. Lf))"
    using new(1) sdom by (simp add: rb_tree_def heap_at_def)
  then have "rb_holds \<lparr>rb_heap = ?h', rb_size = 1\<rparr> s (Nd black node (\<lambda>_. Lf))" by (simp add: rb_holds_def)
  moreover have "dom ?h' = dom ?h" using n new by auto
  ultimately show ?thesis using ins by (intro exI [of _ "\<lparr>rb_heap = ?h', rb_size = 1\<rparr>"])
      (simp add: insert_absorb [OF sdom])
qed

lemma rbtree_insert_unfold:
  fixes l0 l1 s tree
  defines "h \<equiv> (rb_heap tree)(l0 \<mapsto> zero_rbnode\<lparr>rb_left := s\<rparr>, l1 \<mapsto> zero_rbnode\<lparr>rb_left := l0\<rparr>)"
  assumes "s \<in> dom h" and "s \<in> dom (rb_heap tree)" and "\<not> th h s False" and "l0 \<noteq> s" and "l1 \<noteq> s"
  shows "cldm_rbtree_insert compare l0 l1 tree s node =
      do { r \<leftarrow> insert_loop compare h s node (lk h s False) s l0 l1;
           case r of
             Inl h \<Rightarrow> Some (False, tree\<lparr>rb_heap := h(l0 := None, l1 := None)\<rparr>)
           | Inr h \<Rightarrow> Some (True, \<lparr>rb_heap = h(l0 := None, l1 := None), rb_size = rb_size tree + 1\<rparr>) }"
proof -
  obtain n where n: "rb_heap tree s = Some n" using assms(3) by auto
  then have "\<not> is_thread n False" using assms(4-6) by (simp add: h_def th_def)
  then have "cldm_rbtree_empty (rb_heap tree) s = Some False"
    using n is_thread_leaf [of n False] by (auto simp: cldm_rbtree_empty_def)
  then show ?thesis using assms(2) unfolding h_def by (simp add: cldm_rbtree_insert_def Let_def)
qed

lemma rbtree_insert_holds:
  assumes "rb_order compare key A" and T: "rb_holds tree s T" and A: "insert node (nodes T) \<subseteq> A"
    and sorted: "sorted_wrt (<) (map key (inorder T))"
    and node: "node \<in> dom (rb_heap tree)" "node \<notin> insert s (nodes T)"
    and l: "l0 \<noteq> l1" "l0 \<notin> dom (rb_heap tree)" "l1 \<notin> dom (rb_heap tree)"
  shows "\<exists>tree' T'. cldm_rbtree_insert compare l0 l1 tree s node = Some (key node \<notin> key ` nodes T, tree') \<and>
    rb_holds tree' s T' \<and> sorted_wrt (<) (map key (inorder T')) \<and> dom (rb_heap tree') = dom (rb_heap tree) \<and>
    nodes T' = (if key node \<in> key ` nodes T then nodes T else insert node (nodes T))"
proof (cases "T = Lf")
  case True
  with rbtree_insert_empty [of tree s node compare l0 l1] T node obtain tree' where
    "cldm_rbtree_insert compare l0 l1 tree s node = Some (True, tree')"
    "rb_holds tree' s (Nd black node (\<lambda>_. Lf))" "dom (rb_heap tree') = dom (rb_heap tree)" by auto
  with True show ?thesis by (intro exI [of _ tree'] exI [of _ "Nd black node (\<lambda>_. Lf)"]) simp
next
  case False
  let ?h = "(rb_heap tree)(l0 \<mapsto> zero_rbnode\<lparr>rb_left := s\<rparr>, l1 \<mapsto> zero_rbnode\<lparr>rb_left := l0\<rparr>)"
  from T False have tree: "rb_tree (rb_heap tree) s T" and sz: "rb_size tree = of_nat (length (inorder T))"
    by (auto simp: rb_holds_def)
  have sd: "insert s (nodes T) \<subseteq> dom (rb_heap tree)"
    using tree sub_dom [of "rb_heap tree" T s False "\<lambda>_. s"] by (auto simp: rb_tree_def heap_at_def)
  then have fresh: "l0 \<notin> insert s (nodes T)" "l1 \<notin> insert s (nodes T)" "l0 \<noteq> node" "l1 \<noteq> node" using l node by blast+
  have t: "rb_tree ?h s T" by (rule rb_tree_agree [OF tree]) (use fresh in auto)
  have s: "s \<in> dom ?h" "\<not> th ?h s False" using t False by (cases T; simp add: rb_tree_def heap_at_def)+
  have ins: "cldm_rbtree_insert compare l0 l1 tree s node =
      do { r \<leftarrow> insert_loop compare ?h s node (lk ?h s False) s l0 l1;
           case r of
             Inl h \<Rightarrow> Some (False, tree\<lparr>rb_heap := h(l0 := None, l1 := None)\<rparr>)
           | Inr h \<Rightarrow> Some (True, \<lparr>rb_heap = h(l0 := None, l1 := None), rb_size = rb_size tree + 1\<rparr>) }"
    by (rule rbtree_insert_unfold [OF s(1) _ s(2)]) (use sd fresh in auto)
  have "node \<in> dom ?h" using node(1) by auto
  from rb_order.insert_nonempty [OF assms(1) t False A sorted this node(2), of l0 l1] obtain r where
    r: "insert_loop compare ?h s node (lk ?h s False) s l0 l1 = Some r"
    and post: "case r of
       Inl h' \<Rightarrow> dom h' = dom ?h \<and> key node \<in> key ` nodes T \<and> (\<exists>T'. rb_tree h' s T' \<and> inorder T' = inorder T)
     | Inr h' \<Rightarrow> dom h' = dom ?h \<and> key node \<notin> key ` nodes T \<and> (\<exists>T'. rb_tree h' s T' \<and>
         nodes T' = insert node (nodes T) \<and> length (inorder T') = Suc (length (inorder T)) \<and>
         sorted_wrt (<) (map key (inorder T')))" by blast
  have restored: "rb_tree (h'(l0 := None, l1 := None)) s T'"
    if "rb_tree h' s T'" "nodes T' \<subseteq> insert node (nodes T)" for h' T'
    by (rule rb_tree_agree [OF that(1)]) (use that(2) fresh in auto)
  have dom: "dom (h'(l0 := None, l1 := None)) = dom (rb_heap tree)" if "dom h' = dom ?h" for h'
    using that l by auto
  show ?thesis
  proof (cases r)
    case (Inl h')
    with post obtain T' where T': "dom h' = dom ?h" "key node \<in> key ` nodes T" "rb_tree h' s T'" "inorder T' = inorder T" by auto
    let ?tree = "tree\<lparr>rb_heap := h'(l0 := None, l1 := None)\<rparr>"
    have "T' \<noteq> Lf" using T'(4) False by (cases T; cases T') auto
    then have "rb_holds ?tree s T'" using restored [OF T'(3)] T'(4) sz by (auto simp: rb_holds_def)
    moreover have "cldm_rbtree_insert compare l0 l1 tree s node = Some (key node \<notin> key ` nodes T, ?tree)"
      using ins r Inl T'(2) by simp
    ultimately show ?thesis using T'(2-4) sorted
      by (intro exI [of _ ?tree] exI [of _ T']) (simp add: dom [OF T'(1)] del: dom_fun_upd)
  next
    case (Inr h')
    with post obtain T' where T': "dom h' = dom ?h" "key node \<notin> key ` nodes T" "rb_tree h' s T'"
        "nodes T' = insert node (nodes T)" "length (inorder T') = Suc (length (inorder T))"
        "sorted_wrt (<) (map key (inorder T'))" by auto
    let ?tree = "\<lparr>rb_heap = h'(l0 := None, l1 := None), rb_size = rb_size tree + 1\<rparr>"
    have "T' \<noteq> Lf" using T'(5) by auto
    then have "rb_holds ?tree s T'" using restored [OF T'(3)] T'(4,5) sz by (auto simp: rb_holds_def)
    moreover have "cldm_rbtree_insert compare l0 l1 tree s node = Some (key node \<notin> key ` nodes T, ?tree)"
      using ins r Inr T'(2) by simp
    ultimately show ?thesis using T'(2-6)
      by (intro exI [of _ ?tree] exI [of _ T']) (simp add: dom [OF T'(1)] del: dom_fun_upd)
  qed
qed

text \<open>C3: an insertion returns and keeps the threaded red-black tree valid and sorted by the keys; it adds
  the node if there is none with its key, reports whether it did, and changes nothing otherwise.\<close>

theorem cldm_rbtree_insert_correct:
  assumes "rb_order compare key A" and T: "rb_holds tree s T" and A: "insert node (nodes T) \<subseteq> A"
    and sorted: "sorted_wrt (<) (map key (inorder T))"
    and node: "node \<in> dom (rb_heap tree)" "node \<notin> insert s (nodes T)"
    and l: "l0 \<noteq> l1" "l0 \<notin> dom (rb_heap tree)" "l1 \<notin> dom (rb_heap tree)"
  shows "\<exists>tree' T'. cldm_rbtree_insert compare l0 l1 tree s node = Some (key node \<notin> key ` nodes T, tree') \<and>
    rb_holds tree' s T' \<and> sorted_wrt (<) (map key (inorder T')) \<and> dom (rb_heap tree') = dom (rb_heap tree) \<and>
    nodes T' = (if key node \<in> key ` nodes T then nodes T else insert node (nodes T))"
  by (rule rbtree_insert_holds [OF assms])

text \<open>Nodes ordered by their addresses.\<close>

lemma addr_order: "rb_order (\<lambda>a b. int b - int a) (\<lambda>a. a) UNIV"
  by unfold_locales auto

definition sample_heap :: rbheap where
  "sample_heap = (\<lambda>a. if a < 10 then Some zero_rbnode else None)"

lemma sample_init: "rb_holds (cldm_rbtree_init sample_heap 9) 9 Lf"
  by (simp add: rb_holds_def cldm_rbtree_init_def zero_rbnode_def)

lemma sample_dom: "dom sample_heap = {..<10}" "dom (rb_heap (cldm_rbtree_init sample_heap 9)) = {..<10}"
  by (auto simp: sample_heap_def cldm_rbtree_init_def split: if_splits)

theorem cldm_rbtree_insert_correct_witness:
  "\<exists>tree T. cldm_rbtree_insert (\<lambda>a b. int b - int a) 20 21 (cldm_rbtree_init sample_heap 9) 9 5 = Some (True, tree) \<and>
     rb_holds tree 9 T \<and> nodes T = {5}"
proof -
  have "\<exists>tree' T'. cldm_rbtree_insert (\<lambda>a b. int b - int a) 20 21 (cldm_rbtree_init sample_heap 9) 9 5 =
      Some (5 \<notin> (\<lambda>a. a) ` nodes Lf, tree') \<and> rb_holds tree' 9 T' \<and> sorted_wrt (<) (map (\<lambda>a. a) (inorder T')) \<and>
      dom (rb_heap tree') = dom (rb_heap (cldm_rbtree_init sample_heap 9)) \<and>
      nodes T' = (if 5 \<in> (\<lambda>a. a) ` nodes Lf then nodes Lf else insert 5 (nodes Lf))"
    by (rule cldm_rbtree_insert_correct [OF addr_order sample_init]) (simp_all add: sample_dom)
  then show ?thesis by auto
qed

section \<open>Searching\<close>

lemma find_loop_sub:
  assumes "rb_order compare key A" and "sub h t x d b" and "insert node (nodes t) \<subseteq> A"
    and "sorted_wrt (<) (map key (inorder t))"
  shows "\<exists>r. find_loop compare h node x (lk h x d) d = Some r \<and>
    (case r of None \<Rightarrow> key node \<notin> key ` nodes t | Some a \<Rightarrow> a \<in> nodes t \<and> key a = key node)"
  using assms(2-4)
proof (induction t arbitrary: x d b)
  case Lf
  then show ?case by (subst find_loop.simps) (auto simp: th_def)
next
  case (Nd c a f)
  let ?dir = "0 < compare a node"
  from Nd.prems have s: "x \<in> dom h" "\<not> th h x d" "lk h x d = a" "a \<in> dom h" by auto
  have loop: "find_loop compare h node x (lk h x d) d =
      (if compare a node = 0 then Some (Some a) else find_loop compare h node a (lk h a ?dir) ?dir)"
    using s by (subst find_loop.simps) (simp add: heap_bind link_the Let_def)
  have aA: "a \<in> A" "node \<in> A" using Nd.prems by auto
  show ?case
  proof (cases "compare a node = 0")
    case True
    then show ?thesis using loop rb_order.compare_zero [OF assms(1) aA] by (intro exI [of _ "Some a"]) simp
  next
    case False
    have "\<exists>r. find_loop compare h node a (lk h a ?dir) ?dir = Some r \<and>
        (case r of None \<Rightarrow> key node \<notin> key ` nodes (f ?dir) | Some a' \<Rightarrow> a' \<in> nodes (f ?dir) \<and> key a' = key node)"
    proof (rule Nd.IH)
      show "sub h (f ?dir) a ?dir (b(\<not> ?dir := a))" using Nd.prems(1) by simp
      show "insert node (nodes (f ?dir)) \<subseteq> A" using Nd.prems(2) by (cases ?dir) auto
      show "sorted_wrt (<) (map key (inorder (f ?dir)))" using Nd.prems(3) by (cases ?dir) (auto simp: sorted_wrt_append)
    qed simp
    then obtain r where r: "find_loop compare h node a (lk h a ?dir) ?dir = Some r"
        "case r of None \<Rightarrow> key node \<notin> key ` nodes (f ?dir) | Some a' \<Rightarrow> a' \<in> nodes (f ?dir) \<and> key a' = key node" by blast
    have other: "key node \<notin> key ` nodes (f (\<not> ?dir))" "key node \<noteq> key a"
    proof -
      show "key node \<noteq> key a" using False rb_order.compare_zero [OF assms(1) aA] by simp
      show "key node \<notin> key ` nodes (f (\<not> ?dir))"
      proof (cases ?dir)
        case True
        then have "key a < key node" using rb_order.compare_pos [OF assms(1) aA] by simp
        then show ?thesis using True Nd.prems(3) by (auto simp: sorted_wrt_append)
      next
        case dir: False
        then have "key node < key a" using rb_order.compare_neg [OF assms(1) aA] False by simp
        then show ?thesis using dir Nd.prems(3) by (auto simp: sorted_wrt_append)
      qed
    qed
    show ?thesis
    proof (intro exI [of _ r] conjI)
      show "find_loop compare h node x (lk h x d) d = Some r" using loop r(1) False by simp
      show "case r of None \<Rightarrow> key node \<notin> key ` nodes (Nd c a f) | Some a' \<Rightarrow> a' \<in> nodes (Nd c a f) \<and> key a' = key node"
        using r(2) other unfolding nodes_Nd [of c a f ?dir] by (cases r) auto
    qed
  qed
qed


text \<open>C22: a search returns on every valid tree, the empty one included, and finds the node with the key of
  the node searched for exactly if there is one.\<close>

theorem cldm_rbtree_find_correct:
  assumes "rb_order compare key A" and T: "rb_holds tree s T" and "insert node (nodes T) \<subseteq> A"
    and "sorted_wrt (<) (map key (inorder T))"
  shows "\<exists>r. cldm_rbtree_find compare (rb_heap tree) s node = Some r \<and>
    (case r of None \<Rightarrow> key node \<notin> key ` nodes T | Some a \<Rightarrow> a \<in> nodes T \<and> key a = key node)"
proof (cases "T = Lf")
  case True
  with T obtain n where "rb_heap tree s = Some n" "is_thread n False" by (auto simp: rb_holds_def is_thread_leaf)
  then show ?thesis using True
    by (intro exI [of _ None]) (simp add: cldm_rbtree_find_def cldm_rbroot_def find_loop.simps)
next
  case False
  with T have "rb_tree (rb_heap tree) s T" by (simp add: rb_holds_def)
  then have "sub (rb_heap tree) T s False (\<lambda>_. s)" "s \<in> dom (rb_heap tree)" by (simp_all add: rb_tree_def heap_at_def)
  then show ?thesis using find_loop_sub [OF assms(1) _ assms(3,4), of "rb_heap tree" s False "\<lambda>_. s"]
    by (simp add: cldm_rbtree_find_def)
qed

theorem cldm_rbtree_find_correct_witness:
  "\<exists>r. cldm_rbtree_find (\<lambda>a b. int b - int a) (rb_heap (cldm_rbtree_init sample_heap 9)) 9 5 = Some r"
  using cldm_rbtree_find_correct [OF addr_order sample_init, of 5] by auto

section \<open>Iteration\<close>

lemma leftmost_sub: "sub h t x d b \<Longrightarrow> t \<noteq> Lf \<Longrightarrow> cldm_rbtree_leftmost h (lk h x d) = Some (hd (inorder t))"
proof (induction t arbitrary: x d b)
  case Lf
  then show ?case by simp
next
  case (Nd c a f)
  then have a: "lk h x d = a" "a \<in> dom h" and "\<And>e. sub h (f e) a e (b(\<not> e := a))" by simp_all
  note l = this(3) [of False]
  show ?case
  proof (cases "f False")
    case Lf
    then have "th h a False" using l by simp
    then show ?thesis using a Lf by (subst cldm_rbtree_leftmost.simps) (simp add: heap_bind link_the)
  next
    case L: (Nd c' a' f')
    then have "\<not> th h a False" using l by simp
    moreover have "cldm_rbtree_leftmost h (lk h a False) = Some (hd (inorder (f False)))"
      using Nd.IH [OF rangeI l] L by simp
    moreover have "inorder (f False) \<noteq> []" using L by simp
    ultimately show ?thesis using a by (subst cldm_rbtree_leftmost.simps) (simp add: heap_bind link_the rb_left_the)
  qed
qed

text \<open>The loop from the first node of a subtree visits the subtree and goes on behind it.\<close>

lemma for_each_sub:
  assumes "sub h t x d b" and "s \<notin> nodes t"
  shows "for_each_loop h s (hd (inorder t @ [b True])) =
    do { rest \<leftarrow> for_each_loop h s (b True); Some (inorder t @ rest) }"
  using assms
proof (induction t arbitrary: x d b)
  case Lf
  then show ?case by (cases "for_each_loop h s (b True)") simp_all
next
  case (Nd c a f)
  from Nd.prems have a: "a \<in> dom h" and kids: "\<And>e. sub h (f e) a e (b(\<not> e := a))" and s: "a \<noteq> s" by auto
  have IH: "for_each_loop h s (hd (inorder (f e) @ [(b(\<not> e := a)) True])) =
      do { rest \<leftarrow> for_each_loop h s ((b(\<not> e := a)) True); Some (inorder (f e) @ rest) }" for e
    by (rule Nd.IH [OF rangeI kids]) (use Nd.prems(2) in \<open>cases e; simp\<close>)
  have "hd (inorder (Nd c a f) @ [b True]) = hd (inorder (f False) @ [a])" by (cases "inorder (f False)") simp_all
  moreover have "for_each_loop h s (hd (inorder (f False) @ [a])) =
      do { rest \<leftarrow> for_each_loop h s a; Some (inorder (f False) @ rest) }"
    using IH [of False] by simp
  moreover have "for_each_loop h s a = do { rest \<leftarrow> for_each_loop h s (b True); Some (a # inorder (f True) @ rest) }"
  proof -
    have r: "for_each_loop h s (hd (inorder (f True) @ [b True])) =
        do { rest \<leftarrow> for_each_loop h s (b True); Some (inorder (f True) @ rest) }"
      using IH [of True] by simp
    have "cldm_rbnode_successor h a = Some (hd (inorder (f True) @ [b True]))"
    proof (cases "f True")
      case Lf
      then show ?thesis using kids [of True] a by (simp add: cldm_rbnode_successor_def heap_bind link_the rb_left_the)
    next
      case (Nd c' a' f')
      have "cldm_rbtree_leftmost h (lk h a True) = Some (hd (inorder (f True)))"
        using leftmost_sub [OF kids [of True]] by (simp add: Nd)
      moreover have "hd (inorder (f True) @ [b True]) = hd (inorder (f True))" by (simp add: Nd hd_append)
      moreover have "\<not> th h a True" using kids [of True] Nd by simp
      ultimately show ?thesis using a by (simp add: cldm_rbnode_successor_def heap_bind link_the rb_left_the)
    qed
    then show ?thesis using s r
      by (subst for_each_loop.simps) (cases "for_each_loop h s (b True)"; simp)
  qed
  ultimately show ?case by (cases "for_each_loop h s (b True)") simp_all
qed

text \<open>The iteration over a tree visits every node once, in the order of the tree, and ends.\<close>

lemma rbtree_for_each_holds:
  assumes "rb_holds tree s T" and "length (inorder T) < 2 ^ 64"
  shows "cldm_rbtree_for_each tree s = Some (inorder T)"
proof (cases "T = Lf")
  case True
  then show ?thesis using assms by (simp add: rb_holds_def cldm_rbtree_for_each_def)
next
  case False
  then obtain c a f where T: "T = Nd c a f" by (cases T) auto
  from assms(1) False have t: "rb_tree (rb_heap tree) s T" and sz: "rb_size tree = of_nat (length (inorder T))"
    by (auto simp: rb_holds_def)
  have "unat (rb_size tree) = length (inorder T)" using assms(2) by (simp only: sz) (rule unat_of_nat_small, simp)
  then have "rb_size tree \<noteq> 0" using T by auto
  moreover from t have sub: "sub (rb_heap tree) (Nd c a f) s False (\<lambda>_. s)" and s: "s \<in> dom (rb_heap tree)" "s \<notin> nodes T"
    by (auto simp: rb_tree_def heap_at_def T)
  moreover have "for_each_loop (rb_heap tree) s s = Some []" by (subst for_each_loop.simps) simp
  moreover have "hd (inorder (Nd c a f) @ [s]) = hd (inorder (Nd c a f))" by (cases "inorder (f False)") simp_all
  ultimately show ?thesis
    using leftmost_sub [OF sub] for_each_sub [OF sub] T sub
    by (simp add: cldm_rbtree_for_each_def)
qed


section \<open>Building a tree\<close>

text \<open>The insertions of a list of nodes, one after the other.\<close>

fun insert_all ::
  "(addr \<Rightarrow> addr \<Rightarrow> int) \<Rightarrow> addr \<Rightarrow> addr \<Rightarrow> addr \<Rightarrow> addr list \<Rightarrow> cldm_rbtree \<Rightarrow> cldm_rbtree option" where
  "insert_all compare l0 l1 s [] tree = Some tree"
| "insert_all compare l0 l1 s (a # as) tree =
     do { (b, tree) \<leftarrow> cldm_rbtree_insert compare l0 l1 tree s a; insert_all compare l0 l1 s as tree }"

lemma insert_all_holds:
  assumes "rb_order compare key A" and "rb_holds tree s T" and "set xs \<union> nodes T \<subseteq> A"
    and "sorted_wrt (<) (map key (inorder T))" and "set xs \<subseteq> dom (rb_heap tree)" and "s \<notin> set xs"
    and "distinct xs" and "nodes T \<inter> set xs = {}"
    and "l0 \<noteq> l1" and "l0 \<notin> dom (rb_heap tree)" and "l1 \<notin> dom (rb_heap tree)"
  shows "\<exists>tree' T'. insert_all compare l0 l1 s xs tree = Some tree' \<and> rb_holds tree' s T' \<and>
    sorted_wrt (<) (map key (inorder T')) \<and> nodes T' \<subseteq> nodes T \<union> set xs \<and> key ` nodes T' = key ` (nodes T \<union> set xs)"
  using assms(2-)
proof (induction xs arbitrary: tree T)
  case Nil
  then show ?case by auto
next
  case (Cons a xs)
  from Cons.prems have a: "insert a (nodes T) \<subseteq> A" "a \<in> dom (rb_heap tree)" "a \<notin> insert s (nodes T)" by auto
  from rbtree_insert_holds [OF assms(1) Cons.prems(1) a(1) Cons.prems(3) a(2,3) Cons.prems(8-10)]
  obtain tree1 T1 where i: "cldm_rbtree_insert compare l0 l1 tree s a = Some (key a \<notin> key ` nodes T, tree1)"
      "rb_holds tree1 s T1" "sorted_wrt (<) (map key (inorder T1))" "dom (rb_heap tree1) = dom (rb_heap tree)"
      "nodes T1 = (if key a \<in> key ` nodes T then nodes T else insert a (nodes T))" by auto
  have sub: "nodes T1 \<subseteq> insert a (nodes T)" "key ` nodes T1 = key ` insert a (nodes T)" using i(5) by (auto split: if_splits)
  have "\<exists>tree' T'. insert_all compare l0 l1 s xs tree1 = Some tree' \<and> rb_holds tree' s T' \<and>
      sorted_wrt (<) (map key (inorder T')) \<and> nodes T' \<subseteq> nodes T1 \<union> set xs \<and> key ` nodes T' = key ` (nodes T1 \<union> set xs)"
    by (rule Cons.IH [OF i(2) _ i(3)]) (use Cons.prems sub(1) i(4) in \<open>auto 4 3\<close>)
  then obtain tree' T' where t: "insert_all compare l0 l1 s xs tree1 = Some tree'" "rb_holds tree' s T'"
      "sorted_wrt (<) (map key (inorder T'))" "nodes T' \<subseteq> nodes T1 \<union> set xs" "key ` nodes T' = key ` (nodes T1 \<union> set xs)"
    by blast
  have "nodes T' \<subseteq> nodes T \<union> set (a # xs)" using t(4) sub(1) by auto
  moreover have "key ` nodes T' = key ` (nodes T \<union> set (a # xs))" using t(5) sub(2) by (simp add: image_Un)
  ultimately show ?case using i(1) t(1-3) by auto
qed

text \<open>C8: a tree built by inserting nodes one after the other is iterated over in the order of the keys, each
  key once: the iteration returns a sorted list of inserted nodes with all the keys that were inserted.\<close>

theorem cldm_rbtree_insert_all_sorted:
  assumes "rb_order compare key A" and "set xs \<subseteq> A" and "set xs \<subseteq> dom h" and "distinct xs" and "s \<notin> set xs"
    and "length xs < 2 ^ 64" and "l0 \<noteq> l1" and "l0 \<notin> insert s (dom h)" and "l1 \<notin> insert s (dom h)"
  shows "\<exists>tree ys. insert_all compare l0 l1 s xs (cldm_rbtree_init h s) = Some tree \<and>
    cldm_rbtree_for_each tree s = Some ys \<and> sorted_wrt (<) (map key ys) \<and> set ys \<subseteq> set xs \<and> key ` set ys = key ` set xs"
proof -
  have init: "rb_holds (cldm_rbtree_init h s) s Lf" by (simp add: rb_holds_def cldm_rbtree_init_def zero_rbnode_def)
  have "\<exists>tree' T'. insert_all compare l0 l1 s xs (cldm_rbtree_init h s) = Some tree' \<and> rb_holds tree' s T' \<and>
      sorted_wrt (<) (map key (inorder T')) \<and> nodes T' \<subseteq> nodes Lf \<union> set xs \<and> key ` nodes T' = key ` (nodes Lf \<union> set xs)"
    by (rule insert_all_holds [OF assms(1) init]) (use assms in \<open>auto simp: cldm_rbtree_init_def\<close>)
  then obtain tree T where t: "insert_all compare l0 l1 s xs (cldm_rbtree_init h s) = Some tree" "rb_holds tree s T"
      "sorted_wrt (<) (map key (inorder T))" "nodes T \<subseteq> set xs" "key ` nodes T = key ` set xs" by auto
  have "distinct (inorder T)" using t(3) by (metis distinct_map strict_sorted_iff)
  then have "length (inorder T) \<le> length xs"
    using t(4) by (metis distinct_card card_mono finite_set card_length order_trans)
  then have "cldm_rbtree_for_each tree s = Some (inorder T)"
    using rbtree_for_each_holds [OF t(2)] assms(6) by simp
  then show ?thesis using t by blast
qed

theorem cldm_rbtree_insert_all_sorted_witness:
  "\<exists>tree ys. insert_all (\<lambda>a b. int b - int a) 20 21 9 [5, 3, 7, 4] (cldm_rbtree_init sample_heap 9) = Some tree \<and>
     cldm_rbtree_for_each tree 9 = Some ys \<and> set ys = {3, 4, 5, 7} \<and> sorted_wrt (<) ys"
proof -
  have "\<exists>tree ys. insert_all (\<lambda>a b. int b - int a) 20 21 9 [5, 3, 7, 4] (cldm_rbtree_init sample_heap 9) = Some tree \<and>
      cldm_rbtree_for_each tree 9 = Some ys \<and> sorted_wrt (<) (map (\<lambda>a. a) ys) \<and> set ys \<subseteq> set [5, 3, 7, 4] \<and>
      (\<lambda>a. a) ` set ys = (\<lambda>a. a) ` set [5, 3, 7, 4]"
    by (rule cldm_rbtree_insert_all_sorted [OF addr_order]) (simp_all add: sample_dom)
  then show ?thesis by auto
qed


section \<open>Removal\<close>

lemma for_each_loop_stuck:
  assumes "cldm_rbnode_successor h a = Some a" and "a \<noteq> s"
  shows "for_each_loop h s a = None"
proof (cases "for_each_loop h s a")
  case (Some xs)
  have "for_each_loop h s a = do { rest \<leftarrow> for_each_loop h s a; Some (a # rest) }"
    using assms by (subst for_each_loop.simps) simp
  with Some have "xs = a # xs" by simp
  then show ?thesis by simp
qed simp

definition sample_removal :: "(addr option \<times> cldm_rbtree) option" where
  "sample_removal =
     do { tree \<leftarrow> insert_all (\<lambda>a b. int b - int a) 20 21 9 [1, 2] (cldm_rbtree_init sample_heap 9);
          cldm_rbtree_remove (\<lambda>a b. int b - int a) 20 tree 9 2 }"

lemma sample_removal_links:
  "map_option (\<lambda>(found, tree). (found, rb_size tree, cldm_rbroot (rb_heap tree) 9,
     cldm_rbtree_leftmost (rb_heap tree) 1, cldm_rbnode_successor (rb_heap tree) 1)) sample_removal =
   Some (Some 2, 1, Some 1, Some 1, Some 1)"
  by code_simp

text \<open>A removal leaves a thread of the tree broken: when the greater of two nodes is removed, the thread
  of the other one leads back to itself, and an iteration over the tree does not return.\<close>

theorem cldm_rbtree_remove_breaks_thread:
  "\<exists>tree. sample_removal = Some (Some 2, tree) \<and> rb_size tree = 1 \<and> cldm_rbtree_for_each tree 9 = None"
proof -
  obtain tree where t: "sample_removal = Some (Some 2, tree)" "rb_size tree = 1" "cldm_rbroot (rb_heap tree) 9 = Some 1"
      "cldm_rbtree_leftmost (rb_heap tree) 1 = Some 1" "cldm_rbnode_successor (rb_heap tree) 1 = Some 1"
    using sample_removal_links by auto
  have "for_each_loop (rb_heap tree) 9 1 = None" by (rule for_each_loop_stuck [OF t(5)]) simp
  with t show ?thesis by (intro exI [of _ tree]) (simp add: cldm_rbtree_for_each_def)
qed

end
