(* ===== verification/Collect_Correct.thy ===== *)
theory Collect_Correct
  imports Collect Rbtree_Correct "HOL-Library.List_Lexorder" "HOL-Library.Product_Lexorder"
begin

text \<open>
  Correctness of \<^verbatim>\<open>cldm/cldm_collect.c\<close>: the records of all test symbols end up in the tree, in the order
  of their files and names, and what marking the identifiers does. The comparison of two records is an
  order for the lemmas on the tree.
\<close>


section \<open>The order of the test records\<close>

lemma c_strlen_string:
  assumes "c_strlen m a = Some n"
  shows "\<exists>s. length s = n \<and> cstring_at m a s"
proof (rule c_strlen.raw_induct [OF _ assms])
  fix f m a n
  assume IH: "\<And>m a n. f m a = Some n \<Longrightarrow> \<exists>s. length s = n \<and> cstring_at m a s"
    and "do { b \<leftarrow> m a; if b = 0 then Some 0 else do { n \<leftarrow> f m (a + 1); Some (Suc n) } } = Some n"
  then obtain b where b: "m a = Some b" and n: "(if b = 0 then Some 0 else do { n \<leftarrow> f m (a + 1); Some (Suc n) }) = Some n"
    by (auto simp: bind_eq_Some_conv)
  show "\<exists>s. length s = n \<and> cstring_at m a s"
  proof (cases "b = 0")
    case True
    then show ?thesis using b n by (intro exI [of _ "[]"]) (simp add: cstring_at_def)
  next
    case False
    with n obtain n' where "f m (a + 1) = Some n'" "n = Suc n'" by (auto simp: bind_eq_Some_conv)
    with IH obtain s where "length s = n'" "cstring_at m (a + 1) s" by blast
    then show ?thesis using b False \<open>n = Suc n'\<close> by (intro exI [of _ "b # s"]) (simp add: cstring_at_def)
  qed
qed

lemma c_string_no_zero: "c_string m a = Some s \<Longrightarrow> 0 \<notin> set s"
proof -
  assume "c_string m a = Some s"
  then obtain n where n: "c_strlen m a = Some n" and s: "mem_rdn m a n = Some s" by (auto simp: c_string_def bind_eq_Some_conv)
  from c_strlen_string [OF n] obtain t where t: "length t = n" "cstring_at m a t" by blast
  then have "mem_rdn m a n = Some t" by (simp add: mem_rdn_bytes_at cstring_at_def bytes_at_append)
  with s t show ?thesis by (simp add: cstring_at_def)
qed

lemma str_cmp_less: "0 \<notin> set xs \<Longrightarrow> 0 \<notin> set ys \<Longrightarrow> str_cmp xs ys < 0 \<longleftrightarrow> xs < ys"
proof (induction xs ys rule: str_cmp.induct)
  case (3 y ys)
  then have "uint y \<noteq> 0" by (simp add: uint_0_iff)
  then have "0 < uint y" using uint_nonnegative [of y] by linarith
  then show ?case by simp
next
  case (4 x xs y ys)
  then show ?case by (simp add: word_less_def)
qed (simp_all add: not_less)

definition testrec_at :: "mem \<Rightarrow> addr \<Rightarrow> unit cldm_testrec option" where
  "testrec_at m a = read_testrec m (\<lambda>_. Some) (cldm_testrec_get a)"

definition testrec_nodes :: "mem \<Rightarrow> addr set" where
  "testrec_nodes m = {a. testrec_at m a \<noteq> None}"

text \<open>The key of a record: its file, then its name.\<close>

definition testrec_key :: "mem \<Rightarrow> addr \<Rightarrow> u8 list \<times> u8 list" where
  "testrec_key m a = rec_key (the (testrec_at m a))"

lemma testrec_compare_key:
  assumes "rec_strings l" and "rec_strings r"
  shows "0 < cldm_testrec_compare l r \<longleftrightarrow> rec_key l < rec_key r"
  using assms
  by (auto simp: cldm_testrec_compare_def rec_key_def rec_strings_def Let_def less_prod_def' str_cmp_less str_cmp_zero)

lemma testrec_at_strings: "testrec_at m a = Some r \<Longrightarrow> rec_strings r"
  by (auto simp: testrec_at_def read_testrec_def rec_strings_def bind_eq_Some_conv dest: c_string_no_zero)

interpretation testrec: rb_order "testrec_node_compare m" "testrec_key m" "testrec_nodes m" for m
proof
  fix a b
  assume "a \<in> testrec_nodes m" "b \<in> testrec_nodes m"
  then obtain l r where lr: "testrec_at m a = Some l" "testrec_at m b = Some r" by (auto simp: testrec_nodes_def)
  then have c: "testrec_node_compare m a b = cldm_testrec_compare l r"
    by (simp add: testrec_node_compare_def testrec_at_def)
  note st = testrec_at_strings [OF lr(1)] testrec_at_strings [OF lr(2)]
  show "testrec_node_compare m a b = 0 \<longleftrightarrow> testrec_key m a = testrec_key m b"
    using cldm_testrec_compare_zero [OF st] by (simp add: c testrec_key_def lr)
  show "0 < testrec_node_compare m a b \<longleftrightarrow> testrec_key m a < testrec_key m b"
    using testrec_compare_key [OF st] by (simp add: c testrec_key_def lr)
qed


section \<open>All tests\<close>

text \<open>The strings of a string table, from an offset on, by their addresses.\<close>

fun tab_strings :: "mem \<Rightarrow> u64 \<Rightarrow> u64 \<Rightarrow> u64 \<Rightarrow> u64 list \<Rightarrow> bool" where
  "tab_strings m base sz i [] \<longleftrightarrow> \<not> i < sz"
| "tab_strings m base sz i (a # as) \<longleftrightarrow>
     i < sz \<and> a = base + i \<and> (\<exists>n. c_strlen m a = Some n \<and> tab_strings m base sz (i + of_nat n + 1) as)"

text \<open>The record that the symbol of a name leads to.\<close>

definition record_of :: "mem \<Rightarrow> cldm_elfmap \<Rightarrow> u64 \<Rightarrow> u64 option" where
  "record_of m em a = do { name \<leftarrow> c_string m a; cldm_elf_symlookup m em name }"

text \<open>The records of the test symbols among some strings, all of which are found.\<close>

fun test_records :: "mem \<Rightarrow> cldm_elfmap \<Rightarrow> u64 list \<Rightarrow> u64 list option" where
  "test_records m em [] = Some []"
| "test_records m em (a # as) =
     do { c \<leftarrow> strncmp_to m testrec_prefix a;
          rs \<leftarrow> test_records m em as;
          if c = 0 then do { r \<leftarrow> record_of m em a; if r = 0 then None else Some (r # rs) } else Some rs }"

lemma collect_loop_insert_all:
  assumes "tab_strings m (str_addr (map_strtab em)) (str_size (map_strtab em)) i as"
    and "test_records m em as = Some rs"
    and "insert_all (testrec_node_compare m) l0 l1 s (map rbnode_of rs) tree = Some tree'"
  shows "collect_loop m em l0 l1 s tree i = Some (sint (rb_size tree'), tree')"
  using assms
proof (induction as arbitrary: i rs tree)
  case Nil
  then show ?case by (subst collect_loop.simps) (simp add: cldm_rbtree_size_def)
next
  case (Cons a as)
  let ?base = "str_addr (map_strtab em)" and ?size = "str_size (map_strtab em)"
  from Cons.prems(1) obtain n where a: "i < ?size" "a = ?base + i" "c_strlen m a = Some n"
      "tab_strings m ?base ?size (i + of_nat n + 1) as" by auto
  from Cons.prems(2) obtain c rs' where c: "strncmp_to m testrec_prefix a = Some c" "test_records m em as = Some rs'"
    and r: "(if c = 0 then do { r \<leftarrow> record_of m em a; if r = 0 then None else Some (r # rs') } else Some rs') = Some rs"
    by (auto simp: bind_eq_Some_conv)
  show ?case
  proof (cases "c = 0")
    case True
    with r obtain r' where r': "record_of m em a = Some r'" "r' \<noteq> 0" "rs = r' # rs'"
      by (auto simp: bind_eq_Some_conv split: if_splits)
    from r'(1) obtain name where name: "c_string m a = Some name" "cldm_elf_symlookup m em name = Some r'"
      by (auto simp: record_of_def bind_eq_Some_conv)
    from Cons.prems(3) r'(3) obtain b tree1 where
      t: "cldm_rbtree_insert (testrec_node_compare m) l0 l1 tree s (rbnode_of r') = Some (b, tree1)"
        "insert_all (testrec_node_compare m) l0 l1 s (map rbnode_of rs') tree1 = Some tree'"
      by (auto simp: bind_eq_Some_conv)
    show ?thesis
      using a c(1) True name r'(2) t(1) Cons.IH [OF a(4) c(2) t(2)]
      by (subst collect_loop.simps) (simp add: Let_def)
  next
    case False
    then have "rs = rs'" using r by simp
    then show ?thesis using a c(1) False Cons.IH [OF a(4) c(2)] Cons.prems(3)
      by (subst collect_loop.simps) (simp add: Let_def)
  qed
qed

lemma rbnode_of_inj: "inj rbnode_of"
  by (auto simp: inj_def rbnode_of_def word_unat_eq_iff)

lemma collect_all:
  assumes "tab_strings m (str_addr (map_strtab em)) (str_size (map_strtab em)) 0 as"
    and "test_records m em as = Some rs" and "distinct rs" and "length rs < 2 ^ 63"
    and "rbnode_of ` set rs \<subseteq> testrec_nodes m" and "rbnode_of ` set rs \<subseteq> dom h" and "s \<notin> rbnode_of ` set rs"
    and "l0 \<noteq> l1" and "l0 \<notin> insert s (dom h)" and "l1 \<notin> insert s (dom h)"
  shows "\<exists>tree ys. cldm_collect m em l0 l1 s h = Some (int (length ys), tree) \<and>
    cldm_rbtree_for_each tree s = Some ys \<and> sorted_wrt (<) (map (testrec_key m) ys) \<and>
    set ys \<subseteq> rbnode_of ` set rs \<and> testrec_key m ` set ys = testrec_key m ` rbnode_of ` set rs"
proof -
  let ?xs = "map rbnode_of rs" and ?init = "cldm_rbtree_init h s"
  have init: "rb_holds ?init s Lf" by (simp add: rb_holds_def cldm_rbtree_init_def zero_rbnode_def)
  have "distinct ?xs" using assms(3) rbnode_of_inj by (auto simp: distinct_map inj_def inj_on_def)
  then have "\<exists>tree' T'. insert_all (testrec_node_compare m) l0 l1 s ?xs ?init = Some tree' \<and> rb_holds tree' s T' \<and>
      sorted_wrt (<) (map (testrec_key m) (inorder T')) \<and> nodes T' \<subseteq> nodes Lf \<union> set ?xs \<and>
      testrec_key m ` nodes T' = testrec_key m ` (nodes Lf \<union> set ?xs)"
    by (intro insert_all_holds [OF testrec.rb_order_axioms init]) (use assms(4-) in \<open>auto simp: cldm_rbtree_init_def\<close>)
  then obtain tree T where t: "insert_all (testrec_node_compare m) l0 l1 s ?xs ?init = Some tree" "rb_holds tree s T"
      "sorted_wrt (<) (map (testrec_key m) (inorder T))" "nodes T \<subseteq> rbnode_of ` set rs"
      "testrec_key m ` nodes T = testrec_key m ` rbnode_of ` set rs" by auto
  have "distinct (inorder T)" using t(3) by (metis distinct_map strict_sorted_iff)
  then have "length (inorder T) \<le> card (rbnode_of ` set rs)" using t(4) by (metis distinct_card card_mono finite_imageI finite_set)
  also have "\<dots> \<le> length rs" by (metis card_image_le card_length finite_set order_trans)
  finally have len: "length (inorder T) < 2 ^ 63" using assms(4) by simp
  then have "sint (rb_size tree) = int (length (inorder T))" using t(2)
    by (subst sint_of_unat) (simp_all add: rb_holds_def unat_of_nat split: if_splits)
  then have "cldm_collect m em l0 l1 s h = Some (int (length (inorder T)), tree)"
    using collect_loop_insert_all [OF assms(1,2) t(1)] by (simp add: cldm_collect_def)
  moreover have "cldm_rbtree_for_each tree s = Some (inorder T)" using rbtree_for_each_holds [OF t(2)] len by simp
  ultimately show ?thesis using t by blast
qed

text \<open>C10: collecting all tests of an executable returns: it inserts the record of every symbol of the string
  table that has the prefix of test records, and the iteration over the tree gives each key, file and
  name, once, in their order; the result is their number.\<close>

theorem cldm_collect_correct:
  assumes "tab_strings m (str_addr (map_strtab em)) (str_size (map_strtab em)) 0 as"
    and "test_records m em as = Some rs" and "distinct rs" and "length rs < 2 ^ 63"
    and "rbnode_of ` set rs \<subseteq> testrec_nodes m" and "rbnode_of ` set rs \<subseteq> dom h" and "s \<notin> rbnode_of ` set rs"
    and "l0 \<noteq> l1" and "l0 \<notin> insert s (dom h)" and "l1 \<notin> insert s (dom h)"
  shows "\<exists>tree ys. cldm_collect m em l0 l1 s h = Some (int (length ys), tree) \<and>
    cldm_rbtree_for_each tree s = Some ys \<and> sorted_wrt (<) (map (testrec_key m) ys) \<and>
    set ys \<subseteq> rbnode_of ` set rs \<and> testrec_key m ` set ys = testrec_key m ` rbnode_of ` set rs"
  using assms by (rule collect_all)

text \<open>
  A small executable with one test record, at 192, whose symbol is absolute; the string table has the
  empty string and the symbol.
\<close>

definition collect_bytes :: "(int \<times> u8) list" where
  "collect_bytes =
     [(40, 64), (58, 64), (60, 1), (68, 2), (88, 128), (96, 48), (152, 1), (158, 241), (159,
      255), (160, 192), (177, 99), (178, 108), (179, 100), (180, 109), (181, 95), (182, 116),
      (183, 101), (184, 115), (185, 116), (186, 114), (187, 101), (188, 99), (189, 95), (190,
      97), (193, 1), (200, 2), (201, 1), (256, 97), (258, 102)]"

definition collect_image :: mem where
  "collect_image a =
     (let i = uint a in if i < 260 then Some (case map_of collect_bytes i of Some b \<Rightarrow> b | None \<Rightarrow> 0) else None)"

definition collect_map :: cldm_elfmap where
  "collect_map = \<lparr>map_size = 260, m_addr = 0, map_shstrtab = 0,
     map_strtab = \<lparr>str_addr = 176, str_size = 15\<rparr>, map_dynstr = \<lparr>str_addr = 176, str_size = 0\<rparr>,
     baseaddr = 0x401000\<rparr>"

lemma collect_map_strings: "tab_strings collect_image (str_addr (map_strtab collect_map)) (str_size (map_strtab collect_map)) 0 [176, 177]"
proof -
  have "c_strlen collect_image 176 = Some 0" by code_simp
  moreover have "c_strlen collect_image 177 = Some 14" by code_simp
  ultimately show ?thesis by (simp add: collect_map_def)
qed

lemma collect_map_records: "test_records collect_image collect_map [176, 177] = Some [192]"
  by code_simp

theorem cldm_collect_correct_witness:
  "\<exists>tree ys. cldm_collect collect_image collect_map 2 4 3 [208 \<mapsto> zero_rbnode] =
     Some (int (length ys), tree) \<and> cldm_rbtree_for_each tree 3 = Some ys \<and> set ys \<subseteq> {208}"
proof -
  have "testrec_at collect_image 208 \<noteq> None" by code_simp
  then show ?thesis
    using cldm_collect_correct [OF collect_map_strings collect_map_records, of "[208 \<mapsto> zero_rbnode]" 3 2 4]
    by (auto simp: rbnode_of_def testrec_nodes_def split: if_splits)
qed

section \<open>Marking an identifier\<close>

lemma bytes_at_replace:
  assumes "bytes_at m a (xs @ y # ys)" and "length xs + length ys < 2 ^ 64"
  shows "bytes_at (m(a + of_nat (length xs) \<mapsto> v)) a (xs @ v # ys)"
proof -
  have "distinct (block a (length xs + Suc (length ys)))" using assms(2) by (intro distinct_block) simp
  then have "distinct (block a (length xs) @ (a + of_nat (length xs)) # block (a + of_nat (length xs) + 1) (length ys))"
    by (simp only: block_append block.simps)
  then show ?thesis using assms(1) by (auto simp: bytes_at_append bytes_at_upd)
qed

lemma mark_terminator_bytes:
  assumes "bytes_at m k (s @ 0 # ys)" and "0 \<notin> set s" and "length s + length ys < 2 ^ 64"
  shows "\<exists>m'. mark_terminator m k = Some m' \<and> bytes_at m' k (s @ 1 # ys)"
proof -
  have "cstring_at m k s" using assms by (simp add: cstring_at_def bytes_at_append)
  then show ?thesis using assms bytes_at_replace [OF assms(1,3)]
    by (simp add: mark_terminator_def c_strlen_cstring mem_wr_def bytes_at_append)
qed

text \<open>Characters that do not end the scan for a marked terminator: those of a string of ASCII.\<close>

definition plain_chars :: "u8 list \<Rightarrow> bool" where
  "plain_chars s \<longleftrightarrow> (\<forall>x\<in>set s. 2 \<le> sint x)"

lemma plain_chars_no_zero: "plain_chars s \<Longrightarrow> 0 \<notin> set s"
  by (auto simp: plain_chars_def)

lemma idents_valid_Cons:
  assumes "bytes_at m k (s @ [b])" and "plain_chars s" and "length s < 2 ^ 31" and "sint b < 2"
  shows "idents_valid m (k # ks) = (if b = 0 then Some False else idents_valid m ks)"
proof -
  have u: "ucast (of_nat (length s) :: u32) = (of_nat (length s) :: u64)"
    using assms(3) by (simp add: word_unat_eq_iff unsigned_ucast_eq take_bit_nat_def unat_of_nat)
  have two: "sint (2 :: u32) = 2" by simp
  have "scan_lt_loop m k 2 (of_nat 0) = Some (of_nat (0 + length s))"
    by (rule scan_lt_loop_step) (use assms in \<open>auto simp: plain_chars_def\<close>)
  then have "cldm_scan_lt m k 2 = Some (of_nat (length s))" by (simp add: cldm_scan_lt_def)
  then show ?thesis using assms(1) u by (simp add: bytes_at_append)
qed

lemma idents_valid_pair:
  assumes "bytes_at m k (s @ b # t @ [c])" and "plain_chars s" and "plain_chars t"
    and "length s + length t < 2 ^ 31" and "sint b < 2" and "sint c < 2"
  shows "idents_valid m [k, k + of_nat (length s) + 1] = Some (b \<noteq> 0 \<and> c \<noteq> 0) \<and> idents_valid m [k] = Some (b \<noteq> 0)"
proof -
  have "bytes_at m k (s @ [b])" "bytes_at m (k + of_nat (length s) + 1) (t @ [c])"
    using assms(1) by (auto simp: bytes_at_append)
  then show ?thesis using assms by (simp add: idents_valid_Cons del: idents_valid.simps(2))
qed

text \<open>Of two parameters that lie behind one another, as in \<^verbatim>\<open>argv\<close>, neither counts as valid at first; when the
  first is matched once it is valid and the second is not; when it is matched a second time, as the name
  of a file with two tests is, its terminator is no longer there and the second is marked in its place, so
  that a parameter that matches nothing counts as valid.\<close>

theorem cldm_collect_marks_next:
  assumes "bytes_at m k (s @ 0 # t @ [0])" and "plain_chars s" and "plain_chars t"
    and "length s + length t < 2 ^ 31"
  shows "idents_valid m [k] = Some False \<and>
    (\<exists>m1 m2. mark_terminator m k = Some m1 \<and> idents_valid m1 [k] = Some True \<and>
       idents_valid m1 [k, k + of_nat (length s) + 1] = Some False \<and>
       mark_terminator m1 k = Some m2 \<and> idents_valid m2 [k, k + of_nat (length s) + 1] = Some True)"
proof -
  note nz = plain_chars_no_zero [OF assms(2)] plain_chars_no_zero [OF assms(3)]
  obtain m1 where m1: "mark_terminator m k = Some m1" "bytes_at m1 k (s @ 1 # t @ [0])"
    using mark_terminator_bytes [OF assms(1) nz(1)] assms(4) by auto
  obtain m2 where m2: "mark_terminator m1 k = Some m2" "bytes_at m2 k (s @ 1 # t @ [1])"
    using mark_terminator_bytes [of m1 k "s @ 1 # t" "[]"] m1(2) nz assms(4) by auto
  note pair = idents_valid_pair [OF _ assms(2-4)]
  have "idents_valid m1 [k, k + of_nat (length s) + 1] = Some False" using pair [OF m1(2)] by simp
  moreover have "idents_valid m2 [k, k + of_nat (length s) + 1] = Some True" using pair [OF m2(2)] by simp
  moreover have "idents_valid m1 [k] = Some True" using pair [OF m1(2)] by simp
  moreover have "idents_valid m [k] = Some False" using pair [OF assms(1)] by simp
  ultimately show ?thesis using m1(1) m2(1) by blast
qed

theorem cldm_collect_marks_next_witness:
  "\<exists>m1 m2. mark_terminator [0 \<mapsto> 97, 1 \<mapsto> 0, 2 \<mapsto> 98, 3 \<mapsto> 0] 0 = Some m1 \<and>
     mark_terminator m1 0 = Some m2 \<and> idents_valid m2 [0, 2] = Some True"
  using cldm_collect_marks_next [of "[0 \<mapsto> 97, 1 \<mapsto> 0, 2 \<mapsto> 98, 3 \<mapsto> 0]" 0 "[97]" "[98]"]
  by (auto simp: plain_chars_def)

end
