(* ===== verification/Run_Correct.thy ===== *)
theory Run_Correct
  imports Run Collect_Correct
begin

text \<open>
  Correctness of a sequential run: what it counts, prints and returns, for tests whose functions make
  assertions. Everything else a function does, to the mocks and in memory, is arbitrary.
\<close>

section \<open>What the functions of a test do\<close>

text \<open>An assertion holds, or it fails with a message that depends on the name of the running test.\<close>

type_synonym outcome = "(u8 list \<Rightarrow> u8 list) option"

definition failures :: "outcome list \<Rightarrow> nat" where
  "failures os = length (filter (\<lambda>x. x \<noteq> None) os)"

definition passed :: "outcome list \<Rightarrow> bool" where
  "passed os \<longleftrightarrow> list_all (\<lambda>x. x = None) os"

definition messages :: "u8 list \<Rightarrow> outcome list \<Rightarrow> u8 list list" where
  "messages name os = map (\<lambda>x. c_snprintf CLDM_ASSERTION_SIZE (the x name)) (filter (\<lambda>x. x \<noteq> None) os)"

lemma failures_simps [simp]:
  "failures [] = 0" "failures (x # os) = (if x = None then 0 else 1) + failures os"
  "failures (os @ os') = failures os + failures os'"
  by (simp_all add: failures_def)

lemma passed_simps [simp]:
  "passed []" "passed (x # os) \<longleftrightarrow> x = None \<and> passed os" "passed (os @ os') \<longleftrightarrow> passed os \<and> passed os'"
  by (simp_all add: passed_def)

lemma messages_simps [simp]:
  "messages name [] = []"
  "messages name (x # os) =
     (case x of None \<Rightarrow> [] | Some f \<Rightarrow> [c_snprintf CLDM_ASSERTION_SIZE (f name)]) @ messages name os"
  "messages name (os @ os') = messages name os @ messages name os'"
  by (simp_all add: messages_def split: option.splits)

lemma length_messages [simp]: "length (messages name os) = failures os"
  by (simp add: messages_def failures_def)

lemma failures_passed: "failures os = 0 \<longleftrightarrow> passed os"
  by (induction os) auto

lemma failures_le: "failures os \<le> length os"
  by (simp add: failures_def)

text \<open>A log that has counted \<open>n\<close> assertions, \<open>ft\<close> tests with a failure and the messages \<open>ms\<close>.\<close>

definition log_block :: "cldm_testlog \<Rightarrow> u8 list list \<Rightarrow> bool" where
  "log_block l ms \<longleftrightarrow>
     log_buffer l = Some ms \<and> unat (log_size l) = length ms \<and> length ms < unat (log_capacity l) \<and>
     unat (log_capacity l) \<le> max 32 (2 * (length ms + 1))"

definition log_holds :: "cldm_testlog \<Rightarrow> nat \<Rightarrow> nat \<Rightarrow> u8 list list \<Rightarrow> bool" where
  "log_holds l n ft ms \<longleftrightarrow>
     log_block l ms \<and>
     unat (total_assertions l) = n \<and> unat (failed_tests l) = ft \<and> unat (failed_assertions l) = length ms \<and>
     length ms \<le> n \<and> ft \<le> length ms"

definition log_bound :: nat where
  "log_bound = 2 ^ 50"

text \<open>The part of the state that belongs to the tests, and how assertions change it.\<close>

definition tests_part where
  "tests_part s = (testlogs s, current_tests s, buffered_tests s, io_index s, io_total s, io_verbose s, io_out s, io_err s)"

definition logged :: "nat \<Rightarrow> cldm_testlog \<Rightarrow> bool \<Rightarrow> 'd tests \<Rightarrow> 'd tests" where
  "logged tid l pass s =
     s\<lparr>testlogs := (testlogs s)[tid := l],
       current_tests := (current_tests s)[tid := (current_tests s ! tid)\<lparr>stat_pass := pass\<rparr>]\<rparr>"

definition log_ready :: "nat \<Rightarrow> 'd tests \<Rightarrow> bool" where
  "log_ready tid s \<longleftrightarrow> tid < length (testlogs s) \<and> tid < length (current_tests s)"

text \<open>
  A function performs a list of assertions when it returns, with the log and the status of the current
  test as they are after them; the number of flags of the mocks stays.
\<close>

definition performs :: "nat \<Rightarrow> 'd tests proc \<Rightarrow> outcome list \<Rightarrow> bool" where
  "performs tid p os \<longleftrightarrow>
     (\<forall>s n ft ms. log_ready tid s \<longrightarrow> log_holds (testlogs s ! tid) n ft ms \<longrightarrow> n + length os < log_bound \<longrightarrow>
        (\<exists>t l. p s = Some t \<and> length (mk_force_disable t) = length (mk_force_disable s) \<and>
           tests_part t = tests_part (logged tid l (stat_pass (current_tests s ! tid) \<and> passed os) s) \<and>
           log_holds l (n + length os) (ft + (if stat_pass (current_tests s ! tid) \<and> \<not> passed os then 1 else 0))
             (ms @ messages (stat_name (current_tests s ! tid)) os)))"

lemma performsI:
  assumes "\<And>s n ft ms. log_ready tid s \<Longrightarrow> log_holds (testlogs s ! tid) n ft ms \<Longrightarrow> n + length os < log_bound \<Longrightarrow>
    \<exists>t l. p s = Some t \<and> length (mk_force_disable t) = length (mk_force_disable s) \<and>
      tests_part t = tests_part (logged tid l (stat_pass (current_tests s ! tid) \<and> passed os) s) \<and>
      log_holds l (n + length os) (ft + (if stat_pass (current_tests s ! tid) \<and> \<not> passed os then 1 else 0))
        (ms @ messages (stat_name (current_tests s ! tid)) os)"
  shows "performs tid p os"
  using assms unfolding performs_def by blast

lemma performsE:
  assumes "performs tid p os" and "log_ready tid s" and "log_holds (testlogs s ! tid) n ft ms" and "n + length os < log_bound"
  obtains t l where "p s = Some t" "length (mk_force_disable t) = length (mk_force_disable s)"
    "tests_part t = tests_part (logged tid l (stat_pass (current_tests s ! tid) \<and> passed os) s)"
    "log_holds l (n + length os) (ft + (if stat_pass (current_tests s ! tid) \<and> \<not> passed os then 1 else 0))
        (ms @ messages (stat_name (current_tests s ! tid)) os)"
  using assms unfolding performs_def by blast

lemma logged_same: "log_ready tid s \<Longrightarrow> tests_part (logged tid (testlogs s ! tid) (stat_pass (current_tests s ! tid)) s) = tests_part s"
  by (simp add: tests_part_def logged_def log_ready_def)

lemma logged_logged:
  "log_ready tid s \<Longrightarrow> tests_part t = tests_part (logged tid l p s) \<Longrightarrow>
   tests_part (logged tid l' p' t) = tests_part (logged tid l' p' s)"
  by (simp add: tests_part_def logged_def log_ready_def)

lemma logged_parts:
  "log_ready tid s \<Longrightarrow> tests_part t = tests_part (logged tid l p s) \<Longrightarrow>
   log_ready tid t \<and> testlogs t ! tid = l \<and> current_tests t ! tid = (current_tests s ! tid)\<lparr>stat_pass := p\<rparr>"
  by (simp add: tests_part_def logged_def log_ready_def)

lemma performs_nil: "performs tid Some []"
  by (rule performsI) (auto intro!: exI [of _ "testlogs s ! tid" for s] simp: logged_same)

lemma performs_append:
  assumes "performs tid p os" and "performs tid q os'"
  shows "performs tid (\<lambda>s. do { s \<leftarrow> p s; q s }) (os @ os')"
proof (rule performsI)
  fix s :: "'a tests" and n ft ms
  assume s: "log_ready tid s" "log_holds (testlogs s ! tid) n ft ms" "n + length (os @ os') < log_bound"
  let ?c = "current_tests s ! tid"
  from s(3) have "n + length os < log_bound" by simp
  with assms(1) s obtain t l where t: "p s = Some t" "length (mk_force_disable t) = length (mk_force_disable s)"
    "tests_part t = tests_part (logged tid l (stat_pass ?c \<and> passed os) s)"
    "log_holds l (n + length os) (ft + (if stat_pass ?c \<and> \<not> passed os then 1 else 0)) (ms @ messages (stat_name ?c) os)"
    by (elim performsE)
  note parts = logged_parts [OF s(1) t(3)]
  have bound: "n + length os + length os' < log_bound" using s(3) by simp
  from assms(2) parts t(4) bound obtain u l' where u: "q t = Some u" "length (mk_force_disable u) = length (mk_force_disable t)"
    "tests_part u = tests_part (logged tid l' (stat_pass (current_tests t ! tid) \<and> passed os') t)"
    "log_holds l' (n + length os + length os') (ft + (if stat_pass ?c \<and> \<not> passed os then 1 else 0) +
       (if stat_pass (current_tests t ! tid) \<and> \<not> passed os' then 1 else 0))
       ((ms @ messages (stat_name ?c) os) @ messages (stat_name (current_tests t ! tid)) os')"
    by (elim performsE [of tid q os' t]) auto
  have "tests_part u = tests_part (logged tid l' (stat_pass ?c \<and> passed (os @ os')) s)"
    using u(3) logged_logged [OF s(1) t(3)] parts by auto
  moreover have "log_holds l' (n + length (os @ os')) (ft + (if stat_pass ?c \<and> \<not> passed (os @ os') then 1 else 0))
      (ms @ messages (stat_name ?c) (os @ os'))"
    using u(4) parts by (auto split: if_splits simp: add.assoc)
  ultimately show "\<exists>t l. (do { s \<leftarrow> p s; q s }) = Some t \<and> length (mk_force_disable t) = length (mk_force_disable s) \<and>
      tests_part t = tests_part (logged tid l (stat_pass ?c \<and> passed (os @ os')) s) \<and>
      log_holds l (n + length (os @ os')) (ft + (if stat_pass ?c \<and> \<not> passed (os @ os') then 1 else 0))
        (ms @ messages (stat_name ?c) (os @ os'))"
    using t(1,2) u(1,2) by auto
qed

section \<open>The assertions\<close>

lemma log_buffer_same: "log_buffer l = Some ms \<Longrightarrow> l\<lparr>log_buffer := Some ms\<rparr> = l"
  by simp

lemma log_capacity_room:
  assumes "log_ready tid s" and "log_block (testlogs s ! tid) ms" and "length ms < log_bound" and "\<forall>k. alloc k"
  shows "\<exists>c. cldm_test_ensure_capacity alloc tid s =
      Some (True, s\<lparr>testlogs := (testlogs s)[tid := (testlogs s ! tid)\<lparr>log_buffer := Some ms, log_capacity := c\<rparr>]\<rparr>) \<and>
    length ms + 1 < unat c \<and> unat c \<le> max 32 (2 * (length ms + 2))"
proof -
  let ?l = "testlogs s ! tid"
  have size: "unat (log_size ?l + 1) = length ms + 1"
    using assms(2,3) by (subst unat_add_nowrap) (auto simp: log_block_def log_bound_def)
  show ?thesis
  proof (cases "length ms + 1 < unat (log_capacity ?l)")
    case True
    then show ?thesis using assms(1,2) size
      by (intro exI [of _ "log_capacity ?l"])
        (auto simp: cldm_test_ensure_capacity_def get_log_def log_ready_def word_less_nat_alt log_block_def
          log_buffer_same)
  next
    case False
    have cap: "unat (log_capacity ?l) = length ms + 1" using False assms(2) by (auto simp: log_block_def)
    have newcap: "unat (2 * log_capacity ?l) = 2 * (length ms + 1)"
      using cap assms(2,3) by (subst unat_mult_nowrap) (auto simp: log_bound_def)
    have "unat (2 * log_capacity ?l * of_nat CLDM_ASSERTION_SIZE) = 2 * (length ms + 1) * 1024"
      using newcap assms(3) by (subst unat_mult_nowrap) (auto simp: log_bound_def CLDM_ASSERTION_SIZE_def)
    then have "c_alloc alloc (unat (2 * log_capacity ?l * of_nat CLDM_ASSERTION_SIZE))"
      using assms by (auto simp: c_alloc_def log_bound_def)
    moreover have "\<not> log_size ?l + 1 < log_capacity ?l" using False size by (simp add: word_less_nat_alt)
    ultimately show ?thesis using assms(1,2) newcap
      by (intro exI [of _ "2 * log_capacity ?l"])
        (auto simp: cldm_test_ensure_capacity_def get_log_def upd_log_def log_ready_def log_block_def)
  qed
qed

lemma tests_upd_comm: "s\<lparr>current_tests := c, testlogs := l\<rparr> = s\<lparr>testlogs := l, current_tests := c\<rparr>"
  by simp

lemma stat_pass_same: "\<not> stat_pass (cs ! tid) \<Longrightarrow> cs[tid := (cs ! tid)\<lparr>stat_pass := False\<rparr>] = cs"
proof -
  assume "\<not> stat_pass (cs ! tid)"
  then have "(cs ! tid)\<lparr>stat_pass := False\<rparr> = cs ! tid" by (cases "cs ! tid") simp
  then show ?thesis by simp
qed

lemma current_tests_same: "s\<lparr>testlogs := l, current_tests := current_tests s\<rparr> = s\<lparr>testlogs := l\<rparr>"
  by simp

text \<open>What a failed assertion does after it was counted.\<close>

lemma record_failed_assertion_effect:
  assumes "log_ready tid s" and "log_block (testlogs s ! tid) ms" and "length ms < log_bound" and "\<forall>k. alloc k"
  shows "\<exists>l. record_failed_assertion alloc tid msg s = Some (logged tid l False s) \<and>
    log_block l (ms @ [c_snprintf CLDM_ASSERTION_SIZE msg]) \<and> total_assertions l = total_assertions (testlogs s ! tid) \<and>
    failed_assertions l = failed_assertions (testlogs s ! tid) + 1 \<and>
    failed_tests l = failed_tests (testlogs s ! tid) + (if stat_pass (current_tests s ! tid) then 1 else 0)"
proof -
  let ?p = "stat_pass (current_tests s ! tid)" and ?l = "testlogs s ! tid"
  let ?l1 = "?l\<lparr>failed_tests := failed_tests ?l + (if ?p then 1 else 0), failed_assertions := failed_assertions ?l + 1\<rparr>"
  let ?s = "logged tid ?l1 False s"
  have tid: "tid < length (testlogs s)" "tid < length (current_tests s)" using assms(1) by (simp_all add: log_ready_def)
  have block: "log_block (testlogs ?s ! tid) ms" using assms(2) tid by (simp add: logged_def log_block_def)
  have ready: "log_ready tid ?s" using tid by (simp add: logged_def log_ready_def)
  obtain c where c: "cldm_test_ensure_capacity alloc tid ?s =
      Some (True, ?s\<lparr>testlogs := (testlogs ?s)[tid := (testlogs ?s ! tid)\<lparr>log_buffer := Some ms, log_capacity := c\<rparr>]\<rparr>)"
    "length ms + 1 < unat c" "unat c \<le> max 32 (2 * (length ms + 2))"
    using log_capacity_room [OF ready block assms(3,4)] by blast
  have size: "unat (log_size ?l) = length ms" "unat (log_size ?l + 1) = length ms + 1"
    using assms(2,3) by (auto simp: log_block_def log_bound_def unat_add_nowrap)
  have "log_size ?l < c" using c(2) size by (simp add: word_less_nat_alt)
  then have "record_failed_assertion alloc tid msg s =
      Some (logged tid (?l1\<lparr>log_capacity := c, log_buffer := Some (ms @ [c_snprintf CLDM_ASSERTION_SIZE msg]),
        log_size := log_size ?l + 1\<rparr>) False s)"
    using c(1) tid size
    by (auto simp: record_failed_assertion_def get_current_def upd_log_def upd_current_def get_log_def logged_def tests_upd_comm
        stat_pass_same current_tests_same)
  moreover have "log_block (?l1\<lparr>log_capacity := c, log_buffer := Some (ms @ [c_snprintf CLDM_ASSERTION_SIZE msg]),
      log_size := log_size ?l + 1\<rparr>) (ms @ [c_snprintf CLDM_ASSERTION_SIZE msg])"
    using c size by (simp add: log_block_def)
  ultimately show ?thesis by auto
qed

text \<open>What all assertions have in common: they are counted, and fail or not.\<close>

locale assertion =
  fixes alloc :: "nat \<Rightarrow> bool" and tid :: nat and p :: "'d tests proc" and x :: outcome
  assumes counted: "log_ready tid s \<Longrightarrow> p s =
    do { s \<leftarrow> upd_log tid (\<lambda>l. l\<lparr>total_assertions := total_assertions l + 1\<rparr>) s;
         case x of
           None \<Rightarrow> Some s
         | Some f \<Rightarrow> do { t \<leftarrow> get_current tid s; record_failed_assertion alloc tid (f (stat_name t)) s } }"
begin

lemma performs:
  assumes "\<forall>k. alloc k"
  shows "performs tid p [x]"
proof (rule performsI)
  fix s :: "'d tests" and n ft ms
  assume s: "log_ready tid s" "log_holds (testlogs s ! tid) n ft ms" "n + length [x] < log_bound"
  let ?c = "current_tests s ! tid" and ?l = "testlogs s ! tid"
  let ?l1 = "?l\<lparr>total_assertions := total_assertions ?l + 1\<rparr>"
  let ?s = "s\<lparr>testlogs := (testlogs s)[tid := ?l1]\<rparr>"
  have tid: "tid < length (testlogs s)" "tid < length (current_tests s)" using s(1) by (simp_all add: log_ready_def)
  have total': "unat (total_assertions ?l + 1) = n + 1"
    using s(2,3) by (subst unat_add_nowrap) (auto simp: log_holds_def log_bound_def)
  have upd: "upd_log tid (\<lambda>l. l\<lparr>total_assertions := total_assertions l + 1\<rparr>) s = Some ?s"
    using tid by (simp add: upd_log_def)
  show "\<exists>t l. p s = Some t \<and> length (mk_force_disable t) = length (mk_force_disable s) \<and>
      tests_part t = tests_part (logged tid l (stat_pass ?c \<and> passed [x]) s) \<and>
      log_holds l (n + length [x]) (ft + (if stat_pass ?c \<and> \<not> passed [x] then 1 else 0)) (ms @ messages (stat_name ?c) [x])"
  proof (cases x)
    case None
    then have "p s = Some ?s" using counted [OF s(1)] upd by simp
    moreover have "tests_part ?s = tests_part (logged tid ?l1 (stat_pass ?c) s)"
      using tid by (simp add: tests_part_def logged_def)
    moreover have "log_holds ?l1 (n + 1) ft ms" using s(2) total' by (simp add: log_holds_def log_block_def)
    ultimately show ?thesis using None by (intro exI [of _ ?s] exI [of _ ?l1]) simp
  next
    case (Some f)
    have "log_ready tid ?s" "log_block (testlogs ?s ! tid) ms" "length ms < log_bound"
      using tid s(2,3) by (auto simp: log_ready_def log_holds_def log_block_def)
    from record_failed_assertion_effect [OF this assms, of "f (stat_name ?c)"] obtain l where l:
      "record_failed_assertion alloc tid (f (stat_name ?c)) ?s = Some (logged tid l False ?s)"
      "log_block l (ms @ [c_snprintf CLDM_ASSERTION_SIZE (f (stat_name ?c))])"
      "total_assertions l = total_assertions ?l + 1" "failed_assertions l = failed_assertions ?l + 1"
      "failed_tests l = failed_tests ?l + (if stat_pass ?c then 1 else 0)"
      using tid by auto
    have "p s = Some (logged tid l False ?s)"
      using counted [OF s(1)] upd l(1) Some tid by (simp add: get_current_def)
    moreover have "tests_part (logged tid l False ?s) = tests_part (logged tid l False s)"
      using tid by (simp add: tests_part_def logged_def)
    moreover have "length (mk_force_disable (logged tid l False ?s)) = length (mk_force_disable s)"
      by (simp add: logged_def)
    moreover have "unat (failed_assertions l) = length ms + 1"
      unfolding l(4) using s(2,3) by (subst unat_add_nowrap) (auto simp: log_holds_def log_bound_def)
    moreover have "unat (failed_tests l) = ft + (if stat_pass ?c then 1 else 0)"
      unfolding l(5) using s(2,3) by (subst unat_add_nowrap) (auto simp: log_holds_def log_bound_def)
    ultimately show ?thesis using Some s(2) l(2) total'
      by (intro exI [of _ "logged tid l False ?s"] exI [of _ l]) (auto simp: log_holds_def l(3))
  qed
qed

end

interpretation assert_true: assertion alloc tid "cldm_assert_true alloc tid eval expand f line"
  "if eval then None else Some (\<lambda>name. assertion_failure f line name @ cstr ''| '' @ quoted expand)"
  for alloc tid eval expand f line
  by unfold_locales (simp add: cldm_assert_true_def)

interpretation generic_cmp: assertion alloc tid "generic_cmp_assertion alloc fmt tid op l r lexpand rexpand f line"
  "if cmp_eval op l r then None
   else Some (\<lambda>name. assertion_failure f line name @
     cstr ''| '' @ quoted (lexpand @ cstr '' '' @ cmp_str op @ cstr '' '' @ rexpand) @ cstr '' with expansion'' @ [10] @
     cstr ''| '' @ quoted (fmt l @ cstr '' '' @ cmp_str op @ cstr '' '' @ fmt r) @ [10])"
  for alloc tid fmt op l r lexpand rexpand f line
  by unfold_locales (simp add: generic_cmp_assertion_def)

text \<open>Strings that differ have a first difference, so that the assertion on strings returns.\<close>

lemma first_diff_Some: "l \<noteq> r \<Longrightarrow> 0 \<notin> set l \<Longrightarrow> 0 \<notin> set r \<Longrightarrow> \<exists>d. first_diff (l @ [0]) (r @ [0]) = Some d"
proof (induction l arbitrary: r)
  case Nil
  then show ?case by (cases r) auto
next
  case (Cons x l)
  then show ?case by (cases r) auto
qed

definition streq_message :: "u8 list \<Rightarrow> u8 list \<Rightarrow> int \<Rightarrow> u8 list \<Rightarrow> u8 list \<Rightarrow> u8 list \<Rightarrow> u8 list \<Rightarrow> nat \<Rightarrow> u8 list \<Rightarrow> u8 list" where
  "streq_message l r n lname rname f line d name =
     (let size = (if n < 0 then CLDM_MAX_EXPAND_SIZE else min (nat n) CLDM_MAX_EXPAND_SIZE) in
      assertion_failure f line name @
      (if n < 0
       then cstr ''| expected '' @ quoted lname @ cstr '' to be equal to '' @ quoted rname @ cstr '' where '' @ [10]
       else cstr ''| expected '' @ c_dec (nat n) @ cstr '' initial bytes of '' @ quoted lname @
            cstr '' and '' @ quoted rname @ cstr '' to be equal where'' @ [10]) @
      cstr ''| string 0 is '' @ quoted (expand_string size l) @ cstr '' and '' @ [10] @
      cstr ''| string 1 is '' @ quoted (expand_string size r) @ [10] @
      cstr ''  '' @ c_pad (int (13 + d)) @ cstr ''^'' @ [10])"

lemma performs_assert_streq:
  assumes "0 \<notin> set l" and "0 \<notin> set r" and "\<forall>k. alloc k"
  shows "performs tid (cldm_assert_streq alloc tid l r n lname rname f line)
    [if (n < 0 \<and> str_cmp l r = 0) \<or> (0 \<le> n \<and> str_ncmp (nat n) l r = 0) then None
     else Some (streq_message l r n lname rname f line (the (first_diff (l @ [0]) (r @ [0]))))]"
proof (rule assertion.performs [OF _ assms(3)], unfold_locales)
  fix s :: "'a tests"
  have "l = r \<or> (\<exists>d. first_diff (l @ [0]) (r @ [0]) = Some d)" using first_diff_Some assms(1,2) by blast
  then show "cldm_assert_streq alloc tid l r n lname rname f line s =
      do { s \<leftarrow> upd_log tid (\<lambda>l. l\<lparr>total_assertions := total_assertions l + 1\<rparr>) s;
           case (if (n < 0 \<and> str_cmp l r = 0) \<or> (0 \<le> n \<and> str_ncmp (nat n) l r = 0) then None
             else Some (streq_message l r n lname rname f line (the (first_diff (l @ [0]) (r @ [0]))))) of
             None \<Rightarrow> Some s
           | Some f \<Rightarrow> do { t \<leftarrow> get_current tid s; record_failed_assertion alloc tid (f (stat_name t)) s } }"
    by (auto simp: cldm_assert_streq_def streq_message_def Let_def str_ncmp_def)
qed

section \<open>The lines that are printed\<close>

lemma length_c_dec: "length (c_dec n) = (if n = 0 then 1 else digit_count n)"
proof (induction n rule: c_dec.induct)
  case (1 n)
  show ?case
  proof (cases "n < 10")
    case True
    then have "n div 10 = 0" by simp
    with True show ?thesis by (subst c_dec.simps) (auto simp: digit_count.simps)
  next
    case False
    then have "n div 10 \<noteq> 0" by simp
    with 1 False show ?thesis by (subst c_dec.simps, subst digit_count.simps) simp
  qed
qed

lemma ndigits_length: "sint (cldm_ndigits w) = int (length (c_dec (unat w)))"
proof (cases "w = 0")
  case True
  then show ?thesis by (simp add: cldm_ndigits_def length_c_dec)
next
  case False
  have "unat w < 10 ^ 20" using unat_lt2p [of w] by simp
  then have "digit_count (unat w) \<le> 20" by (rule digit_count_le)
  moreover from this have "unat (cldm_ndigits w) = digit_count (unat w)"
    using False by (simp add: cldm_ndigits_def ndigits_loop_count)
  ultimately show ?thesis using False by (subst sint_of_unat) (simp_all add: length_c_dec unat_eq_0)
qed

text \<open>
  The line of a test: its name in the first columns, then the index, then the result.
\<close>

type_synonym result = "u8 list \<times> u8 list \<times> bool"

definition test_title :: "bool \<Rightarrow> nat \<Rightarrow> u8 list \<Rightarrow> u8 list \<Rightarrow> u8 list" where
  "test_title v tid name file =
     (if v then c_left 101 (cstr ''[Thread '' @ c_left 3 (c_dec tid @ cstr '':'') @ cstr '' running '' @
                  cldm_basename file @ cstr ''::'' @ name @ cstr '']'')
      else c_left 64 (cstr ''[Running '' @ name @ cstr '']''))"

fun test_lines :: "bool \<Rightarrow> nat \<Rightarrow> nat \<Rightarrow> nat \<Rightarrow> result list \<Rightarrow> u8 list list" where
  "test_lines v tid i n [] = []"
| "test_lines v tid i n ((name, file, pass) # rs) =
     (test_title v tid name file @ c_left 11 (cstr '' ('' @ c_dec (i + 1) @ cstr ''/'' @ c_dec n @ cstr '')'') @
      cstr ''  '' @ (if pass then cstr ''pass'' else cstr ''fail'')) # test_lines v tid (i + 1) n rs"

lemma test_lines_append: "test_lines v tid i n (xs @ ys) = test_lines v tid i n xs @ test_lines v tid (i + length xs) n ys"
  by (induction xs arbitrary: i) auto

definition bufstat_of :: "bool \<Rightarrow> result \<Rightarrow> cldm_bufstat" where
  "bufstat_of v r =
     (case r of (name, file, pass) \<Rightarrow>
        let l0 = int (length name) + 10 + (if v then int (length (cldm_basename file)) + 8 else 0);
            l1 = 64 + (if v then 32 else 0)
        in \<lparr>buf_name = name, buf_file = cldm_basename file, buf_namepad = (if l0 \<le> l1 then l1 - l0 else 0), buf_pass = pass\<rparr>)"

lemma length_cstr [simp]: "length (cstr t) = length t"
  by (simp add: cstr_def)

lemma c_pad_left: "c_left n t = t @ c_pad (if int (length t) \<le> int n then int n - int (length t) else 0)"
  by (simp add: c_left_def c_pad_def nat_diff_distrib')

lemma ndigits_pad:
  assumes "tid < 100"
  shows "c_dec tid @ cstr '':'' @ c_pad (sint (2 - cldm_ndigits (of_nat tid))) @ y = c_left 3 (c_dec tid @ cstr '':'') @ y"
proof -
  let ?d = "length (c_dec tid)"
  have "unat (of_nat tid :: u64) = tid" using assms by (simp add: unat_of_nat_small)
  then have "sint (cldm_ndigits (of_nat tid)) = int ?d" by (simp add: ndigits_length)
  moreover have "of_int (sint (cldm_ndigits (of_nat tid))) = cldm_ndigits (of_nat tid)" by simp
  ultimately have w: "cldm_ndigits (of_nat tid) = of_int (int ?d)" by metis
  have "?d = 1 \<or> ?d = 2" using assms digit_count_le [of tid 2] digit_count_bracket [of tid]
    by (cases "digit_count tid") (auto simp: length_c_dec)
  then show ?thesis
  proof
    assume "?d = 1"
    then show ?thesis unfolding w by (simp add: c_left_def c_pad_def)
  next
    assume "?d = 2"
    then show ?thesis unfolding w by (simp add: c_left_def c_pad_def)
  qed
qed

lemma bufstat_of_sel [simp]:
  "buf_name (bufstat_of v (name, f, pass)) = name" "buf_file (bufstat_of v (name, f, pass)) = cldm_basename f"
  "buf_pass (bufstat_of v (name, f, pass)) = pass"
  by (simp_all add: bufstat_of_def Let_def)

lemma title_plain:
  "cstr ''[Running '' @ name @ cstr '']'' @ c_pad (buf_namepad (bufstat_of False (name, f, pass))) @ z =
   test_title False tid name f @ z"
  by (simp add: test_title_def c_pad_left bufstat_of_def Let_def)

lemma title_verbose:
  assumes "tid < 100"
  shows "cstr ''[Thread '' @ c_dec tid @ cstr '':'' @ c_pad (sint (2 - cldm_ndigits (of_nat tid))) @
      cstr '' running '' @ cldm_basename f @ cstr ''::'' @ name @ cstr '']'' @
      c_pad (buf_namepad (bufstat_of True (name, f, pass))) @ z = test_title True tid name f @ z"
proof -
  have "length (c_dec tid) \<le> 2" using assms digit_count_le [of tid 2] by (auto simp: length_c_dec)
  then have "length (c_left 3 (c_dec tid @ cstr '':'')) = 3" by (simp add: c_left_def)
  then show ?thesis unfolding ndigits_pad [OF assms]
    by (auto simp: test_title_def c_pad_left [of 101] bufstat_of_def Let_def intro: arg_cong [where f = c_pad])
qed

lemma index_padded:
  "cstr '' ('' @ c_dec (unat i) @ cstr ''/'' @ c_dec (unat n) @ cstr '')'' @
   c_pad (if 3 + sint (cldm_ndigits i) + sint (cldm_ndigits n) \<le> CLDM_INDEX_PRINT_WIDTH
          then CLDM_INDEX_PRINT_WIDTH - (3 + sint (cldm_ndigits i) + sint (cldm_ndigits n)) else 0) @ z =
   c_left 11 (cstr '' ('' @ c_dec (unat i) @ cstr ''/'' @ c_dec (unat n) @ cstr '')'') @ z"
  by (simp add: ndigits_length c_pad_left CLDM_INDEX_PRINT_WIDTH_def add.assoc)

lemma test_print_loop_lines:
  assumes "io_verbose s = v" and "unat (io_index s) + length rs < 2 ^ 64" and "tid < 100"
  shows "test_print_loop tid (map (bufstat_of v) rs) s =
    s\<lparr>io_index := io_index s + of_nat (length rs),
      io_out := io_out s @ test_lines v tid (unat (io_index s)) (unat (io_total s)) rs\<rparr>"
  using assms(1,2)
proof (induction rs arbitrary: s)
  case Nil
  then show ?case by simp
next
  case (Cons r rs)
  obtain name f pass where r: "r = (name, f, pass)" by (cases r)
  have idx: "unat (io_index s + 1) = unat (io_index s) + 1" using Cons.prems by (subst unat_add_nowrap) auto
  let ?s1 = "s\<lparr>io_index := io_index s + 1\<rparr>"
  let ?line = "test_title v tid name f @ c_left 11 (cstr '' ('' @ c_dec (unat (io_index ?s1)) @ cstr ''/'' @ c_dec (unat (io_total ?s1)) @ cstr '')'') @
      cstr ''  '' @ (if pass then cstr ''pass'' else cstr ''fail'')"
  let ?s = "log_line ?line ?s1"
  have "test_print_loop tid (map (bufstat_of v) (r # rs)) s = test_print_loop tid (map (bufstat_of v) rs) ?s"
  proof (cases v)
    case True
    then show ?thesis using Cons.prems(1)
      by (simp only: list.map test_print_loop.simps Let_def r bufstat_of_sel index_padded append_assoc)
        (simp add: title_verbose [OF assms(3)])
  next
    case False
    then show ?thesis using Cons.prems(1)
      by (simp only: list.map test_print_loop.simps Let_def r bufstat_of_sel index_padded append_assoc)
        (simp add: title_plain [where tid = tid])
  qed
  also have "\<dots> = ?s\<lparr>io_index := io_index ?s + of_nat (length rs),
      io_out := io_out ?s @ test_lines v tid (unat (io_index ?s)) (unat (io_total ?s)) rs\<rparr>"
    using Cons.prems idx by (intro Cons.IH) (simp_all add: log_line_def)
  also have "\<dots> = s\<lparr>io_index := io_index s + of_nat (length (r # rs)),
      io_out := io_out s @ test_lines v tid (unat (io_index s)) (unat (io_total s)) (r # rs)\<rparr>"
    using idx by (simp add: r log_line_def)
  finally show ?case .
qed

text \<open>
  What is printed and what is still buffered of the results \<open>rs\<close>: the first \<open>k\<close> are in the output. At most
  a buffer of them is not.
\<close>

definition printed :: "nat \<Rightarrow> bool \<Rightarrow> u64 \<Rightarrow> u8 list list \<Rightarrow> result list \<Rightarrow> 'd tests \<Rightarrow> bool" where
  "printed tid v n out0 rs s \<longleftrightarrow>
     tid < length (buffered_tests s) \<and> io_verbose s = v \<and> io_total s = n \<and>
     (\<exists>k \<le> length rs. io_index s = of_nat k \<and> io_out s = out0 @ test_lines v tid 0 (unat n) (take k rs) \<and>
        buffered_tests s ! tid = map (bufstat_of v) (drop k rs))"

lemma cldm_test_print_printed:
  assumes "printed tid v n out0 rs s" and "length rs < 2 ^ 63" and "tid < 100"
  shows "cldm_test_print tid s =
    Some (s\<lparr>io_index := of_nat (length rs), io_out := out0 @ test_lines v tid 0 (unat n) rs\<rparr>)"
proof -
  from assms(1) obtain k where k: "k \<le> length rs" "io_index s = of_nat k" "io_out s = out0 @ test_lines v tid 0 (unat n) (take k rs)"
      "buffered_tests s ! tid = map (bufstat_of v) (drop k rs)"
    and s: "tid < length (buffered_tests s)" "io_verbose s = v" "io_total s = n"
    by (auto simp: printed_def)
  have uk: "unat (io_index s) = k" using k(1,2) assms(2) by (simp add: unat_of_nat_small)
  have "test_print_loop tid (map (bufstat_of v) (drop k rs)) s =
      s\<lparr>io_index := io_index s + of_nat (length (drop k rs)),
        io_out := io_out s @ test_lines v tid (unat (io_index s)) (unat (io_total s)) (drop k rs)\<rparr>"
    using s uk assms(2,3) k(1) by (intro test_print_loop_lines) simp_all
  moreover have "io_index s + of_nat (length (drop k rs)) = of_nat (length rs)"
    using k(1,2) by (simp flip: of_nat_add)
  moreover have "io_out s @ test_lines v tid (unat (io_index s)) (unat (io_total s)) (drop k rs) =
      out0 @ test_lines v tid 0 (unat n) rs"
    unfolding uk k(3) s(3) using test_lines_append [of v tid 0 "unat n" "take k rs" "drop k rs"] k(1) by simp
  ultimately show ?thesis using s(1) k(4) by (simp add: cldm_test_print_def)
qed

lemma cldm_test_schedule_print_printed:
  assumes "printed tid v n out0 rs s" and "length rs < 2 ^ 63" and "tid < 100" and "tid < length (current_tests s)"
    and "stat_name (current_tests s ! tid) = name" and "stat_pass (current_tests s ! tid) = pass"
  shows "\<exists>t. cldm_test_schedule_print tid f s = Some t \<and> printed tid v n out0 (rs @ [(name, f, pass)]) t \<and>
    testlogs t = testlogs s \<and> current_tests t = current_tests s \<and> io_err t = io_err s \<and> mk_force_disable t = mk_force_disable s"
proof -
  have s: "tid < length (buffered_tests s)" "io_verbose s = v" "io_total s = n" using assms(1) by (auto simp: printed_def)
  define s' where "s' = (if CLDM_TESTBUFFER_SIZE \<le> length (buffered_tests s ! tid)
    then s\<lparr>io_index := of_nat (length rs), io_out := out0 @ test_lines v tid 0 (unat n) rs,
           buffered_tests := (buffered_tests s)[tid := []]\<rparr> else s)"
  have p: "printed tid v n out0 rs s'" using assms(1) s
    by (auto simp: s'_def printed_def intro!: exI [of _ "length rs"])
  have rest: "testlogs s' = testlogs s" "current_tests s' = current_tests s" "io_err s' = io_err s"
    "mk_force_disable s' = mk_force_disable s" by (simp_all add: s'_def)
  have "cldm_test_schedule_print tid f s =
      Some (s'\<lparr>buffered_tests := (buffered_tests s')[tid := (buffered_tests s' ! tid) @ [bufstat_of v (name, f, pass)]]\<rparr>)"
    using s assms(4-6) cldm_test_print_printed [OF assms(1-3)]
    by (auto simp: cldm_test_schedule_print_def s'_def get_current_def bufstat_of_def Let_def CLDM_TEST_PRINT_WIDTH_def
        CLDM_TEST_PRINT_VERBOSE_ADJUST_def)
  moreover have "printed tid v n out0 (rs @ [(name, f, pass)])
      (s'\<lparr>buffered_tests := (buffered_tests s')[tid := (buffered_tests s' ! tid) @ [bufstat_of v (name, f, pass)]]\<rparr>)"
  proof -
    from p obtain k where "k \<le> length rs" "io_index s' = of_nat k" "io_out s' = out0 @ test_lines v tid 0 (unat n) (take k rs)"
      "buffered_tests s' ! tid = map (bufstat_of v) (drop k rs)" by (auto simp: printed_def)
    then show ?thesis using p unfolding printed_def by (intro conjI exI [of _ k]) simp_all
  qed
  ultimately show ?thesis using rest by auto
qed

section \<open>Running a test\<close>

type_synonym test = "u8 list \<times> u8 list \<times> outcome list"

definition runs_test :: "nat \<Rightarrow> 'd tests cldm_auxprocs \<Rightarrow> 'd tests cldm_testrec \<Rightarrow> test \<Rightarrow> bool" where
  "runs_test tid aux r t \<longleftrightarrow>
     (case t of (name, f, os) \<Rightarrow>
        rec_name r = name \<and> rec_file r = f \<and>
        (\<exists>ls su ha te lt. os = ls @ su @ ha @ te @ lt \<and> performs tid (aux_local_setup aux) ls \<and>
           performs tid (run_proc (rec_setup r)) su \<and> performs tid (rec_handle r) ha \<and>
           performs tid (run_proc (rec_teardown r)) te \<and> performs tid (aux_local_teardown aux) lt))"

definition result_of :: "test \<Rightarrow> result" where
  "result_of t = (case t of (name, f, os) \<Rightarrow> (name, f, passed os))"

definition test_passed :: "test \<Rightarrow> bool" where
  "test_passed t = passed (snd (snd t))"

text \<open>What a log holds after some tests.\<close>

definition assertions_in :: "test list \<Rightarrow> nat" where
  "assertions_in ts = (\<Sum>t\<leftarrow>ts. length (snd (snd t)))"

definition failed_in :: "test list \<Rightarrow> nat" where
  "failed_in ts = length (filter (\<lambda>t. \<not> test_passed t) ts)"

definition messages_in :: "test list \<Rightarrow> u8 list list" where
  "messages_in ts = concat (map (\<lambda>t. messages (fst t) (snd (snd t))) ts)"

definition tests_done :: "nat \<Rightarrow> bool \<Rightarrow> u64 \<Rightarrow> u8 list list \<Rightarrow> u8 list list \<Rightarrow> test list \<Rightarrow> 'd tests \<Rightarrow> bool" where
  "tests_done tid v n out0 err0 ts s \<longleftrightarrow>
     log_ready tid s \<and> tid < length (mk_force_disable s) \<and>
     log_holds (testlogs s ! tid) (assertions_in ts) (failed_in ts) (messages_in ts) \<and>
     printed tid v n out0 (map result_of ts) s \<and> io_err s = err0"

lemma body_performs:
  assumes "runs_test tid aux r (name, f, os)"
  shows "performs tid
    (\<lambda>s. do { s \<leftarrow> aux_local_setup aux s; s \<leftarrow> run_proc (rec_setup r) s; s \<leftarrow> rec_handle r s;
              s \<leftarrow> run_proc (rec_teardown r) s; aux_local_teardown aux s }) os"
  using assms unfolding runs_test_def by (auto intro!: performs_append)

lemma tests_part_flag: "tests_part (set_force_disable s tid b) = tests_part s"
  by (simp add: tests_part_def set_force_disable_def)

lemma cldm_test_run_done:
  assumes "tests_done tid v n out0 err0 ts s" and "runs_test tid aux r (name, f, os)"
    and "assertions_in ts + length os < log_bound" and "length ts < 2 ^ 63" and "tid < 100"
  shows "\<exists>s'. cldm_test_run tid r aux fail_fast s = Some (\<not> fail_fast \<or> passed os, s') \<and>
    tests_done tid v n out0 err0 (ts @ [(name, f, os)]) s'"
proof -
  let ?body = "\<lambda>s. do { s \<leftarrow> aux_local_setup aux s; s \<leftarrow> run_proc (rec_setup r) s; s \<leftarrow> rec_handle r s;
              s \<leftarrow> run_proc (rec_teardown r) s; aux_local_teardown aux s }"
  have tid: "tid < length (testlogs s)" "tid < length (current_tests s)" "tid < length (mk_force_disable s)"
    and log: "log_holds (testlogs s ! tid) (assertions_in ts) (failed_in ts) (messages_in ts)"
    and pr: "printed tid v n out0 (map result_of ts) s" and err: "io_err s = err0"
    using assms(1) by (auto simp: tests_done_def log_ready_def)
  let ?c = "\<lparr>stat_name = name, stat_pass = True, stat_fatal_error = False\<rparr>"
  let ?s1 = "s\<lparr>current_tests := (current_tests s)[tid := ?c]\<rparr>"
  let ?s2 = "set_force_disable ?s1 tid False"
  have ready: "log_ready tid ?s2" using tid by (simp add: log_ready_def set_force_disable_def)
  have c: "current_tests ?s2 ! tid = ?c" using tid by (simp add: set_force_disable_def)
  have log2: "log_holds (testlogs ?s2 ! tid) (assertions_in ts) (failed_in ts) (messages_in ts)"
    using log by (simp add: set_force_disable_def)
  from performsE [OF body_performs [OF assms(2)] ready log2 assms(3)] obtain t l where t:
    "?body ?s2 = Some t" "length (mk_force_disable t) = length (mk_force_disable ?s2)"
    "tests_part t = tests_part (logged tid l (passed os) ?s2)"
    "log_holds l (assertions_in ts + length os) (failed_in ts + (if \<not> passed os then 1 else 0)) (messages_in ts @ messages name os)"
    unfolding c by auto
  define s3 where "s3 = set_force_disable t tid (mk_force_disable s ! tid)"
  have s3: "testlogs s3 = (testlogs s)[tid := l]" "current_tests s3 = (current_tests s)[tid := ?c\<lparr>stat_pass := passed os\<rparr>]"
    "buffered_tests s3 = buffered_tests s" "io_index s3 = io_index s" "io_total s3 = io_total s" "io_verbose s3 = io_verbose s"
    "io_out s3 = io_out s" "io_err s3 = io_err s" "length (mk_force_disable s3) = length (mk_force_disable s)"
    using t(2,3) c tid unfolding s3_def tests_part_def logged_def set_force_disable_def by auto
  have pr3: "printed tid v n out0 (map result_of ts) s3" using pr s3 by (simp add: printed_def)
  have c3: "current_tests s3 ! tid = ?c\<lparr>stat_pass := passed os\<rparr>" using s3 tid by simp
  from cldm_test_schedule_print_printed [OF pr3 _ assms(5), of name "passed os" f] assms(4) s3 c3 tid obtain u where u:
    "cldm_test_schedule_print tid f s3 = Some u" "printed tid v n out0 (map result_of (ts @ [(name, f, os)])) u"
    "testlogs u = testlogs s3" "current_tests u = current_tests s3" "io_err u = io_err s3" "mk_force_disable u = mk_force_disable s3"
    by (auto simp: result_of_def)
  have len3: "tid < length (current_tests s3)" using s3(2) tid by simp
  from t(1) obtain t1 t2 t3 t4 where steps: "aux_local_setup aux ?s2 = Some t1" "run_proc (rec_setup r) t1 = Some t2"
    "rec_handle r t2 = Some t3" "run_proc (rec_teardown r) t3 = Some t4" "aux_local_teardown aux t4 = Some t"
    by (auto simp: bind_eq_Some_conv)
  have "rec_name r = name" "rec_file r = f" using assms(2) by (simp_all add: runs_test_def)
  then have "cldm_test_run tid r aux fail_fast s = Some (\<not> fail_fast \<or> passed os, u)"
    using steps u(1,4) c3 len3 tid
    by (simp add: cldm_test_run_def upd_current_def cldm_mock_enable_def cldm_mock_disabled_def get_current_def s3_def)
  moreover have "tests_done tid v n out0 err0 (ts @ [(name, f, os)]) u"
    using u s3 t(4) tid err
    by (auto simp: tests_done_def log_ready_def assertions_in_def failed_in_def messages_in_def test_passed_def)
  ultimately show ?thesis by blast
qed

section \<open>The whole run\<close>

text \<open>The tests that run: with \<open>--fail-fast\<close> nothing runs after the first failure.\<close>

fun executed :: "bool \<Rightarrow> test list \<Rightarrow> test list" where
  "executed fail_fast [] = []"
| "executed fail_fast (t # ts) = t # (if fail_fast \<and> \<not> test_passed t then [] else executed fail_fast ts)"

lemma assertions_in_simps [simp]:
  "assertions_in [] = 0" "assertions_in (t # ts) = length (snd (snd t)) + assertions_in ts"
  "assertions_in (ts @ us) = assertions_in ts + assertions_in us"
  by (simp_all add: assertions_in_def)

lemma executed_le: "assertions_in (executed fail_fast ts) \<le> assertions_in ts" "length (executed fail_fast ts) \<le> length ts"
  by (induction fail_fast ts rule: executed.induct) auto

lemma sequential_loop_done:
  assumes "tests_done 0 v n out0 err0 ts s" and "list_all2 (runs_test 0 aux) records us"
    and "assertions_in ts + assertions_in us < log_bound" and "length ts + length us < 2 ^ 63"
    and "read_records m procs nds = Some records"
  shows "\<exists>s'. sequential_loop m procs aux fail_fast nds s = Some s' \<and> tests_done 0 v n out0 err0 (ts @ executed fail_fast us) s'"
  using assms
proof (induction us arbitrary: ts s records nds)
  case Nil
  then have "read_records m procs nds = Some []" by simp
  then have "nds = []" by (cases nds) (auto simp: bind_eq_Some_conv)
  then show ?case using Nil.prems(1) by simp
next
  case (Cons t us)
  then obtain r rs where records: "records = r # rs" "runs_test 0 aux r t" "list_all2 (runs_test 0 aux) rs us"
    by (auto simp: list_all2_Cons2)
  from Cons.prems(5) records(1) obtain a as where nodes: "nds = a # as"
    "read_testrec m procs (cldm_testrec_get a) = Some r" "read_records m procs as = Some rs"
    by (cases nds) (auto simp: bind_eq_Some_conv)
  obtain name f os where t: "t = (name, f, os)" by (cases t)
  have "assertions_in ts + length os < log_bound" "length ts < 2 ^ 63" using Cons.prems by (simp_all add: t)
  with cldm_test_run_done [OF Cons.prems(1) records(2) [unfolded t], of fail_fast] obtain s1 where s1:
    "cldm_test_run 0 r aux fail_fast s = Some (\<not> fail_fast \<or> passed os, s1)" "tests_done 0 v n out0 err0 (ts @ [t]) s1"
    by (auto simp: t)
  show ?case
  proof (cases "fail_fast \<and> \<not> passed os")
    case True
    then show ?thesis using s1 nodes(2) by (simp add: nodes(1) t test_passed_def)
  next
    case False
    from Cons.IH [OF s1(2) records(3) _ _ nodes(3)] Cons.prems(3,4) obtain s2 where
      "sequential_loop m procs aux fail_fast as s1 = Some s2" "tests_done 0 v n out0 err0 ((ts @ [t]) @ executed fail_fast us) s2"
      by auto
    then show ?thesis using s1 False nodes(2) by (auto simp: nodes(1) t test_passed_def)
  qed
qed

lemma run_global_done:
  assumes "tests_done tid v n out0 err0 ts s" and "performs tid p []" and "assertions_in ts < log_bound"
  shows "\<exists>s'. run_global tid p s = Some s' \<and> tests_done tid v n out0 err0 ts s'"
proof -
  let ?s = "set_force_disable (s\<lparr>mk_global_context := True\<rparr>) tid False"
  have same: "tests_part ?s = tests_part s" by (simp add: tests_part_def set_force_disable_def)
  have log: "testlogs ?s = testlogs s" "current_tests ?s = current_tests s" by (simp_all add: set_force_disable_def)
  have ready: "log_ready tid ?s" "log_holds (testlogs ?s ! tid) (assertions_in ts) (failed_in ts) (messages_in ts)"
    and tid: "tid < length (mk_force_disable s)"
    using assms(1) by (simp_all add: tests_done_def log log_ready_def)
  from performsE [OF assms(2) ready] assms(3) obtain t l where t: "p ?s = Some t"
    "length (mk_force_disable t) = length (mk_force_disable s)"
    "tests_part t = tests_part (logged tid l (stat_pass (current_tests s ! tid)) s)"
    "log_holds l (assertions_in ts) (failed_in ts) (messages_in ts)"
    by (auto simp: set_force_disable_def tests_part_def logged_def)
  let ?t = "(set_force_disable t tid (mk_force_disable s ! tid))\<lparr>mk_global_context := mk_global_context s\<rparr>"
  have "run_global tid p s = Some ?t"
    using t(1) tid by (simp add: run_global_def cldm_mock_global_def cldm_mock_enable_def cldm_mock_disabled_def)
  moreover have "tests_done tid v n out0 err0 ts ?t"
    using assms(1) t(2-4)
    by (auto simp: tests_done_def log_ready_def printed_def set_force_disable_def tests_part_def logged_def)
  ultimately show ?thesis by blast
qed

text \<open>The output of a run of \<open>n\<close> collected tests that ran the tests \<open>ts\<close>, for the two streams.\<close>

definition run_out :: "bool \<Rightarrow> u64 \<Rightarrow> test list \<Rightarrow> u8 list list" where
  "run_out v n ts =
     (cstr ''Collected '' @ c_dec (unat n) @ cstr '' tests'') # test_lines v 0 0 (unat n) (map result_of ts) @
     (if failed_in ts = 0
      then [[10] @ cstr ''Successfully finished '' @ c_dec (assertions_in ts) @ cstr '' assertions across '' @ plural_tests n]
      else [])"

definition run_err :: "u64 \<Rightarrow> test list \<Rightarrow> u8 list list" where
  "run_err n ts =
     (if failed_in ts = 0 then []
      else ([10] @ c_dec (length (messages_in ts)) @ cstr ''/'' @ c_dec (assertions_in ts) @
            cstr '' assertions failed across '' @ c_dec (failed_in ts) @ cstr ''/'' @ plural_tests n) #
           map ((#) 10) (messages_in ts))"

lemma fold_err_line: "fold (\<lambda>t. err_line (10 # t)) ms s = s\<lparr>io_err := io_err s @ map ((#) 10) ms\<rparr>"
  by (induction ms arbitrary: s) (simp_all add: err_line_def)

lemma cldm_test_summary_done:
  assumes "0 < length (testlogs s)" and "log_holds (testlogs s ! 0) (assertions_in ts) (failed_in ts) (messages_in ts)"
    and "io_out s = out0 @ test_lines v 0 0 (unat n) (map result_of ts)" and "io_total s = n"
  shows "\<exists>s'. cldm_test_summary 1 s = Some (if failed_in ts = 0 then 0 else 1, s') \<and>
    io_out s' = out0 @ tl (run_out v n ts) \<and> io_err s' = io_err s @ run_err n ts \<and> length (testlogs s') = length (testlogs s)"
proof -
  let ?l = "testlogs s ! 0"
  have l: "log_buffer ?l = Some (messages_in ts)" "unat (log_size ?l) = length (messages_in ts)"
    "unat (total_assertions ?l) = assertions_in ts" "unat (failed_tests ?l) = failed_in ts"
    "unat (failed_assertions ?l) = length (messages_in ts)"
    using assms(2) by (auto simp: log_holds_def log_block_def)
  have "failed_tests ?l = 0 \<longleftrightarrow> failed_in ts = 0" using l(4) by (metis unat_eq_0)
  then show ?thesis using assms(1,3,4) l
    by (auto simp: cldm_test_summary_def get_log_def fold_err_line run_out_def run_err_def log_line_def err_line_def)
qed

lemma sequential_tests_run:
  assumes "0 < length (testlogs s)" and "0 < length (current_tests s)" and "0 < length (buffered_tests s)"
    and "0 < length (mk_force_disable s)" and "io_index s = 0" and "\<forall>k. alloc k"
    and "list_all2 (runs_test 0 aux) records ts"
    and "performs 0 (aux_global_setup aux) []" and "performs 0 (aux_global_teardown aux) []"
    and "assertions_in ts < log_bound" and "length ts < 2 ^ 63" and "read_records m procs nds = Some records"
  shows "\<exists>s'. sequential_tests alloc verbose fail_fast m procs aux nds n s =
      Some (if failed_in (executed fail_fast ts) = 0 then 0 else 1, s') \<and>
    io_out s' = io_out s @ run_out verbose n (executed fail_fast ts) \<and>
    io_err s' = io_err s @ run_err n (executed fail_fast ts)"
proof -
  let ?ex = "executed fail_fast ts" and ?out0 = "io_out s @ [cstr ''Collected '' @ c_dec (unat n) @ cstr '' tests'']"
  let ?s1 = "cldm_test_register n verbose s"
  obtain s2 where s2: "cldm_test_init alloc 0 0 ?s1 = Some (True, s2)" "tests_done 0 verbose n ?out0 (io_err s) [] s2"
    using assms(1-6)
    by (auto simp: cldm_test_init_def cldm_test_register_def log_line_def c_alloc_def CLDM_LOG_INITIAL_CAP_def
        CLDM_ASSERTION_SIZE_def upd_log_def tests_done_def log_ready_def log_holds_def log_block_def zero_testlog_def
        failed_in_def messages_in_def printed_def)
  obtain s3 where s3: "run_global 0 (aux_global_setup aux) s2 = Some s3" "tests_done 0 verbose n ?out0 (io_err s) [] s3"
    using run_global_done [OF s2(2) assms(8)] by (auto simp: log_bound_def)
  obtain s4 where s4: "sequential_loop m procs aux fail_fast nds s3 = Some s4" "tests_done 0 verbose n ?out0 (io_err s) ?ex s4"
    using sequential_loop_done [OF s3(2) assms(7) _ _ assms(12)] assms(10,11) by auto
  have bound: "assertions_in ?ex < log_bound" "length ?ex < 2 ^ 63"
    using executed_le [of fail_fast ts] assms(10,11) by linarith+
  obtain s5 where s5: "run_global 0 (aux_global_teardown aux) s4 = Some s5" "tests_done 0 verbose n ?out0 (io_err s) ?ex s5"
    using run_global_done [OF s4(2) assms(9) bound(1)] by auto
  let ?s6 = "s5\<lparr>io_index := of_nat (length (map result_of ?ex)), io_out := ?out0 @ test_lines verbose 0 0 (unat n) (map result_of ?ex)\<rparr>"
  have s6: "cldm_test_flush 0 s5 = Some ?s6"
    using s5(2) bound(2) cldm_test_print_printed [of 0 verbose n ?out0 "map result_of ?ex" s5]
    by (simp add: cldm_test_flush_def tests_done_def)
  have "0 < length (testlogs ?s6)" "log_holds (testlogs ?s6 ! 0) (assertions_in ?ex) (failed_in ?ex) (messages_in ?ex)"
    "io_out ?s6 = ?out0 @ test_lines verbose 0 0 (unat n) (map result_of ?ex)" "io_total ?s6 = n"
    using s5(2) by (auto simp: tests_done_def log_ready_def printed_def)
  from cldm_test_summary_done [OF this] obtain s7 where s7:
    "cldm_test_summary 1 ?s6 = Some (if failed_in ?ex = 0 then 0 else 1, s7)"
    "io_out s7 = ?out0 @ tl (run_out verbose n ?ex)" "io_err s7 = io_err ?s6 @ run_err n ?ex" "length (testlogs s7) = length (testlogs ?s6)"
    by blast
  have "io_err ?s6 = io_err s" "0 < length (testlogs s7)" using s5(2) s7(4) by (auto simp: tests_done_def log_ready_def)
  then show ?thesis using s2(1) s3(1) s4(1) s5(1) s6 s7(1-3)
    by (simp add: sequential_tests_def cldm_test_free_def upd_log_def run_out_def)
qed

section \<open>From the string table to the status\<close>

definition test_key :: "test \<Rightarrow> u8 list \<times> u8 list" where
  "test_key t = (fst (snd t), fst t)"

text \<open>Every record address leads to a record of the test \<open>tst\<close> gives for it.\<close>

definition records_run :: "'d tests cldm_auxprocs \<Rightarrow> mem \<Rightarrow> (u64 \<Rightarrow> 'd tests proc) \<Rightarrow> (u64 \<Rightarrow> test) \<Rightarrow> u64 list \<Rightarrow> bool" where
  "records_run aux m procs tst rs \<longleftrightarrow>
     list_all (\<lambda>a. case read_testrec m procs a of None \<Rightarrow> False | Some r \<Rightarrow> runs_test 0 aux r (tst a)) rs"

lemma cldm_testrec_get_of [simp]: "cldm_testrec_get (rbnode_of a) = a"
  by (simp add: cldm_testrec_get_def rbnode_of_def)

lemma records_run_testrec:
  assumes "records_run aux m procs tst rs" and "a \<in> set rs"
  obtains r where "read_testrec m procs a = Some r" "runs_test 0 aux r (tst a)"
  using assms by (auto simp: records_run_def list_all_iff split: option.splits)

lemma records_run_key:
  assumes "records_run aux m procs tst rs" and "a \<in> set rs"
  shows "rbnode_of a \<in> testrec_nodes m \<and> testrec_key m (rbnode_of a) = test_key (tst a)"
proof -
  from records_run_testrec [OF assms] obtain r where r: "read_testrec m procs a = Some r" "runs_test 0 aux r (tst a)" .
  then have "rec_name r = fst (tst a)" "rec_file r = fst (snd (tst a))" by (auto simp: runs_test_def split_beta)
  with r(1) show ?thesis
    by (auto simp: read_testrec_def bind_eq_Some_conv testrec_nodes_def testrec_key_def testrec_at_def rec_key_def test_key_def)
qed

lemma read_records_all:
  assumes "records_run aux m procs tst rs" and "set as \<subseteq> set rs"
  shows "\<exists>records. read_records m procs (map rbnode_of as) = Some records \<and> list_all2 (runs_test 0 aux) records (map tst as)"
  using assms(2)
proof (induction as)
  case Nil
  then show ?case by simp
next
  case (Cons a as)
  then have "a \<in> set rs" by simp
  from records_run_testrec [OF assms(1) this] obtain r where r: "read_testrec m procs a = Some r" "runs_test 0 aux r (tst a)" .
  from Cons obtain records where "read_records m procs (map rbnode_of as) = Some records"
    "list_all2 (runs_test 0 aux) records (map tst as)" by auto
  with r show ?case by simp
qed

lemma assertions_in_subset:
  assumes "distinct as" and "distinct rs" and "set as \<subseteq> set rs"
  shows "assertions_in (map tst as) \<le> assertions_in (map tst rs)"
proof -
  have eq: "assertions_in (map tst xs) = (\<Sum>a\<in>set xs. length (snd (snd (tst a))))" if "distinct xs" for xs
    using that by (simp add: assertions_in_def sum_list_distinct_conv_sum_set comp_def)
  show ?thesis unfolding eq [OF assms(1)] eq [OF assms(2)] using assms(3) by (intro sum_mono2) auto
qed

text \<open>The state at program start: nothing was printed, and thread 0 has its entries.\<close>

definition tests_start :: "'d tests \<Rightarrow> bool" where
  "tests_start s \<longleftrightarrow>
     testlogs s \<noteq> [] \<and> current_tests s \<noteq> [] \<and> buffered_tests s \<noteq> [] \<and> mk_force_disable s \<noteq> [] \<and> io_index s = 0"

text \<open>
  C1: a sequential run of all tests of an executable whose functions make assertions returns. The tests
  are those of the records that the symbols of the string table lead to, each file and name once, in
  their order; with \<open>--fail-fast\<close> nothing runs after the first that fails. A line is printed for each in
  turn, and the status is 0 exactly if all passed; then the number of assertions is printed, otherwise
  the counts of the failures and all their messages, in order.
\<close>

theorem cldm_sequential_run_correct:
  assumes "tab_strings (prg_mem prg) (str_addr (map_strtab (prg_map prg))) (str_size (map_strtab (prg_map prg))) 0 strs"
    and "test_records (prg_mem prg) (prg_map prg) strs = Some rs" and "distinct rs" and "length rs < 2 ^ 63"
    and "rbnode_of ` set rs \<subseteq> dom (prg_heap prg)" and "prg_sentinel prg \<notin> rbnode_of ` set rs"
    and "prg_l0 prg \<noteq> prg_l1 prg" and "prg_l0 prg \<notin> insert (prg_sentinel prg) (dom (prg_heap prg))"
    and "prg_l1 prg \<notin> insert (prg_sentinel prg) (dom (prg_heap prg))"
    and "cldm_collect_auxprocs (prg_mem prg) (prg_map prg) (prg_procs prg) = Some (k, aux)"
    and "performs 0 (aux_global_setup aux) []" and "performs 0 (aux_global_teardown aux) []"
    and "records_run aux (prg_mem prg) (prg_procs prg) tst rs" and "assertions_in (map tst rs) < 2 ^ 50"
    and "tests_start s" and "\<forall>k. alloc k"
  shows "\<exists>ts s'. set ts \<subseteq> tst ` set rs \<and> sorted_wrt (<) (map test_key ts) \<and> test_key ` set ts = test_key ` tst ` set rs \<and>
    cldm_sequential_run cmp alloc prg 1 verbose fail_fast [] s =
      Some (if list_all test_passed (executed fail_fast ts) then 0 else 1, s') \<and>
    io_out s' = io_out s @ run_out verbose (of_nat (length ts)) (executed fail_fast ts) \<and>
    io_err s' = io_err s @ run_err (of_nat (length ts)) (executed fail_fast ts)"
proof -
  let ?m = "prg_mem prg"
  have nodes: "rbnode_of ` set rs \<subseteq> testrec_nodes ?m" using records_run_key [OF assms(13)] by blast
  from collect_all [OF assms(1-4) nodes assms(5-9)] obtain tree ys where ys:
    "cldm_collect ?m (prg_map prg) (prg_l0 prg) (prg_l1 prg) (prg_sentinel prg) (prg_heap prg) = Some (int (length ys), tree)"
    "cldm_rbtree_for_each tree (prg_sentinel prg) = Some ys" "sorted_wrt (<) (map (testrec_key ?m) ys)"
    "set ys \<subseteq> rbnode_of ` set rs" "testrec_key ?m ` set ys = testrec_key ?m ` rbnode_of ` set rs" by blast
  define as where "as = map cldm_testrec_get ys"
  have ys_as: "ys = map rbnode_of as" unfolding as_def map_map using ys(4) by (intro map_idI [symmetric]) auto
  have as_rs: "set as \<subseteq> set rs" using ys(4) by (auto simp: as_def)
  have key: "testrec_key ?m (rbnode_of a) = test_key (tst a)" if "a \<in> set rs" for a
    using records_run_key [OF assms(13) that] by simp
  have keys: "map (testrec_key ?m) ys = map test_key (map tst as)" using key as_rs by (auto simp: ys_as)
  let ?ts = "map tst as"
  have "testrec_key ?m ` rbnode_of ` set rs = test_key ` tst ` set rs" using key by (auto simp: image_iff)
  moreover have "testrec_key ?m ` set ys = test_key ` set ?ts" using keys by (metis set_map)
  ultimately have same: "test_key ` set ?ts = test_key ` tst ` set rs" using ys(5) by simp
  have "distinct (map (testrec_key ?m) ys)" using ys(3) by (metis strict_sorted_iff)
  then have "distinct as" unfolding ys_as by (simp add: distinct_map)
  then have bound: "assertions_in ?ts < log_bound" "length ?ts < 2 ^ 63"
    using assertions_in_subset [OF _ assms(3) as_rs, of tst] assms(4,14) card_mono [OF _ as_rs]
    by (simp_all add: log_bound_def distinct_card [symmetric] assms(3))
  from read_records_all [OF assms(13) as_rs] obtain records where records:
    "read_records ?m (prg_procs prg) ys = Some records" "list_all2 (runs_test 0 aux) records ?ts" by (auto simp: ys_as)
  from sequential_tests_run [OF _ _ _ _ _ assms(16) records(2) assms(11,12) bound records(1), of s verbose fail_fast "of_nat (length ?ts)"] assms(15)
  obtain s' where s': "sequential_tests alloc verbose fail_fast ?m (prg_procs prg) aux ys (of_nat (length ?ts)) s =
      Some (if failed_in (executed fail_fast ?ts) = 0 then 0 else 1, s')"
    "io_out s' = io_out s @ run_out verbose (of_nat (length ?ts)) (executed fail_fast ?ts)"
    "io_err s' = io_err s @ run_err (of_nat (length ?ts)) (executed fail_fast ?ts)"
    by (auto simp: tests_start_def)
  have "length ys = length ?ts" by (simp add: ys_as)
  then have "cldm_sequential_run cmp alloc prg 1 verbose fail_fast [] s =
      Some (if failed_in (executed fail_fast ?ts) = 0 then 0 else 1, s')"
    using ys(1,2) assms(10) s'(1) by (simp add: cldm_sequential_run_def collect_tests_def)
  moreover have "failed_in us = 0 \<longleftrightarrow> list_all test_passed us" for us by (induction us) (auto simp: failed_in_def)
  ultimately show ?thesis using s'(2,3) same ys(3) as_rs unfolding keys by (intro exI [of _ ?ts] exI [of _ s']) auto
qed

section \<open>An example\<close>

text \<open>The executable with one record, whose function makes two assertions; the second one fails.\<close>

definition sample_proc :: "u64 \<Rightarrow> unit tests proc" where
  "sample_proc p = (\<lambda>s. do { s \<leftarrow> cldm_assert_true (\<lambda>_. True) 0 True [] [] [] s;
                            cldm_assert_true (\<lambda>_. True) 0 False [120] [102] [49] s })"

definition sample_prg :: "unit tests program" where
  "sample_prg = \<lparr>prg_mem = collect_image, prg_map = collect_map, prg_procs = sample_proc,
     prg_heap = [208 \<mapsto> zero_rbnode], prg_sentinel = 3, prg_l0 = 2, prg_l1 = 4\<rparr>"

definition sample_test :: test where
  "sample_test = ([97], [102], [None, Some (\<lambda>name. assertion_failure [102] [49] name @ cstr ''| '' @ quoted [120])])"

definition sample_start :: "unit tests" where
  "sample_start = \<lparr>mk_mem = (\<lambda>_. None), mk_force_disable = [True], mk_global_context = False, mk_ctxs = [], mk_dl = (),
     mk_jmpstacks = [], testlogs = [zero_testlog], current_tests = [\<lparr>stat_name = [], stat_pass = False, stat_fatal_error = False\<rparr>],
     buffered_tests = [[]], io_index = 0, io_total = 0, io_verbose = False, io_out = [], io_err = []\<rparr>"

definition no_auxprocs :: "'s cldm_auxprocs" where
  "no_auxprocs = \<lparr>aux_local_setup = Some, aux_global_setup = Some, aux_local_teardown = Some, aux_global_teardown = Some\<rparr>"

lemma sample_record:
  "read_testrec collect_image sample_proc 192 =
   Some \<lparr>rec_name = [97], rec_file = [102], rec_handle = sample_proc 0, rec_setup = None, rec_teardown = None\<rparr>"
proof -
  have "rd64 collect_image 192 = Some 256" "rd64 collect_image 200 = Some 258" "c_string collect_image 256 = Some [97]"
    "c_string collect_image 258 = Some [102]" "rd64 collect_image 232 = Some 0" "rd64 collect_image 240 = Some 0"
    "rd64 collect_image 248 = Some 0" by code_simp+
  then show ?thesis by (simp add: read_testrec_def optional_proc_def)
qed

lemma performs_sample: "performs 0 (sample_proc p) (snd (snd sample_test))"
proof -
  have "performs 0 (sample_proc p) ([if True then None else Some (\<lambda>name. assertion_failure [] [] name @ cstr ''| '' @ quoted [])] @
      [if False then None else Some (\<lambda>name. assertion_failure [102] [49] name @ cstr ''| '' @ quoted [120])])"
    unfolding sample_proc_def by (intro performs_append assert_true.performs) simp_all
  then show ?thesis by (simp add: sample_test_def)
qed

lemma sample_runs: "records_run no_auxprocs collect_image sample_proc (\<lambda>_. sample_test) [192]"
proof -
  have "performs 0 (run_proc None) []" using performs_nil by (simp add: run_proc_def [abs_def])
  then have "runs_test 0 no_auxprocs \<lparr>rec_name = [97], rec_file = [102], rec_handle = sample_proc 0, rec_setup = None, rec_teardown = None\<rparr>
      ([97], [102], snd (snd sample_test))"
    unfolding runs_test_def prod.case no_auxprocs_def
    by (intro conjI exI [of _ "[]"] exI [of _ "snd (snd sample_test)"] exI [of _ "[]"]) (simp_all add: performs_sample performs_nil)
  then show ?thesis by (simp add: records_run_def sample_record sample_test_def)
qed

lemma sample_auxprocs: "cldm_collect_auxprocs collect_image collect_map sample_proc = Some (0, no_auxprocs)"
proof -
  have "cldm_elf_symlookup collect_image collect_map (cstr ''cldm_global_setup'') = Some 0"
    "cldm_elf_symlookup collect_image collect_map (cstr ''cldm_local_setup'') = Some 0"
    "cldm_elf_symlookup collect_image collect_map (cstr ''cldm_global_teardown'') = Some 0"
    "cldm_elf_symlookup collect_image collect_map (cstr ''cldm_local_teardown'') = Some 0" by code_simp+
  then show ?thesis by (simp add: cldm_collect_auxprocs_def lookup_proc_def no_auxprocs_def)
qed

theorem cldm_sequential_run_correct_witness:
  "\<exists>s'. cldm_sequential_run (\<lambda>_ _ _ _. None) (\<lambda>_. True) sample_prg 1 False False [] sample_start = Some (1, s') \<and>
     io_out s' = run_out False 1 [sample_test] \<and> io_err s' = run_err 1 [sample_test] \<and> length (io_err s') = 2"
proof -
  have "tests_start sample_start" by (simp add: tests_start_def sample_start_def)
  moreover have "assertions_in (map (\<lambda>_. sample_test) [192 :: u64]) < 2 ^ 50" by (simp add: sample_test_def)
  ultimately have "\<exists>ts s'. set ts \<subseteq> (\<lambda>_. sample_test) ` set [192 :: u64] \<and> sorted_wrt (<) (map test_key ts) \<and>
      test_key ` set ts = test_key ` (\<lambda>_. sample_test) ` set [192 :: u64] \<and>
      cldm_sequential_run (\<lambda>_ _ _ _. None) (\<lambda>_. True) sample_prg 1 False False [] sample_start =
        Some (if list_all test_passed (executed False ts) then 0 else 1, s') \<and>
      io_out s' = io_out sample_start @ run_out False (of_nat (length ts)) (executed False ts) \<and>
      io_err s' = io_err sample_start @ run_err (of_nat (length ts)) (executed False ts)"
    using collect_map_strings collect_map_records sample_auxprocs sample_runs
    by (intro cldm_sequential_run_correct [where strs = "[176, 177]" and k = 0 and aux = no_auxprocs])
      (simp_all add: sample_prg_def performs_nil no_auxprocs_def rbnode_of_def del: tab_strings.simps test_records.simps)
  then obtain ts s' where
    ts: "set ts \<subseteq> {sample_test}" "sorted_wrt (<) (map test_key ts)" "test_key ` set ts = {test_key sample_test}"
    and s': "cldm_sequential_run (\<lambda>_ _ _ _. None) (\<lambda>_. True) sample_prg 1 False False [] sample_start =
        Some (if list_all test_passed (executed False ts) then 0 else 1, s')"
      "io_out s' = io_out sample_start @ run_out False (of_nat (length ts)) (executed False ts)"
      "io_err s' = io_err sample_start @ run_err (of_nat (length ts)) (executed False ts)"
    by auto
  have "ts = [sample_test]" using ts by (cases ts; cases "tl ts") auto
  moreover have "\<not> test_passed sample_test" "failed_in [sample_test] = 1" "length (messages_in [sample_test]) = 1"
    by (simp_all add: test_passed_def sample_test_def failed_in_def messages_in_def)
  moreover have "io_out sample_start = []" "io_err sample_start = []" by (simp_all add: sample_start_def)
  ultimately show ?thesis using s' by (intro exI [of _ s']) (simp add: run_err_def)
qed

end
