(* ===== verification/Parallel.thy ===== *)
theory Parallel
  imports Run
begin

text \<open>
  \<^verbatim>\<open>cldm/cldm_parallel.c\<close>: the threads of a parallel run as a step relation. A step is what one thread
  does between two points where it can wait: the initialisation of its log, one test, the output of
  its buffer, one reduction, the release of its log; or all threads leaving the barrier together. The
  program counter of a thread says where in \<open>cldm_thread_run\<close> it is.
\<close>

section \<open>Steps\<close>

text \<open>
  \<open>PBarrier0 ok\<close>, \<open>PBarrier1\<close> and \<open>PBarrierR i\<close> are the calls of \<open>pthread_barrier_wait\<close>: before the
  tests, after them, and in the round \<open>i\<close> of the reduction.
\<close>

datatype pc =
    PInit | PBarrier0 bool | PRun u32 | PFlush | PBarrier1
  | PReduce u32 | PBarrierR u32 | PFree | PDone

record 'd cfg =
  cfg_pc :: "nat \<Rightarrow> pc"
  cfg_par :: "'d par"

text \<open>Where a thread that waits goes on when the barrier opens.\<close>

fun released :: "u32 \<Rightarrow> pc \<Rightarrow> pc option" where
  "released jobs (PBarrier0 ok) = Some (if ok then PRun 0 else PDone)"
| "released jobs PBarrier1 = Some (let i = cldm_flp232 jobs in if i \<noteq> 0 then PReduce i else PFree)"
| "released jobs (PBarrierR i) = Some (let i = drop_bit 1 i in if i \<noteq> 0 then PReduce i else PFree)"
| "released jobs _ = None"

definition waiting :: "pc \<Rightarrow> bool" where
  "waiting p \<longleftrightarrow> (case p of PBarrier0 _ \<Rightarrow> True | PBarrier1 \<Rightarrow> True | PBarrierR _ \<Rightarrow> True | _ \<Rightarrow> False)"

definition upd_par :: "'d par \<Rightarrow> 'd tests \<Rightarrow> 'd par" where
  "upd_par s t = s\<lparr>par_tests := t\<rparr>"

text \<open>
  What the thread \<open>tid\<close> does next, when it does not wait: the next program counter and the state, or
  \<open>None\<close> where the code has no defined result. \<open>collect\<close> is what thread 1 does first; \<open>alloc\<close> and
  \<open>mutex_init\<close> say how the initialisations end.
\<close>

fun thread_step ::
  "('d par \<Rightarrow> 'd par option) \<Rightarrow> (nat \<Rightarrow> nat \<Rightarrow> bool) \<Rightarrow> int \<Rightarrow> bool \<Rightarrow> nat \<Rightarrow> pc \<Rightarrow> 'd par \<Rightarrow> (pc \<times> 'd par) option" where
  "thread_step collect alloc mutex_init fail_fast tid PInit s =
     do { s \<leftarrow> (if tid = 1 then collect s else Some s);
          (ok, t) \<leftarrow> cldm_test_init (alloc tid) mutex_init tid (par_tests s);
          Some (PBarrier0 ok, upd_par s t) }"
| "thread_step collect alloc mutex_init fail_fast tid (PRun i) s =
     (if length (thread_ntests s) \<le> tid then None
      else if ucast i < thread_ntests s ! tid
      then do { (stop, s) \<leftarrow> thread_run_test tid fail_fast i s;
                Some (if stop then PFlush else PRun (i + 1), s) }
      else Some (PFlush, s))"
| "thread_step collect alloc mutex_init fail_fast tid PFlush s =
     do { t \<leftarrow> cldm_test_flush tid (par_tests s); Some (PBarrier1, upd_par s t) }"
| "thread_step collect alloc mutex_init fail_fast tid (PReduce i) s =
     (if of_nat tid < i
      then do { t \<leftarrow> cldm_test_reduce tid (unat i) (par_tests s); Some (PBarrierR i, upd_par s t) }
      else Some (PBarrierR i, s))"
| "thread_step collect alloc mutex_init fail_fast tid PFree s =
     (if tid \<noteq> 0
      then do { t \<leftarrow> cldm_test_free tid (par_tests s); Some (PDone, upd_par s t) }
      else Some (PDone, s))"
| "thread_step collect alloc mutex_init fail_fast tid _ s = None"

inductive par_step ::
  "('d par \<Rightarrow> 'd par option) \<Rightarrow> (nat \<Rightarrow> nat \<Rightarrow> bool) \<Rightarrow> int \<Rightarrow> bool \<Rightarrow> u32 \<Rightarrow> 'd cfg \<Rightarrow> 'd cfg \<Rightarrow> bool"
  for collect alloc mutex_init fail_fast jobs where
  step_thread:
    "tid < unat jobs \<Longrightarrow>
     thread_step collect alloc mutex_init fail_fast tid (cfg_pc c tid) (cfg_par c) = Some (p, s) \<Longrightarrow>
     par_step collect alloc mutex_init fail_fast jobs c \<lparr>cfg_pc = (cfg_pc c)(tid := p), cfg_par = s\<rparr>"
| step_barrier:
    "\<forall>tid < unat jobs. waiting (cfg_pc c tid) \<Longrightarrow>
     par_step collect alloc mutex_init fail_fast jobs c
       (c\<lparr>cfg_pc := (\<lambda>tid. if tid < unat jobs then the (released jobs (cfg_pc c tid)) else cfg_pc c tid)\<rparr>)"

inductive par_steps ::
  "('d par \<Rightarrow> 'd par option) \<Rightarrow> (nat \<Rightarrow> nat \<Rightarrow> bool) \<Rightarrow> int \<Rightarrow> bool \<Rightarrow> u32 \<Rightarrow> 'd cfg \<Rightarrow> 'd cfg \<Rightarrow> bool"
  for collect alloc mutex_init fail_fast jobs where
  steps_refl: "par_steps collect alloc mutex_init fail_fast jobs c c"
| steps_step:
    "par_steps collect alloc mutex_init fail_fast jobs c d \<Longrightarrow>
     par_step collect alloc mutex_init fail_fast jobs d e \<Longrightarrow>
     par_steps collect alloc mutex_init fail_fast jobs c e"

inductive_cases par_stepE: "par_step collect alloc mutex_init fail_fast jobs c d"

text \<open>Before collection succeeds the auxiliary procedures are null pointers, which cannot be called.\<close>

definition null_auxprocs :: "'s cldm_auxprocs" where
  "null_auxprocs = \<lparr>aux_local_setup = (\<lambda>_. None), aux_global_setup = (\<lambda>_. None),
     aux_local_teardown = (\<lambda>_. None), aux_global_teardown = (\<lambda>_. None)\<rparr>"

text \<open>The static variables of the files at program start.\<close>

definition par_init :: "'d tests \<Rightarrow> 'd par" where
  "par_init t = \<lparr>par_tests = t, thread_ntests = replicate CLDM_MAX_THREADS 0,
     thread_startidx = replicate CLDM_MAX_THREADS 0, par_aux = null_auxprocs, early_abort = False,
     par_records = None\<rparr>"

definition par_start :: "'d par \<Rightarrow> 'd cfg" where
  "par_start s = \<lparr>cfg_pc = (\<lambda>_. PInit), cfg_par = s\<rparr>"

definition par_done :: "u32 \<Rightarrow> 'd cfg \<Rightarrow> bool" where
  "par_done jobs c \<longleftrightarrow> (\<forall>tid < unat jobs. cfg_pc c tid = PDone)"

text \<open>
  \<open>cldm_parallel_run\<close> around its threads: the checks before them, and what follows when all of them are
  joined. \<open>barrier\<close> and \<open>rwlock\<close> are the results of the initialisations; \<open>pthread_create\<close> succeeds.
\<close>

definition cldm_parallel_begin :: "int \<Rightarrow> int \<Rightarrow> u32 \<Rightarrow> 'd par \<Rightarrow> int + 'd cfg" where
  "cldm_parallel_begin barrier rwlock jobs s =
     (if jobs < 2 \<or> of_nat CLDM_MAX_THREADS < jobs then Inl 1
      else if barrier \<noteq> 0 then Inl 1
      else if rwlock \<noteq> 0 then Inl 1
      else Inr (par_start (s\<lparr>par_records := None\<rparr>)))"

definition cldm_parallel_end :: "u32 \<Rightarrow> 'd cfg \<Rightarrow> (int \<times> 'd tests) option" where
  "cldm_parallel_end jobs c =
     do { s \<leftarrow> run_global 0 (aux_global_teardown (par_aux (cfg_par c))) (par_tests (cfg_par c));
          (err, s) \<leftarrow> cldm_test_summary jobs s;
          s \<leftarrow> cldm_test_free 0 s;
          Some (err, s) }"

end
