(* ===== verification/Parallel_Correct.thy ===== *)
theory Parallel_Correct
  imports Parallel
begin

text \<open>
  What the parallel run does with its tests and results: the distribution of the tests over the
  threads, the reduction of their logs under every schedule, and the runs that go wrong.
\<close>

section \<open>The distribution of the tests\<close>

text \<open>One round of the distribution, on numbers instead of words.\<close>

lemma distribute_step:
  fixes J N k :: nat
  defines "q \<equiv> N div J" and "r \<equiv> N mod J"
  defines "n \<equiv> of_nat (q + (if k < r then 1 else 0)) :: u64" and "s \<equiv> of_nat (k * q + min k r) :: u64"
  assumes "unat jobs = J" and k: "k < J" and "unat ntests = N" and "J \<le> length ns" and "J \<le> length ss"
  shows "distribute ntests jobs [k..<J] s ns ss =
      distribute ntests jobs [Suc k..<J] (of_nat (Suc k * q + min (Suc k) r)) (ns[k := n]) (ss[k := s])"
    and "unat n = q + (if k < r then 1 else 0)" and "unat s = k * q + min k r"
proof -
  have N: "J * q + r = N" by (simp add: q_def r_def)
  have N64: "N < 2 ^ 64" using assms(7) unat_lt2p [of ntests] by simp
  have J: "unat (ucast jobs :: u64) = J" by (simp add: unat_ucast_up assms(5))
  have div: "unat (ntests div ucast jobs) = q" by (simp add: unat_div J assms(7) q_def)
  have md: "unat (ntests mod ucast jobs) = r" by (simp add: unat_mod J assms(7) r_def)
  have bound: "i * q + min i r \<le> N" if "i \<le> J" for i
  proof -
    have "i * q \<le> J * q" using that by (rule mult_le_mono1)
    then have "i * q + min i r \<le> J * q + r" by (intro add_mono) simp_all
    then show ?thesis by (simp only: N)
  qed
  have "k < 2 ^ 64" using k assms(5) unat_lt2p [of jobs] by simp
  then have "(of_nat k < ntests mod ucast jobs) = (k < r)" by (simp add: word_less_nat_alt md unat_of_nat_small)
  then have n: "ntests div ucast jobs + (if of_nat k < ntests mod ucast jobs then 1 else 0) = n"
    unfolding n_def using div by (auto intro: word_eq_of_nat)
  have "k * q + min k r + (q + (if k < r then 1 else 0)) = Suc k * q + min (Suc k) r" by auto
  then have sn: "s + n = of_nat (Suc k * q + min (Suc k) r)" unfolding n_def s_def by (metis of_nat_add)
  have "(length ns \<le> k \<or> length ss \<le> k \<or> jobs = 0) = False" using k assms(5,8,9) by auto
  then show "distribute ntests jobs [k..<J] s ns ss =
      distribute ntests jobs [Suc k..<J] (of_nat (Suc k * q + min (Suc k) r)) (ns[k := n]) (ss[k := s])"
    by (simp only: upt_conv_Cons [OF k] distribute.simps Let_def n if_False sn)
  show "unat n = q + (if k < r then 1 else 0)"
    unfolding n_def using bound [of "Suc k"] k N64 by (intro unat_of_nat_small) (auto split: if_splits)
  show "unat s = k * q + min k r"
    unfolding s_def using bound [of k] k N64 by (intro unat_of_nat_small) simp
qed

lemma distribute_closed:
  assumes "unat jobs = J" and "0 < J" and "J \<le> length ns" and "J \<le> length ss" and "k \<le> J"
    and "unat ntests = N"
  shows "\<exists>ns' ss'. distribute ntests jobs [k..<J] (of_nat (k * (N div J) + min k (N mod J))) ns ss = Some (ns', ss') \<and>
    length ns' = length ns \<and> length ss' = length ss \<and>
    (\<forall>i < k. ns' ! i = ns ! i \<and> ss' ! i = ss ! i) \<and>
    (\<forall>i. k \<le> i \<and> i < J \<longrightarrow> unat (ns' ! i) = N div J + (if i < N mod J then 1 else 0) \<and>
       unat (ss' ! i) = i * (N div J) + min i (N mod J))"
  using assms(3-5)
proof (induction "J - k" arbitrary: k ns ss)
  case 0
  then show ?case by simp
next
  case (Suc d)
  then have k: "k < J" by simp
  let ?q = "N div J" and ?r = "N mod J"
  let ?n = "of_nat (?q + (if k < ?r then 1 else 0)) :: u64" and ?s = "of_nat (k * ?q + min k ?r) :: u64"
  note step = distribute_step [OF assms(1) k assms(6) Suc.prems(1,2)]
  have "\<exists>ns' ss'. distribute ntests jobs [Suc k..<J] (of_nat (Suc k * ?q + min (Suc k) ?r)) (ns[k := ?n]) (ss[k := ?s]) =
      Some (ns', ss') \<and> length ns' = length (ns[k := ?n]) \<and> length ss' = length (ss[k := ?s]) \<and>
    (\<forall>i < Suc k. ns' ! i = ns[k := ?n] ! i \<and> ss' ! i = ss[k := ?s] ! i) \<and>
    (\<forall>i. Suc k \<le> i \<and> i < J \<longrightarrow> unat (ns' ! i) = ?q + (if i < ?r then 1 else 0) \<and>
       unat (ss' ! i) = i * ?q + min i ?r)"
    using Suc.hyps(2) Suc.prems k by (intro Suc.hyps(1)) simp_all
  then obtain ns' ss' where d: "distribute ntests jobs [Suc k..<J] (of_nat (Suc k * ?q + min (Suc k) ?r)) (ns[k := ?n]) (ss[k := ?s]) =
      Some (ns', ss')" and len: "length ns' = length ns" "length ss' = length ss"
    and old: "\<forall>i < Suc k. ns' ! i = ns[k := ?n] ! i \<and> ss' ! i = ss[k := ?s] ! i"
    and new: "\<forall>i. Suc k \<le> i \<and> i < J \<longrightarrow> unat (ns' ! i) = ?q + (if i < ?r then 1 else 0) \<and>
       unat (ss' ! i) = i * ?q + min i ?r" by auto
  have "distribute ntests jobs [k..<J] ?s ns ss = Some (ns', ss')" using step(1) d by simp
  moreover have "\<forall>i. k \<le> i \<and> i < J \<longrightarrow> unat (ns' ! i) = ?q + (if i < ?r then 1 else 0) \<and>
       unat (ss' ! i) = i * ?q + min i ?r"
  proof (intro allI impI)
    fix i assume i: "k \<le> i \<and> i < J"
    show "unat (ns' ! i) = ?q + (if i < ?r then 1 else 0) \<and> unat (ss' ! i) = i * ?q + min i ?r"
    proof (cases "i = k")
      case False
      with i new show ?thesis by simp
    next
      case True
      have "ns' ! k = ?n" "ss' ! k = ?s" using old k Suc.prems(1,2) by simp_all
      then show ?thesis using True step(2,3) by simp
    qed
  qed
  moreover have "\<forall>i < k. ns' ! i = ns ! i \<and> ss' ! i = ss ! i" using old by auto
  ultimately show ?case using len by blast
qed

lemma distribute_intervals:
  fixes N J :: nat
  shows "concat (map (\<lambda>i. [i * (N div J) + min i (N mod J)..<
      i * (N div J) + min i (N mod J) + (N div J + (if i < N mod J then 1 else 0))]) [0..<k]) =
    [0..<k * (N div J) + min k (N mod J)]"
proof (induction k)
  case 0
  then show ?case by simp
next
  case (Suc k)
  let ?a = "k * (N div J) + min k (N mod J)" and ?b = "N div J + (if k < N mod J then 1 else 0)"
  have "?a + ?b = Suc k * (N div J) + min (Suc k) (N mod J)" by auto
  moreover have "[0..<?a + ?b] = [0..<?a] @ [?a..<?a + ?b]" by (rule upt_add_eq_append) simp
  ultimately show ?case
    using Suc.IH by (simp only: upt_Suc_append [OF zero_le] map_append concat_append list.map concat.simps append_Nil2)
qed

text \<open>C12: the tests are distributed completely and without overlap: the intervals of the threads, one
  after the other, are all the tests in order; no two threads differ by more than one test.\<close>

theorem cldm_parallel_distribution:
  assumes "0 < unat jobs" and "unat jobs \<le> length ns" and "unat jobs \<le> length ss"
  shows "\<exists>ns' ss'. distribute ntests jobs [0..<unat jobs] 0 ns ss = Some (ns', ss') \<and>
    concat (map (\<lambda>i. [unat (ss' ! i)..<unat (ss' ! i) + unat (ns' ! i)]) [0..<unat jobs]) = [0..<unat ntests] \<and>
    (\<forall>i < unat jobs. \<forall>j < unat jobs. unat (ns' ! i) \<le> unat (ns' ! j) + 1)"
proof -
  let ?J = "unat jobs" and ?N = "unat ntests"
  have "\<exists>ns' ss'. distribute ntests jobs [0..<?J] (of_nat (0 * (?N div ?J) + min 0 (?N mod ?J))) ns ss = Some (ns', ss') \<and>
    length ns' = length ns \<and> length ss' = length ss \<and>
    (\<forall>i < 0. ns' ! i = ns ! i \<and> ss' ! i = ss ! i) \<and>
    (\<forall>i. 0 \<le> i \<and> i < ?J \<longrightarrow> unat (ns' ! i) = ?N div ?J + (if i < ?N mod ?J then 1 else 0) \<and>
       unat (ss' ! i) = i * (?N div ?J) + min i (?N mod ?J))"
    by (rule distribute_closed) (use assms in simp_all)
  then obtain ns' ss' where d: "distribute ntests jobs [0..<?J] 0 ns ss = Some (ns', ss')"
    and all: "\<forall>i < ?J. unat (ns' ! i) = ?N div ?J + (if i < ?N mod ?J then 1 else 0) \<and>
       unat (ss' ! i) = i * (?N div ?J) + min i (?N mod ?J)" by auto
  have "concat (map (\<lambda>i. [unat (ss' ! i)..<unat (ss' ! i) + unat (ns' ! i)]) [0..<?J]) =
      concat (map (\<lambda>i. [i * (?N div ?J) + min i (?N mod ?J)..<
        i * (?N div ?J) + min i (?N mod ?J) + (?N div ?J + (if i < ?N mod ?J then 1 else 0))]) [0..<?J])"
    using all by (intro arg_cong [where f = concat] map_cong) auto
  also have "\<dots> = [0..<?J * (?N div ?J) + min ?J (?N mod ?J)]" by (rule distribute_intervals)
  also have "?J * (?N div ?J) + min ?J (?N mod ?J) = ?N"
    using assms(1) mod_less_divisor [of ?J ?N] by (simp add: min_absorb2 less_imp_le)
  finally show ?thesis using d all by auto
qed

theorem cldm_parallel_distribution_witness:
  "\<exists>ns ss. distribute 10 4 [0..<unat (4 :: u32)] 0 (replicate 32 0) (replicate 32 0) = Some (ns, ss) \<and>
     concat (map (\<lambda>i. [unat (ss ! i)..<unat (ss ! i) + unat (ns ! i)]) [0..<4]) = [0..<10]"
  using cldm_parallel_distribution [of 4 "replicate 32 0" "replicate 32 0" 10] by auto

section \<open>The reduction of the logs\<close>

text \<open>The counters of a log, by number.\<close>

definition counter :: "nat \<Rightarrow> cldm_testlog \<Rightarrow> u64" where
  "counter k l = (if k = 0 then failed_assertions l else if k = 1 then failed_tests l else total_assertions l)"

abbreviation cfg_logs :: "'d cfg \<Rightarrow> cldm_testlog list" where
  "cfg_logs c \<equiv> testlogs (par_tests (cfg_par c))"

lemma cldm_test_reduce_counters:
  assumes "tid + off < length (testlogs s)"
  shows "\<exists>s'. cldm_test_reduce tid off s = Some s' \<and> length (testlogs s') = length (testlogs s) \<and>
    (\<forall>k t. t < length (testlogs s) \<longrightarrow> counter k (testlogs s' ! t) =
      (if t = tid then counter k (testlogs s ! tid) + counter k (testlogs s ! (tid + off)) else counter k (testlogs s ! t)))"
  using assms by (auto simp: cldm_test_reduce_def get_log_def upd_log_def counter_def nth_list_update)

lemma cldm_test_free_counters:
  assumes "cldm_test_free tid s = Some s'"
  shows "length (testlogs s') = length (testlogs s)"
    and "t < length (testlogs s) \<Longrightarrow> counter k (testlogs s' ! t) = counter k (testlogs s ! t)"
  using assms by (auto simp: cldm_test_free_def upd_log_def counter_def nth_list_update split: if_splits)

text \<open>
  The round \<open>2 ^ e\<close> of the reduction: \<open>v\<close> are the counters at its beginning. The counters of the
  threads that are through with their part are sums of two.
\<close>

definition in_round :: "u32 \<Rightarrow> nat \<Rightarrow> (nat \<Rightarrow> nat \<Rightarrow> u64) \<Rightarrow> 'd cfg \<Rightarrow> bool" where
  "in_round jobs e v c \<longleftrightarrow>
     (\<forall>t < unat jobs. \<exists>i. unat i = 2 ^ e \<and> (cfg_pc c t = PReduce i \<or> cfg_pc c t = PBarrierR i)) \<and>
     2 ^ e \<le> unat jobs \<and> 2 ^ Suc e \<le> length (cfg_logs c) \<and> length (cfg_logs c) = CLDM_MAX_THREADS \<and>
     (\<forall>k t. t < CLDM_MAX_THREADS \<longrightarrow> counter k (cfg_logs c ! t) =
        (if t < 2 ^ e \<and> (\<exists>i. cfg_pc c t = PBarrierR i) then v k t + v k (t + 2 ^ e) else v k t))"

definition reduced :: "u32 \<Rightarrow> (nat \<Rightarrow> u64) \<Rightarrow> 'd cfg \<Rightarrow> bool" where
  "reduced jobs tot c \<longleftrightarrow>
     (\<forall>t < unat jobs. cfg_pc c t = PFree \<or> cfg_pc c t = PDone) \<and> length (cfg_logs c) = CLDM_MAX_THREADS \<and>
     (\<forall>k. counter k (cfg_logs c ! 0) = tot k)"

definition reducing :: "u32 \<Rightarrow> (nat \<Rightarrow> u64) \<Rightarrow> 'd cfg \<Rightarrow> bool" where
  "reducing jobs tot c \<longleftrightarrow>
     (\<exists>e v. in_round jobs e v c \<and> (\<forall>k. (\<Sum>t < 2 ^ Suc e. v k t) = tot k)) \<or> reduced jobs tot c"

lemma sum_pairs:
  fixes f :: "nat \<Rightarrow> 'a::comm_monoid_add"
  shows "(\<Sum>t < n. f t + f (t + n)) = (\<Sum>t < n + n. f t)"
proof -
  have "(\<Sum>t \<in> {0..<n + n}. f t) = (\<Sum>t \<in> {0..<n}. f t) + (\<Sum>t \<in> {n..<n + n}. f t)"
    by (rule sum.atLeastLessThan_concat [symmetric]) simp_all
  moreover have "(\<Sum>t \<in> {n..<n + n}. f t) = (\<Sum>t \<in> {0..<n}. f (t + n))"
    using sum.shift_bounds_nat_ivl [of f 0 n n] by simp
  ultimately show ?thesis by (simp add: sum.distrib lessThan_atLeast0)
qed

lemma power_of_round: "unat (i :: u32) = 2 ^ e \<Longrightarrow> t < CLDM_MAX_THREADS \<Longrightarrow> of_nat t < i \<longleftrightarrow> t < 2 ^ e"
  by (simp add: word_less_nat_alt unat_of_nat CLDM_MAX_THREADS_def)

lemma in_round_thread:
  assumes "in_round jobs e v c" and "tid < unat jobs"
    and step: "thread_step collect alloc mutex_init fail_fast tid (cfg_pc c tid) (cfg_par c) = Some (p, s)"
  shows "in_round jobs e v \<lparr>cfg_pc = (cfg_pc c)(tid := p), cfg_par = s\<rparr>"
proof -
  from assms(1,2) obtain i where i: "unat i = 2 ^ e" and "cfg_pc c tid = PReduce i \<or> cfg_pc c tid = PBarrierR i"
    unfolding in_round_def by blast
  with step have pc: "cfg_pc c tid = PReduce i" by auto
  from assms(1) have len: "length (cfg_logs c) = CLDM_MAX_THREADS" and e: "2 ^ e \<le> unat jobs" "2 ^ Suc e \<le> CLDM_MAX_THREADS"
    and logs: "\<And>k t. t < CLDM_MAX_THREADS \<Longrightarrow> counter k (cfg_logs c ! t) =
        (if t < 2 ^ e \<and> (\<exists>i. cfg_pc c t = PBarrierR i) then v k t + v k (t + 2 ^ e) else v k t)"
    and pcs: "\<And>t. t < unat jobs \<Longrightarrow> \<exists>i. unat i = 2 ^ e \<and> (cfg_pc c t = PReduce i \<or> cfg_pc c t = PBarrierR i)"
    by (auto simp: in_round_def)
  have p: "p = PBarrierR i" using step pc by (auto split: if_splits simp: bind_eq_Some_conv)
  have pcs': "\<forall>t < unat jobs. \<exists>j. unat j = 2 ^ e \<and>
      (((cfg_pc c)(tid := p)) t = PReduce j \<or> ((cfg_pc c)(tid := p)) t = PBarrierR j)"
    using pcs p i by auto
  show ?thesis
  proof (cases "of_nat tid < i")
    case True
    have small: "tid < 2 ^ e"
    proof -
      have "tid < 2 ^ 32" using assms(2) unat_lt2p [of jobs] by simp
      then show ?thesis using True i by (simp add: word_less_nat_alt unat_of_nat_small)
    qed
    then have "tid + unat i < length (cfg_logs c)" using e len i by simp
    from cldm_test_reduce_counters [OF this] obtain t where
      t: "cldm_test_reduce tid (unat i) (par_tests (cfg_par c)) = Some t" "length (testlogs t) = CLDM_MAX_THREADS"
      and cnt: "\<And>k j. j < CLDM_MAX_THREADS \<Longrightarrow> counter k (testlogs t ! j) =
        (if j = tid then counter k (cfg_logs c ! tid) + counter k (cfg_logs c ! (tid + unat i)) else counter k (cfg_logs c ! j))"
      using len by auto
    from step pc True t have s: "s = upd_par (cfg_par c) t" by simp
    have "counter k (testlogs t ! j) =
        (if j < 2 ^ e \<and> (\<exists>i. ((cfg_pc c)(tid := p)) j = PBarrierR i) then v k j + v k (j + 2 ^ e) else v k j)"
      if "j < CLDM_MAX_THREADS" for k j
    proof (cases "j = tid")
      case False
      then show ?thesis using cnt [OF that] logs [OF that] by simp
    next
      case True
      have "tid + 2 ^ e < CLDM_MAX_THREADS" using small e by simp
      then show ?thesis
        using True cnt [OF that] logs [OF that] logs [of "tid + 2 ^ e" k] small i pc p by simp
    qed
    then show ?thesis using pcs' e len t(2) by (simp add: in_round_def s upd_par_def)
  next
    case False
    then have s: "s = cfg_par c" using step pc by simp
    have "\<not> tid < 2 ^ e"
    proof -
      have "tid < 2 ^ 32" using assms(2) unat_lt2p [of jobs] by simp
      then show ?thesis using False i by (simp add: word_less_nat_alt unat_of_nat_small)
    qed
    then show ?thesis using pcs' e len logs by (auto simp: in_round_def s)
  qed
qed

lemma in_round_barrier:
  assumes r: "in_round jobs e v c" and "0 < unat jobs" and wait: "\<forall>tid < unat jobs. waiting (cfg_pc c tid)"
    and tot: "\<And>k. (\<Sum>t < 2 ^ Suc e. v k t) = tot k"
  shows "reducing jobs tot
    (c\<lparr>cfg_pc := (\<lambda>tid. if tid < unat jobs then the (released jobs (cfg_pc c tid)) else cfg_pc c tid)\<rparr>)"
    (is "reducing jobs tot ?c")
proof -
  from r have len: "length (cfg_logs c) = CLDM_MAX_THREADS" and e: "2 ^ e \<le> unat jobs" "2 ^ Suc e \<le> CLDM_MAX_THREADS"
    and logs: "\<And>k t. t < CLDM_MAX_THREADS \<Longrightarrow> counter k (cfg_logs c ! t) =
        (if t < 2 ^ e \<and> (\<exists>i. cfg_pc c t = PBarrierR i) then v k t + v k (t + 2 ^ e) else v k t)"
    by (auto simp: in_round_def)
  from r wait have pcs: "\<exists>i. unat i = 2 ^ e \<and> cfg_pc c t = PBarrierR i" if "t < unat jobs" for t
    using that by (fastforce simp: in_round_def waiting_def)
  define w where "w k t = (if t < 2 ^ e then v k t + v k (t + 2 ^ e) else v k t)" for k t
  have logs': "counter k (cfg_logs c ! t) = w k t" if "t < CLDM_MAX_THREADS" for k t
    using logs [OF that] pcs [of t] e(1) unfolding w_def by auto
  have sum: "(\<Sum>t < 2 ^ e. w k t) = tot k" for k
  proof -
    have "(\<Sum>t < 2 ^ e. w k t) = (\<Sum>t < 2 ^ e. v k t + v k (t + 2 ^ e))" by (rule sum.cong) (simp_all add: w_def)
    also have "\<dots> = (\<Sum>t < 2 ^ e + 2 ^ e. v k t)" by (rule sum_pairs)
    finally show ?thesis using tot [of k] by (simp add: mult_2)
  qed
  show ?thesis
  proof (cases e)
    case 0
    have "the (released jobs (cfg_pc c t)) = PFree" if "t < unat jobs" for t
    proof -
      obtain i :: u32 where i: "unat i = 2 ^ e" "cfg_pc c t = PBarrierR i" using pcs [OF \<open>t < unat jobs\<close>] by blast
      have "unat (drop_bit 1 i) = 0" using i(1) 0 by (simp add: unat_drop_bit_eq)
      then have "drop_bit 1 i = 0" by (simp only: unat_eq_zero)
      with i show ?thesis by simp
    qed
    then have "reduced jobs tot ?c"
      using logs' [of 0] sum 0 len by (simp add: reduced_def CLDM_MAX_THREADS_def)
    then show ?thesis by (simp add: reducing_def)
  next
    case (Suc d)
    have pc: "\<exists>i. unat i = 2 ^ d \<and> the (released jobs (cfg_pc c t)) = PReduce i" if "t < unat jobs" for t
    proof -
      obtain i :: u32 where i: "unat i = 2 ^ e" "cfg_pc c t = PBarrierR i" using pcs [OF \<open>t < unat jobs\<close>] by blast
      have u: "unat (drop_bit 1 i) = 2 ^ d" using i(1) Suc by (simp only: unat_drop_bit_eq) (simp add: drop_bit_eq_div)
      then have "drop_bit 1 i \<noteq> 0" by (metis power_not_zero unat_0 zero_neq_numeral)
      with i u show ?thesis by auto
    qed
    have no: "\<not> (\<exists>i. cfg_pc ?c t = PBarrierR i)" if "t < 2 ^ d" for t
    proof -
      have "t < unat jobs" using that e(1) Suc by (simp add: less_le_trans)
      with pc [OF this] show ?thesis by auto
    qed
    have "in_round jobs d w ?c"
      unfolding in_round_def
    proof (intro conjI allI impI)
      show "\<exists>i. unat i = 2 ^ d \<and> (cfg_pc ?c t = PReduce i \<or> cfg_pc ?c t = PBarrierR i)" if "t < unat jobs" for t
        using pc [OF that] that by auto
      show "counter k (cfg_logs ?c ! t) =
          (if t < 2 ^ d \<and> (\<exists>i. cfg_pc ?c t = PBarrierR i) then w k t + w k (t + 2 ^ d) else w k t)"
        if "t < CLDM_MAX_THREADS" for k t
        using no [of t] logs' [OF that] by auto
    qed (use e len Suc in simp_all)
    moreover have "(\<Sum>t < 2 ^ Suc d. w k t) = tot k" for k using sum [of k] Suc by simp
    ultimately show ?thesis unfolding reducing_def by blast
  qed
qed

lemma reduced_step:
  assumes "reduced jobs tot c" and "0 < unat jobs"
    and "par_step collect alloc mutex_init fail_fast jobs c d"
  shows "reduced jobs tot d"
  using assms(3)
proof (cases rule: par_stepE [consumes 1, case_names thread barrier])
  case (thread tid p s)
  from assms(1) have pcs: "\<forall>t < unat jobs. cfg_pc c t = PFree \<or> cfg_pc c t = PDone"
    and len: "length (cfg_logs c) = CLDM_MAX_THREADS" and tot: "\<And>k. counter k (cfg_logs c ! 0) = tot k"
    by (auto simp: reduced_def)
  from pcs thread have pc: "cfg_pc c tid = PFree" by auto
  from thread(3) pc have p: "p = PDone" and s: "s = cfg_par c \<or> (\<exists>t. cldm_test_free tid (par_tests (cfg_par c)) = Some t \<and> s = upd_par (cfg_par c) t)"
    by (auto split: if_splits simp: bind_eq_Some_conv)
  from s have "length (testlogs (par_tests s)) = CLDM_MAX_THREADS \<and> (\<forall>k. counter k (testlogs (par_tests s) ! 0) = tot k)"
    using len tot by (auto simp: upd_par_def cldm_test_free_counters CLDM_MAX_THREADS_def)
  then show ?thesis using thread(1) pcs p by (auto simp: reduced_def)
next
  case barrier
  then have "waiting (cfg_pc c 0)" using assms(2) by simp
  moreover have "cfg_pc c 0 = PFree \<or> cfg_pc c 0 = PDone" using assms(1,2) by (auto simp: reduced_def)
  ultimately show ?thesis by (auto simp: waiting_def)
qed

lemma reducing_step:
  assumes "reducing jobs tot c" and "0 < unat jobs"
    and "par_step collect alloc mutex_init fail_fast jobs c d"
  shows "reducing jobs tot d"
proof (cases "reduced jobs tot c")
  case True
  then show ?thesis using reduced_step [OF _ assms(2,3)] by (simp add: reducing_def)
next
  case False
  with assms(1) obtain e v where e: "in_round jobs e v c" "\<And>k. (\<Sum>t < 2 ^ Suc e. v k t) = tot k"
    by (auto simp: reducing_def)
  from assms(3) show ?thesis
  proof (cases rule: par_stepE [consumes 1, case_names thread barrier])
    case (thread tid p s)
    have "in_round jobs e v d" using in_round_thread [OF e(1) thread(2,3)] thread(1) by simp
    with e(2) show ?thesis unfolding reducing_def by blast
  next
    case barrier
    then show ?thesis using in_round_barrier [OF e(1) assms(2) _ e(2)] by simp
  qed
qed


text \<open>All threads at the barrier after their tests; the counters of the logs without a thread are zero.\<close>

definition tests_run :: "u32 \<Rightarrow> 'd cfg \<Rightarrow> bool" where
  "tests_run jobs c \<longleftrightarrow>
     (\<forall>t < unat jobs. cfg_pc c t = PBarrier1) \<and> length (cfg_logs c) = CLDM_MAX_THREADS \<and>
     (\<forall>k t. unat jobs \<le> t \<and> t < CLDM_MAX_THREADS \<longrightarrow> counter k (cfg_logs c ! t) = 0)"

lemma tests_run_step:
  assumes "tests_run jobs c" and "2 \<le> unat jobs" and "unat jobs < CLDM_MAX_THREADS"
    and "par_step collect alloc mutex_init fail_fast jobs c d"
  shows "reducing jobs (\<lambda>k. \<Sum>t < unat jobs. counter k (cfg_logs c ! t)) d"
  using assms(4)
proof (cases rule: par_stepE [consumes 1, case_names thread barrier])
  case (thread tid p s)
  then show ?thesis using assms(1) by (auto simp: tests_run_def)
next
  case barrier
  let ?v = "\<lambda>k t. counter k (cfg_logs c ! t)"
  from assms(2) have "jobs \<noteq> 0" by auto
  then obtain e where e: "unat (cldm_flp232 jobs) = 2 ^ e" "2 ^ e \<le> unat jobs" "unat jobs < 2 ^ Suc e"
    using cldm_flp232_correct [of jobs] by auto
  have "2 ^ e < (2 :: nat) ^ 5" using e(2) assms(3) by (simp add: CLDM_MAX_THREADS_def)
  then have "e < 5" using power_less_imp_less_exp [of "2 :: nat" e 5] by simp
  then have "2 ^ Suc e \<le> (2 :: nat) ^ 5" by (intro power_increasing) auto
  then have len: "2 ^ Suc e \<le> CLDM_MAX_THREADS" by (simp add: CLDM_MAX_THREADS_def)
  have nz: "cldm_flp232 jobs \<noteq> 0" using e(1) by (metis power_not_zero unat_0 zero_neq_numeral)
  have pcs: "cfg_pc d t = PReduce (cldm_flp232 jobs)" if "t < unat jobs" for t
    using that barrier(1) assms(1) nz by (simp add: tests_run_def)
  have "in_round jobs e ?v d"
    using assms(1) e len pcs barrier(1) by (auto simp: in_round_def tests_run_def)
  moreover have "(\<Sum>t < 2 ^ Suc e. ?v k t) = (\<Sum>t < unat jobs. ?v k t)" for k
    by (rule sum.mono_neutral_right) (use e(3) len assms(1) in \<open>auto simp: tests_run_def\<close>)
  ultimately show ?thesis unfolding reducing_def by blast
qed

lemma par_steps_reducing:
  assumes "par_steps collect alloc mutex_init fail_fast jobs c d"
    and "tests_run jobs c" and "2 \<le> unat jobs" and "unat jobs < CLDM_MAX_THREADS"
  shows "d = c \<or> reducing jobs (\<lambda>k. \<Sum>t < unat jobs. counter k (cfg_logs c ! t)) d"
  using assms
proof (induction rule: par_steps.induct)
  case (steps_refl c)
  then show ?case by simp
next
  case (steps_step c d e)
  then consider "d = c" | "reducing jobs (\<lambda>k. \<Sum>t < unat jobs. counter k (cfg_logs c ! t)) d" by blast
  then show ?case
  proof cases
    case 1
    then show ?thesis using tests_run_step [of jobs c] steps_step by blast
  next
    case 2
    moreover have "0 < unat jobs" using steps_step.prems(2) by simp
    ultimately show ?thesis using reducing_step steps_step.hyps(2) by blast
  qed
qed

text \<open>No configuration of the reduction is stuck before all threads are done.\<close>

lemma par_step_thread_ex:
  assumes "tid < unat jobs"
    and "thread_step collect alloc mutex_init fail_fast tid (cfg_pc c tid) (cfg_par c) = Some ps"
  shows "\<exists>d. par_step collect alloc mutex_init fail_fast jobs c d"
  using step_thread [OF assms(1), of collect alloc mutex_init fail_fast c "fst ps" "snd ps"] assms(2) by auto

lemma in_round_progress:
  assumes "in_round jobs e v c"
  shows "\<exists>d. par_step collect alloc mutex_init fail_fast jobs c d"
proof (cases "\<forall>t < unat jobs. waiting (cfg_pc c t)")
  case True
  then show ?thesis using step_barrier by blast
next
  case False
  then obtain t where t: "t < unat jobs" "\<not> waiting (cfg_pc c t)" by blast
  with assms obtain i where i: "unat i = 2 ^ e" "cfg_pc c t = PReduce i"
    by (auto simp: in_round_def waiting_def)
  have "\<exists>ps. thread_step collect alloc mutex_init fail_fast t (PReduce i) (cfg_par c) = Some ps"
  proof (cases "of_nat t < i")
    case True
    have "t < 2 ^ 32" using t(1) unat_lt2p [of jobs] by simp
    then have "t < 2 ^ e" using True i(1) by (simp add: word_less_nat_alt unat_of_nat_small)
    then have "t + unat i < length (cfg_logs c)" using assms i(1) by (simp add: in_round_def)
    from cldm_test_reduce_counters [OF this] True show ?thesis by auto
  next
    case False
    then show ?thesis by simp
  qed
  then show ?thesis using par_step_thread_ex [OF t(1)] i(2) by metis
qed

lemma reduced_progress:
  assumes "reduced jobs tot c" and "\<not> par_done jobs c" and "unat jobs \<le> CLDM_MAX_THREADS"
  shows "\<exists>d. par_step collect alloc mutex_init fail_fast jobs c d"
proof -
  from assms(1,2) obtain t where t: "t < unat jobs" "cfg_pc c t = PFree" by (auto simp: reduced_def par_done_def)
  have "\<exists>ps. thread_step collect alloc mutex_init fail_fast t PFree (cfg_par c) = Some ps"
    using assms(1,3) t(1) by (auto simp: reduced_def cldm_test_free_def upd_log_def)
  then show ?thesis using par_step_thread_ex [OF t(1)] t(2) by metis
qed

text \<open>How far a thread is from its end; every step brings one closer.\<close>

fun remaining :: "u32 \<Rightarrow> pc \<Rightarrow> nat" where
  "remaining jobs PBarrier1 = 2 * unat (cldm_flp232 jobs) + 3"
| "remaining jobs (PReduce i) = 2 * unat i + 2"
| "remaining jobs (PBarrierR i) = 2 * unat i + 1"
| "remaining jobs PFree = 1"
| "remaining jobs _ = 0"

definition distance :: "u32 \<Rightarrow> 'd cfg \<Rightarrow> nat" where
  "distance jobs c = (\<Sum>t < unat jobs. remaining jobs (cfg_pc c t))"

lemma released_remaining:
  assumes "p = PBarrier1 \<or> (\<exists>i. p = PBarrierR i \<and> i \<noteq> 0)"
  shows "remaining jobs (the (released jobs p)) < remaining jobs p"
proof -
  have half: "2 * unat (drop_bit 1 i) + 2 < 2 * unat i + 1" if "drop_bit 1 i \<noteq> 0" for i :: u32
  proof -
    have "0 < unat (drop_bit 1 i)" using that by (simp add: unat_gt_0 del: drop_bit_eq_div)
    moreover have "2 * unat (drop_bit 1 i) \<le> unat i" by (simp only: unat_drop_bit_eq) (simp add: drop_bit_eq_div)
    ultimately show ?thesis by linarith
  qed
  from assms show ?thesis
  proof (elim disjE exE conjE)
    fix i
    assume p: "p = PBarrierR i" "i \<noteq> 0"
    then have "0 < unat i" by (simp add: unat_gt_0)
    with p(1) half [of i] show ?thesis by (cases "drop_bit 1 i = 0") (simp_all add: Let_def del: drop_bit_eq_div)
  qed (simp add: Let_def)
qed

lemma distance_thread:
  assumes "t < unat jobs" and "remaining jobs p < remaining jobs (cfg_pc c t)"
  shows "distance jobs \<lparr>cfg_pc = (cfg_pc c)(t := p), cfg_par = s\<rparr> < distance jobs c"
  unfolding distance_def by (rule sum_strict_mono_ex1) (use assms in auto)

lemma distance_barrier:
  assumes "0 < unat jobs" and "\<And>t. t < unat jobs \<Longrightarrow> cfg_pc c t = PBarrier1 \<or> (\<exists>i. cfg_pc c t = PBarrierR i \<and> i \<noteq> 0)"
  shows "distance jobs (c\<lparr>cfg_pc := (\<lambda>t. if t < unat jobs then the (released jobs (cfg_pc c t)) else cfg_pc c t)\<rparr>)
    < distance jobs c"
  unfolding distance_def by (rule sum_strict_mono) (use assms released_remaining in auto)

lemma distance_step:
  assumes "tests_run jobs c \<or> reducing jobs tot c" and "0 < unat jobs"
    and "par_step collect alloc mutex_init fail_fast jobs c d"
  shows "distance jobs d < distance jobs c"
proof -
  have pcs: "cfg_pc c t = PBarrier1 \<or> cfg_pc c t = PFree \<or> cfg_pc c t = PDone \<or>
      (\<exists>i. i \<noteq> 0 \<and> (cfg_pc c t = PReduce i \<or> cfg_pc c t = PBarrierR i))" if "t < unat jobs" for t
  proof -
    have "i \<noteq> 0" if "unat i = 2 ^ e" for i :: u32 and e using that by (metis power_not_zero unat_0 zero_neq_numeral)
    then show ?thesis using assms(1) that unfolding tests_run_def reducing_def in_round_def reduced_def by blast
  qed
  from assms(3) show ?thesis
  proof (cases rule: par_stepE [consumes 1, case_names thread barrier])
    case (thread tid p s)
    have "remaining jobs p < remaining jobs (cfg_pc c tid)"
      using pcs [OF thread(2)] thread(3) by (auto split: if_splits simp: bind_eq_Some_conv)
    with distance_thread [OF thread(2)] show ?thesis by (simp add: thread(1))
  next
    case barrier
    have "cfg_pc c t = PBarrier1 \<or> (\<exists>i. cfg_pc c t = PBarrierR i \<and> i \<noteq> 0)" if "t < unat jobs" for t
      using pcs [OF that] barrier(2) that by (auto simp: waiting_def)
    then show ?thesis unfolding barrier(1) by (rule distance_barrier [OF assms(2)])
  qed
qed

lemma par_steps_chain:
  "(\<And>n. par_step collect alloc mutex_init fail_fast jobs (f n) (f (Suc n))) \<Longrightarrow>
   par_steps collect alloc mutex_init fail_fast jobs (f 0) (f n)"
  by (induction n) (auto intro: steps_refl steps_step)

lemma infinite_descent_chain: "(\<And>n. (g (Suc n) :: nat) < g n) \<Longrightarrow> False"
proof -
  assume g: "\<And>n. g (Suc n) < g n"
  have "g n + n \<le> g 0" for n
  proof (induction n)
    case (Suc n)
    then show ?case using g [of n] by simp
  qed simp
  from this [of "Suc (g 0)"] show False by simp
qed

lemma reduction_ends:
  assumes "tests_run jobs c" and "2 \<le> unat jobs" and "unat jobs < CLDM_MAX_THREADS"
  shows "\<not> (\<exists>f. f 0 = c \<and> (\<forall>n. par_step collect alloc mutex_init fail_fast jobs (f n) (f (Suc n))))"
proof
  assume "\<exists>f. f 0 = c \<and> (\<forall>n. par_step collect alloc mutex_init fail_fast jobs (f n) (f (Suc n)))"
  then obtain f where f: "f 0 = c" and step: "\<And>n. par_step collect alloc mutex_init fail_fast jobs (f n) (f (Suc n))"
    by blast
  have less: "distance jobs (f (Suc n)) < distance jobs (f n)" for n
  proof (rule distance_step [OF _ _ step])
    have "par_steps collect alloc mutex_init fail_fast jobs c (f n)"
      using par_steps_chain [of _ _ _ _ _ f, OF step] f by metis
    from par_steps_reducing [OF this assms] assms(1)
    show "tests_run jobs (f n) \<or> reducing jobs (\<lambda>k. \<Sum>t < unat jobs. counter k (cfg_logs c ! t)) (f n)" by auto
    show "0 < unat jobs" using assms(2) by simp
  qed
  then show False using infinite_descent_chain [of "\<lambda>n. distance jobs (f n)"] by blast
qed

lemma reduction_result:
  assumes "tests_run jobs c" and "2 \<le> unat jobs" and "unat jobs < CLDM_MAX_THREADS"
    and "par_steps collect alloc mutex_init fail_fast jobs c d"
  shows "if par_done jobs d then \<forall>k. counter k (cfg_logs d ! 0) = (\<Sum>t < unat jobs. counter k (cfg_logs c ! t))
    else \<exists>e. par_step collect alloc mutex_init fail_fast jobs d e"
proof -
  from par_steps_reducing [OF assms(4,1-3)]
  consider "d = c" | "reducing jobs (\<lambda>k. \<Sum>t < unat jobs. counter k (cfg_logs c ! t)) d" by blast
  then show ?thesis
  proof cases
    case 1
    have "cfg_pc c 0 = PBarrier1" using assms(1,2) by (simp add: tests_run_def)
    then have "\<not> par_done jobs c" using assms(2) by (auto simp: par_done_def intro: exI [of _ 0])
    moreover have "\<forall>t < unat jobs. waiting (cfg_pc c t)" using assms(1) by (simp add: tests_run_def waiting_def)
    then have "\<exists>e. par_step collect alloc mutex_init fail_fast jobs c e" by (intro exI) (erule step_barrier)
    ultimately show ?thesis using 1 by simp
  next
    case 2
    show ?thesis
    proof (cases "reduced jobs (\<lambda>k. \<Sum>t < unat jobs. counter k (cfg_logs c ! t)) d")
      case True
      then show ?thesis using reduced_progress [OF True] assms(3) by (auto simp: reduced_def)
    next
      case False
      with 2 obtain e v where e: "in_round jobs e v d" by (auto simp: reducing_def)
      have "0 < unat jobs" using assms(2) by simp
      with e obtain i where "cfg_pc d 0 = PReduce i \<or> cfg_pc d 0 = PBarrierR i" unfolding in_round_def by blast
      then have "\<not> par_done jobs d" using assms(2) by (auto simp: par_done_def intro: exI [of _ 0])
      then show ?thesis using in_round_progress [OF e] by simp
    qed
  qed
qed

text \<open>C5: once all threads have come to the barrier after their tests, whatever order they are scheduled
  in, they never wait for each other forever and do not go on forever: every run ends, with all threads
  done and, in the log of thread 0, the sums of the failed assertions, the failed tests and the
  assertions of all threads.\<close>

theorem cldm_parallel_reduction:
  assumes "tests_run jobs c" and "2 \<le> unat jobs" and "unat jobs < CLDM_MAX_THREADS"
  shows "\<not> (\<exists>f. f 0 = c \<and> (\<forall>n. par_step collect alloc mutex_init fail_fast jobs (f n) (f (Suc n)))) \<and>
    (\<forall>d. par_steps collect alloc mutex_init fail_fast jobs c d \<longrightarrow>
      (if par_done jobs d then \<forall>k. counter k (cfg_logs d ! 0) = (\<Sum>t < unat jobs. counter k (cfg_logs c ! t))
       else \<exists>e. par_step collect alloc mutex_init fail_fast jobs d e))"
  using reduction_ends [OF assms] reduction_result [OF assms] by blast


text \<open>
  Two threads that made three and four assertions, one of which failed.
\<close>

definition sample_tests :: "unit tests" where
  "sample_tests =
     \<lparr>mk_mem = Map.empty, mk_force_disable = [False, False], mk_global_context = False, mk_ctxs = [], mk_dl = (),
      mk_jmpstacks = [],
      testlogs = [zero_testlog\<lparr>total_assertions := 3\<rparr>,
                  zero_testlog\<lparr>total_assertions := 4, failed_assertions := 1, failed_tests := 1\<rparr>] @
                 replicate 30 zero_testlog,
      current_tests = [], buffered_tests = replicate 32 [], io_index = 0, io_total = 2, io_verbose = False,
      io_out = [], io_err = []\<rparr>"

definition sample_cfg :: "unit cfg" where
  "sample_cfg = \<lparr>cfg_pc = (\<lambda>_. PBarrier1), cfg_par = par_init sample_tests\<rparr>"

lemma sample_cfg_run: "tests_run 2 sample_cfg"
  by (auto simp: tests_run_def sample_cfg_def par_init_def sample_tests_def CLDM_MAX_THREADS_def counter_def
      zero_testlog_def nth_append nth_Cons')

theorem cldm_parallel_reduction_witness:
  "\<not> (\<exists>d. par_steps Some (\<lambda>_ _. True) 0 False 2 sample_cfg d \<and> par_done 2 d \<and>
     (total_assertions (testlogs (par_tests (cfg_par d)) ! 0), failed_tests (testlogs (par_tests (cfg_par d)) ! 0)) \<noteq> (7, 1))"
proof
  assume "\<exists>d. par_steps Some (\<lambda>_ _. True) 0 False 2 sample_cfg d \<and> par_done 2 d \<and>
     (total_assertions (testlogs (par_tests (cfg_par d)) ! 0), failed_tests (testlogs (par_tests (cfg_par d)) ! 0)) \<noteq> (7, 1)"
  then obtain d where d: "par_steps Some (\<lambda>_ _. True) 0 False 2 sample_cfg d \<and> par_done 2 d"
    and no: "(total_assertions (testlogs (par_tests (cfg_par d)) ! 0), failed_tests (testlogs (par_tests (cfg_par d)) ! 0)) \<noteq> (7, 1)"
    by blast
  have *: "\<forall>k. counter k (cfg_logs d ! 0) = (\<Sum>t < unat (2 :: u32). counter k (cfg_logs sample_cfg ! t))"
    using cldm_parallel_reduction [OF sample_cfg_run, of Some "\<lambda>_ _. True" 0 False] d
    by (simp add: CLDM_MAX_THREADS_def)
  have two: "{..<2 :: nat} = {0, 1}" by auto
  show False
    using no * [rule_format, of 2] * [rule_format, of 1]
    by (simp add: counter_def sample_cfg_def par_init_def sample_tests_def zero_testlog_def two)
qed

section \<open>A run of 32 threads\<close>

text \<open>C37: with 32 threads, which the command line allows, the reduction reads behind the last log: from the
  barrier after the tests no thread comes further than the first round, where its step is undefined.\<close>

theorem cldm_parallel_reduction_overrun:
  assumes "tests_run 32 c" and "par_steps collect alloc mutex_init fail_fast 32 c d"
  shows "\<not> par_done 32 d \<and>
    (d = c \<or> (\<forall>t < 32. thread_step collect alloc mutex_init fail_fast t (cfg_pc d t) (cfg_par d) = None))"
proof -
  let ?stuck = "\<lambda>d. (\<forall>t < 32. cfg_pc d t = PReduce 32) \<and> length (cfg_logs d) = CLDM_MAX_THREADS"
  have u: "unat (32 :: u32) = 32" by simp
  have none: "thread_step collect alloc mutex_init fail_fast t (cfg_pc e t) (cfg_par e) = None"
    if "?stuck e" and "t < 32" for e :: "'a cfg" and t
  proof -
    have "of_nat t < (32 :: u32)" using that(2) by (simp add: word_less_nat_alt unat_of_nat_small)
    then show ?thesis using that by (simp add: cldm_test_reduce_def get_log_def CLDM_MAX_THREADS_def)
  qed
  have "d = c \<or> ?stuck d"
    using assms(2) assms(1)
  proof (induction rule: par_steps.induct)
    case (steps_refl c)
    then show ?case by simp
  next
    case (steps_step c d e)
    from steps_step.hyps(2) show ?case
    proof (cases rule: par_stepE [consumes 1, case_names thread barrier])
      case (thread tid p s)
      then show ?thesis using steps_step.IH none [of d tid] steps_step.prems u by (auto simp: tests_run_def)
    next
      case barrier
      have "cldm_flp232 32 = 32" by (simp add: cldm_flp232_def)
      then show ?thesis using steps_step.IH barrier steps_step.prems by (auto simp: tests_run_def waiting_def)
    qed
  qed
  have pc: "cfg_pc d 0 = PBarrier1 \<or> cfg_pc d 0 = PReduce 32"
    using \<open>d = c \<or> ?stuck d\<close> assms(1) by (auto simp: tests_run_def)
  then have "\<not> par_done 32 d" by (auto simp: par_done_def intro: exI [of _ 0])
  then show ?thesis using none \<open>d = c \<or> ?stuck d\<close> by blast
qed


section \<open>Failures\<close>

text \<open>A thread whose log could not be set up leaves after the first barrier; the others wait for it at
  the next one, so the run does not end.\<close>

theorem cldm_parallel_init_deadlock:
  assumes "\<forall>t < unat jobs. cfg_pc c t = PBarrier0 (ok t)"
    and "i < unat jobs" and "ok i" and "j < unat jobs" and "\<not> ok j"
    and "par_steps collect alloc mutex_init fail_fast jobs c d"
  shows "\<not> par_done jobs d \<and> cfg_pc d i \<notin> range PReduce"
proof -
  have "d = c \<or> (cfg_pc d j = PDone \<and> (cfg_pc d i = PFlush \<or> cfg_pc d i = PBarrier1 \<or> (\<exists>k. cfg_pc d i = PRun k)))"
    using assms(6,1)
  proof (induction rule: par_steps.induct)
    case (steps_refl c)
    then show ?case by simp
  next
    case (steps_step c d e)
    from steps_step.hyps(2) show ?case
    proof (cases rule: par_stepE [consumes 1, case_names thread barrier])
      case (thread tid p s)
      then have "d \<noteq> c" using steps_step.prems by auto
      with steps_step have d: "cfg_pc d j = PDone" "cfg_pc d i = PFlush \<or> cfg_pc d i = PBarrier1 \<or> (\<exists>k. cfg_pc d i = PRun k)"
        by auto
      with thread(3) have "tid \<noteq> j" by auto
      then show ?thesis using thread d by (auto split: if_splits simp: bind_eq_Some_conv)
    next
      case barrier
      then have "cfg_pc d j \<noteq> PDone" using assms(4) by (auto simp: waiting_def)
      with steps_step have "d = c" by auto
      then show ?thesis using barrier steps_step.prems assms(2-5) by simp
    qed
  qed
  then show ?thesis using assms(1-4) by (auto simp: par_done_def)
qed

theorem cldm_parallel_init_deadlock_witness:
  "\<not> (\<exists>d. par_steps Some (\<lambda>_ _. True) 0 False 2 (sample_cfg\<lparr>cfg_pc := (\<lambda>t. PBarrier0 (t \<noteq> 1))\<rparr>) d \<and> par_done 2 d)"
proof
  assume "\<exists>d. par_steps Some (\<lambda>_ _. True) 0 False 2 (sample_cfg\<lparr>cfg_pc := (\<lambda>t. PBarrier0 (t \<noteq> 1))\<rparr>) d \<and> par_done 2 d"
  then obtain d where "par_steps Some (\<lambda>_ _. True) 0 False 2 (sample_cfg\<lparr>cfg_pc := (\<lambda>t. PBarrier0 (t \<noteq> 1))\<rparr>) d" "par_done 2 d"
    by blast
  then show False
    using cldm_parallel_init_deadlock [of 2 "sample_cfg\<lparr>cfg_pc := (\<lambda>t. PBarrier0 (t \<noteq> 1))\<rparr>" "\<lambda>t. t \<noteq> 1" 0 1] by simp
qed

theorem cldm_parallel_reduction_overrun_witness:
  "\<not> (\<exists>d. par_steps Some (\<lambda>_ _. True) 0 False 32 sample_cfg d \<and> par_done 32 d)"
proof -
  have run: "tests_run 32 sample_cfg"
    by (auto simp: tests_run_def sample_cfg_def par_init_def sample_tests_def CLDM_MAX_THREADS_def)
  show ?thesis using cldm_parallel_reduction_overrun [OF run] by blast
qed


text \<open>The blocks of the logs are freed by the threads themselves, the sizes stay.\<close>

definition after_tests :: "u32 \<Rightarrow> (nat \<Rightarrow> u64) \<Rightarrow> 'd cfg \<Rightarrow> bool" where
  "after_tests jobs sz c \<longleftrightarrow>
     (\<forall>t < unat jobs. cfg_pc c t = PBarrier1 \<or> cfg_pc c t = PFree \<or> cfg_pc c t = PDone \<or>
        (\<exists>i. cfg_pc c t = PReduce i \<or> cfg_pc c t = PBarrierR i)) \<and>
     length (cfg_logs c) = CLDM_MAX_THREADS \<and>
     (\<forall>t < unat jobs. log_size (cfg_logs c ! t) = sz t \<and>
        (t \<noteq> 0 \<and> cfg_pc c t = PDone \<longrightarrow> log_buffer (cfg_logs c ! t) = None))"

lemma after_tests_step:
  assumes "after_tests jobs sz c" and "par_step collect alloc mutex_init fail_fast jobs c d"
    and "unat jobs \<le> CLDM_MAX_THREADS"
  shows "after_tests jobs sz d"
  using assms(2)
proof (cases rule: par_stepE [consumes 1, case_names thread barrier])
  case (thread tid p s)
  with assms(1) consider "cfg_pc c tid = PFree" | i where "cfg_pc c tid = PReduce i"
    by (fastforce simp: after_tests_def)
  then show ?thesis
  proof cases
    case 1
    then show ?thesis using thread assms(1,3)
      by (auto simp: after_tests_def cldm_test_free_def upd_log_def upd_par_def nth_list_update bind_eq_Some_conv
          split: if_splits)
  next
    case 2
    then show ?thesis using thread assms(1,3)
      by (auto simp: after_tests_def cldm_test_reduce_def upd_log_def upd_par_def nth_list_update bind_eq_Some_conv
          split: if_splits)
  qed
next
  case barrier
  have "the (released jobs (cfg_pc c t)) \<noteq> PDone \<and> (the (released jobs (cfg_pc c t)) = PFree \<or>
      (\<exists>i. the (released jobs (cfg_pc c t)) = PReduce i))" if "t < unat jobs" for t
  proof -
    have "waiting (cfg_pc c t)" using barrier(2) that by blast
    then have "cfg_pc c t = PBarrier1 \<or> (\<exists>i. cfg_pc c t = PBarrierR i)"
      using assms(1) that by (auto simp: after_tests_def waiting_def)
    then show ?thesis by (elim disjE exE) (simp_all add: Let_def)
  qed
  then show ?thesis using assms(1) barrier(1) by (auto simp: after_tests_def)
qed

lemma after_tests_steps:
  assumes "par_steps collect alloc mutex_init fail_fast jobs c d" and "after_tests jobs sz c"
    and "unat jobs \<le> CLDM_MAX_THREADS"
  shows "after_tests jobs sz d"
  using assms by (induction rule: par_steps.induct) (auto intro: after_tests_step)

lemma summary_loop_freed:
  assumes "t \<in> set is" and "t < length (testlogs s)" and "log_buffer (testlogs s ! t) = None"
    and "log_size (testlogs s ! t) \<noteq> 0"
  shows "summary_loop is s = None"
  using assms
proof (induction "is" arbitrary: s)
  case Nil
  then show ?case by simp
next
  case (Cons i "is")
  have err: "testlogs (fold (\<lambda>t. err_line (10 # t)) ts s) = testlogs s" for ts
    by (induction ts arbitrary: s) (simp_all add: err_line_def)
  show ?case
  proof (cases "t = i")
    case True
    then show ?thesis using Cons.prems by (simp add: get_log_def)
  next
    case False
    then have "t \<in> set is" using Cons.prems(1) by simp
    then show ?thesis using Cons.IH [of s] Cons.IH [of "fold (\<lambda>t. err_line ([10] @ t)) ts s" for ts] Cons.prems(2-4)
      by (auto simp: err get_log_def split: option.split)
  qed
qed

text \<open>C38: when a test failed, the summary of a parallel run reads the messages of logs that their threads have
  already freed, so the run has no defined result if a thread other than 0 has a message.\<close>

theorem cldm_parallel_summary_after_free:
  assumes "tests_run jobs c" and "2 \<le> unat jobs" and "unat jobs < CLDM_MAX_THREADS"
    and "par_steps collect alloc mutex_init fail_fast jobs c d" and "par_done jobs d"
    and "(\<Sum>t < unat jobs. failed_tests (testlogs (par_tests (cfg_par c)) ! t)) \<noteq> 0"
    and "0 < t" and "t < unat jobs" and "log_size (testlogs (par_tests (cfg_par c)) ! t) \<noteq> 0"
  shows "cldm_test_summary jobs (par_tests (cfg_par d)) = None"
proof -
  have "reducing jobs (\<lambda>k. \<Sum>t < unat jobs. counter k (cfg_logs c ! t)) d"
  proof -
    have "cfg_pc c 0 = PBarrier1" using assms(1,2) by (simp add: tests_run_def)
    then have "d \<noteq> c" using assms(2,5) by (auto simp: par_done_def intro: exI [of _ 0])
    then show ?thesis using par_steps_reducing [OF assms(4,1-3)] by blast
  qed
  moreover have "\<not> in_round jobs e v d" for e v
    using assms(5,7,8) by (fastforce simp: in_round_def par_done_def)
  ultimately have "reduced jobs (\<lambda>k. \<Sum>t < unat jobs. counter k (cfg_logs c ! t)) d" by (simp add: reducing_def)
  then have "counter 1 (cfg_logs d ! 0) = (\<Sum>t < unat jobs. counter 1 (cfg_logs c ! t))"
    by (simp add: reduced_def)
  then have failed: "failed_tests (cfg_logs d ! 0) \<noteq> 0" using assms(6) by (simp add: counter_def)
  have "after_tests jobs (\<lambda>t. log_size (cfg_logs c ! t)) c" using assms(1) by (simp add: tests_run_def after_tests_def)
  from after_tests_steps [OF assms(4) this] assms(3)
  have inv: "after_tests jobs (\<lambda>t. log_size (cfg_logs c ! t)) d" by simp
  then have "log_buffer (cfg_logs d ! t) = None" "log_size (cfg_logs d ! t) \<noteq> 0" "t < length (cfg_logs d)"
    using assms(3,5,7-9) by (auto simp: after_tests_def par_done_def)
  then have "summary_loop [0..<unat jobs] (err_line l (par_tests (cfg_par d))) = None" for l
    using assms(8) by (intro summary_loop_freed [of t]) (simp_all add: err_line_def)
  moreover have "0 < length (cfg_logs d)" using inv by (simp add: after_tests_def CLDM_MAX_THREADS_def)
  ultimately show ?thesis using failed by (simp add: cldm_test_summary_def get_log_def Let_def)
qed

definition sample_failed :: "unit cfg" where
  "sample_failed = par_start (par_init (sample_tests
     \<lparr>testlogs := [zero_testlog, zero_testlog\<lparr>log_buffer := Some [[]], log_size := 1, failed_tests := 1\<rparr>] @
        replicate 30 zero_testlog\<rparr>)) \<lparr>cfg_pc := (\<lambda>_. PBarrier1)\<rparr>"

theorem cldm_parallel_summary_after_free_witness:
  "\<not> (\<exists>d. par_steps Some (\<lambda>_ _. True) 0 False 2 sample_failed d \<and> par_done 2 d \<and>
     cldm_test_summary 2 (par_tests (cfg_par d)) \<noteq> None)"
proof
  assume "\<exists>d. par_steps Some (\<lambda>_ _. True) 0 False 2 sample_failed d \<and> par_done 2 d \<and>
     cldm_test_summary 2 (par_tests (cfg_par d)) \<noteq> None"
  then obtain d where d: "par_steps Some (\<lambda>_ _. True) 0 False 2 sample_failed d" "par_done 2 d"
    and no: "cldm_test_summary 2 (par_tests (cfg_par d)) \<noteq> None" by blast
  have run: "tests_run 2 sample_failed"
    by (auto simp: tests_run_def sample_failed_def par_start_def par_init_def sample_tests_def CLDM_MAX_THREADS_def
        counter_def zero_testlog_def nth_append nth_Cons')
  have two: "{..<2 :: nat} = {0, 1}" by auto
  have "cldm_test_summary 2 (par_tests (cfg_par d)) = None"
    by (rule cldm_parallel_summary_after_free [OF run _ _ d, of 1])
      (simp_all add: CLDM_MAX_THREADS_def sample_failed_def par_start_def par_init_def zero_testlog_def two)
  with no show False by simp
qed

end
