(* ===== verification/System.thy ===== *)
theory System
  imports Elf
begin

text \<open>
  \<^verbatim>\<open>cldm/configure/cldm_system.c\<close>, the program that probes the build system: it reads the header of its own
  executable and writes what the makefiles include. The system calls and the two values that the C
  preprocessor decides are arguments; the static \<open>makecfg\<close> is passed along; error messages are not
  represented.
\<close>

section \<open>State\<close>

datatype arch = arch_32 | arch_64

datatype abi =
    abi_sysv | abi_hpux | abi_netbsd | abi_linux | abi_solaris
  | abi_irix | abi_freebsd | abi_tru64 | abi_arm | abi_embedded

datatype machine =
    mach_none | mach_m32 | mach_sparc | mach_386 | mach_68k | mach_88k | mach_860
  | mach_mips | mach_parisc | mach_sparc32plus | mach_ppc | mach_ppc64 | mach_s390
  | mach_arm | mach_sh | mach_sparcv9 | mach_ia_64 | mach_x86_64 | mach_vax

text \<open>An enumerator as the index it is used as.\<close>

fun arch_index :: "arch \<Rightarrow> nat" where
  "arch_index arch_32 = 0"
| "arch_index arch_64 = 1"

fun abi_index :: "abi \<Rightarrow> nat" where
  "abi_index abi_sysv = 0"
| "abi_index abi_hpux = 1"
| "abi_index abi_netbsd = 2"
| "abi_index abi_linux = 3"
| "abi_index abi_solaris = 4"
| "abi_index abi_irix = 5"
| "abi_index abi_freebsd = 6"
| "abi_index abi_tru64 = 7"
| "abi_index abi_arm = 8"
| "abi_index abi_embedded = 9"

fun machine_index :: "machine \<Rightarrow> nat" where
  "machine_index mach_none = 0"
| "machine_index mach_m32 = 1"
| "machine_index mach_sparc = 2"
| "machine_index mach_386 = 3"
| "machine_index mach_68k = 4"
| "machine_index mach_88k = 5"
| "machine_index mach_860 = 6"
| "machine_index mach_mips = 7"
| "machine_index mach_parisc = 8"
| "machine_index mach_sparc32plus = 9"
| "machine_index mach_ppc = 10"
| "machine_index mach_ppc64 = 11"
| "machine_index mach_s390 = 12"
| "machine_index mach_arm = 13"
| "machine_index mach_sh = 14"
| "machine_index mach_sparcv9 = 15"
| "machine_index mach_ia_64 = 16"
| "machine_index mach_x86_64 = 17"
| "machine_index mach_vax = 18"

text \<open>The two characters are 0 until they are set; the enumerators are the first ones, which are 0.\<close>

record makecfg =
  has_generic :: u8
  has_noreturn :: u8
  mk_arch :: arch
  mk_abi :: abi
  mk_machine :: machine

definition makecfg_init :: makecfg where
  "makecfg_init =
     \<lparr>has_generic = 0, has_noreturn = 0, mk_arch = arch_32, mk_abi = abi_sysv, mk_machine = mach_none\<rparr>"

definition arch_strings :: "u8 list list" where
  "arch_strings = map cstr [''32-bit'', ''64-bit'']"

definition abi_strings :: "u8 list list" where
  "abi_strings = map cstr
     [''SYSV'', ''HPUX'', ''NETBSD'', ''LINUX'', ''SOLARIS'', ''IRIX'', ''FREEBSD'', ''TRU64'', ''ARM'', ''EMBEDDED'']"

definition mach_strings :: "u8 list list" where
  "mach_strings = map cstr
     [''NONE'', ''M32'', ''SPARC'', ''386'', ''68K'', ''88K'', ''860'', ''MIPS'', ''PARISC'', ''SPARC32PLUS'',
      ''PPC'', ''PPC64'', ''S390'', ''ARM'', ''SH'', ''SPARCV9'', ''IA_64'', ''x86_64'', ''VAX'']"

definition c_index :: "'a list \<Rightarrow> nat \<Rightarrow> 'a option" where
  "c_index xs i = (if i < length xs then Some (xs ! i) else None)"

section \<open>What the preprocessor decides\<close>

text \<open>\<open>c11\<close>: \<^verbatim>\<open>__STDC__\<close> is defined and \<^verbatim>\<open>__STDC_VERSION__ >= 201112L\<close>.\<close>

definition detect_generic :: "bool \<Rightarrow> makecfg \<Rightarrow> makecfg" where
  "detect_generic c11 cfg = cfg\<lparr>has_generic := if c11 then 121 else 110\<rparr>"

definition detect_noreturn :: "bool \<Rightarrow> makecfg \<Rightarrow> makecfg" where
  "detect_noreturn c11 cfg = cfg\<lparr>has_noreturn := if c11 then 121 else 110\<rparr>"

section \<open>The header of the executable\<close>

text \<open>The constants are those of \<^verbatim>\<open>elf.h\<close>.\<close>

definition elf_class :: "u8 \<Rightarrow> arch option" where
  "elf_class c = (if c = 1 then Some arch_32 else if c = 2 then Some arch_64 else None)"

definition elf_osabi :: "u8 \<Rightarrow> abi option" where
  "elf_osabi c =
     (if c = 0 then Some abi_sysv else
      if c = 1 then Some abi_hpux else
      if c = 2 then Some abi_netbsd else
      if c = 3 then Some abi_linux else
      if c = 6 then Some abi_solaris else
      if c = 8 then Some abi_irix else
      if c = 9 then Some abi_freebsd else
      if c = 10 then Some abi_tru64 else
      if c = 97 then Some abi_arm else
      if c = 255 then Some abi_embedded else None)"

definition elf_machine :: "u16 \<Rightarrow> machine" where
  "elf_machine c =
     (if c = 1 then mach_m32 else
      if c = 2 then mach_sparc else
      if c = 3 then mach_386 else
      if c = 4 then mach_68k else
      if c = 5 then mach_88k else
      if c = 7 then mach_860 else
      if c = 8 then mach_mips else
      if c = 15 then mach_parisc else
      if c = 18 then mach_sparc32plus else
      if c = 20 then mach_ppc else
      if c = 21 then mach_ppc64 else
      if c = 22 then mach_s390 else
      if c = 40 then mach_arm else
      if c = 42 then mach_sh else
      if c = 43 then mach_sparcv9 else
      if c = 50 then mach_ia_64 else
      if c = 62 then mach_x86_64 else
      if c = 75 then mach_vax else mach_none)"

text \<open>
  \<open>open\<close> of a path; \<open>read\<close> of a number of bytes from a descriptor, -1 or the bytes it has read into the
  header; the header is not initialised, so that only a complete one has bytes to look at.
\<close>

record sys_os =
  sys_open :: "u8 list \<Rightarrow> int"
  sys_read :: "int \<Rightarrow> nat \<Rightarrow> u8 list option"
  sys_fopen :: "u8 list \<Rightarrow> bool"
  sys_pagesize :: int
  sys_dcache_linesize :: int

definition sizeof_ehdr :: nat where "sizeof_ehdr = 64"

definition elf_magic :: "u8 list" where "elf_magic = [0x7f, 69, 76, 70]"

text \<open>The result, the configuration and the descriptors that are closed.\<close>

definition read_elf :: "sys_os \<Rightarrow> u8 list \<Rightarrow> makecfg \<Rightarrow> bool \<times> makecfg \<times> elf_call list" where
  "read_elf os argv0 cfg =
     (let fd = sys_open os argv0
      in if fd = - 1 then (False, cfg, [])
         else case sys_read os fd sizeof_ehdr of
           None \<Rightarrow> (False, cfg, [Close fd])
         | Some ehdr \<Rightarrow>
             if length ehdr \<noteq> sizeof_ehdr then (False, cfg, [Close fd])
             else if take 4 ehdr \<noteq> elf_magic then (False, cfg, [Close fd])
             else case elf_class (ehdr ! 4) of
               None \<Rightarrow> (False, cfg, [Close fd])
             | Some a \<Rightarrow>
                 let cfg = cfg\<lparr>mk_arch := a\<rparr>
                 in case elf_osabi (ehdr ! 7) of
                      None \<Rightarrow> (False, cfg, [Close fd])
                    | Some b \<Rightarrow>
                        (True, cfg\<lparr>mk_abi := b, mk_machine := elf_machine (field ehdr 18 2)\<rparr>, [Close fd]))"

section \<open>Output\<close>

definition c_ld :: "int \<Rightarrow> u8 list" where
  "c_ld i = (if i < 0 then 45 # c_dec (nat (- i)) else c_dec (nat i))"

text \<open>The lines that are written, or \<open>None\<close> inside when the file cannot be opened.\<close>

definition config_lines :: "sys_os \<Rightarrow> makecfg \<Rightarrow> u8 list list option" where
  "config_lines os cfg =
     do { arch \<leftarrow> c_index arch_strings (arch_index (mk_arch cfg));
          abi \<leftarrow> c_index abi_strings (abi_index (mk_abi cfg));
          mach \<leftarrow> c_index mach_strings (machine_index (mk_machine cfg));
          Some
            [cstr ''has_generic  := '' @ [has_generic cfg],
             cstr ''has_noreturn := '' @ [has_noreturn cfg],
             cstr ''arch         := '' @ arch,
             cstr ''abi          := '' @ abi,
             cstr ''machine      := '' @ mach,
             cstr ''pagesize     := '' @ c_ld (sys_pagesize os),
             cstr ''l1_dcache    := '' @ c_ld (sys_dcache_linesize os)] }"

definition write_config :: "sys_os \<Rightarrow> u8 list \<Rightarrow> makecfg \<Rightarrow> (bool \<times> u8 list list) option" where
  "write_config os out cfg =
     (if \<not> sys_fopen os out then Some (False, [])
      else do { lines \<leftarrow> config_lines os cfg; Some (True, lines) })"

definition sys_usage :: "u8 list \<Rightarrow> u8 list" where
  "sys_usage argv0 = cstr ''Usage: '' @ cldm_basename argv0 @ cstr '' OUTFILE''"

text \<open>\<open>main\<close>: the exit status, the file that is written and what is printed on the standard output.\<close>

definition sys_main :: "sys_os \<Rightarrow> bool \<Rightarrow> u8 list list \<Rightarrow> (int \<times> u8 list list \<times> u8 list) option" where
  "sys_main os c11 argv =
     (case argv of
        argv0 # out # _ \<Rightarrow>
          let cfg = detect_noreturn c11 (detect_generic c11 makecfg_init);
              (ok, cfg, _) = read_elf os argv0 cfg
          in if \<not> ok then Some (1, [], [])
             else do { (ok, lines) \<leftarrow> write_config os out cfg; Some (if ok then 0 else 1, lines, []) }
      | [argv0] \<Rightarrow> Some (1, [], sys_usage argv0)
      | [] \<Rightarrow> None)"

section \<open>The tables and the enumerators\<close>

lemma arch_table: "[arch_32, arch_64] ! arch_index a = a" "arch_index a < length arch_strings"
  by (cases a; simp add: arch_strings_def)+

lemma abi_table:
  "[abi_sysv, abi_hpux, abi_netbsd, abi_linux, abi_solaris, abi_irix, abi_freebsd, abi_tru64, abi_arm, abi_embedded] ! abi_index a = a"
  "abi_index a < length abi_strings"
  by (cases a; simp add: abi_strings_def)+

lemma machine_table:
  "[mach_none, mach_m32, mach_sparc, mach_386, mach_68k, mach_88k, mach_860, mach_mips, mach_parisc, mach_sparc32plus,
    mach_ppc, mach_ppc64, mach_s390, mach_arm, mach_sh, mach_sparcv9, mach_ia_64, mach_x86_64, mach_vax] ! machine_index a = a"
  "machine_index a < length mach_strings"
  by (cases a; simp add: mach_strings_def)+

lemma distinct_tables: "distinct arch_strings" "distinct abi_strings" "distinct mach_strings"
  by code_simp+

lemma index_inj:
  "arch_index a = arch_index a' \<longleftrightarrow> a = a'" "abi_index b = abi_index b' \<longleftrightarrow> b = b'"
  "machine_index c = machine_index c' \<longleftrightarrow> c = c'"
  by (metis arch_table(1)) (metis abi_table(1), metis machine_table(1))

lemma c_index_eq:
  assumes "distinct xs" and "i < length xs" and "j < length xs"
  shows "c_index xs i = c_index xs j \<longleftrightarrow> i = j"
  using assms by (simp add: c_index_def nth_eq_iff_index_eq)

lemma config_lines_some: "config_lines os cfg = Some
    [cstr ''has_generic  := '' @ [has_generic cfg], cstr ''has_noreturn := '' @ [has_noreturn cfg],
     cstr ''arch         := '' @ arch_strings ! arch_index (mk_arch cfg),
     cstr ''abi          := '' @ abi_strings ! abi_index (mk_abi cfg),
     cstr ''machine      := '' @ mach_strings ! machine_index (mk_machine cfg),
     cstr ''pagesize     := '' @ c_ld (sys_pagesize os),
     cstr ''l1_dcache    := '' @ c_ld (sys_dcache_linesize os)]"
  by (simp add: config_lines_def c_index_def arch_table abi_table machine_table)

text \<open>C31: what is written determines the configuration: two configurations with the same file are the
  same, and no index is outside its table.\<close>

theorem sys_config_lines_inj:
  "config_lines os cfg \<noteq> None \<and> (config_lines os cfg = config_lines os cfg' \<longleftrightarrow> cfg = cfg')"
proof -
  have "arch_strings ! arch_index a = arch_strings ! arch_index a' \<longleftrightarrow> a = a'" for a a'
    using nth_eq_iff_index_eq [OF distinct_tables(1) arch_table(2) arch_table(2)] index_inj(1) by blast
  moreover have "abi_strings ! abi_index a = abi_strings ! abi_index a' \<longleftrightarrow> a = a'" for a a'
    using nth_eq_iff_index_eq [OF distinct_tables(2) abi_table(2) abi_table(2)] index_inj(2) by blast
  moreover have "mach_strings ! machine_index a = mach_strings ! machine_index a' \<longleftrightarrow> a = a'" for a a'
    using nth_eq_iff_index_eq [OF distinct_tables(3) machine_table(2) machine_table(2)] index_inj(3) by blast
  ultimately show ?thesis by (auto simp: config_lines_some)
qed

definition header_ok :: "u8 list \<Rightarrow> bool" where
  "header_ok ehdr \<longleftrightarrow> length ehdr = sizeof_ehdr \<and> take 4 ehdr = elf_magic \<and>
     elf_class (ehdr ! 4) \<noteq> None \<and> elf_osabi (ehdr ! 7) \<noteq> None"

definition probe_ok :: "sys_os \<Rightarrow> u8 list \<Rightarrow> bool" where
  "probe_ok os argv0 \<longleftrightarrow> sys_open os argv0 \<noteq> - 1 \<and>
     (\<exists>ehdr. sys_read os (sys_open os argv0) sizeof_ehdr = Some ehdr \<and> header_ok ehdr)"

lemma read_elf_ok: "fst (read_elf os argv0 cfg) \<longleftrightarrow> probe_ok os argv0"
  by (auto simp: read_elf_def probe_ok_def header_ok_def Let_def split: option.splits)

text \<open>C30: with a file name, the probe always ends; it succeeds exactly when its executable can be opened
  and has a complete header with the magic number, a class and an ABI that it knows, and the output can
  be opened. Then it writes seven lines, and otherwise nothing.\<close>

theorem sys_main_correct:
  "\<exists>lines. sys_main os c11 (argv0 # out # rest) =
       Some (if probe_ok os argv0 \<and> sys_fopen os out then 0 else 1, lines, []) \<and>
     length lines = (if probe_ok os argv0 \<and> sys_fopen os out then 7 else 0)"
proof -
  let ?cfg = "detect_noreturn c11 (detect_generic c11 makecfg_init)"
  obtain ok cfg calls where r: "read_elf os argv0 ?cfg = (ok, cfg, calls)" by (cases "read_elf os argv0 ?cfg")
  then have "ok \<longleftrightarrow> probe_ok os argv0" using read_elf_ok [of os argv0 ?cfg] by simp
  with r show ?thesis by (simp add: sys_main_def write_config_def config_lines_some)
qed

end
