(* ===== verification/Dl.thy ===== *)
theory Dl
  imports Collect
begin

text \<open>
  \<^verbatim>\<open>cldm/cldm_dl.c\<close>: the functions of the C library that the program calls around its mocks, the libraries
  the executable needs, and the cache of symbols looked up in them that every thread keeps. The
  loader is an environment: what \<open>dlopen\<close>, \<open>dlsym\<close> and the allocator return are arguments. The entries of a
  cache lie in memory, in the static array of the cache or in a block, because the keys of its hash
  table point into them and the pointer to the block overlays the static array. The routines on bytes that it
  calls (\<open>cldm_memcmp\<close>, \<open>cldm_strscpy\<close>, \<open>cldm_memcpy\<close>) are those of a build without AVX2.
\<close>

section \<open>The environment\<close>

text \<open>
  \<open>dlsym\<close> gives \<open>None\<close> where \<open>dlerror\<close> reports an error afterwards; the null pointer it returns then is 0.
\<close>

record dl_env =
  env_dlopen :: "u8 list \<Rightarrow> u64"
  env_dlsym :: "u64 \<Rightarrow> u8 list \<Rightarrow> u64 option"
  env_malloc :: "mem \<Rightarrow> u64 \<Rightarrow> u64 \<times> mem"
  env_realloc :: "mem \<Rightarrow> u64 \<Rightarrow> u64 \<Rightarrow> u64 \<times> mem"

text \<open>The calls that release something.\<close>

datatype dl_call = Dlclose u64 | FreeEntries u64 | FreeTable

section \<open>Little-endian members\<close>

fun le_bytes :: "nat \<Rightarrow> 'a::len word \<Rightarrow> u8 list" where
  "le_bytes 0 w = []"
| "le_bytes (Suc n) w = ucast w # le_bytes n (drop_bit 8 w)"

fun mem_wrn :: "mem \<Rightarrow> u64 \<Rightarrow> u8 list \<Rightarrow> mem option" where
  "mem_wrn m a [] = Some m"
| "mem_wrn m a (b # bs) = do { m \<leftarrow> mem_wr m a b; mem_wrn m (a + 1) bs }"

definition rd32 :: "mem \<Rightarrow> u64 \<Rightarrow> u32 option" where
  "rd32 m a = do { bs \<leftarrow> mem_rdn m a 4; Some (le bs) }"

definition wr32 :: "mem \<Rightarrow> u64 \<Rightarrow> u32 \<Rightarrow> mem option" where
  "wr32 m a v = mem_wrn m a (le_bytes 4 v)"

definition wr64 :: "mem \<Rightarrow> u64 \<Rightarrow> u64 \<Rightarrow> mem option" where
  "wr64 m a v = mem_wrn m a (le_bytes 8 v)"

section \<open>State\<close>

definition CLDM_MAX_SODEPS :: nat where "CLDM_MAX_SODEPS = 32"
definition CLDM_DLBUF_SIZE :: u64 where "CLDM_DLBUF_SIZE = 1024"
definition CLDM_DLNAME_MAX_SIZE :: nat where "CLDM_DLNAME_MAX_SIZE = 32"
definition CLDM_MAX_SYMNAME_SIZE :: u64 where "CLDM_MAX_SYMNAME_SIZE = 128"
definition CLDM_MAX_LIBC_VERSION :: nat where "CLDM_MAX_LIBC_VERSION = 32"
definition CLDM_STATIC_LOOKUP_SIZE :: u64 where "CLDM_STATIC_LOOKUP_SIZE = 32"

text \<open>
  \<open>struct cldm_dlentry\<close>: \<open>symname\<close> at 0, \<open>addr\<close> at 128, \<open>loadidx\<close> at 136, \<open>resolved\<close> at 140; it has 144 bytes.
  The member \<open>un_entries\<close> of a cache is at \<open>dl_entries\<close>.
\<close>

definition sizeof_dlentry :: u64 where "sizeof_dlentry = 144"

record cldm_dllookup =
  dl_ht :: cldm_ht
  dl_entries :: u64
  dl_capacity :: u64

record dl =
  dl_mem :: mem
  dllookups :: "cldm_dllookup list"
  ndlhandles :: nat
  dlhandles :: "u64 list"
  dlnames :: "u8 list list"

definition get_lookup :: "nat \<Rightarrow> dl \<Rightarrow> cldm_dllookup option" where
  "get_lookup tid d = (if tid < length (dllookups d) then Some (dllookups d ! tid) else None)"

definition set_lookup :: "nat \<Rightarrow> cldm_dllookup \<Rightarrow> dl \<Rightarrow> dl" where
  "set_lookup tid lk d = d\<lparr>dllookups := (dllookups d)[tid := lk]\<rparr>"

section \<open>The cache\<close>

definition cldm_dllookup_init :: "cldm_dllookup \<Rightarrow> cldm_dllookup" where
  "cldm_dllookup_init lk = lk\<lparr>dl_ht := cldm_ht_init, dl_capacity := CLDM_STATIC_LOOKUP_SIZE\<rparr>"

definition cldm_dllookup_entry :: "mem \<Rightarrow> cldm_dllookup \<Rightarrow> u64 option" where
  "cldm_dllookup_entry m lk =
     (if dl_capacity lk = CLDM_STATIC_LOOKUP_SIZE then Some (dl_entries lk) else rd64 m (dl_entries lk))"

text \<open>The loop inserts the same entry, the first one, in every round.\<close>

fun dl_reinsert :: "(nat \<Rightarrow> bool) \<Rightarrow> mem \<Rightarrow> cldm_dllookup \<Rightarrow> nat \<Rightarrow> cldm_ht \<Rightarrow> cldm_ht option" where
  "dl_reinsert alloc m lk 0 ht = Some ht"
| "dl_reinsert alloc m lk (Suc n) ht =
     do { a \<leftarrow> cldm_dllookup_entry m lk;
          e \<leftarrow> cldm_ht_mkentry_str m a;
          (_, ht) \<leftarrow> cldm_ht_insert cldm_memcmp alloc m ht e;
          dl_reinsert alloc m lk n ht }"

definition cldm_dllookup_ensure_capacity ::
  "(nat \<Rightarrow> bool) \<Rightarrow> dl_env \<Rightarrow> mem \<Rightarrow> cldm_dllookup \<Rightarrow> (bool \<times> mem \<times> cldm_dllookup) option" where
  "cldm_dllookup_ensure_capacity alloc env m lk =
     (if cldm_ht_size (dl_ht lk) < dl_capacity lk then Some (True, m, lk)
      else do {
        let nbytes = 2 * dl_capacity lk * sizeof_dlentry;
        (addr, m) \<leftarrow> (if dl_capacity lk = CLDM_STATIC_LOOKUP_SIZE
                    then let (addr, m) = env_malloc env m nbytes
                         in if addr = 0 then Some (0, m)
                            else do { m \<leftarrow> cldm_memcpy m addr (dl_entries lk) (CLDM_STATIC_LOOKUP_SIZE * sizeof_dlentry);
                                      Some (addr, m) }
                    else do { dyn \<leftarrow> rd64 m (dl_entries lk); Some (env_realloc env m dyn nbytes) });
        if addr = 0 then Some (False, m, lk)
        else do {
          m \<leftarrow> wr64 m (dl_entries lk) addr;
          ht \<leftarrow> cldm_ht_clear (dl_ht lk);
          ht \<leftarrow> dl_reinsert alloc m lk (unat (dl_capacity lk)) ht;
          Some (True, m, lk\<lparr>dl_ht := ht, dl_capacity := dl_capacity lk * 2\<rparr>) } })"

definition cldm_dllookup_free :: "mem \<Rightarrow> cldm_dllookup \<Rightarrow> dl_call list option" where
  "cldm_dllookup_free m lk =
     (if CLDM_STATIC_LOOKUP_SIZE < dl_capacity lk
      then do { dyn \<leftarrow> rd64 m (dl_entries lk); Some [FreeEntries dyn] }
      else Some [])"

section \<open>Looking a symbol up\<close>

text \<open>The loop over the handles from the index \<open>i\<close> on; the index is a 32-bit counter.\<close>

fun dl_probe :: "(u64 \<Rightarrow> u8 list \<Rightarrow> u64 option) \<Rightarrow> u8 list \<Rightarrow> u64 list \<Rightarrow> u32 \<Rightarrow> u64 \<times> u32" where
  "dl_probe lookup name [] i = (0, i)"
| "dl_probe lookup name (h # hs) i =
     (case lookup h name of Some a \<Rightarrow> (a, i) | None \<Rightarrow> dl_probe lookup name hs (i + 1))"

definition dl_search :: "dl_env \<Rightarrow> u8 list \<Rightarrow> u32 \<Rightarrow> dl \<Rightarrow> u64 \<times> u32" where
  "dl_search env name i d = dl_probe (env_dlsym env) name (drop (unat i) (take (ndlhandles d) (dlhandles d))) i"

text \<open>The result is the address, 0 for the null pointer.\<close>

definition cldm_dlsym_next ::
  "(nat \<Rightarrow> bool) \<Rightarrow> dl_env \<Rightarrow> nat \<Rightarrow> u64 \<Rightarrow> dl \<Rightarrow> (u64 \<times> dl) option" where
  "cldm_dlsym_next alloc env tid symname d =
     do { lk \<leftarrow> get_lookup tid d;
          let lk = (if dl_capacity lk = 0 then cldm_dllookup_init lk else lk);
          let m = dl_mem d;
          name \<leftarrow> c_string m symname;
          e \<leftarrow> cldm_ht_mkentry_str m symname;
          slot \<leftarrow> cldm_ht_find cldm_memcmp m (dl_ht lk) e;
          case slot of
            Some idx \<Rightarrow>
              do { slots \<leftarrow> cldm_ht_storage (dl_ht lk);
                   let dlentry = ent_key (slots ! unat idx);
                   resolved \<leftarrow> m (dlentry + 140);
                   if resolved \<noteq> 0
                   then do { addr \<leftarrow> rd64 m (dlentry + 128); Some (addr, set_lookup tid lk d) }
                   else do {
                     loadidx \<leftarrow> rd32 m (dlentry + 136);
                     let (addr, probeidx) = dl_search env name (loadidx + 1) d;
                     m \<leftarrow> wr64 m (dlentry + 128) addr;
                     m \<leftarrow> wr32 m (dlentry + 136) probeidx;
                     Some (addr, (set_lookup tid lk d)\<lparr>dl_mem := m\<rparr>) } }
          | None \<Rightarrow>
              do { let (addr, probeidx) = dl_search env name 0 d;
                   (ok, m, lk) \<leftarrow> cldm_dllookup_ensure_capacity alloc env m lk;
                   if \<not> ok then Some (0, (set_lookup tid lk d)\<lparr>dl_mem := m\<rparr>)
                   else do {
                     base \<leftarrow> cldm_dllookup_entry m lk;
                     let dlentry = base + sizeof_dlentry * cldm_ht_size (dl_ht lk);
                     (n, m) \<leftarrow> cldm_strscpy m dlentry symname CLDM_MAX_SYMNAME_SIZE;
                     if n < 0 then Some (0, (set_lookup tid lk d)\<lparr>dl_mem := m\<rparr>)
                     else do {
                       m \<leftarrow> wr64 m (dlentry + 128) addr;
                       m \<leftarrow> wr32 m (dlentry + 136) probeidx;
                       m \<leftarrow> mem_wr m (dlentry + 140) 0;
                       e \<leftarrow> cldm_ht_mkentry_str m dlentry;
                       (slot, ht) \<leftarrow> cldm_ht_insert cldm_memcmp alloc m (dl_ht lk) e;
                       Some (if slot = None then 0 else addr,
                             (set_lookup tid (lk\<lparr>dl_ht := ht\<rparr>) d)\<lparr>dl_mem := m\<rparr>) } } } }"

text \<open>A failed assertion ends the program with the status on the left.\<close>

definition cldm_dlresolve :: "nat \<Rightarrow> u64 \<Rightarrow> dl \<Rightarrow> (int + dl) option" where
  "cldm_dlresolve tid symname d =
     do { lk \<leftarrow> get_lookup tid d;
          e \<leftarrow> cldm_ht_mkentry_str (dl_mem d) symname;
          slot \<leftarrow> cldm_ht_find cldm_memcmp (dl_mem d) (dl_ht lk) e;
          case slot of
            None \<Rightarrow> Some (Inl 2)
          | Some idx \<Rightarrow>
              do { slots \<leftarrow> cldm_ht_storage (dl_ht lk);
                   m \<leftarrow> mem_wr (dl_mem d) (ent_key (slots ! unat idx) + 140) 1;
                   Some (Inr (d\<lparr>dl_mem := m\<rparr>)) } }"

section \<open>The libraries\<close>

text \<open>What \<open>cldm_dlfree\<close> releases: the handles, then the caches of the first \<open>jobs\<close> threads.\<close>

fun dl_free_lookups :: "mem \<Rightarrow> cldm_dllookup list \<Rightarrow> dl_call list option" where
  "dl_free_lookups m [] = Some []"
| "dl_free_lookups m (lk # lks) =
     do { cs \<leftarrow> (if dl_capacity lk \<noteq> 0
                then do { cs \<leftarrow> cldm_dllookup_free m lk;
                          Some (cs @ (if cldm_ht_free (dl_ht lk) then [FreeTable] else [])) }
                else Some []);
          cs' \<leftarrow> dl_free_lookups m lks;
          Some (cs @ cs') }"

definition cldm_dlfree :: "nat \<Rightarrow> dl \<Rightarrow> dl_call list option" where
  "cldm_dlfree jobs d =
     (if length (dlhandles d) < ndlhandles d \<or> length (dllookups d) < jobs then None
      else do { cs \<leftarrow> dl_free_lookups (dl_mem d) (take jobs (dllookups d));
                Some (map Dlclose (take (ndlhandles d) (dlhandles d)) @ cs) })"

definition CLDM_SOLIB :: "u8 list" where "CLDM_SOLIB = cstr ''libcldm.so''"

text \<open>The names of the libraries are in the buffer at \<open>buf\<close>, one after the other.\<close>

partial_function (option) dl_needed_loop ::
  "dl_env \<Rightarrow> nat \<Rightarrow> u64 \<Rightarrow> u32 \<Rightarrow> u32 \<Rightarrow> dl \<Rightarrow> (int \<times> dl \<times> dl_call list) option" where
  "dl_needed_loop env jobs buf nbytes i d =
     (if i < nbytes
      then do {
        let a = buf + ucast i;
        n \<leftarrow> c_strlen (dl_mem d) a;
        c \<leftarrow> strncmp_to (dl_mem d) CLDM_SOLIB a;
        if c = 0 \<or> CLDM_MAX_SODEPS \<le> ndlhandles d
        then dl_needed_loop env jobs buf nbytes (i + of_nat n + 1) d
        else do {
          name \<leftarrow> c_string (dl_mem d) a;
          let h = env_dlopen env name;
          if h = 0
          then do { cs \<leftarrow> cldm_dlfree jobs (d\<lparr>dlhandles := (dlhandles d)[ndlhandles d := 0]\<rparr>);
                    Some (- 1, d\<lparr>dlhandles := (dlhandles d)[ndlhandles d := 0]\<rparr>, cs) }
          else dl_needed_loop env jobs buf nbytes (i + of_nat n + 1)
                 (d\<lparr>dlhandles := (dlhandles d)[ndlhandles d := h],
                    dlnames := (dlnames d)[ndlhandles d := take (CLDM_DLNAME_MAX_SIZE - 1) name],
                    ndlhandles := ndlhandles d + 1\<rparr>) } }
      else Some (int (ndlhandles d), d, []))"

text \<open>The result is the number of handles or -1, and the calls that release the handles on failure.\<close>

definition cldm_dlmap_needed ::
  "dl_env \<Rightarrow> nat \<Rightarrow> cldm_elfmap \<Rightarrow> u64 \<Rightarrow> dl \<Rightarrow> (int \<times> dl \<times> dl_call list) option" where
  "cldm_dlmap_needed env jobs em buf d =
     do { (nbytes, m) \<leftarrow> cldm_elf_read_needed (dl_mem d) em buf CLDM_DLBUF_SIZE;
          if nbytes < 0 then Some (- 1, d\<lparr>dl_mem := m\<rparr>, [])
          else dl_needed_loop env jobs buf (of_int nbytes) 0 (d\<lparr>dl_mem := m\<rparr>) }"

section \<open>The C library\<close>

text \<open>
  The buffer for the name, whose bytes are not initialised at first: the characters of the version
  are written behind \<^verbatim>\<open>libc.so.\<close>, which was copied with its terminator.
\<close>

definition libc_digits :: "u8 list" where
  "libc_digits = cstr ''0123456789'' @ [0]"

definition libc_buffer :: "nat \<Rightarrow> u8 option list" where
  "libc_buffer i =
     (let base = map Some (cstr ''libc.so.'' @ [0]) @ replicate (CLDM_DLNAME_MAX_SIZE - 9) None;
          d0 = (i mod 10) * (if i < 10 then 1 else 0) + i div 10;
          d1 = (i mod 10) * (if 10 \<le> i then 1 else 0) + 10 * (if i < 10 then 1 else 0)
      in base[8 := Some (libc_digits ! d0), 9 := Some (libc_digits ! d1)])"

text \<open>The string in a buffer; a byte that is not initialised has no defined value.\<close>

fun buffer_string :: "u8 option list \<Rightarrow> u8 list option" where
  "buffer_string [] = None"
| "buffer_string (None # bs) = None"
| "buffer_string (Some b # bs) = (if b = 0 then Some [] else do { s \<leftarrow> buffer_string bs; Some (b # s) })"

text \<open>The first version, from \<open>i\<close> on, whose library can be opened, and its handle.\<close>

fun libc_loop :: "dl_env \<Rightarrow> nat list \<Rightarrow> (u8 list \<times> u64) option option" where
  "libc_loop env [] = Some None"
| "libc_loop env (i # is) =
     do { name \<leftarrow> buffer_string (libc_buffer i);
          if env_dlopen env name \<noteq> 0 then Some (Some (name, env_dlopen env name)) else libc_loop env is }"

definition explicit_names :: "u8 list list" where
  "explicit_names =
     map cstr [''open'', ''close'', ''fstat'', ''mmap'', ''munmap'', ''strcmp'', ''strncmp'', ''strerror'', ''fprintf'']"

fun load_explicit :: "dl_env \<Rightarrow> u64 \<Rightarrow> u8 list list \<Rightarrow> (int \<times> u64 list)" where
  "load_explicit env h [] = (0, [])"
| "load_explicit env h (n # ns) =
     (case env_dlsym env h n of
        None \<Rightarrow> (1, [0])
      | Some a \<Rightarrow> let (status, as) = load_explicit env h ns in (status, a # as))"

text \<open>The status, the pointers that were assigned, in their order, and the handle that is closed.\<close>

definition cldm_dlmap_explicit :: "dl_env \<Rightarrow> (int \<times> u64 list \<times> dl_call list) option" where
  "cldm_dlmap_explicit env =
     do { r \<leftarrow> libc_loop env [0..<CLDM_MAX_LIBC_VERSION + 1];
          case r of
            None \<Rightarrow> Some (1, [], [])
          | Some (name, h) \<Rightarrow>
              let (status, as) = load_explicit env h explicit_names in Some (status, as, [Dlclose h]) }"

declare dl_needed_loop.simps [code]

end
