(* ===== verification/Elfdump.thy ===== *)
theory Elfdump
  imports Dl
begin

text \<open>
  \<^verbatim>\<open>cldm/cldm_elfdump.c\<close>: listings of the sections, of a string table and of the needed libraries of the
  executable. The result is what is logged, a list of lines; the buffer of \<open>pgsize\<close> bytes, \<open>CLDM_PGSIZE\<close>, is
  at the address \<open>buf\<close>.
\<close>

section \<open>Formats\<close>

text \<open>\<open>%#lx\<close>\<close>

fun c_hex :: "nat \<Rightarrow> u8 list" where
  "c_hex n =
     (let d = (let k = n mod 16 in if k < 10 then 48 + of_nat k else 87 + of_nat k)
      in if n < 16 then [d] else c_hex (n div 16) @ [d])"

declare c_hex.simps [simp del]

definition c_hex_prefixed :: "u64 \<Rightarrow> u8 list" where
  "c_hex_prefixed x = (if x = 0 then [48] else cstr ''0x'' @ c_hex (unat x))"

section \<open>The listings\<close>

definition cldm_elf_section_type :: "u32 \<Rightarrow> u8 list" where
  "cldm_elf_section_type type = cstr
     (if type = 0 then ''SHT_NULL''
      else if type = 1 then ''SHT_PROGBITS''
      else if type = SHT_SYMTAB then ''SHT_SYMTAB''
      else if type = SHT_STRTAB then ''SHT_STRTAB''
      else if type = 4 then ''SHT_RELA''
      else if type = 5 then ''SHT_HASH''
      else if type = SHT_DYNAMIC then ''SHT_DYNAMIC''
      else if type = 7 then ''SHT_NOTE''
      else if type = 8 then ''SHT_NOBITS''
      else if type = 9 then ''SHT_REL''
      else if type = 10 then ''SHT_SHLIB''
      else if type = 11 then ''SHT_DYNSYM''
      else if type = 0x70000000 then ''SHT_LOPROC''
      else if type = 0x7fffffff then ''SHT_HIPROC''
      else if type = 0x80000000 then ''SHT_LOUSER''
      else if type = 0x8fffffff then ''SHT_HIUSER''
      else ''Unknown'')"

text \<open>The loop over the strings in a buffer from the offset \<open>i\<close> on, with what is printed for a string.\<close>

partial_function (option) dump_strings ::
  "(u8 list \<Rightarrow> nat \<Rightarrow> u8 list) \<Rightarrow> mem \<Rightarrow> u64 \<Rightarrow> nat \<Rightarrow> nat \<Rightarrow> u8 list list option" where
  "dump_strings line m buf nbytes i =
     (if i < nbytes
      then do { s \<leftarrow> c_string m (buf + of_nat i);
                ls \<leftarrow> dump_strings line m buf nbytes (i + length s + 1);
                Some (line s i # ls) }
      else Some [])"

definition strtab_line :: "u8 list \<Rightarrow> nat \<Rightarrow> u8 list" where
  "strtab_line s i = cstr ''name: '' @ c_left 30 s @ cstr '' offset: '' @ c_dec i"

definition cldm_elfdump_strtab ::
  "mem \<Rightarrow> cldm_elfmap \<Rightarrow> u64 \<Rightarrow> u64 \<Rightarrow> u8 list \<Rightarrow> (int \<times> u8 list list) option" where
  "cldm_elfdump_strtab m em buf pgsize sec =
     do { (nbytes, m) \<leftarrow> cldm_elf_read_strtab m em buf sec pgsize;
          if nbytes < 0 then Some (nbytes, [])
          else do { ls \<leftarrow> dump_strings strtab_line m buf (nat nbytes) 0; Some (0, sec # ls) } }"

definition cldm_elfdump_needed :: "mem \<Rightarrow> cldm_elfmap \<Rightarrow> u64 \<Rightarrow> u64 \<Rightarrow> (int \<times> u8 list list) option" where
  "cldm_elfdump_needed m em buf pgsize =
     do { (nbytes, m) \<leftarrow> cldm_elf_read_needed m em buf pgsize;
          if nbytes < 0 then Some (nbytes, [])
          else do { ls \<leftarrow> dump_strings (\<lambda>s _. s) m buf (nat nbytes) 0; Some (0, cstr ''needed:'' # ls) } }"

fun dump_sections_loop :: "mem \<Rightarrow> cldm_elfmap \<Rightarrow> nat list \<Rightarrow> u8 list list option" where
  "dump_sections_loop m em [] = Some []"
| "dump_sections_loop m em (i # is) =
     do { addr \<leftarrow> cldm_elf_shdr m em (of_nat i);
          shdr \<leftarrow> read_shdr m addr;
          name \<leftarrow> c_string m (map_shstrtab em + ucast (sh_name shdr));
          ls \<leftarrow> dump_sections_loop m em is;
          Some ((cstr ''name: '' @ c_left 20 name @ cstr '' type: '' @ c_left 20 (cldm_elf_section_type (sh_type shdr)) @
                 cstr '' offset: '' @ c_hex_prefixed (sh_offset shdr)) # ls) }"

definition cldm_elfdump_sections :: "mem \<Rightarrow> cldm_elfmap \<Rightarrow> u8 list list option" where
  "cldm_elfdump_sections m em =
     do { n \<leftarrow> e_shnum m em; ls \<leftarrow> dump_sections_loop m em [0..<unat n]; Some (cstr ''sections:'' # ls) }"

declare dump_strings.simps [code]

end
