(* ===== verification/Elf_Correct.thy ===== *)
theory Elf_Correct
  imports Elf
begin

text \<open>
  Correctness of the reader of the executable: what symbol lookups, the table of the needed
  libraries and the mapping return, in terms of the sections, symbols and names the file holds.
\<close>

section \<open>The contents of a file\<close>

lemma strcmp_to_cstring:
  "cstring_at m a t \<Longrightarrow> 0 \<notin> set s \<Longrightarrow> \<exists>r. strcmp_to m s a = Some r \<and> (r = 0 \<longleftrightarrow> s = t)"
proof (induction s arbitrary: a t)
  case Nil
  then show ?case by (cases t) (auto simp: cstring_at_def uint_0_iff)
next
  case (Cons c s)
  show ?case
  proof (cases t)
    case Nil
    with Cons.prems show ?thesis by (auto simp: cstring_at_def uint_0_iff)
  next
    case (Cons d t')
    with \<open>cstring_at m a t\<close> have "m a = Some d" "cstring_at m (a + 1) t'"
      by (auto simp: cstring_at_def)
    with Cons.IH [of "a + 1" t'] Cons.prems Cons show ?thesis
      by (auto simp: word_uint_eq_iff)
  qed
qed

text \<open>The section headers of a file, with their addresses.\<close>

definition section_at :: "mem \<Rightarrow> cldm_elfmap \<Rightarrow> nat \<Rightarrow> u64 \<times> Elf64_Shdr \<Rightarrow> bool" where
  "section_at m em i ah \<longleftrightarrow>
     cldm_elf_shdr m em (of_nat i) = Some (fst ah) \<and> read_shdr m (fst ah) = Some (snd ah)"

definition section_view :: "mem \<Rightarrow> cldm_elfmap \<Rightarrow> (u64 \<times> Elf64_Shdr) list \<Rightarrow> bool" where
  "section_view m em hs \<longleftrightarrow>
     map_option unat (e_shnum m em) = Some (length hs) \<and>
     (\<forall>i < length hs. section_at m em i (hs ! i))"

lemma section_view_loop:
  assumes "section_view m em hs"
  obtains n where "e_shnum m em = Some n" and "list_all2 (section_at m em) [0..<unat n] hs"
  using assms by (auto simp: section_view_def list_all2_conv_all_nth)

text \<open>The symbols of a symbol table, with their addresses and names.\<close>

type_synonym symbol = "u64 \<times> Elf64_Sym \<times> u8 list"

definition symbol_at :: "mem \<Rightarrow> cldm_elfmap \<Rightarrow> u64 \<Rightarrow> symbol \<Rightarrow> bool" where
  "symbol_at m em a s \<longleftrightarrow>
     (case s of (a', y, n) \<Rightarrow>
       a' = a \<and> read_sym m a = Some y \<and>
       (st_name y \<noteq> STN_UNDEF \<longrightarrow> cstring_at m (str_addr (map_strtab em) + ucast (st_name y)) n))"

definition symtab_view :: "mem \<Rightarrow> cldm_elfmap \<Rightarrow> u64 \<times> Elf64_Shdr \<Rightarrow> symbol list \<Rightarrow> bool" where
  "symtab_view m em ah ys \<longleftrightarrow>
     (if sh_type (snd ah) = SHT_SYMTAB
      then unat (sh_size (snd ah)) = 24 * length ys \<and>
           (\<forall>j < length ys. symbol_at m em (m_addr em + sh_offset (snd ah) + of_nat (24 * j)) (ys ! j))
      else ys = [])"

definition symbol_named :: "u8 list \<Rightarrow> symbol \<Rightarrow> bool" where
  "symbol_named name s \<longleftrightarrow> (case s of (a, y, n) \<Rightarrow> st_name y \<noteq> STN_UNDEF \<and> n = name)"

section \<open>Symbols\<close>

lemma sym_loop_find:
  assumes "unat (sh_size h) = 24 * length ys" and "0 \<notin> set name" and "k \<le> length ys"
    and "\<forall>j < length ys. symbol_at m em (m_addr em + sh_offset h + of_nat (24 * j)) (ys ! j)"
  shows "sym_loop m em name h (of_nat (24 * k)) = Some (map_option fst (find (symbol_named name) (drop k ys)))"
  using assms(3)
proof (induction "length ys - k" arbitrary: k)
  case 0
  then have "k = length ys" by simp
  moreover from assms(1) have "of_nat (24 * length ys) = sh_size h" by (metis word_eq_of_nat)
  ultimately show ?case by (subst sym_loop.simps) simp
next
  case (Suc n)
  then have k: "k < length ys" by simp
  have "24 * k < 2 ^ 64" using k assms(1) unat_lt2p [of "sh_size h"] by simp
  then have "unat (of_nat (24 * k) :: u64) = 24 * k" by (intro unat_of_nat_small) simp
  with k assms(1) have lt: "of_nat (24 * k) < sh_size h" unfolding word_less_nat_alt by simp
  obtain a y n where s: "ys ! k = (a, y, n)" by (cases "ys ! k")
  with assms(4) k have a: "a = m_addr em + sh_offset h + of_nat (24 * k)" and y: "read_sym m a = Some y"
    and n: "st_name y \<noteq> STN_UNDEF \<Longrightarrow> cstring_at m (str_addr (map_strtab em) + ucast (st_name y)) n"
    by (auto simp: symbol_at_def)
  have dr: "drop k ys = (a, y, n) # drop (Suc k) ys" using k s by (metis Cons_nth_drop_Suc)
  have next_j: "(of_nat (24 * k) :: u64) + 24 = of_nat (24 * Suc k)" by simp
  have IH: "sym_loop m em name h (of_nat (24 * Suc k)) = Some (map_option fst (find (symbol_named name) (drop (Suc k) ys)))"
    using k Suc.hyps(2) by (intro Suc.hyps(1)) simp_all
  have found: "(if st_name y \<noteq> STN_UNDEF
       then do { c \<leftarrow> strcmp_to m name (str_addr (map_strtab em) + ucast (st_name y)); Some (c = 0) }
       else Some False) = Some (symbol_named name (a, y, n))"
  proof (cases "st_name y = STN_UNDEF")
    case True
    then show ?thesis by (simp add: symbol_named_def)
  next
    case False
    from strcmp_to_cstring [OF n [OF False] assms(2)] show ?thesis
      using False by (auto simp: symbol_named_def)
  qed
  show ?case
    by (subst sym_loop.simps) (simp only: lt if_True a [symmetric] y bind.bind_lunit found next_j IH dr find.simps split: if_splits, auto)
qed

lemma find_append: "find P (xs @ ys) = (case find P xs of Some x \<Rightarrow> Some x | None \<Rightarrow> find P ys)"
  by (induction xs) auto

lemma sym_sections_find:
  assumes "list_all2 (section_at m em) is hs" and "list_all2 (symtab_view m em) hs tabs" and "0 \<notin> set name"
  shows "sym_sections_loop m em name is = Some (map_option fst (find (symbol_named name) (concat tabs)))"
  using assms(1,2)
proof (induction "is" hs arbitrary: tabs rule: list_all2_induct)
  case Nil
  then show ?case by simp
next
  case (Cons i "is" ah hs)
  then obtain ys tabs' where tabs: "tabs = ys # tabs'" and v: "symtab_view m em ah ys"
    and "list_all2 (symtab_view m em) hs tabs'" by (auto simp: list_all2_Cons1)
  then have IH: "sym_sections_loop m em name is = Some (map_option fst (find (symbol_named name) (concat tabs')))"
    using Cons by blast
  have "(if sh_type (snd ah) = SHT_SYMTAB then sym_loop m em name (snd ah) 0 else Some None)
      = Some (map_option fst (find (symbol_named name) ys))"
    using v sym_loop_find [of "snd ah" ys name 0 m em] assms(3) by (auto simp: symtab_view_def)
  with Cons(1) IH show ?case
    by (auto simp: section_at_def tabs find_append split: option.splits)
qed

lemma cldm_elf_sym_find:
  assumes "section_view m em hs" and "list_all2 (symtab_view m em) hs tabs" and "0 \<notin> set name"
  shows "cldm_elf_sym m em name = Some (map_option fst (find (symbol_named name) (concat tabs)))"
  by (rule section_view_loop [OF assms(1)]) (simp add: cldm_elf_sym_def sym_sections_find [OF _ assms(2,3)])

lemma symbol_in_view:
  assumes "list_all2 (symtab_view m em) hs tabs" and "(a, y, n) \<in> set (concat tabs)"
  shows "read_sym m a = Some y"
proof -
  from assms(2) obtain ys where "ys \<in> set tabs" "(a, y, n) \<in> set ys" by auto
  moreover from this assms(1) obtain ah where "symtab_view m em ah ys"
    by (metis in_set_conv_nth list_all2_conv_all_nth)
  ultimately show ?thesis
    by (auto simp: symtab_view_def in_set_conv_nth symbol_at_def split: if_splits prod.splits)
qed

text \<open>A symbol is undefined, absolute, or in one of the sections of the file.\<close>

definition shndx_ok :: "(u64 \<times> Elf64_Shdr) list \<Rightarrow> Elf64_Sym \<Rightarrow> bool" where
  "shndx_ok hs y \<longleftrightarrow> st_shndx y = SHN_UNDEF \<or> st_shndx y = SHN_ABS \<or> unat (st_shndx y) < length hs"

definition symbol_address :: "cldm_elfmap \<Rightarrow> Elf64_Sym \<Rightarrow> u64" where
  "symbol_address em y =
     (if st_shndx y = SHN_UNDEF then 0
      else if st_shndx y = SHN_ABS then st_value y else baseaddr em + st_value y)"

lemma section_view_nth:
  "section_view m em hs \<Longrightarrow> unat ndx < length hs \<Longrightarrow>
   cldm_elf_shdr m em (ucast (ndx :: u16)) = Some (fst (hs ! unat ndx)) \<and>
   read_shdr m (fst (hs ! unat ndx)) = Some (snd (hs ! unat ndx))"
  unfolding section_view_def section_at_def by (metis of_nat_unat)

lemma cldm_elf_symaddr_view:
  "section_view m em hs \<Longrightarrow> shndx_ok hs y \<Longrightarrow> cldm_elf_symaddr m em y = Some (symbol_address em y)"
  using section_view_nth [of m em hs "st_shndx y"]
  by (auto simp: cldm_elf_symaddr_def symbol_address_def shndx_ok_def)

lemma find_in_set: "find P xs = Some x \<Longrightarrow> x \<in> set xs \<and> P x"
  by (induction xs) (auto split: if_splits)

text \<open>C15: looking up a symbol finds the first symbol of that name in the symbol tables of the file, in
  the order of the sections, and returns where it is loaded: its value for an absolute symbol, its
  value relative to the base address otherwise, and null if it is undefined or if there is none.\<close>

theorem cldm_elf_symlookup_correct:
  assumes "section_view m em hs" and "list_all2 (symtab_view m em) hs tabs"
    and "\<forall>(a, y, n) \<in> set (concat tabs). shndx_ok hs y" and "0 \<notin> set name"
  shows "cldm_elf_symlookup m em name =
    Some (case find (symbol_named name) (concat tabs) of
            None \<Rightarrow> 0 | Some (a, y, n) \<Rightarrow> symbol_address em y)"
proof (cases "find (symbol_named name) (concat tabs)")
  case None
  then show ?thesis by (simp add: cldm_elf_symlookup_def cldm_elf_sym_find [OF assms(1,2,4)])
next
  case (Some s)
  obtain a y n where s: "s = (a, y, n)" by (cases s)
  from find_in_set [OF Some] s have inset: "(a, y, n) \<in> set (concat tabs)" by simp
  from symbol_in_view [OF assms(2) this] have "read_sym m a = Some y" .
  moreover from inset assms(3) have "shndx_ok hs y" by blast
  then have "cldm_elf_symaddr m em y = Some (symbol_address em y)" by (rule cldm_elf_symaddr_view [OF assms(1)])
  ultimately show ?thesis
    by (simp add: cldm_elf_symlookup_def cldm_elf_sym_find [OF assms(1,2,4)] Some s)
qed

section \<open>Mapping\<close>

text \<open>The addresses of the segments, \<open>p_vaddr\<close> of the program headers.\<close>

definition phdr_view :: "mem \<Rightarrow> cldm_elfmap \<Rightarrow> u64 list \<Rightarrow> bool" where
  "phdr_view m em vs \<longleftrightarrow>
     (case (e_phnum m em, e_phoff m em, e_phentsize m em) of
        (Some n, Some off, Some sz) \<Rightarrow>
          unat n = length vs \<and> int (length vs) * uint sz < 2 ^ 31 \<and>
          (\<forall>i < length vs. read_phdr_vaddr m (m_addr em + off + of_int (int i * uint sz)) = Some (vs ! i))
      | _ \<Rightarrow> False)"

lemma min_xor:
  "(b :: u64) XOR ((v XOR b) AND (if v < b then - 1 else 0)) = min b v"
  by (auto simp: min_def xor.commute xor.left_commute)

lemma phdr_loop_min:
  assumes "e_phoff m em = Some off" and "e_phentsize m em = Some sz"
    and "\<forall>i \<in> set is. int i * uint sz < 2 ^ 31"
    and "list_all2 (\<lambda>i v. read_phdr_vaddr m (m_addr em + off + of_int (int i * uint sz)) = Some v) is vs"
  shows "phdr_loop m em is b = Some (fold (\<lambda>v b. min b v) vs b)"
  using assms(4,3)
proof (induction "is" vs arbitrary: b rule: list_all2_induct)
  case Nil
  then show ?case by simp
next
  case (Cons i "is" v vs)
  then show ?case by (auto simp: assms(1,2) min_xor simp del: of_int_mult of_int_of_nat_eq)
qed

lemma phdr_view_min:
  assumes "phdr_view m em vs"
  obtains n where "e_phnum m em = Some n"
    and "phdr_loop m em [0..<unat n] b = Some (fold (\<lambda>v b. min b v) vs b)"
proof -
  from assms obtain n off sz where n: "e_phnum m em = Some n" and o: "e_phoff m em = Some off"
    and sz: "e_phentsize m em = Some sz" and len: "unat n = length vs"
    and small: "int (length vs) * uint sz < 2 ^ 31"
    and all: "\<forall>i < length vs. read_phdr_vaddr m (m_addr em + off + of_int (int i * uint sz)) = Some (vs ! i)"
    by (auto simp: phdr_view_def split: option.splits)
  have "int i * uint sz < 2 ^ 31" if "i < length vs" for i
    using mult_right_mono [of "int i" "int (length vs)" "uint sz"] that small by simp
  then have "phdr_loop m em [0..<unat n] b = Some (fold (\<lambda>v b. min b v) vs b)"
    using all len by (intro phdr_loop_min [OF o sz]) (auto simp: list_all2_conv_all_nth)
  with n show thesis by (rule that)
qed

text \<open>The names of the string tables, and the last table of a name.\<close>

definition name_at :: "mem \<Rightarrow> cldm_elfmap \<Rightarrow> u64 \<times> Elf64_Shdr \<Rightarrow> u8 list \<Rightarrow> bool" where
  "name_at m em ah n \<longleftrightarrow>
     (sh_type (snd ah) = SHT_STRTAB \<longrightarrow> cstring_at m (map_shstrtab em + ucast (sh_name (snd ah))) n)"

definition strtab_named :: "u8 list \<Rightarrow> (u64 \<times> Elf64_Shdr) \<times> u8 list \<Rightarrow> bool" where
  "strtab_named name x \<longleftrightarrow> sh_type (snd (fst x)) = SHT_STRTAB \<and> snd x = name"

definition last_strtab ::
  "u8 list \<Rightarrow> (u64 \<times> Elf64_Shdr) list \<Rightarrow> u8 list list \<Rightarrow> (u64 \<times> Elf64_Shdr) option" where
  "last_strtab name hs names = map_option fst (find (strtab_named name) (rev (zip hs names)))"

definition orelse :: "'a option \<Rightarrow> 'a option \<Rightarrow> 'a option" where
  "orelse x y = (case x of Some a \<Rightarrow> Some a | None \<Rightarrow> y)"

lemma orelse_simps [simp]:
  "orelse None y = y" "orelse (Some a) y = Some a" "orelse x None = x" "orelse (orelse x y) z = orelse x (orelse y z)"
  by (auto simp: orelse_def split: option.splits)

lemma map_orelse: "map_option f (orelse x y) = orelse (map_option f x) (map_option f y)"
  by (auto simp: orelse_def split: option.splits)

lemma find_rev_Cons: "find P (rev (x # xs)) = orelse (find P (rev xs)) (if P x then Some x else None)"
  by (simp add: find_append orelse_def split: option.splits)

lemma last_strtab_Cons:
  "last_strtab name (h # hs) (n # ns) =
     orelse (last_strtab name hs ns) (if strtab_named name (h, n) then Some h else None)"
  unfolding last_strtab_def zip_Cons_Cons find_rev_Cons by (simp add: map_orelse)

lemma str_distinct: "str_strtab \<noteq> str_dynstr" "0 \<notin> set str_strtab" "0 \<notin> set str_dynstr"
  by (simp_all add: str_strtab_def str_dynstr_def)

lemma map_sections_loop_last:
  assumes "list_all2 (section_at m em) is hs" and "list_all2 (name_at m em) hs names"
  shows "map_sections_loop m em is s d =
    Some (orelse (map_option fst (last_strtab str_strtab hs names)) s,
          orelse (map_option fst (last_strtab str_dynstr hs names)) d)"
  using assms
proof (induction "is" hs arbitrary: names s d rule: list_all2_induct)
  case Nil
  then show ?case by (simp add: last_strtab_def)
next
  case (Cons i "is" ah hs)
  then obtain n ns where names: "names = n # ns" and n: "name_at m em ah n"
    and "list_all2 (name_at m em) hs ns" by (auto simp: list_all2_Cons1)
  then have IH: "map_sections_loop m em is s d =
    Some (orelse (map_option fst (last_strtab str_strtab hs ns)) s,
          orelse (map_option fst (last_strtab str_dynstr hs ns)) d)" for s d
    using Cons.IH by blast
  from Cons(1) have shdr: "cldm_elf_shdr m em (of_nat i) = Some (fst ah)" "read_shdr m (fst ah) = Some (snd ah)"
    by (auto simp: section_at_def)
  show ?case
  proof (cases "sh_type (snd ah) = SHT_STRTAB")
    case False
    then show ?thesis by (simp add: shdr IH names last_strtab_Cons strtab_named_def)
  next
    case True
    with n have c: "cstring_at m (map_shstrtab em + ucast (sh_name (snd ah))) n" by (simp add: name_at_def)
    from strcmp_to_cstring [OF c str_distinct(2)] strcmp_to_cstring [OF c str_distinct(3)] True str_distinct(1)
    show ?thesis
      by (auto simp: shdr IH names last_strtab_Cons strtab_named_def map_orelse)
  qed
qed

definition strtab_of :: "u64 \<Rightarrow> Elf64_Shdr \<Rightarrow> cldm_strtab" where
  "strtab_of a h = \<lparr>str_addr = a + sh_offset h, str_size = sh_size h - 1\<rparr>"

text \<open>What only depends on the address of the map, and the parts of it that a step reads.\<close>

lemma ehdr_cong:
  assumes "m_addr em = m_addr em'"
  shows "cldm_elf_shdr m em = cldm_elf_shdr m em'" "e_shnum m em = e_shnum m em'"
    "e_shstrndx m em = e_shstrndx m em'" "section_at m em = section_at m em'"
    "e_phnum m em = e_phnum m em'" "phdr_loop m em is b = phdr_loop m em' is b"
proof -
  note defs = e_shnum_def e_phnum_def e_phoff_def e_phentsize_def e_shstrndx_def e_shoff_def e_shentsize_def
  show sh: "cldm_elf_shdr m em = cldm_elf_shdr m em'" and "e_shnum m em = e_shnum m em'"
    "e_shstrndx m em = e_shstrndx m em'" "e_phnum m em = e_phnum m em'"
    by (auto simp: fun_eq_iff cldm_elf_shdr_def defs assms)
  then show "section_at m em = section_at m em'" by (simp add: fun_eq_iff section_at_def)
  show "phdr_loop m em is b = phdr_loop m em' is b"
    by (induction "is" arbitrary: b) (simp_all add: defs assms cong: if_cong)
qed

lemma phdr_view_cong: "m_addr em = m_addr em' \<Longrightarrow> phdr_view m em = phdr_view m em'"
  by (simp add: fun_eq_iff phdr_view_def e_phnum_def e_phoff_def e_phentsize_def split: option.splits)

lemma name_at_cong: "map_shstrtab em = map_shstrtab em' \<Longrightarrow> name_at m em = name_at m em'"
  by (simp add: fun_eq_iff name_at_def)

lemma section_view_in:
  "section_view m em hs \<Longrightarrow> ah \<in> set hs \<Longrightarrow> read_shdr m (fst ah) = Some (snd ah)"
  by (auto simp: section_view_def section_at_def in_set_conv_nth)

lemma last_strtab_in: "last_strtab name hs names = Some ah \<Longrightarrow> ah \<in> set hs"
  unfolding last_strtab_def by (auto dest!: find_in_set dest: set_zip_leftD)

lemma symtab_view_cong:
  "m_addr em = m_addr em' \<Longrightarrow> map_strtab em = map_strtab em' \<Longrightarrow> symtab_view m em = symtab_view m em'"
  by (simp add: fun_eq_iff symtab_view_def symbol_at_def)

text \<open>The whole file: its sections, the names of its string tables, its symbols and its segments.\<close>

definition file_view ::
  "mem \<Rightarrow> cldm_elfmap \<Rightarrow> (u64 \<times> Elf64_Shdr) list \<Rightarrow> u8 list list \<Rightarrow> symbol list list \<Rightarrow> u64 list \<Rightarrow> bool" where
  "file_view m em hs names tabs vs \<longleftrightarrow>
     section_view m em hs \<and> list_all2 (name_at m em) hs names \<and> list_all2 (symtab_view m em) hs tabs \<and>
     phdr_view m em vs"

lemma cldm_elf_map_sections_last:
  assumes "section_view m em hs" and "list_all2 (name_at m em) hs names"
    and st: "last_strtab str_strtab hs names = Some st" and dy: "last_strtab str_dynstr hs names = Some dy"
  shows "cldm_elf_map_sections m em =
    Some (2, em\<lparr>map_strtab := strtab_of (m_addr em) (snd st), map_dynstr := strtab_of (m_addr em) (snd dy)\<rparr>)"
proof (rule section_view_loop [OF assms(1)])
  fix n assume n: "e_shnum m em = Some n" and "list_all2 (section_at m em) [0..<unat n] hs"
  note loop = map_sections_loop_last [OF this(2) assms(2)]
  have "read_shdr m (fst st) = Some (snd st)" "read_shdr m (fst dy) = Some (snd dy)"
    using section_view_in [OF assms(1)] last_strtab_in [OF st] last_strtab_in [OF dy] by blast+
  then show ?thesis
    by (simp add: cldm_elf_map_sections_def n loop st dy cldm_map_strtab_def strtab_of_def)
qed

lemma cldm_elf_baseaddr_main:
  assumes "section_view m em hs" and "list_all2 (symtab_view m em) hs tabs" and "phdr_view m em vs"
    and main: "find (symbol_named str_main) (concat tabs) = Some (ma, y, n)"
    and "st_shndx y \<noteq> SHN_UNDEF" and "st_shndx y \<noteq> SHN_ABS" and "shndx_ok hs y"
  shows "cldm_elf_baseaddr m addr em = Some (addr - st_value y - fold (\<lambda>v b. min b v) vs (- 1))"
proof (rule phdr_view_min [OF assms(3)])
  fix k assume "e_phnum m em = Some k"
    and "phdr_loop m em [0..<unat k] (- 1) = Some (fold (\<lambda>v b. min b v) vs (- 1))"
  moreover have "read_sym m ma = Some y"
    using find_in_set [OF main] by (intro symbol_in_view [OF assms(2)]) auto
  moreover have "0 \<notin> set str_main" by (simp add: str_main_def)
  moreover have "unat (st_shndx y) < length hs" using assms(5-7) by (simp add: shndx_ok_def)
  ultimately show ?thesis
    using assms(5,6) section_view_nth [OF assms(1)] cldm_elf_sym_find [OF assms(1,2)]
    by (simp add: cldm_elf_baseaddr_def main)
qed

lemma cldm_elf_shstrtab_view:
  assumes "section_view m em hs" and "e_shstrndx m em = Some ndx" and "unat ndx < length hs"
  shows "cldm_elf_shstrtab m em =
    Some (if ndx = SHN_UNDEF then 0 else m_addr em + sh_offset (snd (hs ! unat ndx)))"
  using section_view_nth [OF assms(1,3)] assms(2) by (simp add: cldm_elf_shstrtab_def)

text \<open>C16: mapping an executable closes the file again and takes the last sections named
  \<^verbatim>\<open>.strtab\<close> and \<^verbatim>\<open>.dynstr\<close> for its string tables; the base address is the difference of the
  address of \<^verbatim>\<open>main\<close> and the value of its symbol, less the lowest segment address. A base address of 0
  is reported as a failure. A lookup of \<^verbatim>\<open>main\<close> in the map is off by that lowest address.\<close>

theorem cldm_map_elf_correct:
  assumes "os_open os path = fd" and "fd \<noteq> - 1" and "os_fstat os fd = Some sz" and "os_mmap os sz fd = Some a"
    and "em = \<lparr>map_size = sz, m_addr = a, map_shstrtab = a + sh_offset (snd (hs ! unat ndx)),
      map_strtab = strtab_of a (snd st), map_dynstr = strtab_of a (snd dy),
      baseaddr = addr - st_value y - fold (\<lambda>v b. min b v) vs (- 1)\<rparr>"
    and "file_view m em hs names tabs vs"
    and "e_shstrndx m em = Some ndx" and "ndx \<noteq> SHN_UNDEF" and "unat ndx < length hs" and "map_shstrtab em \<noteq> 0"
    and "last_strtab str_strtab hs names = Some st" and "last_strtab str_dynstr hs names = Some dy"
    and "find (symbol_named str_main) (concat tabs) = Some (ma, y, str_main)"
    and "st_shndx y \<noteq> SHN_UNDEF" and "st_shndx y \<noteq> SHN_ABS" and "shndx_ok hs y"
  shows "cldm_map_elf m os addr em0 path = Some (if baseaddr em = 0 then - 1 else 0, em, [Close fd]) \<and>
    cldm_elf_symlookup m em str_main = Some (addr - fold (\<lambda>v b. min b v) vs (- 1))"
proof
  let ?em0 = "zero_elfmap\<lparr>m_addr := a, map_size := sz\<rparr>"
  let ?em1 = "?em0\<lparr>map_shstrtab := map_shstrtab em\<rparr>"
  let ?em2 = "?em1\<lparr>map_strtab := map_strtab em, map_dynstr := map_dynstr em\<rparr>"
  have a: "m_addr em = a" and st: "map_strtab em = strtab_of a (snd st)" and dy: "map_dynstr em = strtab_of a (snd dy)"
    and p: "map_shstrtab em = a + sh_offset (snd (hs ! unat ndx))" by (simp_all add: assms(5))
  have view: "section_view m em' hs" if "m_addr em' = a" for em'
    using assms(6) ehdr_cong [of em' em m] that a by (simp add: file_view_def section_view_def)
  have "cldm_elf_shstrtab m ?em0 = Some (map_shstrtab em)"
    using cldm_elf_shstrtab_view [OF view [of ?em0], of ndx] ehdr_cong(3) [of ?em0 em m] assms(7-9) a p by simp
  moreover have "cldm_elf_map_sections m ?em1 = Some (2, ?em2)"
    using cldm_elf_map_sections_last [OF view [of ?em1] _ assms(11,12)] assms(6) name_at_cong [of ?em1 em m] st dy
    by (simp add: file_view_def)
  moreover have "cldm_elf_baseaddr m addr ?em2 = Some (baseaddr em)"
  proof -
    have "list_all2 (symtab_view m ?em2) hs tabs"
      using assms(6) symtab_view_cong [of ?em2 em m] a by (simp add: file_view_def)
    moreover have "phdr_view m ?em2 vs"
      using assms(6) a phdr_view_cong [of ?em2 em m] by (simp add: file_view_def)
    ultimately show ?thesis
      using cldm_elf_baseaddr_main [OF view [of ?em2], of tabs vs ma y str_main addr] assms(13-16)
      by (simp add: assms(5))
  qed
  moreover have "?em2\<lparr>baseaddr := baseaddr em\<rparr> = em" by (simp add: assms(5) zero_elfmap_def)
  ultimately show "cldm_map_elf m os addr em0 path = Some (if baseaddr em = 0 then - 1 else 0, em, [Close fd])"
    using assms(1-4,10) by (simp add: cldm_map_elf_def)
  have tabs: "list_all2 (symtab_view m em) hs tabs" using assms(6) by (simp add: file_view_def)
  have "read_sym m ma = Some y"
    using find_in_set [OF assms(13)] by (intro symbol_in_view [OF tabs]) auto
  moreover have "0 \<notin> set str_main" by (simp add: str_main_def)
  ultimately show "cldm_elf_symlookup m em str_main = Some (addr - fold (\<lambda>v b. min b v) vs (- 1))"
    using cldm_elf_sym_find [OF view [OF a] tabs] cldm_elf_symaddr_view [OF view [OF a] assms(16)] assms(13-15)
    by (simp add: cldm_elf_symlookup_def symbol_address_def assms(5))
qed

end
