(* ===== verification/Elf_Needed.thy ===== *)
theory Elf_Needed
  imports Elf_Correct
begin

text \<open>
  Correctness of \<^verbatim>\<open>cldm_elf_read_needed\<close>: the names of the needed libraries in the buffer.
\<close>

section \<open>The needed libraries\<close>

definition joined :: "u8 list list \<Rightarrow> u8 list" where
  "joined ns = concat (map (\<lambda>n. n @ [0]) ns)"

lemma joined_simps [simp]:
  "joined [] = []" "joined (n # ns) = n @ 0 # joined ns" "joined (ms @ ns) = joined ms @ joined ns"
  by (simp_all add: joined_def)

lemma joined_cstring:
  "bytes_at m a (joined (xs @ n # ys)) \<Longrightarrow> 0 \<notin> set n \<Longrightarrow> cstring_at m (a + of_nat (length (joined xs))) n"
  by (auto simp: cstring_at_def bytes_at_append)

definition dynamic_at :: "mem \<Rightarrow> cldm_elfmap \<Rightarrow> u64 \<Rightarrow> Elf64_Dyn \<times> u8 list \<Rightarrow> bool" where
  "dynamic_at m em a dn \<longleftrightarrow>
     read_dyn m a = Some (fst dn) \<and>
     (d_tag (fst dn) = DT_NEEDED \<longrightarrow> cstring_at m (str_addr (map_dynstr em) + d_val (fst dn)) (snd dn))"

definition dynamic_view :: "mem \<Rightarrow> cldm_elfmap \<Rightarrow> Elf64_Shdr \<Rightarrow> (Elf64_Dyn \<times> u8 list) list \<Rightarrow> bool" where
  "dynamic_view m em h ds \<longleftrightarrow>
     unat (sh_size h) = 16 * length ds \<and>
     (\<forall>i < length ds. dynamic_at m em (m_addr em + sh_offset h + of_nat (16 * i)) (ds ! i))"

definition needed :: "(Elf64_Dyn \<times> u8 list) list \<Rightarrow> u8 list list" where
  "needed ds = map snd (filter (\<lambda>dn. d_tag (fst dn) = DT_NEEDED) ds)"

text \<open>The addresses a pass over the dynamic section reads.\<close>

definition dynamic_footprint :: "cldm_elfmap \<Rightarrow> Elf64_Shdr \<Rightarrow> (Elf64_Dyn \<times> u8 list) list \<Rightarrow> u64 set" where
  "dynamic_footprint em h ds =
     (\<Union>i < length ds. set (block (m_addr em + sh_offset h + of_nat (16 * i)) 16)) \<union>
     (\<Union>dn \<in> set ds. if d_tag (fst dn) = DT_NEEDED
        then set (block (str_addr (map_dynstr em) + d_val (fst dn)) (Suc (length (snd dn)))) else {})"

lemma mem_rdn_cong: "(\<And>x. x \<in> set (block a n) \<Longrightarrow> m x = m' x) \<Longrightarrow> mem_rdn m a n = mem_rdn m' a n"
  by (induction n arbitrary: a) auto

lemma dynamic_at_frame:
  assumes "dynamic_at m em (m_addr em + sh_offset h + of_nat (16 * i)) (ds ! i)" and "i < length ds"
    and "\<And>x. x \<in> dynamic_footprint em h ds \<Longrightarrow> m' x = m x"
  shows "dynamic_at m' em (m_addr em + sh_offset h + of_nat (16 * i)) (ds ! i)"
proof -
  let ?a = "m_addr em + sh_offset h + of_nat (16 * i)" and ?d = "fst (ds ! i)" and ?n = "snd (ds ! i)"
  have "mem_rdn m' ?a 16 = mem_rdn m ?a 16"
    using assms(2) by (intro mem_rdn_cong assms(3)) (auto simp: dynamic_footprint_def simp del: block_numeral)
  then have "read_dyn m' ?a = read_dyn m ?a" by (simp add: read_dyn_def del: mem_rdn_numeral)
  moreover have "cstring_at m' (str_addr (map_dynstr em) + d_val ?d) ?n"
    if "d_tag ?d = DT_NEEDED" "cstring_at m (str_addr (map_dynstr em) + d_val ?d) ?n"
  proof -
    have "bytes_at m' (str_addr (map_dynstr em) + d_val ?d) (?n @ [0]) =
        bytes_at m (str_addr (map_dynstr em) + d_val ?d) (?n @ [0])"
      using that(1) assms(2) by (intro bytes_at_cong assms(3)) (force simp: dynamic_footprint_def)
    with that(2) show ?thesis by (simp add: cstring_at_def)
  qed
  ultimately show ?thesis using assms(1) by (auto simp: dynamic_at_def)
qed

lemma block_sub: "k + n \<le> m \<Longrightarrow> set (block (a + of_nat k) n) \<subseteq> set (block a m)"
proof -
  assume "k + n \<le> m"
  then have "block a m = block a k @ block (a + of_nat k) n @ block (a + of_nat (k + n)) (m - (k + n))"
    using block_append [of a "k + n" "m - (k + n)"] block_append [of a k n] by simp
  then show ?thesis by (metis Un_subset_iff set_append subset_refl sup_ge1 sup_ge2 order_trans)
qed

lemma mapped_sub: "mapped m a n \<Longrightarrow> k + l \<le> n \<Longrightarrow> mapped m (a + of_nat k) l"
  using block_sub [of k l n a] by (auto simp: mapped_def)

lemma needed_loop_step:
  assumes d: "read_dyn m (m_addr em + sh_offset h + i) = Some d" and "d_tag d = DT_NEEDED"
    and s: "cstring_at m (str_addr (map_dynstr em) + d_val d) n" and lt: "i < sh_size h"
    and map: "mapped m buffer (unat bufsize)" and fit: "off + length n + 1 < unat bufsize"
    and dis: "set (block buffer (unat bufsize)) \<inter> set (block (str_addr (map_dynstr em) + d_val d) (Suc (length n))) = {}"
  shows "needed_loop m em buffer bufsize h i (int off) =
    needed_loop (mem_put m (buffer + of_nat off) (n @ [0])) em buffer bufsize h (i + 16) (int off + int (length n) + 1)"
proof -
  let ?src = "str_addr (map_dynstr em) + d_val d"
  have off: "unat (of_nat off :: u64) = off" using fit unat_lt2p [of bufsize] by (intro unat_of_nat_small) simp
  then have sz: "unat (bufsize - of_nat off) = unat bufsize - off"
    using fit by (subst unat_sub_nowrap) simp_all
  then have ne: "bufsize - of_nat off \<noteq> 0" using fit by (metis add_diff_cancel_left' add_lessD1 diff_is_0_eq not_le unat_0 zero_less_diff less_numeral_extra(3) add_lessD1)
  have sub: "set (block (buffer + of_nat off) (unat bufsize - off)) \<subseteq> set (block buffer (unat bufsize))"
    using fit by (intro block_sub) simp
  have "cldm_strscpy m (buffer + of_nat off) ?src (bufsize - of_nat off) =
      Some (int (length n), mem_put m (buffer + of_nat off) (n @ [0]))"
  proof -
    have "mapped m (buffer + of_nat off) (unat (bufsize - of_nat off))"
      unfolding sz using fit by (intro mapped_sub [OF map]) simp
    moreover have "set (block (buffer + of_nat off) (unat (bufsize - of_nat off))) \<inter> set (block ?src (Suc (length n))) = {}"
      unfolding sz using sub dis by blast
    ultimately have "cldm_strscpy m (buffer + of_nat off) ?src (bufsize - of_nat off) =
        Some (if length n < unat (bufsize - of_nat off) then int (length n) else - E2BIG,
              mem_put m (buffer + of_nat off) (take (unat (bufsize - of_nat off) - 1) n @ [0]))"
      using ne by (intro cldm_strscpy_put [OF s])
    moreover have "length n < unat bufsize - off" "length n \<le> unat bufsize - off - 1" using fit by simp_all
    ultimately show ?thesis by (simp add: sz)
  qed
  moreover have "\<not> bufsize \<le> of_nat off + of_nat (length n) + 1"
  proof -
    have "unat (of_nat (off + length n + 1) :: u64) = off + length n + 1"
      using fit unat_lt2p [of bufsize] by (intro unat_of_nat_small) simp
    then have "\<not> bufsize \<le> of_nat (off + length n + 1)" using fit by (simp add: word_le_nat_alt)
    then show ?thesis by (simp only: of_nat_add of_nat_1 not_False_eq_True)
  qed
  ultimately show ?thesis
    using assms(2) lt by (subst needed_loop.simps) (simp add: d)
qed

lemma needed_loop_skip:
  "i < sh_size h \<Longrightarrow> read_dyn m (m_addr em + sh_offset h + i) = Some d \<Longrightarrow> d_tag d \<noteq> DT_NEEDED \<Longrightarrow>
   needed_loop m em buffer bufsize h i off = needed_loop m em buffer bufsize h (i + 16) off"
  by (subst needed_loop.simps) simp

lemma needed_Cons:
  "needed (dn # ds) = (if d_tag (fst dn) = DT_NEEDED then [snd dn] else []) @ needed ds"
  by (simp add: needed_def)

lemma needed_loop_joined:
  assumes view: "unat (sh_size h) = 16 * length ds"
    "\<And>i. i < length ds \<Longrightarrow> dynamic_at m0 em (m_addr em + sh_offset h + of_nat (16 * i)) (ds ! i)"
    and dis: "set (block buffer (unat bufsize)) \<inter> dynamic_footprint em h ds = {}"
    and "k \<le> length ds" and "\<And>x. x \<notin> set (block buffer (unat bufsize)) \<Longrightarrow> m x = m0 x"
    and "mapped m buffer (unat bufsize)" and "bytes_at m buffer (joined xs)"
    and "length (joined (xs @ needed (drop k ds))) < unat bufsize"
  shows "\<exists>m'. needed_loop m em buffer bufsize h (of_nat (16 * k)) (int (length (joined xs))) =
      Some (int (length (joined (xs @ needed (drop k ds)))) - 1, m') \<and>
    bytes_at m' buffer (joined (xs @ needed (drop k ds))) \<and>
    (\<forall>x. x \<notin> set (block buffer (unat bufsize)) \<longrightarrow> m' x = m0 x)"
  using assms(4-)
proof (induction "length ds - k" arbitrary: k m xs)
  case 0
  then have k: "k = length ds" by simp
  with view(1) have "of_nat (16 * k) = sh_size h" by (metis word_eq_of_nat)
  with 0 k show ?case by (subst needed_loop.simps) (simp add: needed_def)
next
  case (Suc j)
  let ?i = "of_nat (16 * k) :: u64"
  let ?m = "\<lambda>d n. mem_put m (buffer + of_nat (length (joined xs))) (n @ [0])"
  from Suc.hyps(2) have k: "k < length ds" by simp
  obtain d n where dn: "ds ! k = (d, n)" by (cases "ds ! k")
  have drop: "drop k ds = (d, n) # drop (Suc k) ds" using k dn by (metis Cons_nth_drop_Suc)
  have "unat ?i = 16 * k" using k view(1) unat_lt2p [of "sh_size h"] by (intro unat_of_nat_small) simp
  then have lt: "?i < sh_size h" using k view(1) by (simp only: word_less_nat_alt)
  have next_i: "?i + 16 = of_nat (16 * Suc k)" by simp
  have "dynamic_at m em (m_addr em + sh_offset h + ?i) (ds ! k)"
    using k Suc.prems(2) dis by (intro dynamic_at_frame [OF view(2)]) auto
  then have d: "read_dyn m (m_addr em + sh_offset h + ?i) = Some d"
    and s: "d_tag d = DT_NEEDED \<Longrightarrow> cstring_at m (str_addr (map_dynstr em) + d_val d) n"
    by (auto simp: dynamic_at_def dn)
  show ?case
  proof (cases "d_tag d = DT_NEEDED")
    case False
    then have "needed_loop m em buffer bufsize h ?i (int (length (joined xs))) =
        needed_loop m em buffer bufsize h (of_nat (16 * Suc k)) (int (length (joined xs)))"
      unfolding next_i [symmetric] by (rule needed_loop_skip [OF lt d])
    moreover have "needed (drop k ds) = needed (drop (Suc k) ds)" by (simp add: drop needed_Cons False)
    ultimately show ?thesis
      using Suc.hyps(1) [of "Suc k" m xs] Suc.hyps(2) Suc.prems k by simp
  next
    case True
    let ?off = "length (joined xs)"
    let ?m' = "mem_put m (buffer + of_nat ?off) (n @ [0])"
    have nd: "needed (drop k ds) = n # needed (drop (Suc k) ds)" by (simp add: drop needed_Cons True)
    with Suc.prems(5) have fit: "?off + length n + 1 < unat bufsize" by simp
    have foot: "set (block (str_addr (map_dynstr em) + d_val d) (Suc (length n))) \<subseteq> dynamic_footprint em h ds"
      using True k dn nth_mem [OF k] by (force simp: dynamic_footprint_def)
    with dis have "set (block buffer (unat bufsize)) \<inter>
        set (block (str_addr (map_dynstr em) + d_val d) (Suc (length n))) = {}" by blast
    moreover have "int (length (joined (xs @ [n]))) = int ?off + int (length n) + 1" by simp
    ultimately have step: "needed_loop m em buffer bufsize h ?i (int ?off) =
        needed_loop ?m' em buffer bufsize h (of_nat (16 * Suc k)) (int (length (joined (xs @ [n]))))"
      unfolding next_i [symmetric] by (simp only: needed_loop_step [OF d True s [OF True] lt Suc.prems(3) fit])
    have sub: "set (block (buffer + of_nat ?off) (length (n @ [0]))) \<subseteq> set (block buffer (unat bufsize))"
      using fit by (intro block_sub) simp
    have frame: "?m' x = m0 x" if "x \<notin> set (block buffer (unat bufsize))" for x
      using that sub Suc.prems(2) by (subst mem_put_outside) auto
    have "bytes_at ?m' buffer (joined (xs @ [n]))"
    proof -
      have len: "?off + length (n @ [0]) \<le> 2 ^ 64" using fit unat_lt2p [of bufsize] by simp
      then have "distinct (block buffer ?off @ block (buffer + of_nat ?off) (length (n @ [0])))"
        by (subst block_append [symmetric]) (rule distinct_block)
      then have "bytes_at ?m' buffer (joined xs) = bytes_at m buffer (joined xs)"
        by (intro bytes_at_cong mem_put_outside) auto
      moreover have "bytes_at ?m' (buffer + of_nat ?off) (n @ [0])" using len by (intro bytes_at_mem_put) simp
      ultimately show ?thesis using Suc.prems(4) by (simp add: bytes_at_append)
    qed
    with step show ?thesis
      using Suc.hyps(1) [of "Suc k" ?m' "xs @ [n]"] Suc.hyps(2) Suc.prems(5) k frame
        mapped_mem_put [OF Suc.prems(3)] nd by simp
  qed
qed

text \<open>The first section of a type and a name.\<close>

definition named_at ::
  "mem \<Rightarrow> cldm_elfmap \<Rightarrow> u32 \<Rightarrow> u64 \<times> Elf64_Shdr \<Rightarrow> u8 list \<Rightarrow> bool" where
  "named_at m em t ah n \<longleftrightarrow>
     (sh_type (snd ah) = t \<longrightarrow> cstring_at m (map_shstrtab em + ucast (sh_name (snd ah))) n)"

definition section_named :: "u32 \<Rightarrow> u8 list \<Rightarrow> (u64 \<times> Elf64_Shdr) \<times> u8 list \<Rightarrow> bool" where
  "section_named t name x \<longleftrightarrow> sh_type (snd (fst x)) = t \<and> snd x = name"

lemma section_loop_find:
  assumes "list_all2 (section_at m em) is hs" and "list_all2 (named_at m em t) hs names" and "0 \<notin> set name"
  shows "section_loop m em is t name =
    Some (map_option (\<lambda>x. fst (fst x)) (find (section_named t name) (zip hs names)))"
  using assms(1,2)
proof (induction "is" hs arbitrary: names rule: list_all2_induct)
  case Nil
  then show ?case by simp
next
  case (Cons i "is" ah hs)
  then obtain n ns where names: "names = n # ns" and n: "named_at m em t ah n"
    and "list_all2 (named_at m em t) hs ns" by (auto simp: list_all2_Cons1)
  then have IH: "section_loop m em is t name =
      Some (map_option (\<lambda>x. fst (fst x)) (find (section_named t name) (zip hs ns)))"
    using Cons.IH by blast
  show ?case
  proof (cases "sh_type (snd ah) = t")
    case False
    then have "\<not> section_named t name (ah, n)" by (simp add: section_named_def)
    with Cons(1) False show ?thesis by (simp add: section_at_def IH names)
  next
    case True
    with n have "cstring_at m (map_shstrtab em + ucast (sh_name (snd ah))) n" by (simp add: named_at_def)
    then obtain r where "strcmp_to m name (map_shstrtab em + ucast (sh_name (snd ah))) = Some r"
      and "r = 0 \<longleftrightarrow> name = n" using strcmp_to_cstring assms(3) by blast
    moreover have "section_named t name (ah, n) \<longleftrightarrow> name = n" using True by (auto simp: section_named_def)
    ultimately show ?thesis using Cons(1) True by (auto simp: section_at_def IH names)
  qed
qed

lemma cldm_elf_section_find:
  assumes "section_view m em hs" and "list_all2 (named_at m em t) hs names" and "0 \<notin> set name"
  shows "cldm_elf_section m em t name =
    Some (map_option (\<lambda>x. fst (fst x)) (find (section_named t name) (zip hs names)))"
  by (rule section_view_loop [OF assms(1)]) (simp add: cldm_elf_section_def section_loop_find [OF _ assms(2,3)])

lemma elf_read_needed_find:
  assumes "section_view m em hs" and "list_all2 (named_at m em SHT_DYNAMIC) hs names"
    and "\<forall>x \<in> set hs. sh_type (snd x) = SHT_DYNAMIC \<longrightarrow> dynamic_view m em (snd x) ds \<and>
      set (block buffer (unat bufsize)) \<inter> dynamic_footprint em (snd x) ds = {}"
    and "mapped m buffer (unat bufsize)" and "length (joined (needed ds)) < unat bufsize"
  shows "case find (section_named SHT_DYNAMIC str_dynamic) (zip hs names) of
      None \<Rightarrow> cldm_elf_read_needed m em buffer bufsize = Some (- 1, m)
    | Some _ \<Rightarrow> \<exists>m'. cldm_elf_read_needed m em buffer bufsize = Some (int (length (joined (needed ds))) - 1, m') \<and>
        bytes_at m' buffer (joined (needed ds)) \<and> (\<forall>x. x \<notin> set (block buffer (unat bufsize)) \<longrightarrow> m' x = m x)"
proof (cases "find (section_named SHT_DYNAMIC str_dynamic) (zip hs names)")
  case None
  have "0 \<notin> set str_dynamic" by (simp add: str_dynamic_def)
  from cldm_elf_section_find [OF assms(1,2) this] None show ?thesis
    by (simp add: cldm_elf_read_needed_def cldm_elf_dynamic_def)
next
  case (Some x)
  obtain a h n where x: "x = ((a, h), n)" by (metis surj_pair)
  have "0 \<notin> set str_dynamic" by (simp add: str_dynamic_def)
  from cldm_elf_section_find [OF assms(1,2) this] Some x
  have dyn: "cldm_elf_dynamic m em = Some (Some a)" by (simp add: cldm_elf_dynamic_def)
  from find_in_set [OF Some] x have inset: "(a, h) \<in> set hs" "sh_type h = SHT_DYNAMIC"
    by (auto simp: section_named_def dest: set_zip_leftD)
  then have h: "read_shdr m a = Some h" using section_view_in [OF assms(1) inset(1)] by simp
  from bspec [OF assms(3) inset(1)] inset(2) have view: "dynamic_view m em h ds"
    and dis: "set (block buffer (unat bufsize)) \<inter> dynamic_footprint em h ds = {}" by simp_all
  have "\<exists>m'. needed_loop m em buffer bufsize h (of_nat (16 * 0)) (int (length (joined []))) =
      Some (int (length (joined ([] @ needed (drop 0 ds)))) - 1, m') \<and>
    bytes_at m' buffer (joined ([] @ needed (drop 0 ds))) \<and>
    (\<forall>x. x \<notin> set (block buffer (unat bufsize)) \<longrightarrow> m' x = m x)"
    using view assms(4,5) by (intro needed_loop_joined [OF _ _ dis]) (simp_all add: dynamic_view_def)
  then show ?thesis by (simp add: Some cldm_elf_read_needed_def dyn h)
qed

text \<open>C24: reading the needed libraries returns -1 if there is no \<^verbatim>\<open>.dynamic\<close> section. Otherwise, when
  the buffer has room for more than the names of the libraries with their terminators, they are
  written to it one after the other, nothing outside it changes, and the result is the length of
  what was written without the last terminator; that is -1 again if no library is needed.\<close>

theorem cldm_elf_read_needed_correct:
  assumes "section_view m em hs" and "list_all2 (named_at m em SHT_DYNAMIC) hs names"
    and "\<forall>x \<in> set hs. sh_type (snd x) = SHT_DYNAMIC \<longrightarrow> dynamic_view m em (snd x) ds \<and>
      set (block buffer (unat bufsize)) \<inter> dynamic_footprint em (snd x) ds = {}"
    and "mapped m buffer (unat bufsize)" and "length (joined (needed ds)) < unat bufsize"
  shows "case find (section_named SHT_DYNAMIC str_dynamic) (zip hs names) of
      None \<Rightarrow> cldm_elf_read_needed m em buffer bufsize = Some (- 1, m)
    | Some _ \<Rightarrow> \<exists>m'. cldm_elf_read_needed m em buffer bufsize = Some (int (length (joined (needed ds))) - 1, m') \<and>
        bytes_at m' buffer (joined (needed ds)) \<and> (\<forall>x. x \<notin> set (block buffer (unat bufsize)) \<longrightarrow> m' x = m x)"
  by (rule elf_read_needed_find [OF assms])

end
