(* ===== verification/Dl_Correct.thy ===== *)
theory Dl_Correct
  imports Dl Hash_Correct Elf_Needed
begin

text \<open>
  Correctness of the symbol cache of \<^verbatim>\<open>cldm/cldm_dl.c\<close>: a cache that has not grown refines a list of named
  entries, what a sequence of lookups returns, and what is lost when the cache grows. The comparison of the portable
  build tells apart only names that differ in their length or first character (\<open>told_apart\<close>).
\<close>

section \<open>Blocks and members\<close>

declare block_numeral [simp del]

lemma in_block: "unat a + n \<le> 2 ^ 64 \<Longrightarrow> x \<in> set (block a n) \<longleftrightarrow> unat a \<le> unat x \<and> unat x < unat a + n"
proof
  assume n: "unat a + n \<le> 2 ^ 64" and "x \<in> set (block a n)"
  then obtain i where i: "x = a + of_nat i" "i < n" by (auto simp: block_eq_map)
  then have "unat x = unat a + i" using n by (simp add: unat_add_nowrap unat_of_nat)
  then show "unat a \<le> unat x \<and> unat x < unat a + n" using i by simp
next
  assume n: "unat a + n \<le> 2 ^ 64" and x: "unat a \<le> unat x \<and> unat x < unat a + n"
  define i where "i = unat x - unat a"
  have "x = a + of_nat i" "i < n" using x by (auto simp: i_def of_nat_diff)
  then show "x \<in> set (block a n)" by (auto simp: block_eq_map)
qed

lemma option_eqI: "(\<And>z. x = Some z \<longleftrightarrow> y = Some z) \<Longrightarrow> x = y"
  by (cases x; cases y) auto

lemma mapped_subset: "mapped m a n \<Longrightarrow> set (block b k) \<subseteq> set (block a n) \<Longrightarrow> mapped m b k"
  by (auto simp: mapped_def)

lemma mem_wrn_put: "mapped m a (length bs) \<Longrightarrow> mem_wrn m a bs = Some (mem_put m a bs)"
  by (induction bs arbitrary: m a) (auto simp: mapped_Suc mem_wr_mapped)

lemma length_le_bytes [simp]: "length (le_bytes n w) = n"
  by (induction n arbitrary: w) auto

lemma le_le_bytes: "(le (le_bytes n w) :: 'a::len word) = take_bit (8 * n) w"
proof (induction n arbitrary: w)
  case (Suc n)
  have "(ucast (ucast w :: u8) :: 'a word) OR push_bit 8 (take_bit (8 * n) (drop_bit 8 w)) = take_bit (8 * Suc n) w"
    by (rule bit_eqI) (auto simp: bit_simps)
  then show ?case using Suc by simp
qed simp

lemma rd64_bytes: "bytes_at m a (le_bytes 8 w) \<Longrightarrow> rd64 m a = Some w"
  using mem_rdn_bytes_at [of m a 8 "le_bytes 8 w"] le_le_bytes [of 8 w] by (simp add: rd64_def take_bit_word_eq_self)

lemma rd32_bytes: "bytes_at m a (le_bytes 4 w) \<Longrightarrow> rd32 m a = Some w"
  using mem_rdn_bytes_at [of m a 4 "le_bytes 4 w"] le_le_bytes [of 4 w] by (simp add: rd32_def take_bit_word_eq_self)

lemma c_string_cstring: "cstring_at m a s \<Longrightarrow> c_string m a = Some s"
  by (simp add: c_string_def c_strlen_cstring mem_rdn_bytes_at cstring_at_def bytes_at_append)

lemma mkentry_cstring: "cstring_at m a s \<Longrightarrow> cldm_ht_mkentry_str m a = Some \<lparr>ent_key = a, ent_size = of_nat (length s)\<rparr>"
  by (simp add: cldm_ht_mkentry_str_def c_strlen_cstring)

section \<open>The entries of a table\<close>

definition live_entries :: "cldm_ht \<Rightarrow> cldm_ht_entry set" where
  "live_entries ht = {e. \<exists>es. cldm_ht_storage ht = Some es \<and> e \<in> set es \<and> \<not> cldm_ht_slot_vacant e}"

lemma insert_step_live:
  assumes "insert_step cmp m ht e = Some (r, ht')"
  shows "live_entries ht' \<subseteq> insert e (live_entries ht)"
  using assms
  by (auto simp: insert_step_def live_entries_def bind_eq_Some_conv storage_set split: if_splits
      dest: set_update_subset_insert [THEN subsetD])

lemma rehash_steps_live:
  "rehash_steps cmp m es ht = Some ht' \<Longrightarrow>
   live_entries ht' \<subseteq> {e \<in> set es. \<not> cldm_ht_slot_vacant e} \<union> live_entries ht"
proof (induction es arbitrary: ht)
  case (Cons e es)
  show ?case
  proof (cases "status e = 0")
    case False
    with Cons.prems obtain r ht1 where s: "insert_step cmp m ht e = Some (r, ht1)" "rehash_steps cmp m es ht1 = Some ht'"
      by (auto simp: bind_eq_Some_conv)
    then show ?thesis using Cons.IH [OF s(2)] insert_step_live [OF s(1)] by (auto simp: live_entries_def)
  next
    case True
    then show ?thesis using Cons by auto
  qed
qed simp


lemma ht_rehash_steps: "ht_rehash (\<lambda>ht e. insert_step cmp m ht e) es ht = rehash_steps cmp m es ht"
  by (induction es arbitrary: ht) (simp_all add: case_prod_beta')

lemma expand_live:
  assumes "cldm_ht_expand (ht_insert (Suc d) cmp alloc m) alloc ht = Some (ok, ht')" and "ht_view m ht sl"
  shows "live_entries ht' \<subseteq> live_entries ht"
proof -
  obtain es where es: "cldm_ht_storage ht = Some es" using assms(2) by (auto simp: ht_view_def)
  obtain c where c: "cldm_ht_sizeup (ht_capacity ht) = Some c"
    using assms(1) by (auto simp: cldm_ht_expand_def bind_eq_Some_conv)
  show ?thesis
  proof (cases "c_alloc alloc (unat c * 16)")
    case True
    then have ht': "rehash_steps cmp m (take (unat (ht_capacity ht)) es)
        \<lparr>t_un = HtDyn (replicate (unat c) zero_entry), ht_size = 0, ht_capacity = c\<rparr> = Some ht'"
      using assms(1) unfolding expand_steps
      by (auto simp: cldm_ht_expand_def c expand_old [OF assms(2)] es ht_rehash_steps bind_eq_Some_conv split: if_splits)
    have "live_entries \<lparr>t_un = HtDyn (replicate (unat c) zero_entry), ht_size = 0, ht_capacity = c\<rparr> = {}"
      by (auto simp: live_entries_def cldm_ht_storage_def cldm_ht_slot_vacant_def status_def zero_entry_def)
    then show ?thesis using rehash_steps_live [OF ht'] es by (auto simp: live_entries_def dest: in_set_takeD)
  next
    case False
    then show ?thesis using assms(1) by (auto simp: cldm_ht_expand_def c)
  qed
qed

lemma ht_insert_live:
  assumes "cldm_ht_insert cmp alloc m ht e = Some (r, ht')" and "ht_view m ht sl"
  shows "live_entries ht' \<subseteq> insert e (live_entries ht)"
proof -
  obtain ok ht1 where x: "(if cldm_ht_should_expand ht then cldm_ht_expand (ht_insert (Suc 0) cmp alloc m) alloc ht
        else Some (True, ht)) = Some (ok, ht1)"
      "(if \<not> ok then Some (None, ht1) else insert_step cmp m ht1 e) = Some (r, ht')"
    using assms(1) unfolding cldm_ht_insert_def numeral_2_eq_2 ht_insert_unfold by (auto simp: bind_eq_Some_conv)
  have "live_entries ht1 \<subseteq> live_entries ht"
    using x(1) expand_live [OF _ assms(2)] by (auto simp del: ht_insert.simps split: if_splits)
  moreover have "live_entries ht' \<subseteq> insert e (live_entries ht1)"
    using x(2) insert_step_live by (auto split: if_splits)
  ultimately show ?thesis by blast
qed

text \<open>A table does not depend on the memory apart from the bytes of its keys.\<close>

lemma ht_built_cong:
  assumes "ht_built m ht ks"
    and "\<And>e x. e \<in> live_entries ht \<Longrightarrow> x \<in> set (block (ent_key e) (unat (ent_size e))) \<Longrightarrow> m' x = m x"
  shows "ht_built m' ht ks"
proof -
  from assms(1) obtain sl where sl: "ht_view m ht sl" "slots_ok sl" "held sl = ks" "unat (ht_size ht) = card ks"
      "2 * card ks \<le> length sl" "Removed \<notin> set sl" "unat (ht_capacity ht) \<le> 28 * card ks + 31"
    by (auto simp: ht_built_def ht_clean_def)
  then obtain es where es: "cldm_ht_storage ht = Some es" "length es = unat (ht_capacity ht)" "31 \<le> length es"
      "\<forall>e \<in> set es. readable m e" "sl = map (slot_of m) es" by (auto simp: ht_view_def)
  have rd: "mem_rdn m' (ent_key e) (unat (ent_size e)) = mem_rdn m (ent_key e) (unat (ent_size e))"
    if "e \<in> set es" "\<not> cldm_ht_slot_vacant e" for e
  proof -
    have "e \<in> live_entries ht" using that es(1) by (auto simp: live_entries_def)
    then have "bytes_at m' (ent_key e) bs = bytes_at m (ent_key e) bs" if "length bs = unat (ent_size e)" for bs
      using assms(2) that by (intro bytes_at_cong) auto
    then have "mem_rdn m' (ent_key e) (unat (ent_size e)) = Some bs \<longleftrightarrow>
        mem_rdn m (ent_key e) (unat (ent_size e)) = Some bs" for bs by (auto simp: mem_rdn_bytes_at)
    then show ?thesis by (rule option_eqI)
  qed
  then have "readable m' e \<and> slot_of m' e = slot_of m e" if "e \<in> set es" for e
  proof (cases "cldm_ht_slot_vacant e")
    case False
    then show ?thesis using bspec [OF es(4) that] rd [OF that False] by (simp add: readable_def slot_of_def)
  qed (simp add: readable_def slot_of_def)
  then have "ht_view m' ht sl" using es by (auto simp: ht_view_def)
  with sl show ?thesis by (auto simp: ht_built_def ht_clean_def)
qed


section \<open>The cache as a list\<close>

record dlentry =
  de_name :: "u8 list"
  de_addr :: u64
  de_loadidx :: u32
  de_resolved :: bool

text \<open>
  What a lookup of a name does to the list: a resolved name keeps its address; another one is searched
  for behind the library that had it last; a new one is searched for everywhere and added.
\<close>

fun dl_next :: "(u64 \<Rightarrow> u8 list \<Rightarrow> u64 option) \<Rightarrow> u64 list \<Rightarrow> u8 list \<Rightarrow> dlentry list \<Rightarrow> u64 \<times> dlentry list" where
  "dl_next lookup hs name [] =
     (let (a, i) = dl_probe lookup name hs 0
      in (a, [\<lparr>de_name = name, de_addr = a, de_loadidx = i, de_resolved = False\<rparr>]))"
| "dl_next lookup hs name (e # es) =
     (if de_name e = name
      then if de_resolved e then (de_addr e, e # es)
           else let i = de_loadidx e + 1; (a, i) = dl_probe lookup name (drop (unat i) hs) i
                in (a, e\<lparr>de_addr := a, de_loadidx := i\<rparr> # es)
      else let (a, es) = dl_next lookup hs name es in (a, e # es))"

definition entry_at :: "mem \<Rightarrow> u64 \<Rightarrow> dlentry \<Rightarrow> bool" where
  "entry_at m a e \<longleftrightarrow> cstring_at m a (de_name e) \<and> length (de_name e) < 128 \<and>
     bytes_at m (a + 128) (le_bytes 8 (de_addr e)) \<and> bytes_at m (a + 136) (le_bytes 4 (de_loadidx e)) \<and>
     m (a + 140) = Some (if de_resolved e then 1 else 0)"

definition entry_addr :: "u64 \<Rightarrow> nat \<Rightarrow> u64" where
  "entry_addr E i = E + 144 * of_nat i"

definition cache_view :: "mem \<Rightarrow> cldm_dllookup \<Rightarrow> dlentry list \<Rightarrow> bool" where
  "cache_view m lk es \<longleftrightarrow>
     dl_capacity lk = 32 \<and> 1 < unat (dl_entries lk) \<and> unat (dl_entries lk) + 4608 \<le> 2 ^ 64 \<and>
     mapped m (dl_entries lk) 4608 \<and> length es \<le> 32 \<and> distinct (map de_name es) \<and>
     (\<forall>i<length es. entry_at m (entry_addr (dl_entries lk) i) (es ! i)) \<and>
     ht_built m (dl_ht lk) (de_name ` set es) \<and>
     (\<forall>x\<in>live_entries (dl_ht lk). \<exists>i<length es. ent_key x = entry_addr (dl_entries lk) i \<and>
        unat (ent_size x) = length (de_name (es ! i)))"

lemma unat_entry_addr:
  assumes "unat E + 4608 \<le> 2 ^ 64" and "i < 32"
  shows "unat (entry_addr E i) = unat E + 144 * i"
proof -
  have "unat (of_nat (144 * i) :: u64) = 144 * i" using assms(2) by (subst unat_of_nat) simp
  then have "unat (E + of_nat (144 * i)) = unat E + 144 * i" using assms by (subst unat_add_nowrap) simp_all
  then show ?thesis by (simp add: entry_addr_def)
qed

lemma in_entry:
  assumes "unat E + 4608 \<le> 2 ^ 64" and "i < 32" and "k + n \<le> 144" and "0 < n"
  shows "x \<in> set (block (entry_addr E i + of_nat k) n) \<longleftrightarrow>
    unat E + 144 * i + k \<le> unat x \<and> unat x < unat E + 144 * i + k + n"
proof -
  have "unat (of_nat k :: u64) = k" using assms(3) by (simp add: unat_of_nat)
  then have "unat (entry_addr E i + of_nat k) = unat E + 144 * i + k"
    using assms unat_entry_addr [OF assms(1,2)] by (subst unat_add_nowrap) simp_all
  then show ?thesis using assms by (simp add: in_block)
qed

lemma entry_at_cong:
  assumes "\<And>x. x \<in> set (block a 144) \<Longrightarrow> m' x = m x" and "entry_at m a e"
  shows "entry_at m' a e"
proof -
  have sub: "bytes_at m' (a + of_nat k) bs = bytes_at m (a + of_nat k) bs" if "k + length bs \<le> 144" for k bs
  proof (rule bytes_at_cong)
    fix x assume "x \<in> set (block (a + of_nat k) (length bs))"
    then have "x \<in> set (block a (k + length bs))" by (simp add: block_append)
    then have "x \<in> set (block a 144)" using that by (auto simp: block_eq_map)
    then show "m' x = m x" by (rule assms(1))
  qed
  have "a + of_nat 140 \<in> set (block a 144)" unfolding block_eq_map set_map by (rule image_eqI [where x = 140]) auto
  then have "m' (a + 140) = m (a + 140)" using assms(1) by simp
  then show ?thesis
    using assms(2) sub [of 0 "de_name e @ [0]"] sub [of 128 "le_bytes 8 (de_addr e)"] sub [of 136 "le_bytes 4 (de_loadidx e)"]
    by (auto simp: entry_at_def cstring_at_def)
qed


lemma entry_at_bytes:
  "entry_at m a e \<Longrightarrow> bytes_at m a (de_name e)"
  by (simp add: entry_at_def cstring_at_def bytes_at_append)

text \<open>Memory that changes in the members behind the name of one entry only.\<close>

lemma entry_block_disjoint:
  assumes "unat E + 4608 \<le> 2 ^ 64" and "i < 32" and "j < 32" and "i \<noteq> j"
    and "x \<in> set (block (entry_addr E i) 144)" and "x \<in> set (block (entry_addr E j) 144)"
  shows False
proof -
  have "unat E + 144 * i \<le> unat x" "unat x < unat E + 144 * i + 144"
      "unat E + 144 * j \<le> unat x" "unat x < unat E + 144 * j + 144"
    using in_entry [OF assms(1,2), of 0 144 x] in_entry [OF assms(1,3), of 0 144 x] assms(5,6) by auto
  then show False using assms(4) by linarith
qed

lemma cache_view_names:
  assumes "cache_view m lk es" and "x \<in> live_entries (dl_ht lk)" and "y \<in> set (block (ent_key x) (unat (ent_size x)))"
  shows "\<exists>i<length es. unat (dl_entries lk) + 144 * i \<le> unat y \<and> unat y < unat (dl_entries lk) + 144 * i + 128"
proof -
  obtain i where i: "i < length es" "ent_key x = entry_addr (dl_entries lk) i" "unat (ent_size x) = length (de_name (es ! i))"
    using assms(1,2) unfolding cache_view_def by blast
  have e: "entry_at m (entry_addr (dl_entries lk) i) (es ! i)" using assms(1) i(1) by (simp add: cache_view_def)
  then have "length (de_name (es ! i)) < 128" by (simp add: entry_at_def)
  moreover have "de_name (es ! i) \<noteq> []" using assms(3) i(3) by auto
  ultimately show ?thesis
    using in_entry [of "dl_entries lk" i 0 "length (de_name (es ! i))" y] assms(1,3) i
    by (auto simp: cache_view_def intro!: exI [of _ i])
qed

lemma cache_view_update:
  assumes c: "cache_view m lk es" and i: "i < length es"
    and frame: "\<And>x. x \<notin> set (block (entry_addr (dl_entries lk) i + 128) 16) \<Longrightarrow> m' x = m x"
    and e: "entry_at m' (entry_addr (dl_entries lk) i) e'" "de_name e' = de_name (es ! i)"
    and "mapped m' (dl_entries lk) 4608"
  shows "cache_view m' lk (es[i := e'])"
proof -
  let ?E = "dl_entries lk"
  have E: "unat ?E + 4608 \<le> 2 ^ 64" and len: "length es \<le> 32" using c by (auto simp: cache_view_def)
  have i32: "i < 32" using i len by simp
  have in_i: "x \<in> set (block (entry_addr ?E i + 128) 16) \<longleftrightarrow>
      unat ?E + 144 * i + 128 \<le> unat x \<and> unat x < unat ?E + 144 * i + 144" for x
    using in_entry [OF E i32, of 128 16 x] by (simp add: algebra_simps)
  have "entry_at m' (entry_addr ?E j) (es ! j)" if "j < length es" "j \<noteq> i" for j
  proof (rule entry_at_cong)
    fix x assume x: "x \<in> set (block (entry_addr ?E j) 144)"
    have "x \<notin> set (block (entry_addr ?E i) 144)"
      using entry_block_disjoint [OF E _ i32, of j x] that len x by auto
    then have "x \<notin> set (block (entry_addr ?E i + 128) 16)"
      using in_i [of x] in_entry [OF E i32, of 0 144 x] by auto
    then show "m' x = m x" by (rule frame)
  next
    show "entry_at m (entry_addr ?E j) (es ! j)" using c that(1) by (simp add: cache_view_def)
  qed
  then have "\<forall>j<length es. entry_at m' (entry_addr ?E j) (es[i := e'] ! j)" using e(1) i by (auto simp: nth_list_update)
  moreover have names: "map de_name (es[i := e']) = map de_name es" using e(2) i by (simp add: map_update list_update_same_conv)
  have "ht_built m' (dl_ht lk) (de_name ` set es)"
  proof (rule ht_built_cong)
    show "ht_built m (dl_ht lk) (de_name ` set es)" using c by (simp add: cache_view_def)
    fix x y assume "x \<in> live_entries (dl_ht lk)" "y \<in> set (block (ent_key x) (unat (ent_size x)))"
    from cache_view_names [OF c this] obtain j where
      "unat ?E + 144 * j \<le> unat y" "unat y < unat ?E + 144 * j + 128" by blast
    then have "y \<notin> set (block (entry_addr ?E i + 128) 16)" unfolding in_i by (cases i j rule: linorder_cases) auto
    then show "m' y = m y" by (rule frame)
  qed
  moreover have "de_name ` set (es[i := e']) = de_name ` set es" using names by (metis list.set_map)
  moreover have nth: "de_name (es[i := e'] ! j) = de_name (es ! j)" if "j < length es" for j
    using names that by (metis length_list_update nth_map)
  have "\<exists>j<length es. ent_key x = entry_addr ?E j \<and> unat (ent_size x) = length (de_name (es[i := e'] ! j))"
    if x: "x \<in> live_entries (dl_ht lk)" for x
  proof -
    obtain j where "j < length es" "ent_key x = entry_addr ?E j" "unat (ent_size x) = length (de_name (es ! j))"
      using c x unfolding cache_view_def by blast
    then show ?thesis by (intro exI [of _ j]) (simp add: nth)
  qed
  ultimately show ?thesis using c assms(6) names by (auto simp: cache_view_def)
qed


lemma cache_view_size: "cache_view m lk es \<Longrightarrow> ht_size (dl_ht lk) = of_nat (length es)"
proof -
  assume c: "cache_view m lk es"
  then have "unat (ht_size (dl_ht lk)) = card (de_name ` set es)" by (auto simp: cache_view_def ht_built_def ht_clean_def)
  also have "card (de_name ` set es) = length es"
    using c distinct_card [of "map de_name es"] by (simp add: cache_view_def)
  finally show ?thesis by (rule word_eq_of_nat)
qed

lemma cache_view_append:
  assumes c: "cache_view m lk es" and len: "length es < 32"
    and frame: "\<And>x. x \<notin> set (block (entry_addr (dl_entries lk) (length es)) 144) \<Longrightarrow> m' x = m x"
    and e: "entry_at m' (entry_addr (dl_entries lk) (length es)) e" "de_name e \<notin> de_name ` set es"
    and mapped: "mapped m' (dl_entries lk) 4608" and cmp: "told_apart (insert (de_name e) (de_name ` set es))" and alloc: "\<forall>n. alloc n"
  shows "\<exists>r ht'. cldm_ht_insert cldm_memcmp alloc m' (dl_ht lk)
      \<lparr>ent_key = entry_addr (dl_entries lk) (length es), ent_size = of_nat (length (de_name e))\<rparr> = Some (Some r, ht') \<and>
    cache_view m' (lk\<lparr>dl_ht := ht'\<rparr>) (es @ [e])"
proof -
  let ?E = "dl_entries lk"
  let ?key = "\<lparr>ent_key = entry_addr ?E (length es), ent_size = of_nat (length (de_name e))\<rparr>"
  have E: "1 < unat ?E" "unat ?E + 4608 \<le> 2 ^ 64" using c by (auto simp: cache_view_def)
  have in_n: "x \<in> set (block (entry_addr ?E (length es)) 144) \<longleftrightarrow>
      unat ?E + 144 * length es \<le> unat x \<and> unat x < unat ?E + 144 * length es + 144" for x
    using in_entry [OF E(2) len, of 0 144 x] by simp
  have old: "entry_at m' (entry_addr ?E j) (es ! j)" if "j < length es" for j
  proof (rule entry_at_cong)
    fix x assume x: "x \<in> set (block (entry_addr ?E j) 144)"
    then have "x \<notin> set (block (entry_addr ?E (length es)) 144)"
      using entry_block_disjoint [OF E(2) _ len, of j x] that len by auto
    then show "m' x = m x" by (rule frame)
  next
    show "entry_at m (entry_addr ?E j) (es ! j)" using c that(1) by (simp add: cache_view_def)
  qed
  have built: "ht_built m' (dl_ht lk) (de_name ` set es)"
  proof (rule ht_built_cong)
    show "ht_built m (dl_ht lk) (de_name ` set es)" using c by (simp add: cache_view_def)
    fix x y assume "x \<in> live_entries (dl_ht lk)" "y \<in> set (block (ent_key x) (unat (ent_size x)))"
    from cache_view_names [OF c this] obtain j where "j < length es"
      "unat ?E + 144 * j \<le> unat y" "unat y < unat ?E + 144 * j + 128" by blast
    then have "y \<notin> set (block (entry_addr ?E (length es)) 144)" unfolding in_n by linarith
    then show "m' y = m y" by (rule frame)
  qed
  have size_e: "unat (ent_size ?key) = length (de_name e)" using e(1) by (simp add: entry_at_def unat_of_nat)
  have key: "key_entry m' ?key (de_name e)"
    using entry_at_bytes [OF e(1)] size_e E len unat_entry_addr [OF E(2) len] by (simp add: key_entry_def)
  have "card (de_name ` set es) \<le> length es" by (metis card_image_le card_length finite_set order_trans)
  then have "card (de_name ` set es) < 2 ^ 27" using len by simp
  from cldm_ht_insert_built [OF cldm_memcmp_told_apart [OF cmp] key built this, of alloc] obtain r ht' where r:
      "cldm_ht_insert cldm_memcmp alloc m' (dl_ht lk) ?key = Some (r, ht')"
      "if cldm_ht_should_expand (dl_ht lk) \<and> \<not> (\<exists>c. cldm_ht_sizeup (ht_capacity (dl_ht lk)) = Some c \<and> alloc (unat c * 16))
       then r = None \<and> ht' = dl_ht lk
       else (r = None \<longleftrightarrow> de_name e \<in> de_name ` set es) \<and> stored m' ht' r ?key \<and>
         ht_built m' ht' (insert (de_name e) (de_name ` set es))" by blast
  have "unat (ht_capacity (dl_ht lk)) < 2 ^ 32"
    using built \<open>card (de_name ` set es) < 2 ^ 27\<close> by (simp add: ht_built_def)
  then have "\<exists>c. cldm_ht_sizeup (ht_capacity (dl_ht lk)) = Some c" using cldm_ht_sizeup' by blast
  then have r': "r \<noteq> None" "ht_built m' ht' (insert (de_name e) (de_name ` set es))"
    using r(2) alloc e(2) by (auto split: if_splits)
  obtain sl where "ht_view m' (dl_ht lk) sl" using built by (auto simp: ht_built_def ht_clean_def)
  from ht_insert_live [OF r(1) this] have live: "live_entries ht' \<subseteq> insert ?key (live_entries (dl_ht lk))" .
  have "\<exists>i<length (es @ [e]). ent_key x = entry_addr ?E i \<and> unat (ent_size x) = length (de_name ((es @ [e]) ! i))"
    if "x \<in> live_entries ht'" for x
  proof (cases "x = ?key")
    case True
    then show ?thesis using size_e by (intro exI [of _ "length es"]) simp
  next
    case False
    then have "x \<in> live_entries (dl_ht lk)" using that live by blast
    then obtain i where "i < length es" "ent_key x = entry_addr ?E i" "unat (ent_size x) = length (de_name (es ! i))"
      using c unfolding cache_view_def by blast
    then show ?thesis by (intro exI [of _ i]) (simp add: nth_append)
  qed
  then have "cache_view m' (lk\<lparr>dl_ht := ht'\<rparr>) (es @ [e])"
    using c old e mapped r'(2) len by (auto simp: cache_view_def nth_append less_Suc_eq)
  then show ?thesis using r(1) r'(1) by auto
qed


lemma cache_find:
  assumes c: "cache_view m lk es" and p: "cstring_at m p name" "1 < unat p" "length name < 128"
    and cmp: "told_apart (insert name (de_name ` set es))"
  shows "if name \<in> de_name ` set es
    then \<exists>idx slots i. cldm_ht_find cldm_memcmp m (dl_ht lk) \<lparr>ent_key = p, ent_size = of_nat (length name)\<rparr> = Some (Some idx) \<and>
      cldm_ht_storage (dl_ht lk) = Some slots \<and> i < length es \<and> de_name (es ! i) = name \<and>
      ent_key (slots ! unat idx) = entry_addr (dl_entries lk) i
    else cldm_ht_find cldm_memcmp m (dl_ht lk) \<lparr>ent_key = p, ent_size = of_nat (length name)\<rparr> = Some None"
proof -
  let ?key = "\<lparr>ent_key = p, ent_size = of_nat (length name)\<rparr> :: cldm_ht_entry"
  have key: "key_entry m ?key name"
    using p by (simp add: key_entry_def cstring_at_def bytes_at_append unat_of_nat)
  have "ht_wf m (dl_ht lk) (de_name ` set es)" using c by (simp add: cache_view_def ht_built_def ht_clean_wf)
  from cldm_ht_find' [OF cldm_memcmp_told_apart [OF cmp] key this] obtain r where r: "cldm_ht_find cldm_memcmp m (dl_ht lk) ?key = Some r"
      "r = None \<longleftrightarrow> name \<notin> de_name ` set es"
      "\<forall>i. r = Some i \<longrightarrow> (\<exists>es. cldm_ht_storage (dl_ht lk) = Some es \<and> unat i < length es \<and> key_entry m (es ! unat i) name)"
    by blast
  show ?thesis
  proof (cases "name \<in> de_name ` set es")
    case True
    then obtain idx slots where s: "r = Some idx" "cldm_ht_storage (dl_ht lk) = Some slots" "unat idx < length slots"
        "key_entry m (slots ! unat idx) name" using r(2,3) by auto
    have "slots ! unat idx \<in> live_entries (dl_ht lk)"
      using s by (auto simp: live_entries_def key_entry_def slot_vacant_nat)
    then obtain i where i: "i < length es" "ent_key (slots ! unat idx) = entry_addr (dl_entries lk) i"
        "unat (ent_size (slots ! unat idx)) = length (de_name (es ! i))" using c unfolding cache_view_def by blast
    have "entry_at m (entry_addr (dl_entries lk) i) (es ! i)" using c i(1) by (simp add: cache_view_def)
    from entry_at_bytes [OF this] have "de_name (es ! i) = name"
      using s(4) i(2,3) by (intro bytes_at_unique [of m "entry_addr (dl_entries lk) i"]) (auto simp: key_entry_def)
    then show ?thesis using True r(1) s(1,2) i by auto
  next
    case False
    then show ?thesis using r(1,2) by auto
  qed
qed

section \<open>Lookups\<close>

lemma dl_next_absent:
  "name \<notin> de_name ` set es \<Longrightarrow> dl_next lookup hs name es =
     (let (a, i) = dl_probe lookup name hs 0
      in (a, es @ [\<lparr>de_name = name, de_addr = a, de_loadidx = i, de_resolved = False\<rparr>]))"
  by (induction es) (auto split: prod.splits)

lemma dl_next_present:
  "i < length es \<Longrightarrow> de_name (es ! i) = name \<Longrightarrow> distinct (map de_name es) \<Longrightarrow> dl_next lookup hs name es =
     (if de_resolved (es ! i) then (de_addr (es ! i), es)
      else let k = de_loadidx (es ! i) + 1; (a, k) = dl_probe lookup name (drop (unat k) hs) k
           in (a, es[i := (es ! i)\<lparr>de_addr := a, de_loadidx := k\<rparr>]))"
proof (induction es arbitrary: i)
  case (Cons e es)
  show ?case
  proof (cases i)
    case 0
    then show ?thesis using Cons.prems by (simp add: Let_def split: prod.splits)
  next
    case (Suc j)
    then have "de_name e \<noteq> name" using Cons.prems by (metis distinct.simps(2) length_Cons list.simps(9) nth_Cons_Suc nth_map nth_mem length_map Suc_less_eq)
    then show ?thesis using Cons Suc by (auto simp: Let_def split: prod.splits)
  qed
qed simp

lemma dl_next_names:
  "insert name (de_name ` set (snd (dl_next lookup hs name es))) = insert name (de_name ` set es)"
  by (induction es) (auto simp: Let_def insert_commute split: prod.splits)

text \<open>The members of an entry that a lookup writes.\<close>

lemma write_members:
  assumes "mapped m (a + 128) 8" and "mapped m (a + 136) 4"
  shows "\<exists>m1 m'. wr64 m (a + 128) addr = Some m1 \<and> wr32 m1 (a + 136) k = Some m' \<and>
    bytes_at m' (a + 128) (le_bytes 8 addr) \<and> bytes_at m' (a + 136) (le_bytes 4 k) \<and>
    (\<forall>x. x \<notin> set (block (a + 128) 12) \<longrightarrow> m' x = m x) \<and> (\<forall>b n. mapped m b n \<longrightarrow> mapped m' b n)"
proof -
  let ?m1 = "mem_put m (a + 128) (le_bytes 8 addr)"
  let ?m2 = "mem_put ?m1 (a + 136) (le_bytes 4 k)"
  have b: "block (a + 128) 12 = block (a + 128) 8 @ block (a + 136) 4"
    using block_append [of "a + 128" 8 4] by (simp add: add.commute)
  have d: "distinct (block (a + 128) 12)" by (rule distinct_block) simp
  have "bytes_at ?m2 (a + 128) (le_bytes 8 addr) = bytes_at ?m1 (a + 128) (le_bytes 8 addr)"
    by (rule bytes_at_cong, rule mem_put_outside) (use d in \<open>auto simp: b\<close>)
  moreover have "wr64 m (a + 128) addr = Some ?m1" using assms(1) by (simp add: wr64_def mem_wrn_put)
  moreover have "wr32 ?m1 (a + 136) k = Some ?m2" using assms(2) by (simp add: wr32_def mem_wrn_put mapped_mem_put)
  moreover have "\<forall>x. x \<notin> set (block (a + 128) 12) \<longrightarrow> ?m2 x = m x" by (auto simp: b mem_put_outside)
  ultimately show ?thesis by (auto simp: bytes_at_mem_put intro!: mapped_mem_put)
qed


lemma cache_search: "dl_search env name i d = dl_probe (env_dlsym env) name (drop (unat i) (take (ndlhandles d) (dlhandles d))) i"
  by (simp add: dl_search_def)

text \<open>The cache of a thread, which is initialised at its first use.\<close>

definition cache_holds :: "mem \<Rightarrow> cldm_dllookup \<Rightarrow> dlentry list \<Rightarrow> bool" where
  "cache_holds m lk es \<longleftrightarrow> cache_view m (if dl_capacity lk = 0 then cldm_dllookup_init lk else lk) es"

lemma cache_holds_view: "cache_view m lk es \<Longrightarrow> cache_holds m lk es"
  by (simp add: cache_holds_def cache_view_def)

definition dl_libs :: "dl \<Rightarrow> u64 list" where
  "dl_libs d = take (ndlhandles d) (dlhandles d)"

lemma entry_mapped:
  assumes "cache_view m lk es" and "i < 32" and "k + n \<le> 144" and "0 < n"
  shows "mapped m (entry_addr (dl_entries lk) i + of_nat k) n"
proof -
  have E: "unat (dl_entries lk) + 4608 \<le> 2 ^ 64" "mapped m (dl_entries lk) 4608" using assms(1) by (auto simp: cache_view_def)
  have "set (block (entry_addr (dl_entries lk) i + of_nat k) n) \<subseteq> set (block (dl_entries lk) 4608)"
  proof
    fix x assume "x \<in> set (block (entry_addr (dl_entries lk) i + of_nat k) n)"
    then show "x \<in> set (block (dl_entries lk) 4608)"
      using in_entry [OF E(1) assms(2-4), of x] in_block [OF E(1), of x] assms(2,3) by linarith
  qed
  with E(2) show ?thesis by (rule mapped_subset)
qed

lemma dlsym_next_found:
  assumes lk0: "get_lookup tid d = Some lk0" "(if dl_capacity lk0 = 0 then cldm_dllookup_init lk0 else lk0) = lk"
    and lk: "cache_view (dl_mem d) lk es"
    and p: "cstring_at (dl_mem d) p name" "1 < unat p" "length name < 128"
    and cmp: "told_apart (insert name (de_name ` set es))"
    and name: "name \<in> de_name ` set es"
  shows "\<exists>m'. cldm_dlsym_next alloc env tid p d =
      Some (fst (dl_next (env_dlsym env) (dl_libs d) name es), (set_lookup tid lk d)\<lparr>dl_mem := m'\<rparr>) \<and>
    cache_view m' lk (snd (dl_next (env_dlsym env) (dl_libs d) name es)) \<and>
    (\<forall>x. x \<notin> set (block (dl_entries lk) 4608) \<longrightarrow> m' x = dl_mem d x)"
proof -
  let ?E = "dl_entries lk" and ?m = "dl_mem d"
  have dist: "distinct (map de_name es)" and len: "length es \<le> 32"
    using lk by (auto simp: cache_view_def)
  from cache_find [OF lk p cmp] name obtain idx slots i where f:
      "cldm_ht_find cldm_memcmp ?m (dl_ht lk) \<lparr>ent_key = p, ent_size = of_nat (length name)\<rparr> = Some (Some idx)"
      "cldm_ht_storage (dl_ht lk) = Some slots" "i < length es" "de_name (es ! i) = name"
      "ent_key (slots ! unat idx) = entry_addr ?E i" by auto
  have e: "entry_at ?m (entry_addr ?E i) (es ! i)" using lk f(3) by (simp add: cache_view_def)
  note next_eq = dl_next_present [OF f(3,4) dist, of "env_dlsym env" "dl_libs d"]
  note call = cldm_dlsym_next_def lk0 c_string_cstring [OF p(1)] mkentry_cstring [OF p(1)] f(1,2,5)
  show ?thesis
  proof (cases "de_resolved (es ! i)")
    case True
    have "rd64 ?m (entry_addr ?E i + 128) = Some (de_addr (es ! i))" using e by (intro rd64_bytes) (simp add: entry_at_def)
    then show ?thesis using e lk True
      by (intro exI [of _ ?m]) (simp add: call next_eq entry_at_def Let_def set_lookup_def)
  next
    case False
    let ?k = "de_loadidx (es ! i) + 1"
    obtain a k where ak: "dl_probe (env_dlsym env) name (drop (unat ?k) (dl_libs d)) ?k = (a, k)"
      by (cases "dl_probe (env_dlsym env) name (drop (unat ?k) (dl_libs d)) ?k")
    have i32: "i < 32" using f(3) len by simp
    obtain m1 m' where w: "wr64 ?m (entry_addr ?E i + 128) a = Some m1" "wr32 m1 (entry_addr ?E i + 136) k = Some m'"
      and m': "bytes_at m' (entry_addr ?E i + 128) (le_bytes 8 a)" "bytes_at m' (entry_addr ?E i + 136) (le_bytes 4 k)"
        "\<forall>x. x \<notin> set (block (entry_addr ?E i + 128) 12) \<longrightarrow> m' x = ?m x"
        "\<forall>b n. mapped ?m b n \<longrightarrow> mapped m' b n"
      using write_members [of ?m "entry_addr ?E i" a k] entry_mapped [OF lk i32, of 128 8] entry_mapped [OF lk i32, of 136 4]
      by auto
    have E: "unat ?E + 4608 \<le> 2 ^ 64" using lk by (simp add: cache_view_def)
    have in12: "x \<in> set (block (entry_addr ?E i + 128) 12) \<longleftrightarrow>
        unat ?E + 144 * i + 128 \<le> unat x \<and> unat x < unat ?E + 144 * i + 140" for x
      using in_entry [OF E i32, of 128 12 x] by (simp add: algebra_simps)
    let ?e = "(es ! i)\<lparr>de_addr := a, de_loadidx := k\<rparr>"
    have name_bytes: "cstring_at m' (entry_addr ?E i) (de_name (es ! i))"
    proof -
      have "bytes_at m' (entry_addr ?E i) (de_name (es ! i) @ [0]) = bytes_at ?m (entry_addr ?E i) (de_name (es ! i) @ [0])"
      proof (rule bytes_at_cong)
        fix x assume "x \<in> set (block (entry_addr ?E i) (length (de_name (es ! i) @ [0])))"
        moreover have "length (de_name (es ! i) @ [0]) \<le> 128" using e by (simp add: entry_at_def)
        ultimately have "unat x < unat ?E + 144 * i + 128"
          using in_entry [OF E i32, of 0 "length (de_name (es ! i) @ [0])" x] by simp
        then show "m' x = ?m x" using m'(3) in12 [of x] by simp
      qed
      then show ?thesis using e by (simp add: entry_at_def cstring_at_def)
    qed
    have "m' (entry_addr ?E i + 140) = ?m (entry_addr ?E i + 140)"
    proof -
      have "unat (entry_addr ?E i + 140) = unat ?E + 144 * i + 140"
        using unat_entry_addr [OF E i32] E i32 by (subst unat_add_nowrap) simp_all
      then show ?thesis using m'(3) in12 [of "entry_addr ?E i + 140"] by simp
    qed
    then have e': "entry_at m' (entry_addr ?E i) ?e" using e m'(1,2) name_bytes by (simp add: entry_at_def)
    have frame: "m' x = ?m x" if "x \<notin> set (block (entry_addr ?E i + 128) 16)" for x
      using that m'(3) in12 [of x] in_entry [OF E i32, of 128 16 x] by auto
    have "mapped m' ?E 4608" using lk m'(4) by (simp add: cache_view_def)
    then have view: "cache_view m' lk (es[i := ?e])"
      using cache_view_update [OF lk f(3) frame e'] by simp
    have out: "\<forall>x. x \<notin> set (block ?E 4608) \<longrightarrow> m' x = ?m x"
      using m'(3) in12 in_block [OF E] i32 by auto
    have "rd32 ?m (entry_addr ?E i + 136) = Some (de_loadidx (es ! i))"
      using e by (intro rd32_bytes) (simp add: entry_at_def)
    then show ?thesis
      using False e w view out ak
      by (intro exI [of _ m'])
        (simp add: call next_eq entry_at_def Let_def cache_search dl_libs_def [symmetric])
  qed
qed


lemma dlsym_next_new:
  assumes lk0: "get_lookup tid d = Some lk0" "(if dl_capacity lk0 = 0 then cldm_dllookup_init lk0 else lk0) = lk"
    and lk: "cache_view (dl_mem d) lk es"
    and p: "cstring_at (dl_mem d) p name" "1 < unat p" "length name < 128"
    and cmp: "told_apart (insert name (de_name ` set es))" and alloc: "\<forall>n. alloc n"
    and apart: "set (block (dl_entries lk) 4608) \<inter> set (block p (Suc (length name))) = {}"
    and name: "name \<notin> de_name ` set es" and len: "length es < 32"
  shows "\<exists>m' ht'. cldm_dlsym_next alloc env tid p d =
      Some (fst (dl_next (env_dlsym env) (dl_libs d) name es), (set_lookup tid (lk\<lparr>dl_ht := ht'\<rparr>) d)\<lparr>dl_mem := m'\<rparr>) \<and>
    cache_view m' (lk\<lparr>dl_ht := ht'\<rparr>) (snd (dl_next (env_dlsym env) (dl_libs d) name es)) \<and>
    (\<forall>x. x \<notin> set (block (dl_entries lk) 4608) \<longrightarrow> m' x = dl_mem d x)"
proof -
  let ?E = "dl_entries lk" and ?m = "dl_mem d" and ?n = "length es"
  let ?a = "entry_addr ?E ?n"
  have cap: "dl_capacity lk = 32" and E: "unat ?E + 4608 \<le> 2 ^ 64" using lk by (auto simp: cache_view_def)
  obtain a k where ak: "dl_probe (env_dlsym env) name (dl_libs d) 0 = (a, k)" by (cases "dl_probe (env_dlsym env) name (dl_libs d) 0")
  have in_a: "x \<in> set (block (?a + of_nat j) i) \<longleftrightarrow> unat ?E + 144 * ?n + j \<le> unat x \<and> unat x < unat ?E + 144 * ?n + j + i"
    if "j + i \<le> 144" "0 < i" for j i x using in_entry [OF E len that] .
  have a_E: "x \<in> set (block ?E 4608)" if "x \<in> set (block ?a 144)" for x
    using that in_a [of 0 144 x] in_block [OF E, of x] len by auto
  let ?m1 = "mem_put ?m ?a (name @ [0])"
  have copy: "cldm_strscpy ?m ?a p CLDM_MAX_SYMNAME_SIZE = Some (int (length name), ?m1)"
  proof -
    have "set (block ?a 128) \<subseteq> set (block ?E 4608)"
      using in_a [of 0 128] in_block [OF E] len by auto
    then have "set (block ?a 128) \<inter> set (block p (Suc (length name))) = {}" using apart by blast
    then show ?thesis using cldm_strscpy_put [OF p(1), of ?a 128] entry_mapped [OF lk len, of 0 128] p(3)
      by (simp add: CLDM_MAX_SYMNAME_SIZE_def)
  qed
  obtain m2 m3 where w: "wr64 ?m1 (?a + 128) a = Some m2" "wr32 m2 (?a + 136) k = Some m3"
    and m3: "bytes_at m3 (?a + 128) (le_bytes 8 a)" "bytes_at m3 (?a + 136) (le_bytes 4 k)"
      "\<forall>x. x \<notin> set (block (?a + 128) 12) \<longrightarrow> m3 x = ?m1 x" "\<forall>b n. mapped ?m1 b n \<longrightarrow> mapped m3 b n"
    using write_members [of ?m1 ?a a k] entry_mapped [OF lk len, of 128 8] entry_mapped [OF lk len, of 136 4]
    by (auto simp: mapped_mem_put)
  let ?m4 = "m3(?a + 140 \<mapsto> 0)"
  have "mapped ?m1 (?a + 140) 1" using entry_mapped [OF lk len, of 140 1] by (simp add: mapped_mem_put)
  then have "mapped m3 (?a + 140) 1" using m3(4) by blast
  then have w4: "mem_wr m3 (?a + 140) 0 = Some ?m4" by (intro mem_wr_mapped) (simp add: mapped_def)
  have u140: "unat (?a + 140) = unat ?E + 144 * ?n + 140"
    using unat_entry_addr [OF E len] E len by (subst unat_add_nowrap) simp_all
  have m4: "?m4 x = m3 x" if "unat x < unat ?E + 144 * ?n + 140 \<or> unat ?E + 144 * ?n + 140 < unat x" for x
    using that u140 by auto
  have name_at: "cstring_at ?m4 ?a name"
  proof -
    have "bytes_at ?m4 ?a (name @ [0]) = bytes_at ?m1 ?a (name @ [0])"
    proof (rule bytes_at_cong)
      fix x assume "x \<in> set (block ?a (length (name @ [0])))"
      then have "unat x < unat ?E + 144 * ?n + 128" using in_a [of 0 "length (name @ [0])" x] p(3) by simp
      then show "?m4 x = ?m1 x" using m4 [of x] m3(3) in_a [of 128 12 x] by auto
    qed
    then show ?thesis using p(1,3) by (simp add: cstring_at_def bytes_at_mem_put)
  qed
  let ?e = "\<lparr>de_name = name, de_addr = a, de_loadidx = k, de_resolved = False\<rparr>"
  have "bytes_at ?m4 (?a + 128) (le_bytes 8 a) = bytes_at m3 (?a + 128) (le_bytes 8 a)"
    by (rule bytes_at_cong, rule m4) (use in_a [of 128 8] in \<open>auto\<close>)
  moreover have "bytes_at ?m4 (?a + 136) (le_bytes 4 k) = bytes_at m3 (?a + 136) (le_bytes 4 k)"
    by (rule bytes_at_cong, rule m4) (use in_a [of 136 4] in \<open>auto\<close>)
  ultimately have e: "entry_at ?m4 ?a ?e" using m3(1,2) name_at p(3) by (simp add: entry_at_def)
  have frame: "?m4 x = ?m x" if "x \<notin> set (block ?a 144)" for x
  proof -
    have "\<not> (unat ?E + 144 * ?n \<le> unat x \<and> unat x < unat ?E + 144 * ?n + 144)" using that in_a [of 0 144 x] by simp
    moreover from this have "x \<notin> set (block ?a (length (name @ [0])))" using in_a [of 0 "length (name @ [0])" x] p(3) by auto
    ultimately show ?thesis using m4 [of x] m3(3) in_a [of 128 12 x] by (auto simp: mem_put_outside)
  qed
  have mapped: "mapped ?m4 ?E 4608" using lk m3(4) by (simp add: cache_view_def mapped_mem_put)
  have cmp_e: "told_apart (insert (de_name ?e) (de_name ` set es))" using cmp by simp
  from cache_view_append [OF lk len frame e _ mapped cmp_e alloc] name obtain r ht' where i:
      "cldm_ht_insert cldm_memcmp alloc ?m4 (dl_ht lk) \<lparr>ent_key = ?a, ent_size = of_nat (length name)\<rparr> = Some (Some r, ht')"
      "cache_view ?m4 (lk\<lparr>dl_ht := ht'\<rparr>) (es @ [?e])" by auto
  have find: "cldm_ht_find cldm_memcmp ?m (dl_ht lk) \<lparr>ent_key = p, ent_size = of_nat (length name)\<rparr> = Some None"
    using cache_find [OF lk p cmp] name by simp
  have room: "cldm_dllookup_ensure_capacity alloc env ?m lk = Some (True, ?m, lk)"
    using len by (simp add: cldm_dllookup_ensure_capacity_def cldm_ht_size_def cache_view_size [OF lk] cap word_less_nat_alt unat_of_nat)
  have addr: "?E + sizeof_dlentry * cldm_ht_size (dl_ht lk) = ?a"
    by (simp add: cldm_ht_size_def cache_view_size [OF lk] sizeof_dlentry_def entry_addr_def)
  have "\<forall>x. x \<notin> set (block ?E 4608) \<longrightarrow> ?m4 x = ?m x" using frame a_E by blast
  then show ?thesis
    using i copy w w4
    by (intro exI [of _ ?m4] exI [of _ ht'])
      (simp add: cldm_dlsym_next_def lk0 c_string_cstring [OF p(1)] mkentry_cstring [OF p(1)] mkentry_cstring [OF name_at]
        find dl_next_absent [OF name] ak dl_search_def dl_libs_def [symmetric] room addr cldm_dllookup_entry_def cap
        CLDM_STATIC_LOOKUP_SIZE_def set_lookup_def Let_def)
qed


lemma init_view: "dl_entries (cldm_dllookup_init lk) = dl_entries lk" "dl_capacity (cldm_dllookup_init lk) = 32"
  by (simp_all add: cldm_dllookup_init_def CLDM_STATIC_LOOKUP_SIZE_def)

lemma get_set_lookup:
  "tid < length (dllookups d) \<Longrightarrow> get_lookup t ((set_lookup tid lk d)\<lparr>dl_mem := m\<rparr>) = (if t = tid then Some lk else get_lookup t d)"
  by (simp add: get_lookup_def set_lookup_def)

lemma set_lookup_fields [simp]:
  "ndlhandles (set_lookup tid lk d) = ndlhandles d" "dlhandles (set_lookup tid lk d) = dlhandles d"
  by (simp_all add: set_lookup_def)

text \<open>What the rest of the process sees of a lookup.\<close>

definition dl_frame :: "nat \<Rightarrow> cldm_dllookup \<Rightarrow> dl \<Rightarrow> dl \<Rightarrow> bool" where
  "dl_frame tid lk d d' \<longleftrightarrow>
     (\<forall>x. x \<notin> set (block (dl_entries lk) 4608) \<longrightarrow> dl_mem d' x = dl_mem d x) \<and>
     (\<forall>t. t \<noteq> tid \<longrightarrow> get_lookup t d' = get_lookup t d) \<and>
     ndlhandles d' = ndlhandles d \<and> dlhandles d' = dlhandles d"

definition lookup_args :: "(nat \<Rightarrow> bool) \<Rightarrow> nat \<Rightarrow> u64 \<Rightarrow> u8 list \<Rightarrow> dl \<Rightarrow> cldm_dllookup \<Rightarrow> dlentry list \<Rightarrow> bool" where
  "lookup_args alloc tid p name d lk es \<longleftrightarrow>
     (\<forall>n. alloc n) \<and> told_apart (insert name (de_name ` set es)) \<and> get_lookup tid d = Some lk \<and> cache_holds (dl_mem d) lk es \<and>
     cstring_at (dl_mem d) p name \<and> 1 < unat p \<and> length name < 128 \<and>
     set (block (dl_entries lk) 4608) \<inter> set (block p (Suc (length name))) = {}"

lemma dlsym_next_refines:
  assumes "lookup_args alloc tid p name d lk es" and "name \<in> de_name ` set es \<or> length es < 32"
  shows "\<exists>d' lk'. cldm_dlsym_next alloc env tid p d = Some (fst (dl_next (env_dlsym env) (dl_libs d) name es), d') \<and>
    lookup_args alloc tid p name d' lk' (snd (dl_next (env_dlsym env) (dl_libs d) name es)) \<and>
    dl_capacity lk' = 32 \<and> dl_frame tid lk d d' \<and> dl_entries lk' = dl_entries lk"
proof -
  note args = assms(1) [unfolded lookup_args_def]
  define lk1 where "lk1 = (if dl_capacity lk = 0 then cldm_dllookup_init lk else lk)"
  have lk1: "(if dl_capacity lk = 0 then cldm_dllookup_init lk else lk) = lk1" by (simp add: lk1_def)
  have E: "dl_entries lk1 = dl_entries lk" by (simp add: lk1_def init_view)
  have view: "cache_view (dl_mem d) lk1 es" using args by (simp add: cache_holds_def lk1_def)
  let ?r = "dl_next (env_dlsym env) (dl_libs d) name es"
  have "\<exists>m' ht'. cldm_dlsym_next alloc env tid p d = Some (fst ?r, (set_lookup tid (lk1\<lparr>dl_ht := ht'\<rparr>) d)\<lparr>dl_mem := m'\<rparr>) \<and>
      cache_view m' (lk1\<lparr>dl_ht := ht'\<rparr>) (snd ?r) \<and> (\<forall>x. x \<notin> set (block (dl_entries lk1) 4608) \<longrightarrow> m' x = dl_mem d x)"
  proof (cases "name \<in> de_name ` set es")
    case True
    then show ?thesis using dlsym_next_found [OF _ lk1 view, of tid p name alloc env] args
      by (metis (no_types, lifting) cldm_dllookup.surjective cldm_dllookup.update_convs(1))
  next
    case False
    then show ?thesis using dlsym_next_new [OF _ lk1 view, of tid p name alloc env] args assms(2) by (simp add: E)
  qed
  then obtain m' ht' where m': "cldm_dlsym_next alloc env tid p d = Some (fst ?r, (set_lookup tid (lk1\<lparr>dl_ht := ht'\<rparr>) d)\<lparr>dl_mem := m'\<rparr>)"
      "cache_view m' (lk1\<lparr>dl_ht := ht'\<rparr>) (snd ?r)" "\<forall>x. x \<notin> set (block (dl_entries lk) 4608) \<longrightarrow> m' x = dl_mem d x"
    unfolding E by blast
  have "bytes_at m' p (name @ [0]) = bytes_at (dl_mem d) p (name @ [0])"
  proof (rule bytes_at_cong)
    fix x assume "x \<in> set (block p (length (name @ [0])))"
    then show "m' x = dl_mem d x" using m'(3) args by auto
  qed
  then have str: "cstring_at m' p name" using args by (simp add: cstring_at_def)
  have tid: "tid < length (dllookups d)" using args by (auto simp: get_lookup_def split: if_splits)
  have "dl_capacity lk1 = 32" using view by (simp add: cache_view_def)
  then show ?thesis
    using m' str args tid
    by (intro exI [of _ "(set_lookup tid (lk1\<lparr>dl_ht := ht'\<rparr>) d)\<lparr>dl_mem := m'\<rparr>"] exI [of _ "lk1\<lparr>dl_ht := ht'\<rparr>"])
      (auto simp: lookup_args_def get_set_lookup cache_holds_view E dl_frame_def dl_next_names)
qed


text \<open>C4: in the portable build, when every allocation succeeds and no two of the names involved have the same
  length and the same first character, a lookup in a cache that has room refines the lookup in the list of its
  entries: it returns what the list gives, the cache represents the new list, and nothing else changes.\<close>

theorem cldm_dlsym_next_correct:
  assumes "lookup_args alloc tid p name d lk es" and "name \<in> de_name ` set es \<or> length es < 32"
  shows "\<exists>d' lk'. cldm_dlsym_next alloc env tid p d = Some (fst (dl_next (env_dlsym env) (dl_libs d) name es), d') \<and>
    get_lookup tid d' = Some lk' \<and> cache_holds (dl_mem d') lk' (snd (dl_next (env_dlsym env) (dl_libs d) name es)) \<and>
    dl_frame tid lk d d'"
  using dlsym_next_refines [OF assms] unfolding lookup_args_def by blast

section \<open>Resolving\<close>

definition dl_resolve :: "u8 list \<Rightarrow> dlentry list \<Rightarrow> dlentry list" where
  "dl_resolve name es = map (\<lambda>e. if de_name e = name then e\<lparr>de_resolved := True\<rparr> else e) es"

lemma dl_resolve_names: "de_name ` set (dl_resolve name es) = de_name ` set es"
  by (induction es) (auto simp: dl_resolve_def)

lemma dl_resolve_update:
  assumes "i < length es" and "de_name (es ! i) = name" and "distinct (map de_name es)"
  shows "dl_resolve name es = es[i := (es ! i)\<lparr>de_resolved := True\<rparr>]"
proof (rule nth_equalityI)
  fix j assume "j < length (dl_resolve name es)"
  then have j: "j < length es" by (simp add: dl_resolve_def)
  have "de_name (es ! j) = name \<longleftrightarrow> j = i"
    using assms j nth_eq_iff_index_eq [of "map de_name es" j i] by auto
  then show "dl_resolve name es ! j = es[i := (es ! i)\<lparr>de_resolved := True\<rparr>] ! j"
    using j by (simp add: dl_resolve_def nth_list_update)
qed (simp add: dl_resolve_def)

lemma dlresolve_refines:
  assumes "lookup_args alloc tid p name d lk es" and "dl_capacity lk \<noteq> 0"
  shows "if name \<in> de_name ` set es
    then \<exists>d'. cldm_dlresolve tid p d = Some (Inr d') \<and>
      lookup_args alloc tid p name d' lk (dl_resolve name es) \<and> dl_frame tid lk d d'
    else cldm_dlresolve tid p d = Some (Inl 2)"
proof -
  note args = assms(1) [unfolded lookup_args_def]
  let ?E = "dl_entries lk" and ?m = "dl_mem d"
  have view: "cache_view ?m lk es" using args assms(2) by (simp add: cache_holds_def)
  have find: "if name \<in> de_name ` set es
    then \<exists>idx slots i. cldm_ht_find cldm_memcmp ?m (dl_ht lk) \<lparr>ent_key = p, ent_size = of_nat (length name)\<rparr> = Some (Some idx) \<and>
      cldm_ht_storage (dl_ht lk) = Some slots \<and> i < length es \<and> de_name (es ! i) = name \<and>
      ent_key (slots ! unat idx) = entry_addr ?E i
    else cldm_ht_find cldm_memcmp ?m (dl_ht lk) \<lparr>ent_key = p, ent_size = of_nat (length name)\<rparr> = Some None"
    by (rule cache_find [OF view]) (use args in auto)
  have str: "cldm_ht_mkentry_str ?m p = Some \<lparr>ent_key = p, ent_size = of_nat (length name)\<rparr>"
    using args by (simp add: mkentry_cstring)
  show ?thesis
  proof (cases "name \<in> de_name ` set es")
    case True
    with find obtain idx slots i where f:
      "cldm_ht_find cldm_memcmp ?m (dl_ht lk) \<lparr>ent_key = p, ent_size = of_nat (length name)\<rparr> = Some (Some idx)"
      "cldm_ht_storage (dl_ht lk) = Some slots" "i < length es" "de_name (es ! i) = name"
      "ent_key (slots ! unat idx) = entry_addr ?E i" by auto
    have E: "unat ?E + 4608 \<le> 2 ^ 64" and i32: "i < 32" and dist: "distinct (map de_name es)"
      using view f(3) by (auto simp: cache_view_def)
    let ?a = "entry_addr ?E i"
    let ?m' = "?m(?a + 140 \<mapsto> 1)"
    have u140: "unat (?a + 140) = unat ?E + 144 * i + 140"
      using unat_entry_addr [OF E i32] E i32 by (subst unat_add_nowrap) simp_all
    have m': "?m' x = ?m x" if "unat x \<noteq> unat ?E + 144 * i + 140" for x using that u140 by auto
    have e: "entry_at ?m ?a (es ! i)" using view f(3) by (simp add: cache_view_def)
    have in_a: "x \<in> set (block (?a + of_nat j) n) \<longleftrightarrow> unat ?E + 144 * i + j \<le> unat x \<and> unat x < unat ?E + 144 * i + j + n"
      if "j + n \<le> 144" "0 < n" for j n x using in_entry [OF E i32 that] .
    have keep: "bytes_at ?m' (?a + of_nat j) bs = bytes_at ?m (?a + of_nat j) bs" if "j + length bs \<le> 140" for j bs
    proof (cases "bs = []")
      case False
      then show ?thesis by (intro bytes_at_cong m') (use that in_a [of j "length bs"] in auto)
    qed simp
    have e': "entry_at ?m' ?a ((es ! i)\<lparr>de_resolved := True\<rparr>)"
      using e keep [of 0 "de_name (es ! i) @ [0]"] keep [of 128 "le_bytes 8 (de_addr (es ! i))"]
        keep [of 136 "le_bytes 4 (de_loadidx (es ! i))"]
      by (simp add: entry_at_def cstring_at_def)
    have "?m (?a + 140) \<noteq> None" using e by (simp add: entry_at_def)
    then have w: "mem_wr ?m (?a + 140) 1 = Some ?m'" by (rule mem_wr_mapped)
    have frame: "?m' x = ?m x" if "x \<notin> set (block (?a + 128) 16)" for x
      using that in_a [of 128 16 x] by (intro m') auto
    have "mapped ?m' ?E 4608" using view by (simp add: cache_view_def)
    from cache_view_update [OF view f(3) frame e' _ this] have "cache_view ?m' lk (dl_resolve name es)"
      unfolding dl_resolve_update [OF f(3,4) dist] by simp
    moreover have out: "?m' x = ?m x" if "x \<notin> set (block ?E 4608)" for x
      using that in_block [OF E, of x] i32 by (intro m') auto
    moreover have "cstring_at ?m' p name"
    proof -
      have "bytes_at ?m' p (name @ [0]) = bytes_at ?m p (name @ [0])"
        by (rule bytes_at_cong, rule out) (use args in auto)
      then show ?thesis using args by (simp add: cstring_at_def)
    qed
    moreover have "get_lookup t (d\<lparr>dl_mem := ?m'\<rparr>) = get_lookup t d" for t by (simp add: get_lookup_def)
    ultimately have "lookup_args alloc tid p name (d\<lparr>dl_mem := ?m'\<rparr>) lk (dl_resolve name es)"
        "dl_frame tid lk d (d\<lparr>dl_mem := ?m'\<rparr>)"
      using args by (simp_all add: lookup_args_def cache_holds_view dl_frame_def dl_resolve_names)
    moreover have "cldm_dlresolve tid p d = Some (Inr (d\<lparr>dl_mem := ?m'\<rparr>))"
      using args f w by (simp add: cldm_dlresolve_def str)
    ultimately show ?thesis using True by auto
  next
    case False
    then show ?thesis using find args by (simp add: cldm_dlresolve_def str)
  qed
qed


section \<open>Sequences of lookups\<close>

fun dl_calls ::
  "(nat \<Rightarrow> bool) \<Rightarrow> dl_env \<Rightarrow> nat \<Rightarrow> u64 \<Rightarrow> nat \<Rightarrow> dl \<Rightarrow> (u64 list \<times> dl) option" where
  "dl_calls alloc env tid p 0 d = Some ([], d)"
| "dl_calls alloc env tid p (Suc n) d =
     do { (a, d) \<leftarrow> cldm_dlsym_next alloc env tid p d;
          (as, d) \<leftarrow> dl_calls alloc env tid p n d;
          Some (a # as, d) }"

text \<open>The addresses of a name in the libraries that define it, in their order.\<close>

fun dl_defs :: "(u64 \<Rightarrow> u8 list \<Rightarrow> u64 option) \<Rightarrow> u8 list \<Rightarrow> u64 list \<Rightarrow> u64 list" where
  "dl_defs lookup name [] = []"
| "dl_defs lookup name (h # hs) =
     (case lookup h name of None \<Rightarrow> dl_defs lookup name hs | Some a \<Rightarrow> a # dl_defs lookup name hs)"

lemma dl_probe_defs:
  "dl_probe lookup name hs k = (a, k') \<Longrightarrow> unat k + length hs < 2 ^ 32 \<Longrightarrow>
   (case dl_defs lookup name hs of
      [] \<Rightarrow> a = 0 \<and> unat k' = unat k + length hs
    | x # xs \<Rightarrow> a = x \<and> unat k \<le> unat k' \<and> unat k' < unat k + length hs \<and>
        dl_defs lookup name (drop (unat k' - unat k + 1) hs) = xs)"
proof (induction hs arbitrary: k)
  case (Cons h hs)
  show ?case
  proof (cases "lookup h name")
    case None
    have k: "unat (k + 1) = unat k + 1" using Cons.prems(2) by (simp add: unat_add_nowrap)
    have "dl_probe lookup name hs (k + 1) = (a, k')" using Cons.prems(1) None by simp
    moreover have "Suc (unat k' - Suc (unat k)) = unat k' - unat k" if "Suc (unat k) \<le> unat k'" using that by simp
    ultimately show ?thesis
      using Cons.IH [of "k + 1"] Cons.prems(2) None k by (auto split: list.splits)
  next
    case (Some b)
    then show ?thesis using Cons.prems by simp
  qed
qed simp

lemma take_pad: "take (Suc n) (R @ replicate (Suc n) (0 :: u64)) =
    (case R of [] \<Rightarrow> 0 | x # xs \<Rightarrow> x) # take n (tl R @ replicate n 0)"
proof (cases R)
  case (Cons x xs)
  have "take n (xs @ replicate n 0 @ [0 :: u64]) = take n (xs @ replicate n 0)" by simp
  then show ?thesis using Cons by (simp add: replicate_append_same)
qed simp

text \<open>The entry of a name, of which the definitions \<open>R\<close> are still to be found.\<close>

definition unresolved :: "dl_env \<Rightarrow> u64 list \<Rightarrow> u8 list \<Rightarrow> dlentry list \<Rightarrow> nat \<Rightarrow> u64 list \<Rightarrow> u64 \<Rightarrow> bool" where
  "unresolved env hs name es n R a \<longleftrightarrow>
     (\<exists>i<length es. de_name (es ! i) = name \<and> \<not> de_resolved (es ! i) \<and> de_addr (es ! i) = a \<and>
        unat (de_loadidx (es ! i)) + n < 2 ^ 32 - 1 \<and>
        dl_defs (env_dlsym env) name (drop (unat (de_loadidx (es ! i)) + 1) hs) = R)"

lemma holds_distinct: "cache_holds m lk es \<Longrightarrow> distinct (map de_name es)"
  by (simp add: cache_holds_def cache_view_def)

lemma unresolved_next:
  assumes u: "unresolved env hs name es (Suc n) R a" and dist: "distinct (map de_name es)" and len: "length hs + n < 2 ^ 32 - 1"
  shows "fst (dl_next (env_dlsym env) hs name es) = (case R of [] \<Rightarrow> 0 | x # xs \<Rightarrow> x) \<and>
    unresolved env hs name (snd (dl_next (env_dlsym env) hs name es)) n (tl R) (case R of [] \<Rightarrow> 0 | x # xs \<Rightarrow> x)"
proof -
  from u obtain i where i: "i < length es" "de_name (es ! i) = name" "\<not> de_resolved (es ! i)"
      "unat (de_loadidx (es ! i)) + Suc n < 2 ^ 32 - 1"
      "dl_defs (env_dlsym env) name (drop (unat (de_loadidx (es ! i)) + 1) hs) = R"
    unfolding unresolved_def by blast
  let ?k = "de_loadidx (es ! i) + 1"
  have k: "unat ?k = unat (de_loadidx (es ! i)) + 1" using i(4) by (simp add: unat_add_nowrap)
  obtain b k' where p: "dl_probe (env_dlsym env) name (drop (unat ?k) hs) ?k = (b, k')"
    by (cases "dl_probe (env_dlsym env) name (drop (unat ?k) hs) ?k")
  have "unat ?k + length (drop (unat ?k) hs) < 2 ^ 32" using i(4) len k by simp
  from dl_probe_defs [OF p this] i(5) k
  have R: "case R of [] \<Rightarrow> b = 0 \<and> unat k' = unat ?k + length (drop (unat ?k) hs)
      | x # xs \<Rightarrow> b = x \<and> unat ?k \<le> unat k' \<and> unat k' < unat ?k + length (drop (unat ?k) hs) \<and>
          dl_defs (env_dlsym env) name (drop (unat k' - unat ?k + 1) (drop (unat ?k) hs)) = xs" by simp
  have b: "b = (case R of [] \<Rightarrow> 0 | x # xs \<Rightarrow> x)" using R by (cases R) auto
  have tl: "dl_defs (env_dlsym env) name (drop (unat k' + 1) hs) = tl R"
  proof (cases R)
    case Nil
    then show ?thesis using R by simp
  next
    case (Cons x xs)
    have le: "unat ?k \<le> unat k'" and xs: "dl_defs (env_dlsym env) name (drop (unat k' - unat ?k + 1) (drop (unat ?k) hs)) = xs"
      using R unfolding Cons list.case by blast+
    then show ?thesis using Cons by simp
  qed
  have "unat k' + n < 2 ^ 32 - 1" using R i(4) len k by (cases R) auto
  moreover have "dl_next (env_dlsym env) hs name es = (b, es[i := (es ! i)\<lparr>de_addr := b, de_loadidx := k'\<rparr>])"
    using dl_next_present [OF i(1,2) dist, of "env_dlsym env" hs] i(3) p by (simp add: Let_def)
  ultimately show ?thesis
    using b tl i(1,2,3) unfolding unresolved_def by (simp add: exI [of _ i])
qed


lemma dl_calls_unresolved:
  assumes "lookup_args alloc tid p name d lk es" and "dl_libs d = hs" and "dl_capacity lk \<noteq> 0"
    and "unresolved env hs name es n R a" and "length hs + n < 2 ^ 32 - 1"
  shows "\<exists>d' lk' es' R'. dl_calls alloc env tid p n d = Some (take n (R @ replicate n 0), d') \<and>
    lookup_args alloc tid p name d' lk' es' \<and> dl_libs d' = hs \<and> dl_capacity lk' \<noteq> 0 \<and>
    unresolved env hs name es' 0 R' (last (a # take n (R @ replicate n 0)))"
  using assms
proof (induction n arbitrary: d lk es R a)
  case 0
  then show ?case by auto
next
  case (Suc n)
  let ?a = "case R of [] \<Rightarrow> 0 | x # xs \<Rightarrow> x"
  have dist: "distinct (map de_name es)" using Suc.prems(1) holds_distinct by (auto simp: lookup_args_def)
  have "name \<in> de_name ` set es" using Suc.prems(4) by (auto simp: unresolved_def)
  from dlsym_next_refines [OF Suc.prems(1) disjI1 [OF this], of env] obtain d1 lk1 where d1:
      "cldm_dlsym_next alloc env tid p d = Some (fst (dl_next (env_dlsym env) hs name es), d1)"
      "lookup_args alloc tid p name d1 lk1 (snd (dl_next (env_dlsym env) hs name es))"
      "dl_capacity lk1 = 32" "dl_frame tid lk d d1" unfolding Suc.prems(2) by blast
  have next_u: "fst (dl_next (env_dlsym env) hs name es) = ?a"
      "unresolved env hs name (snd (dl_next (env_dlsym env) hs name es)) n (tl R) ?a"
    using unresolved_next [OF Suc.prems(4) dist] Suc.prems(5) by auto
  have "dl_libs d1 = hs" using d1(4) Suc.prems(2) by (simp add: dl_libs_def dl_frame_def)
  from Suc.IH [OF d1(2) this _ next_u(2)] d1(3) Suc.prems(5) obtain d' lk' es' R' where r:
      "dl_calls alloc env tid p n d1 = Some (take n (tl R @ replicate n 0), d')"
      "lookup_args alloc tid p name d' lk' es'" "dl_libs d' = hs" "dl_capacity lk' \<noteq> 0"
      "unresolved env hs name es' 0 R' (last (?a # take n (tl R @ replicate n 0)))" by auto
  have t: "take (Suc n) (R @ replicate (Suc n) 0) = ?a # take n (tl R @ replicate n 0)" by (rule take_pad)
  have l: "last (a # take (Suc n) (R @ replicate (Suc n) 0)) = last (?a # take n (tl R @ replicate n 0))"
    unfolding t by simp
  have "dl_calls alloc env tid p (Suc n) d = Some (?a # take n (tl R @ replicate n 0), d')"
    using d1(1) next_u(1) r(1) by simp
  then show ?case using r(2-5) unfolding l unfolding t by blast
qed

text \<open>C13: the calls of a lookup sequence, in the portable build, when every allocation succeeds and no two of the
  names involved have the same length and the same first character: the first call for a name returns its first
  definition in the libraries, and every further one, as long as the name is not resolved, the next definition,
  and null when there is no more; once the name is resolved, a call returns what the last one did.\<close>

theorem cldm_dlsym_next_sequence:
  assumes "lookup_args alloc tid p name d lk es" and "name \<notin> de_name ` set es" and "length es < 32"
    and "length (dl_libs d) + Suc n < 2 ^ 32 - 1"
    and "as = take (Suc n) (dl_defs (env_dlsym env) name (dl_libs d) @ replicate (Suc n) 0)"
  shows "\<exists>d1 d2 d3. dl_calls alloc env tid p (Suc n) d = Some (as, d1) \<and>
    cldm_dlresolve tid p d1 = Some (Inr d2) \<and> cldm_dlsym_next alloc env tid p d2 = Some (last as, d3)"
proof -
  let ?hs = "dl_libs d" and ?f = "env_dlsym env"
  let ?R = "dl_defs ?f name ?hs"
  let ?a = "case ?R of [] \<Rightarrow> 0 | x # xs \<Rightarrow> x"
  obtain b k where bk: "dl_probe ?f name ?hs 0 = (b, k)" by (cases "dl_probe ?f name ?hs 0")
  have R: "case ?R of [] \<Rightarrow> b = 0 \<and> unat k = length ?hs
      | x # xs \<Rightarrow> b = x \<and> unat k < length ?hs \<and> dl_defs ?f name (drop (unat k + 1) ?hs) = xs"
    using dl_probe_defs [OF bk] assms(4) by (auto split: list.splits)
  let ?e = "\<lparr>de_name = name, de_addr = b, de_loadidx = k, de_resolved = False\<rparr>"
  have nx: "dl_next ?f ?hs name es = (b, es @ [?e])" by (simp add: dl_next_absent [OF assms(2)] bk)
  from dlsym_next_refines [OF assms(1) disjI2 [OF assms(3)], of env] nx obtain d0 lk0 where d0:
      "cldm_dlsym_next alloc env tid p d = Some (b, d0)" "lookup_args alloc tid p name d0 lk0 (es @ [?e])"
      "dl_capacity lk0 = 32" "dl_frame tid lk d d0" by auto
  have b: "b = ?a" using R by (cases ?R) auto
  have "dl_defs ?f name (drop (unat k + 1) ?hs) = tl ?R" using R by (cases ?R) auto
  moreover have "unat k + n < 2 ^ 32 - 1" using R assms(4) by (cases ?R) auto
  ultimately have u: "unresolved env ?hs name (es @ [?e]) n (tl ?R) b"
    unfolding unresolved_def by (intro exI [of _ "length es"]) simp
  have libs: "dl_libs d0 = ?hs" using d0(4) by (simp add: dl_libs_def dl_frame_def)
  have cap: "dl_capacity lk0 \<noteq> 0" and len: "length ?hs + n < 2 ^ 32 - 1" using d0(3) assms(4) by simp_all
  from dl_calls_unresolved [OF d0(2) libs cap u len] obtain d1 lk1 es1 R1 where d1:
      "dl_calls alloc env tid p n d0 = Some (take n (tl ?R @ replicate n 0), d1)"
      "lookup_args alloc tid p name d1 lk1 es1" "dl_capacity lk1 \<noteq> 0"
      "unresolved env ?hs name es1 0 R1 (last (b # take n (tl ?R @ replicate n 0)))"
    by blast
  have as: "as = b # take n (tl ?R @ replicate n 0)" unfolding assms(5) b by (rule take_pad)
  then have calls: "dl_calls alloc env tid p (Suc n) d = Some (as, d1)" using d0(1) d1(1) by simp
  from d1(4) as obtain i where i: "i < length es1" "de_name (es1 ! i) = name" "de_addr (es1 ! i) = last as"
    by (auto simp: unresolved_def)
  then have name: "name \<in> de_name ` set es1" by force
  have dist: "distinct (map de_name es1)" using d1(2) holds_distinct by (auto simp: lookup_args_def)
  from dlresolve_refines [OF d1(2,3)] name obtain d2 where d2: "cldm_dlresolve tid p d1 = Some (Inr d2)"
      "lookup_args alloc tid p name d2 lk1 (dl_resolve name es1)" by auto
  have res: "dl_resolve name es1 = es1[i := (es1 ! i)\<lparr>de_resolved := True\<rparr>]" by (rule dl_resolve_update [OF i(1,2) dist])
  have "name \<in> de_name ` set (dl_resolve name es1)" using name by (simp only: dl_resolve_names)
  from dlsym_next_refines [OF d2(2) disjI1 [OF this], of env] obtain d3 where
      "cldm_dlsym_next alloc env tid p d2 = Some (fst (dl_next ?f (dl_libs d2) name (dl_resolve name es1)), d3)" by blast
  moreover have "distinct (map de_name (dl_resolve name es1))" using d2(2) holds_distinct by (auto simp: lookup_args_def)
  then have "fst (dl_next ?f (dl_libs d2) name (dl_resolve name es1)) = last as"
    using dl_next_present [of i "dl_resolve name es1" name] i by (simp add: res)
  ultimately show ?thesis using calls d2(1) by auto
qed


text \<open>A cache that was not used yet, over a static array in memory.\<close>

lemma cache_holds_init:
  assumes "dl_capacity lk = 0" and "1 < unat (dl_entries lk)" and "unat (dl_entries lk) + 4608 \<le> 2 ^ 64"
    and "mapped m (dl_entries lk) 4608"
  shows "cache_holds m lk []"
proof -
  have "ht_built m cldm_ht_init {}"
    using init_clean [of m] by (simp add: ht_built_def cldm_ht_init_def cldm_ht_static_capacity_def)
  moreover have "live_entries cldm_ht_init = {}"
    by (auto simp: live_entries_def cldm_ht_init_def cldm_ht_storage_def cldm_ht_static_capacity_def zero_entry_def
        cldm_ht_slot_vacant_def status_def CLDM_HASH_VACANT_def)
  ultimately show ?thesis
    using assms by (simp add: cache_holds_def cache_view_def cldm_dllookup_init_def CLDM_STATIC_LOOKUP_SIZE_def)
qed

definition sample_dl_mem :: mem where
  "sample_dl_mem a = (if a = 256 then Some 109 else if 256 < a \<and> a < 8704 then Some 0 else None)"

definition sample_dl :: dl where
  "sample_dl = \<lparr>dl_mem = sample_dl_mem,
     dllookups = [\<lparr>dl_ht = cldm_ht_init, dl_entries = 4096, dl_capacity = 0\<rparr>],
     ndlhandles = 3, dlhandles = [7, 8, 9], dlnames = []\<rparr>"

definition sample_dl_env :: dl_env where
  "sample_dl_env = \<lparr>env_dlopen = (\<lambda>_. 7), env_dlsym = (\<lambda>h _. if h = 8 then None else Some (h * 16)),
     env_malloc = (\<lambda>m _. (0, m)), env_realloc = (\<lambda>m _ _. (0, m))\<rparr>"

lemma sample_lookup_args:
  "lookup_args (\<lambda>_. True) 0 256 [109] sample_dl (dllookups sample_dl ! 0) []"
proof -
  have "mapped sample_dl_mem 4096 4608"
    by (auto simp: mapped_def sample_dl_mem_def in_block word_less_nat_alt word_le_nat_alt)
  then have "cache_holds sample_dl_mem \<lparr>dl_ht = cldm_ht_init, dl_entries = 4096, dl_capacity = 0\<rparr> []"
    by (intro cache_holds_init) simp_all
  moreover have "set (block (4096 :: u64) 4608) \<inter> set (block 256 (Suc 1)) = {}" by (auto simp: in_block)
  moreover have "cstring_at sample_dl_mem 256 [109]" by (simp add: cstring_at_def sample_dl_mem_def)
  ultimately show ?thesis by (simp add: lookup_args_def sample_dl_def get_lookup_def told_apart_def)
qed

theorem cldm_dlsym_next_sequence_witness:
  "\<exists>d1 d2 d3. dl_calls (\<lambda>_. True) sample_dl_env 0 256 (Suc 2) sample_dl = Some ([112, 144, 0], d1) \<and>
    cldm_dlresolve 0 256 d1 = Some (Inr d2) \<and>
    cldm_dlsym_next (\<lambda>_. True) sample_dl_env 0 256 d2 = Some (0, d3)"
proof -
  have len: "length (dl_libs sample_dl) + Suc 2 < 2 ^ 32 - 1" by (simp add: dl_libs_def sample_dl_def)
  have "[112, 144, 0] = take (Suc 2) (dl_defs (env_dlsym sample_dl_env) [109] (dl_libs sample_dl) @ replicate (Suc 2) 0)"
    by code_simp
  from cldm_dlsym_next_sequence [OF sample_lookup_args _ _ len this] show ?thesis by simp
qed

theorem cldm_dlsym_next_correct_witness:
  "\<exists>d' lk'. cldm_dlsym_next (\<lambda>_. True) sample_dl_env 0 256 sample_dl = Some (112, d') \<and>
    cache_holds (dl_mem d') lk' [\<lparr>de_name = [109], de_addr = 112, de_loadidx = 0, de_resolved = False\<rparr>]"
  using cldm_dlsym_next_correct [OF sample_lookup_args, of sample_dl_env]
  by (auto simp: sample_dl_def sample_dl_env_def dl_libs_def)


section \<open>Growth\<close>

lemma clear_clean:
  assumes "cldm_ht_storage ht = Some es" and "length es = unat (ht_capacity ht)" and "31 \<le> length es"
  shows "\<exists>ht'. cldm_ht_clear ht = Some ht' \<and> ht_clean m ht' {} \<and> ht_capacity ht' = ht_capacity ht"
proof -
  let ?ht = "(ht_set_storage ht (replicate (length es) zero_entry))\<lparr>ht_size := 0\<rparr>"
  have "slot_of m zero_entry = Vacant" "readable m zero_entry"
    by (simp_all add: slot_of_vacant readable_def slot_vacant_nat status_def zero_entry_def)
  then have "ht_view m ?ht (replicate (length es) Vacant)"
    using assms by (simp add: ht_view_def storage_set [OF assms(1)])
  moreover have "slots_ok (replicate (length es) Vacant)" by (intro slots_ok_replicate) (use assms(3) in linarith)
  ultimately have "ht_clean m ?ht {}"
    unfolding ht_clean_def by (intro exI [of _ "replicate (length es) Vacant"]) auto
  then show ?thesis using assms by (auto simp: cldm_ht_clear_def)
qed

lemma dl_reinsert_clean:
  assumes "cldm_dllookup_entry m lk = Some a" and "cstring_at m a s" and "1 < unat a"
    and "length s < 2 ^ 64"
  shows "ht_clean m ht ks \<Longrightarrow> ks \<subseteq> {s} \<Longrightarrow> 31 \<le> unat (ht_capacity ht) \<Longrightarrow>
    \<exists>ht'. dl_reinsert alloc m lk n ht = Some ht' \<and> ht_clean m ht' (if n = 0 then ks else {s})"
proof (induction n arbitrary: ht ks)
  case (Suc n)
  let ?e = "\<lparr>ent_key = a, ent_size = of_nat (length s)\<rparr> :: cldm_ht_entry"
  have "key_entry m ?e s"
    using assms by (simp add: key_entry_def cstring_at_def bytes_at_append unat_of_nat)
  moreover have "card ks \<le> 1" using Suc.prems(2) card_mono [of "{s}" ks] by simp
  then have room: "has_room ht (Suc (card ks))" using Suc.prems(3) by (simp add: has_room_def)
  moreover have one: "told_apart (insert s ks)"
    by (rule told_apart_subset [of "{s}"]) (use Suc.prems(2) in \<open>auto simp: told_apart_def\<close>)
  ultimately obtain r ht1 where "insert_step cldm_memcmp m ht ?e = Some (r, ht1)" "ht_clean m ht1 (insert s ks)"
      "ht_capacity ht1 = ht_capacity ht"
    using insert_step_clean [OF cldm_memcmp_told_apart _ Suc.prems(1) room] one by blast
  moreover from this have "insert s ks = {s}" using Suc.prems(2) by auto
  ultimately have i: "cldm_ht_insert cldm_memcmp alloc m ht ?e = Some (r, ht1)" "ht_clean m ht1 {s}" "31 \<le> unat (ht_capacity ht1)"
    using Suc.prems(3) ht_insert_room [OF Suc.prems(1) room]
    by (simp_all add: cldm_ht_insert_def numeral_2_eq_2 del: ht_insert.simps)
  from Suc.IH [OF i(2) _ i(3)] obtain ht' where "dl_reinsert alloc m lk n ht1 = Some ht'" "ht_clean m ht' {s}"
    by (auto split: if_splits)
  then show ?case using i(1) by (simp add: assms(1) mkentry_cstring [OF assms(2)])
qed auto

lemma mapped_bytes: "mapped m a n \<Longrightarrow> \<exists>bs. length bs = n \<and> bytes_at m a bs"
proof (induction n arbitrary: a)
  case (Suc n)
  then obtain b bs where "m a = Some b" "length bs = n" "bytes_at m (a + 1) bs" by (fastforce simp: mapped_Suc)
  then show ?case by (intro exI [of _ "b # bs"]) simp
qed simp

lemma cstring_prefix:
  "bytes_at m a bs \<Longrightarrow> 0 \<in> set bs \<Longrightarrow> cstring_at m a (takeWhile (\<lambda>b. b \<noteq> 0) bs)"
  by (induction bs arbitrary: a) (auto simp: cstring_at_def)

text \<open>The lookups of some names one after the other.\<close>

fun dl_lookups :: "(nat \<Rightarrow> bool) \<Rightarrow> dl_env \<Rightarrow> nat \<Rightarrow> u64 list \<Rightarrow> dl \<Rightarrow> dl option" where
  "dl_lookups alloc env tid [] d = Some d"
| "dl_lookups alloc env tid (p # ps) d =
     do { (_, d) \<leftarrow> cldm_dlsym_next alloc env tid p d; dl_lookups alloc env tid ps d }"

definition short_name :: "mem \<Rightarrow> u64 \<Rightarrow> u64 \<Rightarrow> u8 list \<Rightarrow> bool" where
  "short_name m E p name \<longleftrightarrow> cstring_at m p name \<and> 1 < unat p \<and> length name \<le> 1 \<and>
     set (block E 4608) \<inter> set (block p (Suc (length name))) = {}"

lemma short_name_cong:
  assumes "short_name m E p name" and "\<And>x. x \<notin> set (block E 4608) \<Longrightarrow> m' x = m x"
  shows "short_name m' E p name"
proof -
  have "bytes_at m' p (name @ [0]) = bytes_at m p (name @ [0])"
    by (rule bytes_at_cong, rule assms(2)) (use assms(1) in \<open>auto simp: short_name_def\<close>)
  then show ?thesis using assms(1) by (simp add: short_name_def cstring_at_def)
qed

lemma dl_lookups_fill:
  assumes alloc: "\<forall>n. alloc n"
  shows "get_lookup tid d = Some lk \<Longrightarrow> cache_holds (dl_mem d) lk es \<Longrightarrow> list_all2 (short_name (dl_mem d) (dl_entries lk)) ps ns \<Longrightarrow>
    list_all (\<lambda>n. length n \<le> 1) (map de_name es) \<Longrightarrow> distinct (map de_name es @ ns) \<Longrightarrow> length es + length ps \<le> 32 \<Longrightarrow>
    \<exists>d' lk' es'. dl_lookups alloc env tid ps d = Some d' \<and> get_lookup tid d' = Some lk' \<and>
      cache_holds (dl_mem d') lk' es' \<and> map de_name es' = map de_name es @ ns \<and>
      (ps \<noteq> [] \<longrightarrow> dl_capacity lk' = 32) \<and> dl_entries lk' = dl_entries lk \<and>
      (\<forall>x. x \<notin> set (block (dl_entries lk) 4608) \<longrightarrow> dl_mem d' x = dl_mem d x)"
proof (induction ps arbitrary: d lk es ns)
  case Nil
  then show ?case by auto
next
  case (Cons p ps)
  then obtain n ns' where n: "ns = n # ns'" "short_name (dl_mem d) (dl_entries lk) p n"
      "list_all2 (short_name (dl_mem d) (dl_entries lk)) ps ns'" by (auto simp: list_all2_Cons1)
  have "told_apart (insert n (de_name ` set es))"
    by (rule told_apart_subset [OF told_apart_single]) (use n(2) Cons.prems(4) in \<open>auto simp: short_name_def list_all_iff\<close>)
  then have args: "lookup_args alloc tid p n d lk es"
    using Cons.prems(1,2) n(2) alloc by (auto simp: lookup_args_def short_name_def)
  have new: "n \<notin> de_name ` set es" using Cons.prems(5) n(1) by auto
  have short: "length n \<le> 1" using n(2) by (simp add: short_name_def)
  from dlsym_next_refines [OF args, of env] Cons.prems(6) obtain d1 lk1 where
    1: "cldm_dlsym_next alloc env tid p d = Some (fst (dl_next (env_dlsym env) (dl_libs d) n es), d1)"
      "lookup_args alloc tid p n d1 lk1 (snd (dl_next (env_dlsym env) (dl_libs d) n es))"
      "dl_capacity lk1 = 32" "dl_frame tid lk d d1" "dl_entries lk1 = dl_entries lk" by auto
  obtain e where e: "snd (dl_next (env_dlsym env) (dl_libs d) n es) = es @ [e]" "de_name e = n"
    by (cases "dl_probe (env_dlsym env) n (dl_libs d) 0") (auto simp: dl_next_absent [OF new])
  have frame: "dl_mem d1 x = dl_mem d x" if "x \<notin> set (block (dl_entries lk) 4608)" for x
    using 1(4) that by (simp add: dl_frame_def)
  have "list_all2 (short_name (dl_mem d1) (dl_entries lk1)) ps ns'"
    unfolding 1(5) by (rule list_all2_mono [OF n(3)]) (rule short_name_cong [OF _ frame])
  moreover have "get_lookup tid d1 = Some lk1" "cache_holds (dl_mem d1) lk1 (es @ [e])"
    using 1(2) e(1) by (auto simp: lookup_args_def)
  ultimately obtain d' lk' es' where
    2: "dl_lookups alloc env tid ps d1 = Some d'" "get_lookup tid d' = Some lk'" "cache_holds (dl_mem d') lk' es'"
      "map de_name es' = map de_name (es @ [e]) @ ns'" "ps \<noteq> [] \<longrightarrow> dl_capacity lk' = 32" "dl_entries lk' = dl_entries lk1"
      "\<forall>x. x \<notin> set (block (dl_entries lk1) 4608) \<longrightarrow> dl_mem d' x = dl_mem d1 x"
    using Cons.IH [of d1 lk1 "es @ [e]" ns'] Cons.prems(4-6) n(1) short e(2) by auto
  have "dl_capacity lk' = 32"
  proof (cases ps)
    case Nil
    then show ?thesis using 2(1,2) 1(2,3) by (auto simp: lookup_args_def)
  qed (use 2(5) in simp)
  then show ?case using 1(1,5) 2 frame e(2) n(1) by auto
qed

text \<open>C36: in the portable build, when a full cache grows, all entries but one are forgotten: the pointer to the
  new block overlays the first entry and the loop enters that one, as the string the pointer's bytes spell, 32
  times. Names in the cache that were found before are not found any more, resolved or not; a name is found
  only when the comparison takes it for that string.\<close>

theorem cldm_dllookup_growth_forgets:
  assumes "cache_view m lk es" and "length es = 32" and "told_apart (de_name ` set es)"
    and "env_malloc env m 9216 = (addr, m1)" and "s = takeWhile (\<lambda>b. b \<noteq> 0) (le_bytes 8 addr)"
    and "0 \<in> set (le_bytes 8 addr)" and "addr \<noteq> 0" and "mapped m1 (dl_entries lk) 4608" and "mapped m1 addr 4608"
    and "set (block addr 4608) \<inter> set (block (dl_entries lk) 4608) = {}"
  shows "(\<forall>e name. key_entry m e name \<and> name \<in> de_name ` set es \<longrightarrow>
      (\<exists>i. cldm_ht_find cldm_memcmp m (dl_ht lk) e = Some (Some i))) \<and>
    (\<exists>m' lk'. cldm_dllookup_ensure_capacity alloc env m lk = Some (True, m', lk') \<and> dl_capacity lk' = 64 \<and>
      (\<forall>x. x \<notin> set (block (dl_entries lk) 4608) \<union> set (block addr 4608) \<longrightarrow> m' x = m1 x) \<and>
      (\<forall>e name. key_entry m' e name \<and> name \<noteq> s \<and> told_apart {name, s} \<longrightarrow>
         cldm_ht_find cldm_memcmp m' (dl_ht lk') e = Some None))"
proof (intro conjI)
  have wf: "ht_wf m (dl_ht lk) (de_name ` set es)" using assms(1) by (simp add: cache_view_def ht_built_def ht_clean_wf)
  have "\<exists>i. cldm_ht_find cldm_memcmp m (dl_ht lk) e = Some (Some i)" if "key_entry m e name" "name \<in> de_name ` set es" for e name
  proof -
    have "mem_compare cldm_memcmp (insert name (de_name ` set es))"
      using cldm_memcmp_told_apart [OF assms(3)] that(2) by (simp add: insert_absorb)
    from cldm_ht_find' [OF this that(1) wf] that(2) show ?thesis by auto
  qed
  then show "\<forall>e name. key_entry m e name \<and> name \<in> de_name ` set es \<longrightarrow>
      (\<exists>i. cldm_ht_find cldm_memcmp m (dl_ht lk) e = Some (Some i))" by blast
next
  let ?E = "dl_entries lk"
  have lk: "dl_capacity lk = 32" "ht_size (dl_ht lk) = 32" "1 < unat ?E"
    using assms(1) cache_view_size [OF assms(1)] assms(2) by (simp_all add: cache_view_def)
  obtain slots where slots: "cldm_ht_storage (dl_ht lk) = Some slots" "length slots = unat (ht_capacity (dl_ht lk))" "31 \<le> length slots"
    using assms(1) by (auto simp: cache_view_def ht_built_def ht_clean_def ht_view_def)
  obtain bs where bs: "length bs = 4608" "bytes_at m1 ?E bs" using mapped_bytes [OF assms(8)] by auto
  let ?m2 = "mem_put m1 addr bs"
  have copy: "cldm_memcpy m1 addr ?E 4608 = Some ?m2"
    using memcpy_loop_put [OF bs(2), of addr] bs(1) assms(9,10) by (simp add: cldm_memcpy_def)
  let ?m' = "mem_put ?m2 ?E (le_bytes 8 addr)"
  have sub: "set (block ?E 8) \<subseteq> set (block ?E 4608)" using block_append [of ?E 8 4600] by simp
  then have "mapped m1 ?E 8" by (rule mapped_subset [OF assms(8)])
  then have w: "wr64 ?m2 ?E addr = Some ?m'" by (simp add: wr64_def mem_wrn_put mapped_mem_put)
  have "bytes_at ?m' ?E (le_bytes 8 addr)" by (rule bytes_at_mem_put) simp
  then have s: "cstring_at ?m' ?E s" using assms(6) unfolding assms(5) by (rule cstring_prefix)
  have "length s \<le> 8" unfolding assms(5) using length_takeWhile_le [of _ "le_bytes 8 addr"] by simp
  then have len: "length s < 2 ^ 64" by simp
  obtain ht where ht: "cldm_ht_clear (dl_ht lk) = Some ht" "ht_clean ?m' ht {}" "ht_capacity ht = ht_capacity (dl_ht lk)"
    using clear_clean [OF slots] by blast
  have base: "cldm_dllookup_entry ?m' lk = Some ?E" by (simp add: cldm_dllookup_entry_def lk(1) CLDM_STATIC_LOOKUP_SIZE_def)
  from dl_reinsert_clean [OF base s lk(3) len ht(2), of alloc 32] obtain ht' where
    ht': "dl_reinsert alloc ?m' lk 32 ht = Some ht'" "ht_clean ?m' ht' {s}"
    using ht(3) slots(2,3) by (auto simp del: dl_reinsert.simps)
  let ?lk = "lk\<lparr>dl_ht := ht', dl_capacity := 64\<rparr>"
  have "cldm_ht_find cldm_memcmp ?m' ht' e = Some None" if "key_entry ?m' e name" "name \<noteq> s" "told_apart {name, s}" for e name
    using cldm_ht_find' [OF cldm_memcmp_told_apart [OF that(3)] that(1) ht_clean_wf [OF ht'(2)]] that(2) by auto
  then have "\<forall>e name. key_entry ?m' e name \<and> name \<noteq> s \<and> told_apart {name, s} \<longrightarrow>
      cldm_ht_find cldm_memcmp ?m' (dl_ht ?lk) e = Some None" by simp blast
  moreover have "?m' x = m1 x" if "x \<notin> set (block ?E 4608) \<union> set (block addr 4608)" for x
  proof -
    have "x \<notin> set (block ?E (length (le_bytes 8 addr)))" "x \<notin> set (block addr (length bs))" using that sub bs(1) by auto
    then show ?thesis using mem_put_outside [of x ?E "le_bytes 8 addr" ?m2] mem_put_outside [of x addr bs m1] by simp
  qed
  moreover have "dl_capacity ?lk = 64" by simp
  moreover have "cldm_dllookup_ensure_capacity alloc env m lk = Some (True, ?m', ?lk)"
    using copy w ht(1) ht'(1) lk assms(4,7)
    by (simp add: cldm_dllookup_ensure_capacity_def cldm_ht_size_def CLDM_STATIC_LOOKUP_SIZE_def sizeof_dlentry_def Let_def
        del: dl_reinsert.simps)
  ultimately show "\<exists>m' lk'. cldm_dllookup_ensure_capacity alloc env m lk = Some (True, m', lk') \<and> dl_capacity lk' = 64 \<and>
      (\<forall>x. x \<notin> set (block ?E 4608) \<union> set (block addr 4608) \<longrightarrow> m' x = m1 x) \<and>
      (\<forall>e name. key_entry m' e name \<and> name \<noteq> s \<and> told_apart {name, s} \<longrightarrow>
         cldm_ht_find cldm_memcmp m' (dl_ht lk') e = Some None)" by blast
qed

text \<open>The one-character names \<open>A\<close>, \<open>B\<close>, and so on, two bytes apart.\<close>

definition full_mem :: mem where
  "full_mem a =
     (if 256 \<le> a \<and> a < 320 then Some (if even (unat a) then 65 + drop_bit 1 (ucast a - 256) else 0)
      else if a < 32768 then Some 0 else None)"

definition full_dl :: dl where
  "full_dl = \<lparr>dl_mem = full_mem, dllookups = [\<lparr>dl_ht = cldm_ht_init, dl_entries = 4096, dl_capacity = 0\<rparr>],
     ndlhandles = 1, dlhandles = [7], dlnames = []\<rparr>"

definition full_env :: dl_env where
  "full_env = \<lparr>env_dlopen = (\<lambda>_. 7), env_dlsym = (\<lambda>_ _. Some 1000),
     env_malloc = (\<lambda>m _. (16384, m)), env_realloc = (\<lambda>m _ _. (0, m))\<rparr>"

definition full_ps :: "u64 list" where
  "full_ps = map (\<lambda>i. 256 + 2 * of_nat i) [0..<32]"

definition full_ns :: "u8 list list" where
  "full_ns = map (\<lambda>i. [65 + of_nat i]) [0..<32]"

lemma full_mem_names:
  "i < 32 \<Longrightarrow> cstring_at full_mem (256 + 2 * of_nat i) [65 + of_nat i]"
proof -
  have "list_all (\<lambda>i. full_mem (256 + 2 * of_nat i) = Some (65 + of_nat i) \<and> full_mem (257 + 2 * of_nat i) = Some 0 \<and>
      (65 + of_nat i :: u8) \<noteq> 0) [0..<32]" by code_simp
  then show "i < 32 \<Longrightarrow> cstring_at full_mem (256 + 2 * of_nat i) [65 + of_nat i]"
    by (auto simp: list_all_iff cstring_at_def add.commute)
qed

lemma full_names: "list_all2 (short_name full_mem 4096) full_ps full_ns"
proof -
  have "short_name full_mem 4096 (256 + 2 * of_nat i) [65 + of_nat i]" if "i < 32" for i
  proof -
    have "unat (2 * of_nat i :: u64) = 2 * i" using that by (simp add: unat_word_ariths unat_of_nat)
    then have u: "unat (256 + 2 * of_nat i :: u64) = 256 + 2 * i" using that by (simp add: unat_add_nowrap)
    then have "set (block 4096 4608) \<inter> set (block (256 + 2 * of_nat i) (Suc (length [65 + of_nat i :: u8]))) = {}"
      using that by (auto simp: in_block simp del: block.simps)
    moreover have "1 < unat (256 + 2 * of_nat i :: u64)" unfolding u by simp
    ultimately show ?thesis unfolding short_name_def using full_mem_names [OF that] by simp
  qed
  then show ?thesis by (simp add: list_all2_conv_all_nth full_ps_def full_ns_def)
qed

lemma full_mem_mapped: "unat a + 4608 \<le> 32768 \<Longrightarrow> mapped full_mem a 4608"
  by (auto simp: mapped_def full_mem_def in_block word_less_nat_alt)

lemma full_cache:
  "\<exists>d lk es. dl_lookups (\<lambda>_. True) full_env 0 full_ps full_dl = Some d \<and> get_lookup 0 d = Some lk \<and>
     cache_view (dl_mem d) lk es \<and> map de_name es = full_ns \<and> dl_entries lk = 4096 \<and>
     (\<forall>x. x \<notin> set (block 4096 4608) \<longrightarrow> dl_mem d x = full_mem x)"
proof -
  let ?lk = "\<lparr>dl_ht = cldm_ht_init, dl_entries = 4096, dl_capacity = 0\<rparr>"
  have "cache_holds full_mem ?lk []" by (rule cache_holds_init) (simp_all add: full_mem_mapped)
  moreover have "distinct full_ns" by code_simp
  moreover have "length full_ps = 32" "full_ps \<noteq> []" by (simp_all add: full_ps_def)
  moreover have "get_lookup 0 full_dl = Some ?lk" by (simp add: get_lookup_def full_dl_def)
  ultimately obtain d lk es where "dl_lookups (\<lambda>_. True) full_env 0 full_ps full_dl = Some d" "get_lookup 0 d = Some lk"
      "cache_holds (dl_mem d) lk es" "map de_name es = full_ns" "dl_capacity lk = 32" "dl_entries lk = 4096"
      "\<forall>x. x \<notin> set (block 4096 4608) \<longrightarrow> dl_mem d x = full_mem x"
    using dl_lookups_fill [of "\<lambda>_. True" 0 full_dl ?lk "[]" full_ps full_ns full_env] full_names
    by (auto simp: full_dl_def)
  then show ?thesis by (intro exI [of _ d] exI [of _ lk] exI [of _ es]) (simp add: cache_holds_def)
qed

theorem cldm_dllookup_growth_forgets_witness:
  "\<exists>d lk i m' lk'. dl_lookups (\<lambda>_. True) full_env 0 full_ps full_dl = Some d \<and> get_lookup 0 d = Some lk \<and>
     cldm_ht_find cldm_memcmp (dl_mem d) (dl_ht lk) \<lparr>ent_key = 256, ent_size = 1\<rparr> = Some (Some i) \<and>
     cldm_dllookup_ensure_capacity (\<lambda>_. True) full_env (dl_mem d) lk = Some (True, m', lk') \<and>
     cldm_ht_find cldm_memcmp m' (dl_ht lk') \<lparr>ent_key = 256, ent_size = 1\<rparr> = Some None"
proof -
  obtain d lk es where d: "dl_lookups (\<lambda>_. True) full_env 0 full_ps full_dl = Some d" "get_lookup 0 d = Some lk"
      "cache_view (dl_mem d) lk es" "map de_name es = full_ns" "dl_entries lk = 4096"
      "\<forall>x. x \<notin> set (block 4096 4608) \<longrightarrow> dl_mem d x = full_mem x" using full_cache by blast
  have names: "de_name ` set es = set full_ns" using d(4) by (metis list.set_map)
  have len: "length es = 32" using d(4) using map_eq_imp_length_eq [of de_name es "\<lambda>x. x" full_ns] by (simp add: full_ns_def)
  have apart: "told_apart (de_name ` set es)"
    by (rule told_apart_subset [OF told_apart_single]) (auto simp: names full_ns_def)
  have malloc: "env_malloc full_env (dl_mem d) 9216 = (16384, dl_mem d)" by (simp add: full_env_def)
  have s: "[] = takeWhile (\<lambda>b. b \<noteq> 0) (le_bytes 8 (16384 :: u64))" and z: "0 \<in> set (le_bytes 8 (16384 :: u64))" by code_simp+
  have m1: "mapped (dl_mem d) (dl_entries lk) 4608" using d(3) by (simp add: cache_view_def)
  have out: "x \<notin> set (block (4096 :: u64) 4608)" if "x \<in> set (block 16384 4608)" for x using that by (auto simp: in_block)
  have "mapped full_mem 16384 4608" by (rule full_mem_mapped) simp
  then have m2: "mapped (dl_mem d) 16384 4608" using d(6) out by (simp add: mapped_def)
  have dis: "set (block 16384 4608) \<inter> set (block (dl_entries lk) 4608) = {}" using out by (auto simp: d(5))
  let ?e = "\<lparr>ent_key = 256, ent_size = 1\<rparr> :: cldm_ht_entry"
  have nz: "(16384 :: u64) \<noteq> 0" by simp
  note grow = cldm_dllookup_growth_forgets [OF d(3) len apart malloc s z nz m1 m2 dis, of "\<lambda>_. True", unfolded d(5)]
  have at: "x \<notin> set (block (4096 :: u64) 4608) \<union> set (block 16384 4608)" if "x = 256" for x :: u64
    using that by (auto simp: in_block)
  have "full_mem 256 = Some 65" by code_simp
  then have key: "key_entry m' ?e [65]" if "m' 256 = full_mem 256" for m' using that by (simp add: key_entry_def)
  have "key_entry (dl_mem d) ?e [65]" using d(6) at by (intro key) simp
  moreover have "[65] \<in> de_name ` set es" unfolding names by (simp add: full_ns_def image_iff) (rule bexI [of _ 0], simp_all)
  ultimately obtain i where i: "cldm_ht_find cldm_memcmp (dl_mem d) (dl_ht lk) ?e = Some (Some i)" using conjunct1 [OF grow] by blast
  obtain m' lk' where g: "cldm_dllookup_ensure_capacity (\<lambda>_. True) full_env (dl_mem d) lk = Some (True, m', lk')"
      "\<forall>x. x \<notin> set (block 4096 4608) \<union> set (block 16384 4608) \<longrightarrow> m' x = dl_mem d x"
      "\<forall>e name. key_entry m' e name \<and> name \<noteq> [] \<and> told_apart {name, []} \<longrightarrow> cldm_ht_find cldm_memcmp m' (dl_ht lk') e = Some None"
    using grow by auto
  have "m' 256 = full_mem 256" using g(2) d(6) at by simp
  then have "key_entry m' ?e [65]" by (rule key)
  then have "cldm_ht_find cldm_memcmp m' (dl_ht lk') ?e = Some None" using g(3) by (auto simp: told_apart_def)
  then show ?thesis using d(1,2) i g(1) by blast
qed

section \<open>The libraries\<close>

lemma libc_buffer_string:
  "i < 10 \<Longrightarrow> buffer_string (libc_buffer i) = Some (cstr ''libc.so.'' @ [48 + of_nat i])"
  "10 \<le> i \<Longrightarrow> i < 33 \<Longrightarrow> buffer_string (libc_buffer i) = None"
proof -
  have "\<forall>i\<in>set [0..<10]. buffer_string (libc_buffer i) = Some (cstr ''libc.so.'' @ [48 + of_nat i])" by code_simp
  then show "i < 10 \<Longrightarrow> buffer_string (libc_buffer i) = Some (cstr ''libc.so.'' @ [48 + of_nat i])" by simp
  have "\<forall>i\<in>set [10..<33]. buffer_string (libc_buffer i) = None" by code_simp
  then show "10 \<le> i \<Longrightarrow> i < 33 \<Longrightarrow> buffer_string (libc_buffer i) = None" by (metis atLeastLessThan_iff set_upt)
qed

definition libc_name :: "nat \<Rightarrow> u8 list" where
  "libc_name i = cstr ''libc.so.'' @ [48 + of_nat i]"

lemma libc_loop_low:
  "\<forall>i\<in>set is. i < 10 \<Longrightarrow> libc_loop env (is @ js) =
     (case find (\<lambda>i. env_dlopen env (libc_name i) \<noteq> 0) is of
        Some i \<Rightarrow> Some (Some (libc_name i, env_dlopen env (libc_name i))) | None \<Rightarrow> libc_loop env js)"
  by (induction "is") (simp_all add: libc_buffer_string(1) libc_name_def)

text \<open>The C library is found in its lowest version below 10 that can be opened, and its handle is closed again;
  when there is none, the name of version 10 has no terminator, and the result is undefined.\<close>

theorem cldm_dlmap_explicit_version:
  "cldm_dlmap_explicit env =
     (case find (\<lambda>i. env_dlopen env (libc_name i) \<noteq> 0) [0..<10] of
        None \<Rightarrow> None
      | Some i \<Rightarrow> let h = env_dlopen env (libc_name i); (status, as) = load_explicit env h explicit_names
                  in Some (status, as, [Dlclose h]))"
proof -
  have split: "[0..<CLDM_MAX_LIBC_VERSION + 1] = [0..<10] @ 10 # [11..<33]" by code_simp
  have "libc_loop env ([0..<10] @ 10 # [11..<33]) =
     (case find (\<lambda>i. env_dlopen env (libc_name i) \<noteq> 0) [0..<10] of
        Some i \<Rightarrow> Some (Some (libc_name i, env_dlopen env (libc_name i))) | None \<Rightarrow> libc_loop env (10 # [11..<33]))"
    by (rule libc_loop_low) simp
  moreover have "libc_loop env (10 # is) = None" for "is" by (simp add: libc_buffer_string(2))
  ultimately show ?thesis unfolding cldm_dlmap_explicit_def split
    by (cases "find (\<lambda>i. env_dlopen env (libc_name i) \<noteq> 0) [0..<10]") (simp_all only: option.case bind.simps Let_def split_beta fst_conv snd_conv)
qed

lemma dl_needed_loop_released:
  assumes "dl_needed_loop env jobs buf nbytes i d = Some x"
  shows "fst x = - 1 \<longrightarrow> cldm_dlfree jobs (fst (snd x)) = Some (snd (snd x))"
proof (rule dl_needed_loop.raw_induct [OF _ assms, where P =
      "\<lambda>env jobs buf nbytes i d x. fst x = - 1 \<longrightarrow> cldm_dlfree jobs (fst (snd x)) = Some (snd (snd x))"], goal_cases)
  case (1 f env jobs buf nbytes i d x)
  note IH = 1(1) and body = 1(2)
  show ?case
  proof (cases "i < nbytes")
    case False
    then show ?thesis using body by auto
  next
    case True
    let ?a = "buf + ucast i"
    from True body obtain n c where nc: "c_strlen (dl_mem d) ?a = Some n" "strncmp_to (dl_mem d) CLDM_SOLIB ?a = Some c"
      by (auto simp: bind_eq_Some_conv Let_def)
    show ?thesis
    proof (cases "c = 0 \<or> CLDM_MAX_SODEPS \<le> ndlhandles d")
      case skip: True
      then show ?thesis using IH body True nc by (simp add: Let_def)
    next
      case False
      from False True body nc obtain name where name: "c_string (dl_mem d) ?a = Some name"
        by (auto simp: bind_eq_Some_conv Let_def)
      show ?thesis
      proof (cases "env_dlopen env name = 0")
        case fail: True
        then show ?thesis using body True nc False name by (auto simp: Let_def bind_eq_Some_conv)
      next
        case ok: False
        then show ?thesis using IH body True nc False name by (simp add: Let_def)
      qed
    qed
  qed
qed

text \<open>When a needed library cannot be loaded, the handles are released at once, and they stay recorded: the
  release at the end of \<open>main\<close> makes the same calls a second time.\<close>

theorem cldm_dlmap_needed_released_twice:
  assumes "cldm_elf_read_needed (dl_mem d) em buf CLDM_DLBUF_SIZE = Some (nbytes, m)" and "0 \<le> nbytes"
    and "cldm_dlmap_needed env jobs em buf d = Some (- 1, d', calls)"
  shows "cldm_dlfree jobs d' = Some calls"
proof -
  have "dl_needed_loop env jobs buf (of_int nbytes) 0 (d\<lparr>dl_mem := m\<rparr>) = Some (- 1, d', calls)"
    using assms by (simp add: cldm_dlmap_needed_def)
  from dl_needed_loop_released [OF this] show ?thesis by simp
qed


section \<open>The libraries that are loaded\<close>

lemma strncmp_to_prefix:
  "cstring_at m a s \<Longrightarrow> 0 \<notin> set p \<Longrightarrow> \<exists>c. strncmp_to m p a = Some c \<and> (c = 0 \<longleftrightarrow> take (length p) s = p)"
proof (induction p arbitrary: a s)
  case (Cons x p)
  show ?case
  proof (cases s)
    case Nil
    then show ?thesis using Cons.prems by (auto simp: cstring_at_def uint_0_iff)
  next
    case (Cons y t)
    then have "cstring_at m (a + 1) t" "m a = Some y" using Cons.prems(1) by (auto simp: cstring_at_def)
    then show ?thesis using Cons.IH [of "a + 1" t] Cons.prems(2) Cons by (auto simp: word_uint_eq_iff)
  qed
qed simp

definition is_solib :: "u8 list \<Rightarrow> bool" where
  "is_solib name \<longleftrightarrow> take (length CLDM_SOLIB) name = CLDM_SOLIB"

lemma dl_needed_loop_names:
  assumes "bytes_at (dl_mem d) buf (joined (xs @ ys))" and "\<forall>n\<in>set ys. 0 \<notin> set n \<and> n \<noteq> [] \<and> (is_solib n \<or> env_dlopen env n \<noteq> 0)"
    and "xs @ ys \<noteq> []" and "length (joined (xs @ ys)) < 2 ^ 32"
    and "ndlhandles d + length (filter (\<lambda>n. \<not> is_solib n) ys) \<le> 32" and "length (dlhandles d) = 32"
    and "i = of_nat (length (joined xs))" and "nbytes = of_nat (length (joined (xs @ ys)) - 1)"
  shows "\<exists>d'. dl_needed_loop env jobs buf nbytes i d = Some (int (ndlhandles d'), d', []) \<and>
    dl_libs d' = dl_libs d @ map (env_dlopen env) (filter (\<lambda>n. \<not> is_solib n) ys) \<and>
    ndlhandles d' = ndlhandles d + length (filter (\<lambda>n. \<not> is_solib n) ys) \<and> dllookups d' = dllookups d"
  using assms
proof (induction ys arbitrary: xs d i)
  case Nil
  then have "\<not> i < nbytes" by (simp add: word_less_nat_alt unat_of_nat)
  then show ?case by (subst dl_needed_loop.simps) auto
next
  case (Cons n ys)
  let ?a = "buf + ucast i"
  have n0: "0 \<notin> set n" "n \<noteq> []" "is_solib n \<or> env_dlopen env n \<noteq> 0" using Cons.prems(2) by auto
  have len: "length (joined xs) < 2 ^ 32" using Cons.prems(4) by simp
  have "(ucast i :: u64) = of_nat (length (joined xs))"
    using Cons.prems(7) len by (simp add: word_unat_eq_iff unsigned_ucast_eq take_bit_nat_def unat_of_nat)
  then have a: "?a = buf + of_nat (length (joined xs))" by simp
  have c: "cstring_at (dl_mem d) ?a n" unfolding a by (rule joined_cstring [OF Cons.prems(1) n0(1)])
  have "unat i = length (joined xs)" unfolding Cons.prems(7) by (subst unat_of_nat) (use len in simp)
  moreover have "unat nbytes = length (joined (xs @ n # ys)) - 1"
    unfolding Cons.prems(8) by (subst unat_of_nat) (use Cons.prems(4) in simp)
  ultimately have lt: "i < nbytes" using n0(2) by (simp add: word_less_nat_alt)
  have "0 \<notin> set CLDM_SOLIB" by code_simp
  from strncmp_to_prefix [OF c this] obtain k where k: "strncmp_to (dl_mem d) CLDM_SOLIB ?a = Some k" "k = 0 \<longleftrightarrow> is_solib n"
    unfolding is_solib_def by blast
  have i': "i + of_nat (length n) + 1 = of_nat (length (joined (xs @ [n])))" using Cons.prems(7) by simp
  have xs': "bytes_at (dl_mem d) buf (joined ((xs @ [n]) @ ys))" "(xs @ [n]) @ ys \<noteq> []"
      "length (joined ((xs @ [n]) @ ys)) < 2 ^ 32" "nbytes = of_nat (length (joined ((xs @ [n]) @ ys)) - 1)"
    using Cons.prems(1,4,8) by simp_all
  have ys: "\<forall>n\<in>set ys. 0 \<notin> set n \<and> n \<noteq> [] \<and> (is_solib n \<or> env_dlopen env n \<noteq> 0)" using Cons.prems(2) by simp
  show ?case
  proof (cases "is_solib n")
    case True
    then have "dl_needed_loop env jobs buf nbytes i d = dl_needed_loop env jobs buf nbytes (i + of_nat (length n) + 1) d"
      using lt k c by (subst dl_needed_loop.simps) (simp add: c_strlen_cstring Let_def)
    moreover have "ndlhandles d + length (filter (\<lambda>n. \<not> is_solib n) ys) \<le> 32" using Cons.prems(5) True by simp
    ultimately show ?thesis
      using Cons.IH [OF xs'(1) ys xs'(2,3) _ Cons.prems(6) i' xs'(4)] True by simp
  next
    case False
    let ?h = "env_dlopen env n"
    let ?d = "d\<lparr>dlhandles := (dlhandles d)[ndlhandles d := ?h],
        dlnames := (dlnames d)[ndlhandles d := take (CLDM_DLNAME_MAX_SIZE - 1) n], ndlhandles := ndlhandles d + 1\<rparr>"
    have room: "ndlhandles d < 32" using Cons.prems(5) False by simp
    then have "dl_needed_loop env jobs buf nbytes i d = dl_needed_loop env jobs buf nbytes (i + of_nat (length n) + 1) ?d"
      using lt k c False n0(3)
      by (subst dl_needed_loop.simps) (simp add: c_strlen_cstring c_string_cstring Let_def CLDM_MAX_SODEPS_def)
    moreover have "ndlhandles ?d + length (filter (\<lambda>n. \<not> is_solib n) ys) \<le> 32" using Cons.prems(5) False by simp
    moreover have "dl_libs ?d = dl_libs d @ [?h]"
      using room Cons.prems(6) by (simp add: dl_libs_def take_Suc_conv_app_nth)
    ultimately show ?thesis
      using Cons.IH [of ?d "xs @ [n]", OF _ ys xs'(2,3) _ _ i' xs'(4)] Cons.prems(6) xs'(1) False by simp
  qed
qed


text \<open>C23: the libraries that the executable needs, apart from the program's own, are loaded in their order when there
  are at most 32 and all of them can be: the handles are theirs, and the result is their number.\<close>

theorem cldm_dlmap_needed_correct:
  assumes "section_view (dl_mem d) em hs" and "list_all2 (named_at (dl_mem d) em SHT_DYNAMIC) hs names"
    and "\<forall>x \<in> set hs. sh_type (snd x) = SHT_DYNAMIC \<longrightarrow> dynamic_view (dl_mem d) em (snd x) ds \<and>
      set (block buf (unat CLDM_DLBUF_SIZE)) \<inter> dynamic_footprint em (snd x) ds = {}"
    and "find (section_named SHT_DYNAMIC str_dynamic) (zip hs names) \<noteq> None"
    and "mapped (dl_mem d) buf (unat CLDM_DLBUF_SIZE)" and "length (joined (needed ds)) < unat CLDM_DLBUF_SIZE"
    and "libs = filter (\<lambda>n. \<not> is_solib n) (needed ds)" and "needed ds \<noteq> []" and "length libs \<le> 32"
    and "\<forall>n\<in>set (needed ds). 0 \<notin> set n \<and> n \<noteq> []" and "\<forall>n\<in>set libs. env_dlopen env n \<noteq> 0"
    and "ndlhandles d = 0" and "length (dlhandles d) = 32"
  shows "\<exists>d'. cldm_dlmap_needed env jobs em buf d = Some (int (length libs), d', []) \<and>
    dl_libs d' = map (env_dlopen env) libs \<and> dllookups d' = dllookups d"
proof -
  obtain m' where m': "cldm_elf_read_needed (dl_mem d) em buf CLDM_DLBUF_SIZE = Some (int (length (joined (needed ds))) - 1, m')"
      "bytes_at m' buf (joined (needed ds))"
    using elf_read_needed_find [OF assms(1-3,5,6)] assms(4) by (auto split: option.splits)
  let ?n = "length (joined (needed ds))"
  have pos: "0 < ?n" using assms(8) by (cases "needed ds") simp_all
  have "?n < 2 ^ 32" using assms(6) by (simp add: CLDM_DLBUF_SIZE_def)
  moreover have "of_int (int ?n - 1) = (of_nat (?n - 1) :: u32)" using pos by (cases ?n) simp_all
  moreover have "\<forall>n\<in>set (needed ds). 0 \<notin> set n \<and> n \<noteq> [] \<and> (is_solib n \<or> env_dlopen env n \<noteq> 0)"
    using assms(7,10,11) by auto
  ultimately obtain d' where d': "dl_needed_loop env jobs buf (of_int (int ?n - 1)) 0 (d\<lparr>dl_mem := m'\<rparr>) =
        Some (int (ndlhandles d'), d', [])"
      "dl_libs d' = dl_libs (d\<lparr>dl_mem := m'\<rparr>) @ map (env_dlopen env) (filter (\<lambda>n. \<not> is_solib n) (needed ds))"
      "ndlhandles d' = length libs" "dllookups d' = dllookups d"
    using dl_needed_loop_names [of "d\<lparr>dl_mem := m'\<rparr>" buf "[]" "needed ds" env 0 "of_int (int ?n - 1)" jobs]
      m'(2) assms(7-9,12,13) by auto
  then have "cldm_dlmap_needed env jobs em buf d = Some (int (length libs), d', [])"
    using pos by (simp add: cldm_dlmap_needed_def m'(1))
  moreover have "dl_libs d' = map (env_dlopen env) libs" using d'(2) assms(7,12) by (simp add: dl_libs_def)
  ultimately show ?thesis using d'(4) by blast
qed

end
