(* ===== verification/Elfdump_Correct.thy ===== *)
theory Elfdump_Correct
  imports Elfdump Dl_Correct
begin

text \<open>
  Correctness of the listings of \<^verbatim>\<open>cldm/cldm_elfdump.c\<close>: which strings of a buffer they print.
\<close>

text \<open>The lines of strings with their offsets.\<close>

fun with_offsets :: "(u8 list \<Rightarrow> nat \<Rightarrow> u8 list) \<Rightarrow> nat \<Rightarrow> u8 list list \<Rightarrow> u8 list list" where
  "with_offsets line i [] = []"
| "with_offsets line i (n # ns) = line n i # with_offsets line (i + length n + 1) ns"

lemma with_offsets_plain: "with_offsets (\<lambda>s _. s) i ns = ns"
  by (induction ns arbitrary: i) auto

text \<open>The number of bytes ends somewhere in the last string.\<close>

lemma dump_strings_joined:
  assumes "bytes_at m buf (joined (xs @ ys @ [z]))" and "\<forall>n\<in>set ys. 0 \<notin> set n" and "0 \<notin> set z"
    and "length (joined (xs @ ys)) < nbytes" and "nbytes \<le> length (joined (xs @ ys @ [z]))"
  shows "dump_strings line m buf nbytes (length (joined xs)) = Some (with_offsets line (length (joined xs)) (ys @ [z]))"
  using assms
proof (induction ys arbitrary: xs)
  case Nil
  then have "cstring_at m (buf + of_nat (length (joined xs))) z" by (intro joined_cstring [of _ _ xs z "[]"]) simp_all
  moreover have "dump_strings line m buf nbytes (length (joined xs) + length z + 1) = Some []"
    using Nil by (subst dump_strings.simps) simp
  ultimately show ?case using Nil by (subst dump_strings.simps) (simp add: c_string_cstring)
next
  case (Cons n ys)
  then have "cstring_at m (buf + of_nat (length (joined xs))) n" by (intro joined_cstring [of _ _ xs n "ys @ [z]"]) simp_all
  moreover have "length (joined xs) < nbytes" using Cons.prems by simp
  moreover have "dump_strings line m buf nbytes (length (joined (xs @ [n]))) = Some (with_offsets line (length (joined (xs @ [n]))) (ys @ [z]))"
    using Cons.prems by (intro Cons.IH) simp_all
  ultimately show ?case by (subst dump_strings.simps) (simp add: c_string_cstring)
qed

text \<open>The listing of the needed libraries has their names, in their order, behind its heading; without a
  \<^verbatim>\<open>.dynamic\<close> section or needed libraries it fails and prints nothing.\<close>

theorem cldm_elfdump_needed_correct:
  assumes "section_view m em hs" and "list_all2 (named_at m em SHT_DYNAMIC) hs names"
    and "\<forall>x \<in> set hs. sh_type (snd x) = SHT_DYNAMIC \<longrightarrow> dynamic_view m em (snd x) ds \<and>
      set (block buf (unat pgsize)) \<inter> dynamic_footprint em (snd x) ds = {}"
    and "mapped m buf (unat pgsize)" and "length (joined (needed ds)) < unat pgsize"
    and "\<forall>n\<in>set (needed ds). 0 \<notin> set n \<and> n \<noteq> []"
  shows "cldm_elfdump_needed m em buf pgsize =
    Some (if find (section_named SHT_DYNAMIC str_dynamic) (zip hs names) = None \<or> needed ds = [] then (- 1, [])
          else (0, cstr ''needed:'' # needed ds))"
proof (cases "find (section_named SHT_DYNAMIC str_dynamic) (zip hs names)")
  case None
  then show ?thesis using elf_read_needed_find [OF assms(1-5)] by (simp add: cldm_elfdump_needed_def)
next
  case (Some x)
  with elf_read_needed_find [OF assms(1-5)] obtain m' where m':
      "cldm_elf_read_needed m em buf pgsize = Some (int (length (joined (needed ds))) - 1, m')"
      "bytes_at m' buf (joined (needed ds))" by auto
  show ?thesis
  proof (cases "needed ds" rule: rev_cases)
    case Nil
    then show ?thesis using m'(1) Some by (simp add: cldm_elfdump_needed_def)
  next
    case (snoc ys z)
    let ?n = "length (joined (needed ds)) - 1"
    have z: "0 \<notin> set z" "z \<noteq> []" and ys: "\<forall>n\<in>set ys. 0 \<notin> set n" using assms(6) snoc by auto
    have "dump_strings (\<lambda>s _. s) m' buf ?n (length (joined [])) = Some (with_offsets (\<lambda>s _. s) (length (joined [])) (ys @ [z]))"
      using m'(2) z ys snoc by (intro dump_strings_joined) simp_all
    moreover have "nat (int (length (joined (needed ds))) - 1) = ?n" "0 \<le> int (length (joined (needed ds))) - 1"
      using snoc by simp_all
    ultimately show ?thesis using m'(1) Some snoc by (simp add: cldm_elfdump_needed_def with_offsets_plain)
  qed
qed

text \<open>The listing of \<^verbatim>\<open>.strtab\<close> has the strings with their offsets, but the terminator of the last one is not
  copied: its line goes on with what the buffer held before.\<close>

theorem cldm_elfdump_strtab_last:
  assumes "bytes_at m (str_addr (map_strtab em)) (joined (ys @ [z]))"
    and "unat (str_size (map_strtab em)) + 1 = length (joined (ys @ [z]))"
    and "\<forall>n\<in>set ys. 0 \<notin> set n" and "0 \<notin> set z" and "z \<noteq> []" and "str_size (map_strtab em) \<le> pgsize"
    and "unat (str_size (map_strtab em)) < 2 ^ 63" and "mapped m buf (unat (str_size (map_strtab em)))"
    and "set (block buf (unat (str_size (map_strtab em)))) \<inter> set (block (str_addr (map_strtab em)) (unat (str_size (map_strtab em)))) = {}"
    and "cstring_at m (buf + str_size (map_strtab em)) stale" and "length (joined (ys @ [z])) + length stale < 2 ^ 64"
  shows "cldm_elfdump_strtab m em buf pgsize str_strtab = Some (0, str_strtab # with_offsets strtab_line 0 (ys @ [z @ stale]))"
proof -
  let ?n = "unat (str_size (map_strtab em))" and ?a = "str_addr (map_strtab em)"
  have eq: "joined (ys @ [z]) = (joined ys @ z) @ [0]" by simp
  then have n: "?n = length (joined ys @ z)" using assms(2) by simp
  have src: "bytes_at m ?a (joined ys @ z)" using assms(1) unfolding eq bytes_at_append by blast
  let ?m' = "mem_put m buf (joined ys @ z)"
  have copy: "cldm_memcpy m buf ?a (str_size (map_strtab em)) = Some ?m'"
    using memcpy_loop_put [OF src, of buf] assms(8,9) n by (simp add: cldm_memcpy_def)
  have "bytes_at ?m' (buf + of_nat ?n) (stale @ [0]) = bytes_at m (buf + of_nat ?n) (stale @ [0])"
  proof (rule bytes_at_cong, rule mem_put_outside)
    fix x assume x: "x \<in> set (block (buf + of_nat ?n) (length (stale @ [0])))"
    have "distinct (block buf (?n + length (stale @ [0])))" using assms(11) n by (intro distinct_block) simp
    then have "set (block buf ?n) \<inter> set (block (buf + of_nat ?n) (length (stale @ [0]))) = {}"
      by (simp only: block_append distinct_append)
    then show "x \<notin> set (block buf (length (joined ys @ z)))" unfolding n [symmetric] using x by blast
  qed
  then have "bytes_at ?m' (buf + of_nat ?n) (stale @ [0])" using assms(10) by (simp add: cstring_at_def)
  moreover have "bytes_at ?m' buf (joined ys @ z)" using assms(11) by (intro bytes_at_mem_put) simp
  ultimately have "bytes_at ?m' buf ((joined ys @ z) @ stale @ [0])" unfolding bytes_at_append [of _ _ "joined ys @ z"] n by simp
  moreover have "(joined ys @ z) @ stale @ [0] = joined ([] @ ys @ [z @ stale])" by simp
  ultimately have "bytes_at ?m' buf (joined ([] @ ys @ [z @ stale]))" by metis
  moreover have "0 \<notin> set (z @ stale)" using assms(4,10) by (simp add: cstring_at_def)
  moreover have "length (joined ([] @ ys)) < ?n" "?n \<le> length (joined ([] @ ys @ [z @ stale]))" using assms(5) n by simp_all
  ultimately have "dump_strings strtab_line ?m' buf ?n (length (joined [])) =
      Some (with_offsets strtab_line (length (joined [])) (ys @ [z @ stale]))"
    using assms(3) by (intro dump_strings_joined)
  moreover have "sint (str_size (map_strtab em)) = int ?n" using assms(7) by (intro sint_of_unat) simp
  ultimately show ?thesis
    using copy leD [OF assms(6)] by (simp add: cldm_elfdump_strtab_def cldm_elf_read_strtab_def)
qed

end
