(* ===== verification/Elf_Example.thy ===== *)
theory Elf_Example
  imports Elf_Needed
begin

text \<open>
  A small executable, byte by byte, at which the theorems on the reader of the executable apply.
\<close>

text \<open>A file with the sections \<^verbatim>\<open>.symtab\<close> (unnamed), \<^verbatim>\<open>.strtab\<close>, \<^verbatim>\<open>.dynstr\<close>, the names of the sections and
  \<^verbatim>\<open>.dynamic\<close>, mapped at address 0, with a free buffer behind it. It gives the bytes that are not 0.\<close>

definition file_image :: "int \<Rightarrow> (int \<times> u8) list \<Rightarrow> mem" where
  "file_image n bytes a =
     (let i = uint a in if i < n then Some (case map_of bytes i of Some b \<Rightarrow> b | None \<Rightarrow> 0) else None)"

definition sample_image :: mem where
  "sample_image = file_image 1600
     [(32, 64), (40, 120), (54, 56), (56, 1), (58, 64), (60, 5), (62, 3), (124, 2), (144, 184),
      (145, 1), (152, 48), (184, 1), (188, 3), (208, 232), (209, 1), (216, 6), (248, 9), (252,
      3), (272, 238), (273, 1), (280, 5), (316, 3), (336, 243), (337, 1), (344, 26), (376, 17),
      (380, 6), (400, 13), (401, 2), (408, 48), (464, 1), (470, 1), (472, 16), (489, 109), (490,
      97), (491, 105), (492, 110), (495, 99), (497, 109), (500, 46), (501, 115), (502, 116),
      (503, 114), (504, 116), (505, 97), (506, 98), (508, 46), (509, 100), (510, 121), (511,
      110), (512, 115), (513, 116), (514, 114), (516, 46), (517, 100), (518, 121), (519, 110),
      (520, 97), (521, 109), (522, 105), (523, 99), (525, 1), (533, 1), (541, 1), (549, 3)]"

definition sample_map :: cldm_elfmap where
  "sample_map = \<lparr>map_size = 573, m_addr = 0, map_shstrtab = 499,
     map_strtab = \<lparr>str_addr = 488, str_size = 5\<rparr>, map_dynstr = \<lparr>str_addr = 494, str_size = 4\<rparr>,
     baseaddr = 0x401000\<rparr>"

definition sample_shdr :: "u32 \<Rightarrow> u32 \<Rightarrow> u64 \<Rightarrow> u64 \<Rightarrow> Elf64_Shdr" where
  "sample_shdr name type off sz =
     \<lparr>sh_name = name, sh_type = type, sh_flags = 0, sh_addr = 0, sh_offset = off, sh_size = sz\<rparr>"

definition sample_sections :: "(u64 \<times> Elf64_Shdr) list" where
  "sample_sections =
     [(120, sample_shdr 0 2 440 48), (184, sample_shdr 1 3 488 6), (248, sample_shdr 9 3 494 5),
      (312, sample_shdr 0 3 499 26), (376, sample_shdr 17 6 525 48)]"

definition sample_names :: "u8 list list" where
  "sample_names = [[], str_strtab, str_dynstr, [], str_dynamic]"

definition sample_symbols :: "symbol list list" where
  "sample_symbols =
     [[(440, \<lparr>st_name = 0, st_info = 0, st_other = 0, st_shndx = 0, st_value = 0, st_size = 0\<rparr>, []),
       (464, \<lparr>st_name = 1, st_info = 0, st_other = 0, st_shndx = 1, st_value = 16, st_size = 0\<rparr>, str_main)],
      [], [], [], []]"

lemma sample_section_0: "section_at sample_image sample_map 0 (sample_sections ! 0)"
  by code_simp

lemma sample_section_1: "section_at sample_image sample_map 1 (sample_sections ! 1)"
  by code_simp

lemma sample_section_2: "section_at sample_image sample_map 2 (sample_sections ! 2)"
  by code_simp

lemma sample_section_3: "section_at sample_image sample_map 3 (sample_sections ! 3)"
  by code_simp

lemma sample_section_4: "section_at sample_image sample_map 4 (sample_sections ! 4)"
  by code_simp

lemma sample_sections_view: "section_view sample_image sample_map sample_sections"
proof -
  have "map_option unat (e_shnum sample_image sample_map) = Some (length sample_sections)" by code_simp
  moreover have "length sample_sections = 5" by (simp add: sample_sections_def)
  moreover have "i \<in> {0, 1, 2, 3, 4}" if "i < 5" for i :: nat using that by auto
  ultimately show ?thesis
    using sample_section_0 sample_section_1 sample_section_2 sample_section_3 sample_section_4
    unfolding section_view_def by auto
qed

lemma sample_symbols_view: "list_all2 (symtab_view sample_image sample_map) sample_sections sample_symbols"
  by code_simp

lemma sample_names_view: "list_all2 (name_at sample_image sample_map) sample_sections sample_names"
  by code_simp

lemma sample_phdr_view: "phdr_view sample_image sample_map [0]"
  by code_simp

lemma sample_file_view:
  "file_view sample_image sample_map sample_sections sample_names sample_symbols [0]"
  using sample_sections_view sample_symbols_view sample_names_view sample_phdr_view
  by (simp add: file_view_def)

theorem cldm_elf_symlookup_correct_witness: "cldm_elf_symlookup sample_image sample_map str_main = Some 0x401010"
proof -
  have "\<forall>(a, y, n) \<in> set (concat sample_symbols). shndx_ok sample_sections y" by code_simp
  from cldm_elf_symlookup_correct [OF sample_sections_view sample_symbols_view this, of str_main]
  show ?thesis by (simp add: sample_symbols_def symbol_named_def symbol_address_def sample_map_def
    STN_UNDEF_def SHN_UNDEF_def SHN_ABS_def str_main_def)
qed

text \<open>A position-independent executable: \<^verbatim>\<open>main\<close> is at \<open>0x401010\<close>, its symbol has the value \<open>0x10\<close>.\<close>

definition sample_os :: elf_os where
  "sample_os = \<lparr>os_open = (\<lambda>_. 3), os_fstat = (\<lambda>_. Some 573), os_mmap = (\<lambda>_ _. Some 0), os_munmap = (\<lambda>_ _. True)\<rparr>"

theorem cldm_map_elf_correct_witness:
  "cldm_map_elf sample_image sample_os 0x401010 zero_elfmap [] = Some (0, sample_map, [Close 3]) \<and>
   cldm_elf_symlookup sample_image sample_map str_main = Some 0x401010"
proof -
  have ndx: "e_shstrndx sample_image sample_map = Some 3" by code_simp
  have st: "last_strtab str_strtab sample_sections sample_names = Some (sample_sections ! 1)" by code_simp
  have dy: "last_strtab str_dynstr sample_sections sample_names = Some (sample_sections ! 2)" by code_simp
  have main: "find (symbol_named str_main) (concat sample_symbols) = Some (464,
    \<lparr>st_name = 1, st_info = 0, st_other = 0, st_shndx = 1, st_value = 16, st_size = 0\<rparr>, str_main)" by code_simp
  show ?thesis
    using cldm_map_elf_correct [where os = sample_os and path = "[]" and fd = 3 and sz = 573 and a = 0
        and addr = "0x401010", OF _ _ _ _ _ sample_file_view ndx _ _ _ st dy main, of zero_elfmap]
    by (simp add: sample_os_def sample_map_def sample_sections_def sample_shdr_def strtab_of_def
        SHN_UNDEF_def SHN_ABS_def shndx_ok_def)
qed

definition sample_needed :: "(Elf64_Dyn \<times> u8 list) list" where
  "sample_needed = [(\<lparr>d_tag = 1, d_val = 1\<rparr>, [99]), (\<lparr>d_tag = 1, d_val = 3\<rparr>, [109]), (\<lparr>d_tag = 0, d_val = 0\<rparr>, [])]"

theorem cldm_elf_read_needed_correct_witness:
  "\<exists>m'. cldm_elf_read_needed sample_image sample_map 573 8 = Some (3, m') \<and> bytes_at m' 573 [99, 0, 109, 0]"
proof -
  have names: "list_all2 (named_at sample_image sample_map SHT_DYNAMIC) sample_sections sample_names" by code_simp
  have dyn: "\<forall>x \<in> set sample_sections. sh_type (snd x) = SHT_DYNAMIC \<longrightarrow>
      dynamic_view sample_image sample_map (snd x) sample_needed \<and>
      set (block 573 (unat (8 :: u64))) \<inter> dynamic_footprint sample_map (snd x) sample_needed = {}"
    by code_simp
  have "find (section_named SHT_DYNAMIC str_dynamic) (zip sample_sections sample_names) =
      Some (sample_sections ! 4, str_dynamic)" by code_simp
  moreover have "mapped sample_image 573 (unat (8 :: u64))" by code_simp
  moreover have "joined (needed sample_needed) = [99, 0, 109, 0]" by code_simp
  ultimately show ?thesis
    using cldm_elf_read_needed_correct [OF sample_sections_view names dyn] by auto
qed

text \<open>When the names fill the buffer exactly, the result is the length of the last one, a success.\<close>

lemma cldm_elf_read_needed_full:
  "map_option fst (cldm_elf_read_needed sample_image sample_map 573 4) = Some 1"
  by code_simp

end
