(* ===== verification/Dl_Example.thy ===== *)
theory Dl_Example
  imports Dl_Correct Elf_Example
begin

text \<open>The second library of the small executable cannot be loaded.\<close>

definition needing_dl :: dl where
  "needing_dl = \<lparr>dl_mem = sample_image, dllookups = [], ndlhandles = 0, dlhandles = replicate 32 0,
     dlnames = replicate 32 []\<rparr>"

definition needing_env :: dl_env where
  "needing_env = \<lparr>env_dlopen = (\<lambda>n. if n = [99] then 7 else 0), env_dlsym = (\<lambda>_ _. None),
     env_malloc = (\<lambda>m _. (0, m)), env_realloc = (\<lambda>m _ _. (0, m))\<rparr>"

theorem cldm_dlmap_needed_released_twice_witness:
  "\<exists>d'. cldm_dlmap_needed needing_env 0 sample_map 573 needing_dl = Some (- 1, d', [Dlclose 7]) \<and>
     cldm_dlfree 0 d' = Some [Dlclose 7]"
proof -
  have "map_option fst (cldm_elf_read_needed (dl_mem needing_dl) sample_map 573 CLDM_DLBUF_SIZE) = Some 3" by code_simp
  then obtain m where m: "cldm_elf_read_needed (dl_mem needing_dl) sample_map 573 CLDM_DLBUF_SIZE = Some (3, m)" by auto
  have "map_option (\<lambda>(r, d', cs). (r, cs)) (cldm_dlmap_needed needing_env 0 sample_map 573 needing_dl) =
      Some (- 1, [Dlclose 7])" by code_simp
  then obtain d' where d': "cldm_dlmap_needed needing_env 0 sample_map 573 needing_dl = Some (- 1, d', [Dlclose 7])" by auto
  from cldm_dlmap_needed_released_twice [OF m _ d'] d' show ?thesis by simp
qed

text \<open>Here both can be.\<close>

lemma file_image_None: "file_image n bytes a \<noteq> None \<longleftrightarrow> uint a < n"
  by (simp add: file_image_def Let_def)

definition loading_env :: dl_env where
  "loading_env = \<lparr>env_dlopen = (\<lambda>n. if n = [99] then 7 else 8), env_dlsym = (\<lambda>_ _. None),
     env_malloc = (\<lambda>m _. (0, m)), env_realloc = (\<lambda>m _ _. (0, m))\<rparr>"

lemma sample_sections_named:
  "list_all2 (named_at sample_image sample_map SHT_DYNAMIC) sample_sections sample_names"
  by code_simp

lemma sample_dynamic_found: "find (section_named SHT_DYNAMIC str_dynamic) (zip sample_sections sample_names) \<noteq> None"
  by code_simp

lemma sample_dynamic_view:
  "\<forall>x \<in> set sample_sections. sh_type (snd x) = SHT_DYNAMIC \<longrightarrow>
     dynamic_view sample_image sample_map (snd x) sample_needed \<and>
     set (block 573 1024) \<inter> dynamic_footprint sample_map (snd x) sample_needed = {}"
proof -
  have "\<forall>x \<in> set sample_sections. sh_type (snd x) = SHT_DYNAMIC \<longrightarrow>
      dynamic_view sample_image sample_map (snd x) sample_needed \<and>
      (\<forall>y \<in> dynamic_footprint sample_map (snd x) sample_needed. y < 573)" by code_simp
  moreover have "y \<notin> set (block 573 1024)" if "y < 573" for y :: u64
    using that by (simp add: in_block word_less_nat_alt del: block_numeral)
  ultimately show ?thesis by blast
qed

lemma sample_room: "mapped sample_image 573 1024"
  unfolding mapped_def sample_image_def file_image_None
proof
  fix x :: u64
  assume "x \<in> set (block 573 1024)"
  then have "unat x < 1600" using in_block [of 573 1024 x] by (simp del: block_numeral)
  then show "uint x < 1600" by (metis of_nat_less_iff of_nat_numeral uint_nat)
qed

lemma sample_needed_names: "needed sample_needed = [[99], [109]]"
  by code_simp

theorem cldm_dlmap_needed_correct_witness:
  "\<exists>d'. cldm_dlmap_needed loading_env 0 sample_map 573 needing_dl = Some (2, d', []) \<and> dl_libs d' = [7, 8]"
proof -
  have mem: "dl_mem needing_dl = sample_image" by (simp add: needing_dl_def)
  have size: "unat CLDM_DLBUF_SIZE = 1024" by (simp add: CLDM_DLBUF_SIZE_def)
  have libs: "[[99], [109]] = filter (\<lambda>n. \<not> is_solib n) (needed sample_needed)" by code_simp
  show ?thesis
    using cldm_dlmap_needed_correct [of needing_dl, unfolded mem size, OF sample_sections_view sample_sections_named
        sample_dynamic_view sample_dynamic_found sample_room _ libs, of loading_env 0]
    by (auto simp: sample_needed_names loading_env_def needing_dl_def)
qed

end
