(* ===== verification/Elfdump_Example.thy ===== *)
theory Elfdump_Example
  imports Elfdump_Correct Dl_Example
begin

text \<open>The listings of the small executable, and of a table of two strings whose buffer is not cleared.\<close>

theorem cldm_elfdump_needed_correct_witness:
  "cldm_elfdump_needed sample_image sample_map 573 1024 = Some (0, [cstr ''needed:'', [99], [109]])"
proof -
  have size: "unat (1024 :: u64) = 1024" by simp
  show ?thesis
    using cldm_elfdump_needed_correct [OF sample_sections_view sample_sections_named, of sample_needed 573 1024, unfolded size,
        OF sample_dynamic_view sample_room] sample_dynamic_found
    by (auto simp: sample_needed_names)
qed

definition two_strings :: mem where
  "two_strings a = (if a < 16 then Some ([0, 97, 0, 98, 0, 0, 0, 0, 1, 1, 1, 1, 99, 0, 0, 0] ! unat a) else None)"

theorem cldm_elfdump_strtab_last_witness:
  "cldm_elfdump_strtab two_strings (sample_map\<lparr>map_strtab := \<lparr>str_addr = 0, str_size = 4\<rparr>\<rparr>) 8 8 str_strtab =
   Some (0, str_strtab # with_offsets strtab_line 0 [[], [97], [98, 99]])"
proof -
  have 1: "bytes_at two_strings 0 (joined [[], [97], [98]])" "mapped two_strings 8 4"
      "set (block 8 4) \<inter> set (block (0 :: u64) 4) = {}" "cstring_at two_strings (8 + 4) [99]" by code_simp+
  then show ?thesis
    using cldm_elfdump_strtab_last [of two_strings "sample_map\<lparr>map_strtab := \<lparr>str_addr = 0, str_size = 4\<rparr>\<rparr>" "[[], [97]]"
        "[98]" 8 8 "[99]"]
    by simp
qed

end
