(* ===== verification/Io.thy ===== *)
theory Io
  imports Argp
begin

text \<open>
  \<^verbatim>\<open>cldm/cldm_io.c\<close>: redirecting the standard streams into files while the tests run, printing what they
  captured, and restoring the streams. The descriptors, streams and files of the process are explicit:
  a descriptor refers to an open file, several may refer to the same one, a stream has a descriptor and
  the output that is not flushed yet. Output reaches a file when its stream is flushed or closed; all
  descriptors that the program writes through append. Error messages are not represented.
\<close>

section \<open>The environment\<close>

text \<open>A descriptor refers to one of the three standard files of the process or to a file with a number.\<close>

datatype ofile = Standard nat | Inode nat

record io =
  io_fds :: "int \<Rightarrow> ofile option"
  io_names :: "u8 list \<Rightarrow> nat option"
  io_data :: "nat \<Rightarrow> u8 list"
  io_printed :: "nat \<Rightarrow> u8 list"
  io_next :: nat
  io_streams :: "nat \<Rightarrow> (int \<times> u8 list) option"
  io_newstream :: nat
  cldm_stdout :: nat
  cldm_stderr :: nat
  cldm_stdoutfd :: int
  cldm_stderrfd :: int

text \<open>Which calls the system lets succeed. A stream is its number; 0 is the null pointer.\<close>

datatype io_call =
    Open "u8 list" | Fopen "u8 list" | Dup int | Dup2 int int | Stat "u8 list" | Fstat int | Remove "u8 list"

type_synonym io_env = "io_call \<Rightarrow> bool"

definition std_out :: nat where "std_out = 1"
definition std_err :: nat where "std_err = 2"

definition MAX_FD :: nat where "MAX_FD = 1024"

text \<open>A new descriptor is the lowest one that is not in use.\<close>

fun free_fd :: "(int \<Rightarrow> ofile option) \<Rightarrow> int \<Rightarrow> nat \<Rightarrow> int option" where
  "free_fd fds d 0 = None"
| "free_fd fds d (Suc n) = (if fds d = None then Some d else free_fd fds (d + 1) n)"

definition sys_write :: "ofile \<Rightarrow> u8 list \<Rightarrow> io \<Rightarrow> io" where
  "sys_write f bs s =
     (case f of
        Standard k \<Rightarrow> s\<lparr>io_printed := (io_printed s)(k := io_printed s k @ bs)\<rparr>
      | Inode i \<Rightarrow> s\<lparr>io_data := (io_data s)(i := io_data s i @ bs)\<rparr>)"

definition io_install :: "ofile \<Rightarrow> io \<Rightarrow> int \<times> io" where
  "io_install f s =
     (case free_fd (io_fds s) 0 MAX_FD of
        None \<Rightarrow> (- 1, s)
      | Some d \<Rightarrow> (d, s\<lparr>io_fds := (io_fds s)(d \<mapsto> f)\<rparr>))"

definition io_full :: "io \<Rightarrow> bool" where
  "io_full s \<longleftrightarrow> free_fd (io_fds s) 0 MAX_FD = None"

text \<open>The file of a name, which is created when there is none.\<close>

definition io_create :: "u8 list \<Rightarrow> io \<Rightarrow> nat \<times> io" where
  "io_create path s =
     (case io_names s path of
        Some i \<Rightarrow> (i, s)
      | None \<Rightarrow> (io_next s, s\<lparr>io_names := (io_names s)(path \<mapsto> io_next s),
                             io_data := (io_data s)(io_next s := []), io_next := io_next s + 1\<rparr>))"

text \<open>\<open>open(path, O_RDWR | O_CREAT | O_APPEND, _)\<close>\<close>

definition sys_open_append :: "io_env \<Rightarrow> u8 list \<Rightarrow> io \<Rightarrow> int \<times> io" where
  "sys_open_append env path s =
     (if \<not> env (Open path) \<or> io_full s then (- 1, s)
      else let (i, s) = io_create path s in io_install (Inode i) s)"

definition sys_dup :: "io_env \<Rightarrow> int \<Rightarrow> io \<Rightarrow> int \<times> io" where
  "sys_dup env d s =
     (case io_fds s d of
        Some f \<Rightarrow> if env (Dup d) then io_install f s else (- 1, s)
      | None \<Rightarrow> (- 1, s))"

definition sys_dup2 :: "io_env \<Rightarrow> int \<Rightarrow> int \<Rightarrow> io \<Rightarrow> int \<times> io" where
  "sys_dup2 env d e s =
     (case io_fds s d of
        Some f \<Rightarrow> if env (Dup2 d e) then (e, s\<lparr>io_fds := (io_fds s)(e \<mapsto> f)\<rparr>) else (- 1, s)
      | None \<Rightarrow> (- 1, s))"

definition sys_close :: "int \<Rightarrow> io \<Rightarrow> io" where
  "sys_close d s = s\<lparr>io_fds := (io_fds s)(d := None)\<rparr>"

text \<open>A stream that is not open, or a null pointer, has no defined result.\<close>

definition c_fileno :: "nat \<Rightarrow> io \<Rightarrow> int option" where
  "c_fileno fp s = map_option fst (io_streams s fp)"

definition c_fflush :: "nat \<Rightarrow> io \<Rightarrow> io option" where
  "c_fflush fp s =
     do { (d, bs) \<leftarrow> io_streams s fp;
          case io_fds s d of
            None \<Rightarrow> Some s
          | Some f \<Rightarrow> Some (sys_write f bs (s\<lparr>io_streams := (io_streams s)(fp \<mapsto> (d, []))\<rparr>)) }"

definition c_fclose :: "nat \<Rightarrow> io \<Rightarrow> io option" where
  "c_fclose fp s =
     do { d \<leftarrow> c_fileno fp s;
          s \<leftarrow> c_fflush fp s;
          Some (sys_close d (s\<lparr>io_streams := (io_streams s)(fp := None)\<rparr>)) }"

definition c_fputs :: "nat \<Rightarrow> u8 list \<Rightarrow> io \<Rightarrow> io option" where
  "c_fputs fp t s =
     do { (d, bs) \<leftarrow> io_streams s fp; Some (s\<lparr>io_streams := (io_streams s)(fp \<mapsto> (d, bs @ t))\<rparr>) }"

definition io_newfile :: "int \<Rightarrow> io \<Rightarrow> nat \<times> io" where
  "io_newfile d s =
     (io_newstream s, s\<lparr>io_streams := (io_streams s)(io_newstream s \<mapsto> (d, [])), io_newstream := io_newstream s + 1\<rparr>)"

text \<open>\<open>fopen(path, "w")\<close> empties the file; \<open>fopen(path, "r")\<close> needs one.\<close>

definition c_fopen_w :: "io_env \<Rightarrow> u8 list \<Rightarrow> io \<Rightarrow> nat \<times> io" where
  "c_fopen_w env path s =
     (if \<not> env (Fopen path) \<or> io_full s then (0, s)
      else let (i, s) = io_create path s;
               (d, s) = io_install (Inode i) (s\<lparr>io_data := (io_data s)(i := [])\<rparr>)
           in io_newfile d s)"

definition c_fopen_r :: "io_env \<Rightarrow> u8 list \<Rightarrow> io \<Rightarrow> nat \<times> io" where
  "c_fopen_r env path s =
     (case io_names s path of
        None \<Rightarrow> (0, s)
      | Some i \<Rightarrow>
          if \<not> env (Fopen path) \<or> io_full s then (0, s)
          else let (d, s) = io_install (Inode i) s in io_newfile d s)"

text \<open>\<open>fgets\<close> into a buffer with room for \<open>n\<close> characters: these and the rest of the file.\<close>

fun c_fgets :: "nat \<Rightarrow> u8 list \<Rightarrow> u8 list \<times> u8 list" where
  "c_fgets 0 cs = ([], cs)"
| "c_fgets (Suc n) [] = ([], [])"
| "c_fgets (Suc n) (c # cs) = (if c = 10 then ([c], cs) else let (l, r) = c_fgets n cs in (c # l, r))"

lemma c_fgets_append: "fst (c_fgets n cs) @ snd (c_fgets n cs) = cs"
  by (induction n cs rule: c_fgets.induct) (auto simp: split_beta)

section \<open>Redirection\<close>

definition CLDM_CAPTURE_STDOUT :: "u8 list" where "CLDM_CAPTURE_STDOUT = cstr ''/tmp/cldm_out''"
definition CLDM_CAPTURE_STDERR :: "u8 list" where "CLDM_CAPTURE_STDERR = cstr ''/tmp/cldm_err''"

definition cldm_io_restore :: "io_env \<Rightarrow> nat \<Rightarrow> int \<Rightarrow> io \<Rightarrow> (int \<times> io) option" where
  "cldm_io_restore env fp fd s =
     do { s \<leftarrow> c_fflush fp s;
          prevfd \<leftarrow> c_fileno fp s;
          let s = sys_close prevfd s;
          let (res, s) = sys_dup2 env fd prevfd s;
          Some (if res = - 1 then - 1 else 0, s) }"

definition cldm_io_redirect2 :: "io_env \<Rightarrow> nat \<Rightarrow> u8 list \<Rightarrow> io \<Rightarrow> (int \<times> io) option" where
  "cldm_io_redirect2 env fp path s =
     (let (fd, s) = sys_open_append env path s
      in if fd = - 1 then Some (- 1, s)
         else do {
           s \<leftarrow> c_fflush fp s;
           d \<leftarrow> c_fileno fp s;
           let (prevfd, s) = sys_dup env d s;
           let (_, s) = sys_dup2 env fd d s;
           if prevfd = d then Some (- 1, sys_close fd s) else Some (prevfd, s) })"

definition cldm_io_redirect3 :: "io_env \<Rightarrow> nat \<Rightarrow> u8 list \<Rightarrow> nat \<Rightarrow> io \<Rightarrow> (int \<times> io) option" where
  "cldm_io_redirect3 env fp path replacement s =
     do { (prevfd, s) \<leftarrow> cldm_io_redirect2 env fp path s;
          if prevfd = - 1 then Some (- 1, s)
          else do {
            d \<leftarrow> c_fileno replacement s;
            let (res, s) = sys_dup2 env prevfd d s;
            if res = - 1
            then do { (_, s) \<leftarrow> cldm_io_restore env fp prevfd s; Some (- 1, s) }
            else Some (prevfd, s) } }"

text \<open>
  The results are \<open>*replacement\<close>, \<open>*fd\<close>, when it is assigned, and the status. When the redirection
  fails, \<open>*replacement\<close> keeps the stream that is closed.
\<close>

definition cldm_io_capture_standard ::
  "io_env \<Rightarrow> nat \<Rightarrow> u8 list \<Rightarrow> io \<Rightarrow> (int \<times> nat \<times> int option \<times> io) option" where
  "cldm_io_capture_standard env orig path s =
     (let (replacement, s) = c_fopen_w env path s
      in if replacement = 0 then Some (- 1, 0, None, s)
         else do {
           (fd, s) \<leftarrow> cldm_io_redirect3 env orig path replacement s;
           if fd = - 1
           then do { s \<leftarrow> c_fclose replacement s; Some (- 1, replacement, Some fd, s) }
           else Some (0, replacement, Some fd, s) })"

definition cldm_io_capture_stdout :: "io_env \<Rightarrow> io \<Rightarrow> (int \<times> io) option" where
  "cldm_io_capture_stdout env s =
     do { (status, replacement, fd, s) \<leftarrow> cldm_io_capture_standard env std_out CLDM_CAPTURE_STDOUT s;
          Some (status, s\<lparr>cldm_stdout := replacement,
                         cldm_stdoutfd := case fd of Some d \<Rightarrow> d | None \<Rightarrow> cldm_stdoutfd s\<rparr>) }"

definition cldm_io_capture_stderr :: "io_env \<Rightarrow> io \<Rightarrow> (int \<times> io) option" where
  "cldm_io_capture_stderr env s =
     do { (status, replacement, fd, s) \<leftarrow> cldm_io_capture_standard env std_err CLDM_CAPTURE_STDERR s;
          Some (status, s\<lparr>cldm_stderr := replacement,
                         cldm_stderrfd := case fd of Some d \<Rightarrow> d | None \<Rightarrow> cldm_stderrfd s\<rparr>) }"

section \<open>Printing what was captured\<close>

text \<open>
  The loop over a captured file. The last character of what \<open>fgets\<close> gives is overwritten; a line that
  starts with a zero byte is written in front of the buffer.
\<close>

function dump_loop :: "nat \<Rightarrow> u8 list \<Rightarrow> u8 list list option" where
  "dump_loop pgsize cs =
     (if cs = [] then Some []
      else let (l, r) = c_fgets (pgsize - 1) cs; t = takeWhile (\<lambda>c. c \<noteq> 0) l
           in if t = [] then None
              else do { ls \<leftarrow> dump_loop pgsize r; Some (butlast t # ls) })"
  by auto
termination
proof (relation "measure (length \<circ> snd)", goal_cases)
  case (2 pgsize cs x l r t)
  then have "l @ r = cs" using c_fgets_append [of "pgsize - 1" cs] by (metis fst_conv snd_conv)
  moreover have "l \<noteq> []" using 2 by auto
  ultimately show ?case by auto
qed simp

declare dump_loop.simps [simp del]

text \<open>\<open>cldm_log_stream\<close>: the null pointer stands for the standard output.\<close>

definition cldm_log_stream :: "nat \<Rightarrow> u8 list \<Rightarrow> io \<Rightarrow> io option" where
  "cldm_log_stream fp t s = c_fputs (if fp = 0 then std_out else fp) (t @ [10]) s"

fun log_lines :: "nat \<Rightarrow> u8 list list \<Rightarrow> io \<Rightarrow> io option" where
  "log_lines fp [] s = Some s"
| "log_lines fp (l # ls) s = do { s \<leftarrow> cldm_log_stream fp l s; log_lines fp ls s }"

text \<open>\<open>pgsize\<close> is \<open>CLDM_PGSIZE\<close>, which the build configures.\<close>

definition cldm_io_dump_to_stream ::
  "io_env \<Rightarrow> nat \<Rightarrow> nat \<Rightarrow> u8 list \<Rightarrow> nat \<Rightarrow> u8 list \<Rightarrow> io \<Rightarrow> (int \<times> io) option" where
  "cldm_io_dump_to_stream env pgsize redirected captured dumpstream name s =
     do { s \<leftarrow> c_fflush redirected s;
          let (fp, s) = c_fopen_r env captured s;
          if fp = 0 then Some (- 1, s)
          else do {
            fd \<leftarrow> c_fileno fp s;
            let content = (case io_fds s fd of Some (Inode i) \<Rightarrow> io_data s i | _ \<Rightarrow> []);
            if \<not> env (Fstat fd) \<or> content = []
            then do { s \<leftarrow> c_fclose fp s; Some (0, s) }
            else do {
              s \<leftarrow> cldm_log_stream dumpstream (10 # cstr ''Captured '' @ name @ cstr '':'') s;
              ls \<leftarrow> dump_loop pgsize content;
              s \<leftarrow> log_lines dumpstream ls s;
              s \<leftarrow> c_fclose fp s;
              Some (0, s) } } }"

definition cldm_io_dump_captured_stdout :: "io_env \<Rightarrow> nat \<Rightarrow> nat \<Rightarrow> io \<Rightarrow> (int \<times> io) option" where
  "cldm_io_dump_captured_stdout env pgsize fp =
     cldm_io_dump_to_stream env pgsize std_out CLDM_CAPTURE_STDOUT fp (cstr ''stdout'')"

definition cldm_io_dump_captured_stderr :: "io_env \<Rightarrow> nat \<Rightarrow> nat \<Rightarrow> io \<Rightarrow> (int \<times> io) option" where
  "cldm_io_dump_captured_stderr env pgsize fp =
     cldm_io_dump_to_stream env pgsize std_err CLDM_CAPTURE_STDERR fp (cstr ''stderr'')"

section \<open>Restoring\<close>

definition cldm_io_restore_stdout :: "io_env \<Rightarrow> io \<Rightarrow> (int \<times> io) option" where
  "cldm_io_restore_stdout env s =
     do { (status, s) \<leftarrow> cldm_io_restore env (cldm_stdout s) (cldm_stdoutfd s) s;
          s \<leftarrow> c_fclose (cldm_stdout s) s;
          Some (status, s\<lparr>cldm_stdout := 0\<rparr>) }"

definition cldm_io_restore_stderr :: "io_env \<Rightarrow> io \<Rightarrow> (int \<times> io) option" where
  "cldm_io_restore_stderr env s =
     do { (status, s) \<leftarrow> cldm_io_restore env (cldm_stderr s) (cldm_stderrfd s) s;
          s \<leftarrow> c_fclose (cldm_stderr s) s;
          Some (status, s\<lparr>cldm_stderr := 0\<rparr>) }"

definition io_remove_captured :: "io_env \<Rightarrow> u8 list \<Rightarrow> io \<Rightarrow> int \<times> io" where
  "io_remove_captured env path s =
     (if io_names s path = None \<or> \<not> env (Stat path) then (0, s)
      else if env (Remove path) then (0, s\<lparr>io_names := (io_names s)(path := None)\<rparr>) else (- 1, s))"

definition cldm_io_remove_captured_stdout :: "io_env \<Rightarrow> io \<Rightarrow> int \<times> io" where
  "cldm_io_remove_captured_stdout env = io_remove_captured env CLDM_CAPTURE_STDOUT"

definition cldm_io_remove_captured_stderr :: "io_env \<Rightarrow> io \<Rightarrow> int \<times> io" where
  "cldm_io_remove_captured_stderr env = io_remove_captured env CLDM_CAPTURE_STDERR"

section \<open>What the entry point calls\<close>

definition captures_stdout :: "cldm_capture \<Rightarrow> bool" where
  "captures_stdout c \<longleftrightarrow> c = cldm_capture_stdout \<or> c = cldm_capture_all"

definition captures_stderr :: "cldm_capture \<Rightarrow> bool" where
  "captures_stderr c \<longleftrightarrow> c = cldm_capture_stderr \<or> c = cldm_capture_all"

text \<open>The statements \<open>false;\<close> after a failure have no effect.\<close>

definition cldm_io_capture_stream :: "io_env \<Rightarrow> cldm_capture \<Rightarrow> io \<Rightarrow> (bool \<times> io) option" where
  "cldm_io_capture_stream env cap s =
     do { s \<leftarrow> (if captures_stdout cap then map_option snd (cldm_io_capture_stdout env s) else Some s);
          s \<leftarrow> (if captures_stderr cap then map_option snd (cldm_io_capture_stderr env s) else Some s);
          Some (True, s) }"

text \<open>The stream of the file that is asked for is not closed here.\<close>

definition cldm_io_capture_dump ::
  "io_env \<Rightarrow> nat \<Rightarrow> cldm_capture \<Rightarrow> u8 list option \<Rightarrow> io \<Rightarrow> (bool \<times> io) option" where
  "cldm_io_capture_dump env pgsize cap file s =
     (let (fp, s) = (case file of None \<Rightarrow> (0, s) | Some f \<Rightarrow> c_fopen_w env f s)
      in if file \<noteq> None \<and> fp = 0 then Some (False, s)
         else do {
           (r1, s) \<leftarrow> (if captures_stdout cap
                     then cldm_io_dump_captured_stdout env pgsize (if fp \<noteq> 0 then fp else cldm_stdout s) s
                     else Some (0, s));
           (r2, s) \<leftarrow> (if captures_stderr cap
                     then cldm_io_dump_captured_stderr env pgsize (if fp \<noteq> 0 then fp else cldm_stderr s) s
                     else Some (0, s));
           Some (r1 = 0 \<and> r2 = 0, s) })"

definition cldm_io_capture_restore :: "io_env \<Rightarrow> cldm_capture \<Rightarrow> io \<Rightarrow> io option" where
  "cldm_io_capture_restore env cap s =
     do { s \<leftarrow> (if captures_stdout cap
               then let s = snd (cldm_io_remove_captured_stdout env s)
                    in if cldm_stdout s \<noteq> 0 then map_option snd (cldm_io_restore_stdout env s) else Some s
               else Some s);
          (if captures_stderr cap
           then let s = snd (cldm_io_remove_captured_stderr env s)
                in if cldm_stderr s \<noteq> 0 then map_option snd (cldm_io_restore_stderr env s) else Some s
           else Some s) }"

end
