(* ===== verification/Usage.thy ===== *)
theory Usage
  imports Argp Elfdump Testlog
begin

text \<open>
  The help of \<^verbatim>\<open>cldm/cldm_argp.c\<close>: \<open>cldm_argp_usage\<close> and \<open>cldm_argp_version\<close>. The result is the lines that are
  logged. The two buffers on the stack are lists of bytes of which some are not initialised; they live
  through all rounds of the loop. A failed assertion ends the program with the status on the left.
\<close>

section \<open>Formatting into a buffer\<close>

definition buf_put :: "u8 option list \<Rightarrow> nat \<Rightarrow> u8 list \<Rightarrow> u8 option list option" where
  "buf_put b pos bs =
     (if pos + length bs \<le> length b then Some (take pos b @ map Some bs @ drop (pos + length bs) b) else None)"

text \<open>\<open>snprintf(b + pos, sizeof(b) - pos, \<dots>)\<close> with the bytes \<open>bs\<close> as the formatted text; its result is their number.\<close>

definition buf_snprintf :: "u8 option list \<Rightarrow> nat \<Rightarrow> u8 list \<Rightarrow> (nat \<times> u8 option list) option" where
  "buf_snprintf b pos bs =
     (if length b \<le> pos then None
      else do { b \<leftarrow> buf_put b pos (take (length b - pos - 1) bs @ [0]); Some (length bs, b) })"

text \<open>A condition of \<open>cldm_rtassert\<close>.\<close>

definition rtassert :: "bool \<Rightarrow> (int + 'a) option \<Rightarrow> (int + 'a) option" where
  "rtassert c k = (if c then k else Some (Inl 2))"

section \<open>Documentation\<close>

definition CLDM_ARGP_LONG_SWITCH_INDENT :: nat where "CLDM_ARGP_LONG_SWITCH_INDENT = 13"
definition CLDM_ARGP_DOC_INDENT :: nat where "CLDM_ARGP_DOC_INDENT = 48"
definition CLDM_ARGP_BUFSIZE :: nat where "CLDM_ARGP_BUFSIZE = 256"

text \<open>\<open>cldm_str\<close> does not expand its argument, inside \<open>cldm_expand\<close> neither.\<close>

definition cldm_argp_params_doc :: "u8 list list" where
  "cldm_argp_params_doc =
     [cstr ''Enable verbose output'',
      cstr ''Print version and exit'',
      cstr ''Print this help message and exit'',
      cstr ''Same as --help'',
      cstr ''Exit as soon as a test fails'',
      cstr ''Capture output from STREAM and print it once all tests have finished. Valid options are '' @
        quoted (cstr ''none'') @ cstr '', '' @ quoted (cstr ''stdout'') @ cstr '', '' @ quoted (cstr ''stderr'') @
        cstr '' and '' @ quoted (cstr ''all''),
      cstr ''Same as --capture=none'',
      cstr ''Redirect captures to FILE instead of printing to console. May be combined with --capture=STREAM'',
      cstr ''Run tests concurrently using JOBS threads, max number is CLDM_MAX_THREADS'']"

definition cldm_argp_positional_doc :: "u8 list" where
  "cldm_argp_positional_doc =
     cstr ''[IDENTIFIER]... is a list of test identifiers and may contain both file and test names, in any order.'' @ [10] @
     cstr ''If provided, cldm will run only tests identified by members of the list. File parameters are expected'' @ [10] @
     cstr ''to contain only basenames, full paths are not supported.''"

definition cldm_argp_bug_address :: "u8 list" where
  "cldm_argp_bug_address = cstr ''vilhelm.engstrom@tuta.io''"

section \<open>The help\<close>

text \<open>The short form of a switch in \<open>tmp\<close>; \<open>%c\<close> prints its number as a byte.\<close>

definition usage_short :: "cldm_argp_param \<Rightarrow> u8 option list \<Rightarrow> (int + u8 option list) option" where
  "usage_short param tmp =
     do { tmp \<leftarrow> buf_put tmp 0 [0];
          if p_short param = 0 then Some (Inr tmp)
          else do {
            (n, tmp) \<leftarrow> buf_snprintf tmp 0 (cstr ''  -'' @ [of_int (p_short param)]);
            rtassert (n < CLDM_ARGP_BUFSIZE) (do {
              (k, tmp) \<leftarrow> (case p_argument param of None \<Rightarrow> Some (0, tmp)
                                              | Some a \<Rightarrow> buf_snprintf tmp n (cstr '' '' @ a));
              rtassert (n + k < CLDM_ARGP_BUFSIZE) (
                rtassert (n + k + 1 < CLDM_ARGP_BUFSIZE) (do {
                  tmp \<leftarrow> buf_put tmp (n + k) [44, 0];
                  Some (Inr tmp) })) }) } }"

text \<open>The long form of a switch in \<open>tmp\<close>; every parameter has one.\<close>

definition usage_long :: "cldm_argp_param \<Rightarrow> u8 option list \<Rightarrow> (int + u8 option list) option" where
  "usage_long param tmp =
     do { (n, tmp) \<leftarrow> buf_snprintf tmp 0 (p_long param);
          rtassert (n < CLDM_ARGP_BUFSIZE) (do {
            (k, tmp) \<leftarrow> (case p_argument param of None \<Rightarrow> Some (0, tmp)
                                            | Some a \<Rightarrow> buf_snprintf tmp n (cstr ''='' @ a));
            rtassert (n + k < CLDM_ARGP_BUFSIZE) (Some (Inr tmp)) }) }"

definition usage_param ::
  "u8 list \<Rightarrow> cldm_argp_param \<Rightarrow> u8 option list \<Rightarrow> u8 option list \<Rightarrow>
   (int + u8 list \<times> u8 option list \<times> u8 option list) option" where
  "usage_param doc param tmp buffer =
     do { r \<leftarrow> usage_short param tmp;
          case r of
            Inl e \<Rightarrow> Some (Inl e)
          | Inr tmp \<Rightarrow> do {
              t \<leftarrow> buffer_string tmp;
              (bufpos, buffer) \<leftarrow> buf_snprintf buffer 0 (c_left CLDM_ARGP_LONG_SWITCH_INDENT t);
              rtassert (bufpos < CLDM_ARGP_BUFSIZE) (do {
                r \<leftarrow> usage_long param tmp;
                case r of
                  Inl e \<Rightarrow> Some (Inl e)
                | Inr tmp \<Rightarrow> do {
                    t \<leftarrow> buffer_string tmp;
                    (_, buffer) \<leftarrow> buf_snprintf buffer bufpos t;
                    b \<leftarrow> buffer_string buffer;
                    Some (Inr (c_left CLDM_ARGP_DOC_INDENT b @ doc, tmp, buffer)) } }) } }"

text \<open>\<open>cldm_for_each_zip\<close> goes on to the end of the shorter array.\<close>

fun usage_loop ::
  "(u8 list \<times> cldm_argp_param) list \<Rightarrow> u8 option list \<Rightarrow> u8 option list \<Rightarrow> (int + u8 list list) option" where
  "usage_loop [] tmp buffer = Some (Inr [])"
| "usage_loop ((doc, param) # xs) tmp buffer =
     do { r \<leftarrow> usage_param doc param tmp buffer;
          case r of
            Inl e \<Rightarrow> Some (Inl e)
          | Inr (line, tmp, buffer) \<Rightarrow> do {
              r \<leftarrow> usage_loop xs tmp buffer;
              Some (case r of Inl e \<Rightarrow> Inl e | Inr ls \<Rightarrow> Inr (line # ls)) } }"

definition usage_heading :: "u8 list \<Rightarrow> u8 list list" where
  "usage_heading argv0 =
     [cstr ''cldm -- unit test and mocking framework'' @ [10],
      cstr ''Usage:'' @ [10] @ cstr '' '' @ cldm_basename argv0 @ cstr '' [OPTION]... [IDENTIFIER]...'' @ [10],
      cstr ''Options:'']"

definition cldm_argp_usage :: "u8 list \<Rightarrow> (int + u8 list list) option" where
  "cldm_argp_usage argv0 =
     do { r \<leftarrow> usage_loop (zip cldm_argp_params_doc cldm_argp_params)
              (replicate CLDM_ARGP_BUFSIZE None) (replicate CLDM_ARGP_BUFSIZE None);
          Some (case r of
                  Inl e \<Rightarrow> Inl e
                | Inr ls \<Rightarrow> Inr (usage_heading argv0 @ ls @ [10 # cldm_argp_positional_doc])) }"

text \<open>The build configures \<open>CLDM_VERSION\<close>.\<close>

definition cldm_argp_version :: "u8 list \<Rightarrow> u8 list list" where
  "cldm_argp_version ver =
     [cstr ''cldm -- version '' @ ver, cstr ''Report bugs to '' @ cldm_argp_bug_address]"

section \<open>What it says\<close>

text \<open>The switch of a documented parameter as it is printed. A number above 255 is printed as a zero byte, which
  ends the text behind it.\<close>

definition shown_switch :: "cldm_argp_param \<Rightarrow> u8 list" where
  "shown_switch p =
     c_left 13 (if p_short p < 256
                then cstr ''  -'' @ [of_int (p_short p)] @ (case p_argument p of None \<Rightarrow> [] | Some a \<Rightarrow> cstr '' '' @ a) @ cstr '',''
                else cstr ''  -'') @
     p_long p @ (case p_argument p of None \<Rightarrow> [] | Some a \<Rightarrow> cstr ''='' @ a)"

lemma usage_lines:
  "usage_loop (zip cldm_argp_params_doc cldm_argp_params)
     (replicate CLDM_ARGP_BUFSIZE None) (replicate CLDM_ARGP_BUFSIZE None) =
   Some (Inr (map (\<lambda>(d, p). c_left 48 (shown_switch p) @ d) (zip cldm_argp_params_doc cldm_argp_params)))"
  by code_simp

text \<open>C32: the help returns, without a failed assertion; it has one line for each documented switch, with the
  documentation in column 48, and a switch that has no short form is shown with a lone dash.\<close>

theorem cldm_argp_usage_correct:
  "cldm_argp_usage argv0 =
     Some (Inr (usage_heading argv0 @
       map (\<lambda>(d, p). c_left 48 (shown_switch p) @ d) (zip cldm_argp_params_doc (butlast cldm_argp_params)) @
       [10 # cldm_argp_positional_doc])) \<and>
   list_all (\<lambda>p. length (shown_switch p) \<le> 48) (butlast cldm_argp_params)"
proof -
  have "zip cldm_argp_params_doc (butlast cldm_argp_params) = zip cldm_argp_params_doc cldm_argp_params"
    by (simp add: cldm_argp_params_doc_def cldm_argp_params_def)
  moreover have "list_all (\<lambda>p. length (shown_switch p) \<le> 48) (butlast cldm_argp_params)" by code_simp
  ultimately show ?thesis by (simp add: cldm_argp_usage_def usage_lines)
qed

end
