(* ===== verification/Cldm_Main.thy ===== *)
theory Cldm_Main
  imports Io Dl Usage Parallel
begin

text \<open>
  \<^verbatim>\<open>cldm/main/cldm_main.c\<close>: the entry point, which puts the parts together. Up to the run of the tests it is
  a function; the run is a relation, because the threads of a parallel run and what the tests print
  themselves are not determined. The memory is that of the loader; the tests have their own.
\<close>

section \<open>State and environment\<close>

record main_state =
  ms_tests :: "dl tests"
  ms_io :: io
  ms_jobs :: nat

text \<open>
  What the libraries, the system and the linker give: \<open>menv_dfa\<close> and \<open>menv_map\<close> are local variables that are not
  initialised, \<open>menv_buf\<close> is the buffer of \<open>cldm_dlmap_needed\<close>, and the rest of \<open>menv_prg\<close> the functions and the
  addresses for the tree.
\<close>

record main_env =
  menv_alloc :: "nat \<Rightarrow> bool"
  menv_cmp :: mem_cmp
  menv_dl :: dl_env
  menv_os :: elf_os
  menv_io :: io_env
  menv_pgsize :: nat
  menv_main :: u64
  menv_buf :: u64
  menv_dfa :: cldm_dfa
  menv_map :: cldm_elfmap
  menv_version :: "u8 list"
  menv_prg :: "dl tests program"
  menv_barrier :: int
  menv_rwlock :: int
  menv_mutex :: int

text \<open>
  Where the function is when the tests are not run, or before they are: it has returned, it is at its
  epilogue with the status and \<open>args.capture\<close>, when that is assigned, or it runs the tests.
\<close>

datatype main_phase =
    Returned int
  | Epilogue int "cldm_capture option" cldm_elfmap
  | Running cldm_args "u8 list list" cldm_elfmap

definition main_log :: "u8 list list \<Rightarrow> main_state \<Rightarrow> main_state option" where
  "main_log ls s = do { io \<leftarrow> log_lines (cldm_stdout (ms_io s)) ls (ms_io s); Some (s\<lparr>ms_io := io\<rparr>) }"

definition main_dl :: "main_state \<Rightarrow> dl" where
  "main_dl s = mk_dl (ms_tests s)"

section \<open>Before the tests\<close>

text \<open>The help, after which the function goes to its epilogue with the status; a failed assertion ends it.\<close>

definition main_usage :: "u8 list \<Rightarrow> int \<Rightarrow> cldm_capture \<Rightarrow> cldm_elfmap \<Rightarrow> main_state \<Rightarrow> (main_phase \<times> main_state) option" where
  "main_usage argv0 st cap em s =
     do { r \<leftarrow> cldm_argp_usage argv0;
          case r of
            Inl e \<Rightarrow> Some (Returned e, s)
          | Inr ls \<Rightarrow> do { s \<leftarrow> main_log ls s; Some (Epilogue st (Some cap) em, s) } }"

text \<open>\<open>cldm_argp_parse\<close> prints the help when it fails, unless there are too many arguments or no automaton.\<close>

definition prints_usage :: "main_env \<Rightarrow> u8 list list \<Rightarrow> bool" where
  "prints_usage env argv \<longleftrightarrow>
     length argv \<le> CLDM_ARGP_MAX_PARAMS \<and> fst (cldm_dfa_init (menv_alloc env) (menv_dfa env))"

text \<open>From \<open>cldm_argp_parse\<close> to the tests.\<close>

definition main_args ::
  "main_env \<Rightarrow> cldm_elfmap \<Rightarrow> u8 list list \<Rightarrow> main_state \<Rightarrow> (main_phase \<times> main_state) option" where
  "main_args env em argv s =
     do { (ok, args, argv) \<leftarrow> cldm_argp_parse (menv_alloc env) (menv_dfa env) argv;
          if \<not> ok
          then if prints_usage env argv then main_usage (argv ! 0) 1 (capture args) em s
               else Some (Epilogue 1 (Some (capture args)) em, s)
          else if args_help args then main_usage (argv ! 0) 0 (capture args) em s
          else if version args
          then do { s \<leftarrow> main_log (cldm_argp_version (menv_version env)) s;
                    Some (Epilogue 0 (Some (capture args)) em, s) }
          else do {
            let m = dl_mem (main_dl s);
            elf \<leftarrow> cldm_is_elf64 m em;
            elf \<leftarrow> (if elf then cldm_elf_is_executable m em else Some False);
            if \<not> elf then Some (Epilogue 1 (Some (capture args)) em, s)
            else do {
              (ok, io) \<leftarrow> cldm_io_capture_stream (menv_io env) (capture args) (ms_io s);
              let s = s\<lparr>ms_io := io\<rparr>;
              Some (if ok then Running args argv em else Epilogue 1 (Some (capture args)) em, s) } } }"

definition cldm_main_start :: "main_env \<Rightarrow> u8 list list \<Rightarrow> main_state \<Rightarrow> (main_phase \<times> main_state) option" where
  "cldm_main_start env argv s =
     (if argv = [] then None
      else do {
        let s = s\<lparr>ms_tests := cldm_mock_disable_all (ms_tests s)\<rparr>;
        (status, _, _) \<leftarrow> cldm_dlmap_explicit (menv_dl env);
        if status \<noteq> 0 then Some (Returned 1, s)
        else do {
          (status, em, _) \<leftarrow> cldm_map_elf (dl_mem (main_dl s)) (menv_os env) (menv_main env) (menv_map env) (argv ! 0);
          if status \<noteq> 0 then Some (Returned 1, s)
          else do {
            (n, d, _) \<leftarrow> cldm_dlmap_needed (menv_dl env) (ms_jobs s) em (menv_buf env) (main_dl s);
            let s = s\<lparr>ms_tests := (ms_tests s)\<lparr>mk_dl := d\<rparr>\<rparr>;
            if n < 0 then Some (Epilogue 1 None em, s) else main_args env em argv s } } })"

section \<open>After the tests\<close>

text \<open>The epilogue reads \<open>args.capture\<close>, which has no defined value before it is assigned.\<close>

definition cldm_main_epilogue ::
  "main_env \<Rightarrow> cldm_capture option \<Rightarrow> cldm_elfmap \<Rightarrow> main_state \<Rightarrow> (main_state \<times> dl_call list \<times> elf_call list) option" where
  "cldm_main_epilogue env cap em s =
     do { cs \<leftarrow> cldm_dlfree (ms_jobs s) (main_dl s);
          let (_, us) = cldm_unmap_elf (menv_os env) em;
          c \<leftarrow> cap;
          io \<leftarrow> cldm_io_capture_restore (menv_io env) c (ms_io s);
          Some (s\<lparr>ms_io := io\<rparr>, cs, us) }"

definition cldm_main_finish ::
  "main_env \<Rightarrow> cldm_args \<Rightarrow> cldm_elfmap \<Rightarrow> main_state \<Rightarrow> (main_state \<times> dl_call list \<times> elf_call list) option" where
  "cldm_main_finish env args em s =
     do { (_, io) \<leftarrow> cldm_io_capture_dump (menv_io env) (menv_pgsize env) (capture args) (redirect args) (ms_io s);
          cldm_main_epilogue env (Some (capture args)) em (s\<lparr>ms_io := io\<rparr>) }"

section \<open>The tests\<close>

text \<open>Writes to the streams in turn.\<close>

fun c_writes :: "(nat \<times> u8 list) list \<Rightarrow> io \<Rightarrow> io option" where
  "c_writes [] s = Some s"
| "c_writes ((fp, t) # ws) s = do { s \<leftarrow> c_fputs fp t s; c_writes ws s }"

text \<open>
  What a run that goes from \<open>t\<close> to \<open>t'\<close> logs: the lines of its output, then those for the errors, which go to the
  standard output when the standard error is not captured.
\<close>

definition logged_writes :: "io \<Rightarrow> 'd tests \<Rightarrow> 'd tests \<Rightarrow> (nat \<times> u8 list) list" where
  "logged_writes s t t' =
     map (\<lambda>l. (if cldm_stdout s = 0 then std_out else cldm_stdout s, l @ [10])) (drop (length (io_out t)) (io_out t')) @
     map (\<lambda>l. (if cldm_stderr s = 0 then std_out else cldm_stderr s, l @ [10])) (drop (length (io_err t)) (io_err t'))"

text \<open>The program of the executable, and the addresses of the positional parameters.\<close>

definition main_prg :: "main_env \<Rightarrow> cldm_elfmap \<Rightarrow> main_state \<Rightarrow> dl tests program" where
  "main_prg env em s = (menv_prg env)\<lparr>prg_mem := dl_mem (main_dl s), prg_map := em\<rparr>"

definition positional_at :: "mem \<Rightarrow> cldm_args \<Rightarrow> u8 list list \<Rightarrow> u64 list \<Rightarrow> bool" where
  "positional_at m args argv posp \<longleftrightarrow>
     distinct posp \<and> map (c_string m) posp = map Some (take (unat (nposparams args)) (drop (posparams args) argv))"

inductive run_tests ::
  "main_env \<Rightarrow> cldm_args \<Rightarrow> cldm_elfmap \<Rightarrow> u64 list \<Rightarrow> main_state \<Rightarrow> int \<Rightarrow> dl tests \<Rightarrow> bool"
  for env args em posp s where
  run_sequential:
    "jobs args \<le> 1 \<Longrightarrow>
     cldm_sequential_run (menv_cmp env) (menv_alloc env) (main_prg env em s) (jobs args) (verbose args)
       (fail_fast args) posp (ms_tests s) = Some (st, t) \<Longrightarrow>
     run_tests env args em posp s st t"
| run_refused:
    "1 < jobs args \<Longrightarrow>
     cldm_parallel_begin (menv_barrier env) (menv_rwlock env) (jobs args) (par_init (ms_tests s)) = Inl st \<Longrightarrow>
     run_tests env args em posp s st (ms_tests s)"
| run_parallel:
    "1 < jobs args \<Longrightarrow>
     cldm_parallel_begin (menv_barrier env) (menv_rwlock env) (jobs args) (par_init (ms_tests s)) = Inr c \<Longrightarrow>
     par_steps (cldm_parallel_collect (menv_cmp env) (menv_alloc env) (main_prg env em s) (jobs args) (verbose args) posp 1)
       (\<lambda>_. menv_alloc env) (menv_mutex env) (fail_fast args) (jobs args) c d \<Longrightarrow>
     par_done (jobs args) d \<Longrightarrow>
     cldm_parallel_end (jobs args) d = Some (st, t) \<Longrightarrow>
     run_tests env args em posp s st t"

text \<open>The tests print \<open>us\<close> to the standard streams while the run logs.\<close>

inductive cldm_main_runs :: "main_env \<Rightarrow> u8 list list \<Rightarrow> main_state \<Rightarrow> int \<Rightarrow> main_state \<Rightarrow> bool"
  for env argv s where
  main_returned:
    "cldm_main_start env argv s = Some (Returned st, s') \<Longrightarrow> cldm_main_runs env argv s st s'"
| main_epilogue:
    "cldm_main_start env argv s = Some (Epilogue st cap em, s1) \<Longrightarrow>
     cldm_main_epilogue env cap em s1 = Some (s', cs, us) \<Longrightarrow>
     cldm_main_runs env argv s st s'"
| main_tests:
    "cldm_main_start env argv s = Some (Running args argv' em, s1) \<Longrightarrow>
     positional_at (dl_mem (main_dl s1)) args argv' posp \<Longrightarrow>
     run_tests env args em posp s1 st t \<Longrightarrow>
     fst ` set us \<subseteq> {std_out, std_err} \<Longrightarrow>
     ws \<in> shuffles us (logged_writes (ms_io s1) (ms_tests s1) t) \<Longrightarrow>
     c_writes ws (ms_io s1) = Some io \<Longrightarrow>
     cldm_main_finish env args em (s1\<lparr>ms_tests := t, ms_io := io, ms_jobs := unat (jobs args)\<rparr>) = Some (s', cs, us') \<Longrightarrow>
     cldm_main_runs env argv s st s'"

inductive_cases cldm_main_runsE: "cldm_main_runs env argv s st s'"

section \<open>The status\<close>

lemma usage_not_exits: "cldm_argp_usage argv0 \<noteq> Some (Inl e)"
  by (simp add: cldm_argp_usage_def usage_lines)

lemma main_usage_phase:
  assumes "main_usage argv0 st cap em s = Some (p, s')"
  shows "p = Epilogue st (Some cap) em"
proof -
  from assms obtain r where "cldm_argp_usage argv0 = Some r" by (auto simp: main_usage_def bind_eq_Some_conv)
  with assms usage_not_exits show ?thesis by (cases r) (auto simp: main_usage_def bind_eq_Some_conv)
qed

text \<open>How the start ends once the arguments are parsed.\<close>

definition parsed_phase :: "main_env \<Rightarrow> u8 list list \<Rightarrow> main_phase \<Rightarrow> bool" where
  "parsed_phase env argv p \<longleftrightarrow>
    (\<exists>args argv' em. cldm_argp_parse (menv_alloc env) (menv_dfa env) argv = Some (True, args, argv') \<and>
      (if args_help args \<or> version args then p = Epilogue 0 (Some (capture args)) em else p = Running args argv' em))"

lemma main_args_phase:
  assumes "main_args env em argv s = Some (p, s')"
  shows "(\<exists>cap. p = Epilogue 1 (Some cap) em) \<or> parsed_phase env argv p"
  using assms
  by (auto simp: main_args_def bind_eq_Some_conv Let_def parsed_phase_def dest!: main_usage_phase split: if_splits)

lemma cldm_main_start_phase:
  assumes "cldm_main_start env argv s = Some (p, s')"
  shows "p = Returned 1 \<or> (\<exists>cap em. p = Epilogue 1 cap em) \<or> parsed_phase env argv p"
  using assms
  by (auto simp: cldm_main_start_def bind_eq_Some_conv Let_def dest!: main_args_phase split: if_splits)

text \<open>
  C25: the program exits with 0 only when the arguments could be parsed and either ask for the help or the
  version, or the run of the tests returned 0: never when a library or the executable could not be
  mapped, nor for an executable that is not a 64-bit one.
\<close>

theorem cldm_main_status:
  assumes "cldm_main_runs env argv s 0 s'"
  shows "\<exists>args argv'. cldm_argp_parse (menv_alloc env) (menv_dfa env) argv = Some (True, args, argv') \<and>
    (args_help args \<or> version args \<or>
     (\<exists>em s1 posp t. cldm_main_start env argv s = Some (Running args argv' em, s1) \<and> run_tests env args em posp s1 0 t))"
  using assms
proof (cases rule: cldm_main_runs.cases)
  case main_returned
  then show ?thesis using cldm_main_start_phase [OF main_returned] by (auto simp: parsed_phase_def split: if_splits)
next
  case (main_epilogue cap em s1 cs us)
  then show ?thesis using cldm_main_start_phase [OF main_epilogue(1)] by (auto simp: parsed_phase_def split: if_splits)
next
  case (main_tests args argv' em s1 posp t)
  then show ?thesis using cldm_main_start_phase [OF main_tests(1)] by (auto simp: parsed_phase_def split: if_splits)
qed

text \<open>
  C40: when a needed library cannot be loaded the program has no defined result: its epilogue reads
  the arguments, which are not parsed yet.
\<close>

theorem cldm_main_unparsed:
  assumes "cldm_dlmap_explicit (menv_dl env) = Some (0, ptrs, cs)"
    and "cldm_map_elf (dl_mem (main_dl s)) (menv_os env) (menv_main env) (menv_map env) (argv ! 0) = Some (0, em, us)"
    and "cldm_dlmap_needed (menv_dl env) (ms_jobs s) em (menv_buf env) (main_dl s) = Some (n, d, ds)" and "n < 0"
  shows "\<not> cldm_main_runs env argv s st s'"
proof
  assume "cldm_main_runs env argv s st s'"
  moreover have "main_dl (s\<lparr>ms_tests := cldm_mock_disable_all (ms_tests s)\<rparr>) = main_dl s"
    by (simp add: main_dl_def cldm_mock_disable_all_def)
  ultimately show False using assms
    by (cases rule: cldm_main_runs.cases) (auto simp: cldm_main_start_def Let_def cldm_main_epilogue_def bind_eq_Some_conv split: if_splits)
qed

end
