(* ===== verification/Io_Correct.thy ===== *)
theory Io_Correct
  imports Io
begin

text \<open>
  Correctness of \<^verbatim>\<open>cldm/cldm_io.c\<close>: which texts are printed as they were captured, and what the
  descriptors of the process refer to after the streams were captured and restored.
\<close>

section \<open>Lines\<close>

text \<open>Lines that fit the buffer and hold neither a zero byte nor the end of a line.\<close>

definition text_line :: "nat \<Rightarrow> u8 list \<Rightarrow> bool" where
  "text_line pgsize l \<longleftrightarrow> 10 \<notin> set l \<and> 0 \<notin> set l \<and> length l + 1 < pgsize"

definition text_lines :: "u8 list list \<Rightarrow> u8 list" where
  "text_lines ls = concat (map (\<lambda>l. l @ [10]) ls)"

lemma c_fgets_line: "10 \<notin> set l \<Longrightarrow> length l < n \<Longrightarrow> c_fgets n (l @ 10 # cs) = (l @ [10], cs)"
proof (induction l arbitrary: n)
  case Nil
  then show ?case by (cases n) simp_all
next
  case (Cons c l)
  then show ?case by (cases n) simp_all
qed

lemma c_fgets_rest: "10 \<notin> set l \<Longrightarrow> length l \<le> n \<Longrightarrow> c_fgets n l = (l, [])"
  by (induction n l rule: c_fgets.induct) auto

lemma takeWhile_no_zero: "0 \<notin> set l \<Longrightarrow> takeWhile (\<lambda>c :: u8. c \<noteq> 0) l = l"
  by (induction l) auto

lemma dump_loop_line:
  assumes "text_line pgsize l"
  shows "dump_loop pgsize (l @ 10 # cs) = do { ls \<leftarrow> dump_loop pgsize cs; Some (l # ls) }"
proof -
  have "c_fgets (pgsize - 1) (l @ 10 # cs) = (l @ [10], cs)"
    using assms by (intro c_fgets_line) (auto simp: text_line_def)
  moreover have "takeWhile (\<lambda>c. c \<noteq> 0) (l @ [10]) = l @ [10]"
    using assms by (intro takeWhile_no_zero) (auto simp: text_line_def)
  ultimately show ?thesis by (subst dump_loop.simps) simp
qed

lemma dump_loop_rest:
  assumes "text_line pgsize l" and "l \<noteq> []"
  shows "dump_loop pgsize l = Some [butlast l]"
proof -
  have "c_fgets (pgsize - 1) l = (l, [])" using assms by (intro c_fgets_rest) (auto simp: text_line_def)
  moreover have "0 \<notin> set l" using assms by (auto simp: text_line_def)
  ultimately show ?thesis
    using assms(2) by (subst dump_loop.simps) (simp add: Let_def takeWhile_no_zero dump_loop.simps [of _ "[]"])
qed

lemma dump_loop_lines:
  assumes "list_all (text_line pgsize) ls"
  shows "dump_loop pgsize (text_lines ls @ cs) = do { ls' \<leftarrow> dump_loop pgsize cs; Some (ls @ ls') }"
  using assms
  by (induction ls) (simp_all add: text_lines_def dump_loop_line)

lemma log_lines_fputs:
  "io_streams s fp = Some (d, bs) \<Longrightarrow> fp \<noteq> 0 \<Longrightarrow>
   log_lines fp ls s = Some (s\<lparr>io_streams := (io_streams s)(fp \<mapsto> (d, bs @ text_lines ls))\<rparr>)"
  by (induction ls arbitrary: s bs) (auto simp: text_lines_def cldm_log_stream_def c_fputs_def fun_upd_idem)


section \<open>Captured output\<close>

text \<open>A process at its start: the standard streams on the standard files, and nothing else open.\<close>

definition io_start :: "(u8 list \<Rightarrow> nat option) \<Rightarrow> (nat \<Rightarrow> u8 list) \<Rightarrow> nat \<Rightarrow> (nat \<Rightarrow> u8 list) \<Rightarrow> io" where
  "io_start names content next_inode printed =
     \<lparr>io_fds = [0 \<mapsto> Standard 0, 1 \<mapsto> Standard 1, 2 \<mapsto> Standard 2], io_names = names, io_data = content,
      io_printed = printed, io_next = next_inode, io_streams = [1 \<mapsto> (1, []), 2 \<mapsto> (2, [])], io_newstream = 3,
      cldm_stdout = 0, cldm_stderr = 0, cldm_stdoutfd = 0, cldm_stderrfd = 0\<rparr>"

definition all_calls :: io_env where
  "all_calls = (\<lambda>_. True)"

lemma free_fd_numeral [simp]:
  "free_fd fds d (numeral k) = (if fds d = None then Some d else free_fd fds (d + 1) (pred_numeral k))"
  by (simp add: numeral_eq_Suc)

lemmas io_calls = c_fopen_w_def c_fopen_r_def sys_open_append_def io_full_def io_create_def io_install_def MAX_FD_def
  io_newfile_def sys_dup_def sys_dup2_def sys_close_def sys_write_def c_fileno_def c_fflush_def c_fclose_def c_fputs_def
  Let_def

text \<open>The file of the captured output.\<close>

definition capture_inode :: "(u8 list \<Rightarrow> nat option) \<Rightarrow> nat \<Rightarrow> nat" where
  "capture_inode names n = (case names CLDM_CAPTURE_STDOUT of None \<Rightarrow> n | Some i \<Rightarrow> i)"

definition io_captured :: "(u8 list \<Rightarrow> nat option) \<Rightarrow> (nat \<Rightarrow> u8 list) \<Rightarrow> nat \<Rightarrow> (nat \<Rightarrow> u8 list) \<Rightarrow> io" where
  "io_captured names content n printed =
     (let i = capture_inode names n in
      \<lparr>io_fds = [0 \<mapsto> Standard 0, 2 \<mapsto> Standard 2, 4 \<mapsto> Inode i, 5 \<mapsto> Standard 1, 1 \<mapsto> Inode i, 3 \<mapsto> Standard 1],
       io_names = names(CLDM_CAPTURE_STDOUT \<mapsto> i), io_data = content(i := []),
       io_printed = printed, io_next = (if names CLDM_CAPTURE_STDOUT = None then n + 1 else n),
       io_streams = [2 \<mapsto> (2, []), 3 \<mapsto> (3, []), 1 \<mapsto> (1, [])], io_newstream = 4,
       cldm_stdout = 3, cldm_stderr = 0, cldm_stdoutfd = 5, cldm_stderrfd = 0\<rparr>)"

lemma capture_stdout_start:
  "cldm_io_capture_stdout all_calls (io_start names content n printed) = Some (0, io_captured names content n printed)"
  by (auto simp: cldm_io_capture_stdout_def cldm_io_capture_standard_def all_calls_def io_start_def
     cldm_io_redirect3_def cldm_io_redirect2_def io_calls std_out_def io_captured_def capture_inode_def
     split: option.split)

text \<open>What the stream of the standard output has printed, and the whole sequence that \<open>main\<close> makes.\<close>

definition with_output :: "u8 list \<Rightarrow> io \<Rightarrow> io" where
  "with_output t s = s\<lparr>io_streams := (io_streams s)(1 \<mapsto> (1, t))\<rparr>"

definition captured_report :: "u8 list \<Rightarrow> u8 list list \<Rightarrow> u8 list" where
  "captured_report name ls = text_lines ((10 # cstr ''Captured '' @ name @ cstr '':'') # ls)"

lemma capture_dump_start:
  assumes "t \<noteq> []" and "dump_loop pgsize t = Some ls"
  shows "\<exists>s. cldm_io_capture_dump all_calls pgsize cldm_capture_stdout None
        (with_output t (io_captured names content n printed)) = Some (True, s) \<and>
      io_fds s = io_fds (io_captured names content n printed) \<and>
      io_names s = names(CLDM_CAPTURE_STDOUT \<mapsto> capture_inode names n) \<and>
      io_data s = content(capture_inode names n := t) \<and> io_printed s = printed \<and>
      io_streams s = [2 \<mapsto> (2, []), 3 \<mapsto> (3, captured_report (cstr ''stdout'') ls), 1 \<mapsto> (1, [])] \<and>
      cldm_stdout s = 3 \<and> cldm_stdoutfd s = 5"
  using assms
  by (auto simp: cldm_io_capture_dump_def captures_stdout_def captures_stderr_def cldm_io_dump_captured_stdout_def
     cldm_io_dump_to_stream_def with_output_def io_captured_def all_calls_def io_calls std_out_def cldm_log_stream_def
     log_lines_fputs captured_report_def text_lines_def)


text \<open>The calls of \<open>main\<close> around a run that prints \<open>t\<close> on the standard output, with \<^verbatim>\<open>--capture=stdout\<close>.\<close>

definition captured_run :: "nat \<Rightarrow> u8 list \<Rightarrow> io \<Rightarrow> io option" where
  "captured_run pgsize t s =
     do { (ok, s) \<leftarrow> cldm_io_capture_stream all_calls cldm_capture_stdout s;
          s \<leftarrow> c_fputs std_out t s;
          (ok, s) \<leftarrow> cldm_io_capture_dump all_calls pgsize cldm_capture_stdout None s;
          cldm_io_capture_restore all_calls cldm_capture_stdout s }"

lemma captured_run_dump:
  assumes "t \<noteq> []" and "dump_loop pgsize t = Some ls"
  shows "\<exists>s. captured_run pgsize t (io_start names content n printed) = Some s \<and>
    io_printed s = printed(1 := printed 1 @ captured_report (cstr ''stdout'') ls) \<and>
    io_fds s 1 = Some (Inode (capture_inode names n)) \<and> io_names s CLDM_CAPTURE_STDOUT = None"
proof -
  obtain s where s: "cldm_io_capture_dump all_calls pgsize cldm_capture_stdout None
        (with_output t (io_captured names content n printed)) = Some (True, s)"
      "io_fds s = io_fds (io_captured names content n printed)"
      "io_names s = names(CLDM_CAPTURE_STDOUT \<mapsto> capture_inode names n)" "io_printed s = printed"
      "io_streams s = [2 \<mapsto> (2, []), 3 \<mapsto> (3, captured_report (cstr ''stdout'') ls), 1 \<mapsto> (1, [])]"
      "cldm_stdout s = 3" "cldm_stdoutfd s = 5"
    using capture_dump_start [OF assms] by blast
  have start: "cldm_io_capture_stream all_calls cldm_capture_stdout (io_start names content n printed) =
      Some (True, io_captured names content n printed)"
    by (simp add: cldm_io_capture_stream_def captures_stdout_def captures_stderr_def capture_stdout_start)
  have out: "c_fputs std_out t (io_captured names content n printed) = Some (with_output t (io_captured names content n printed))"
    by (simp add: c_fputs_def with_output_def io_captured_def std_out_def Let_def)
  have "\<exists>s'. cldm_io_capture_restore all_calls cldm_capture_stdout s = Some s' \<and>
      io_printed s' = printed(1 := printed 1 @ captured_report (cstr ''stdout'') ls) \<and>
      io_fds s' 1 = Some (Inode (capture_inode names n)) \<and> io_names s' CLDM_CAPTURE_STDOUT = None"
    using s(2-)
    by (simp add: cldm_io_capture_restore_def captures_stdout_def captures_stderr_def
        cldm_io_remove_captured_stdout_def io_remove_captured_def all_calls_def cldm_io_restore_stdout_def
        cldm_io_restore_def io_captured_def io_calls)
  then show ?thesis by (simp add: captured_run_def start out s(1))
qed

text \<open>C11: of a run that prints lines which fit the buffer, on the captured standard output, the terminal gets the
  same lines after the run, behind a heading, and nothing is lost when the last line has its end.\<close>

theorem cldm_io_capture_lines:
  assumes "list_all (text_line pgsize) ls" and "ls \<noteq> []"
  shows "\<exists>s. captured_run pgsize (text_lines ls) (io_start names content n printed) = Some s \<and>
    io_printed s = printed(1 := printed 1 @ 10 # cstr ''Captured stdout:'' @ 10 # text_lines ls)"
proof -
  have "text_lines ls \<noteq> []" using assms(2) by (cases ls) (simp_all add: text_lines_def)
  moreover have "dump_loop pgsize (text_lines ls) = Some ls"
    using dump_loop_lines [OF assms(1), of "[]"] by (simp add: dump_loop.simps [of _ "[]"])
  ultimately show ?thesis
    using captured_run_dump [of "text_lines ls" pgsize ls names content n printed]
    by (auto simp: captured_report_def text_lines_def cstr_def)
qed

theorem cldm_io_capture_lines_witness:
  "\<exists>s. captured_run 4096 [111, 107, 10] (io_start (\<lambda>_. None) (\<lambda>_. []) 0 (\<lambda>_. [])) = Some s \<and>
    io_printed s = (\<lambda>_. [])(1 := 10 # cstr ''Captured stdout:'' @ 10 # [111, 107, 10])"
  using cldm_io_capture_lines [of 4096 "[[111, 107]]" "\<lambda>_. None" "\<lambda>_. []" 0 "\<lambda>_. []"]
  by (simp add: text_line_def text_lines_def)

text \<open>Output whose last line is not ended loses its last character.\<close>

theorem cldm_io_capture_truncates:
  assumes "list_all (text_line pgsize) ls" and "text_line pgsize l" and "l \<noteq> []"
  shows "\<exists>s. captured_run pgsize (text_lines ls @ l) (io_start names content n printed) = Some s \<and>
    io_printed s = printed(1 := printed 1 @ 10 # cstr ''Captured stdout:'' @ 10 # text_lines (ls @ [butlast l]))"
proof -
  have "dump_loop pgsize (text_lines ls @ l) = Some (ls @ [butlast l])"
    by (simp add: dump_loop_lines [OF assms(1)] dump_loop_rest [OF assms(2,3)])
  then show ?thesis
    using captured_run_dump [of "text_lines ls @ l" pgsize "ls @ [butlast l]" names content n printed] assms(3)
    by (auto simp: captured_report_def text_lines_def cstr_def)
qed

theorem cldm_io_capture_truncates_witness:
  "\<exists>s. captured_run 4096 [111, 107] (io_start (\<lambda>_. None) (\<lambda>_. []) 0 (\<lambda>_. [])) = Some s \<and>
    io_printed s = (\<lambda>_. [])(1 := 10 # cstr ''Captured stdout:'' @ 10 # [111, 10])"
  using cldm_io_capture_truncates [of 4096 "[]" "[111, 107]" "\<lambda>_. None" "\<lambda>_. []" 0 "\<lambda>_. []"]
  by (simp add: text_line_def text_lines_def)

text \<open>C39: restoring does not bring the standard output back: after any such run descriptor 1 still refers to the
  file that was removed.\<close>

theorem cldm_io_not_restored:
  assumes "list_all (text_line pgsize) ls" and "ls \<noteq> []"
  shows "\<exists>s i. captured_run pgsize (text_lines ls) (io_start names content n printed) = Some s \<and>
    io_fds s 1 = Some (Inode i) \<and> io_names s CLDM_CAPTURE_STDOUT = None"
proof -
  have "text_lines ls \<noteq> []" using assms(2) by (cases ls) (simp_all add: text_lines_def)
  moreover have "dump_loop pgsize (text_lines ls) = Some ls"
    using dump_loop_lines [OF assms(1), of "[]"] by (simp add: dump_loop.simps [of _ "[]"])
  ultimately show ?thesis
    using captured_run_dump [of "text_lines ls" pgsize ls names content n printed] by blast
qed

theorem cldm_io_not_restored_witness:
  "\<exists>s i. captured_run 4096 [111, 107, 10] (io_start (\<lambda>_. None) (\<lambda>_. []) 0 (\<lambda>_. [])) = Some s \<and>
    io_fds s 1 = Some (Inode i)"
  using cldm_io_not_restored [of 4096 "[[111, 107]]" "\<lambda>_. None" "\<lambda>_. []" 0 "\<lambda>_. []"]
  by (auto simp: text_line_def text_lines_def)

definition no_dup :: io_env where
  "no_dup c \<longleftrightarrow> c \<noteq> Dup 1"

text \<open>When the descriptor of the standard output cannot be duplicated, the capture fails, but it has redirected
  the standard output and reports success; the stream that it closed is used again by the restoring,
  which has no defined result.\<close>

theorem cldm_io_capture_failed:
  "\<exists>s i. cldm_io_capture_stream no_dup cldm_capture_stdout (io_start names content n printed) = Some (True, s) \<and>
    io_fds s 1 = Some (Inode i) \<and> cldm_io_capture_restore no_dup cldm_capture_stdout s = None"
  by (auto simp: cldm_io_capture_stream_def captures_stdout_def captures_stderr_def cldm_io_capture_stdout_def
      cldm_io_capture_standard_def cldm_io_redirect3_def cldm_io_redirect2_def io_start_def io_calls std_out_def
      no_dup_def cldm_io_capture_restore_def cldm_io_remove_captured_stdout_def io_remove_captured_def
      cldm_io_restore_stdout_def cldm_io_restore_def split: option.splits)

end
