(* ===== verification/Cldm_Main_Example.thy ===== *)
theory Cldm_Main_Example
  imports Cldm_Main Dl_Example Io_Correct Argp_Correct
begin

text \<open>The small executable started as a program, with libraries that load or do not.\<close>

definition main_tests :: "dl tests" where
  "main_tests = \<lparr>mk_mem = (\<lambda>_. None), mk_force_disable = [True], mk_global_context = False, mk_ctxs = [], mk_dl = needing_dl,
     mk_jmpstacks = [], testlogs = [zero_testlog], current_tests = [\<lparr>stat_name = [], stat_pass = False, stat_fatal_error = False\<rparr>],
     buffered_tests = [[]], io_index = 0, io_total = 0, io_verbose = False, io_out = [], io_err = []\<rparr>"

definition main_state0 :: main_state where
  "main_state0 = \<lparr>ms_tests = main_tests, ms_io = io_start (\<lambda>_. None) (\<lambda>_. []) 0 (\<lambda>_. []), ms_jobs = 0\<rparr>"

definition sample_env :: "(u8 list \<Rightarrow> u64) \<Rightarrow> main_env" where
  "sample_env opens = \<lparr>menv_alloc = (\<lambda>_. True), menv_cmp = cldm_memcmp,
     menv_dl = \<lparr>env_dlopen = opens, env_dlsym = (\<lambda>_ _. Some 1), env_malloc = (\<lambda>m _. (0, m)), env_realloc = (\<lambda>m _ _. (0, m))\<rparr>,
     menv_os = sample_os, menv_io = all_calls, menv_pgsize = 4096, menv_main = 0x401010, menv_buf = 573,
     menv_dfa = dfa_blank, menv_map = zero_elfmap, menv_version = [49],
     menv_prg = \<lparr>prg_mem = sample_image, prg_map = sample_map, prg_procs = (\<lambda>_. Some), prg_heap = Map.empty,
       prg_sentinel = 0, prg_l0 = 1, prg_l1 = 2\<rparr>, menv_barrier = 0, menv_rwlock = 0, menv_mutex = 0\<rparr>"

text \<open>The second library cannot be loaded.\<close>

abbreviation unloadable :: main_env where
  "unloadable \<equiv> sample_env (\<lambda>n. if n = [109] then 0 else 7)"

lemma sample_map_elf: "cldm_map_elf sample_image sample_os 0x401010 zero_elfmap [112] = Some (0, sample_map, [Close 3])"
  by code_simp

theorem cldm_main_unparsed_witness: "\<not> (\<exists>st s'. cldm_main_runs unloadable [[112]] main_state0 st s')"
proof -
  have "map_option fst (cldm_dlmap_explicit (menv_dl unloadable)) = Some 0" by code_simp
  then obtain ptrs cs where explicit: "cldm_dlmap_explicit (menv_dl unloadable) = Some (0, ptrs, cs)" by auto
  have mem: "dl_mem (main_dl main_state0) = sample_image"
    by (simp add: main_dl_def main_state0_def main_tests_def needing_dl_def)
  have map: "cldm_map_elf (dl_mem (main_dl main_state0)) (menv_os unloadable) (menv_main unloadable) (menv_map unloadable) ([[112]] ! 0) =
      Some (0, sample_map, [Close 3])"
    unfolding mem using sample_map_elf by (simp add: sample_env_def)
  have "map_option fst (cldm_dlmap_needed (menv_dl unloadable) (ms_jobs main_state0) sample_map (menv_buf unloadable) (main_dl main_state0)) =
      Some (- 1)" by code_simp
  then obtain d ds where
    "cldm_dlmap_needed (menv_dl unloadable) (ms_jobs main_state0) sample_map (menv_buf unloadable) (main_dl main_state0) = Some (- 1, d, ds)"
    by auto
  from cldm_main_unparsed [OF explicit map this] show ?thesis by simp
qed

text \<open>Asked for its version, the program ends with 0.\<close>

abbreviation loadable :: main_env where
  "loadable \<equiv> sample_env (\<lambda>_. 7)"

lemma parse_version:
  "map_option (\<lambda>(ok, args, argv). (ok, args_help args, version args, capture args))
     (cldm_argp_parse (\<lambda>_. True) dfa_blank [[112], [45, 86]]) = Some (True, False, True, cldm_capture_all)"
  by code_simp

lemma loadable_needed:
  "map_option (\<lambda>(n, d, _). (n, ndlhandles d, length (dlhandles d)))
     (cldm_dlmap_needed (menv_dl loadable) 0 sample_map 573 needing_dl) = Some (2, 2, 32)"
  by code_simp

lemma version_epilogue:
  assumes "ndlhandles (main_dl s) \<le> length (dlhandles (main_dl s))" and "ms_jobs s = 0"
    and "cldm_stdout (ms_io s) = 0" and "cldm_stderr (ms_io s) = 0"
  shows "\<exists>s' cs us. cldm_main_epilogue env (Some cap) em s = Some (s', cs, us)"
  using assms
  by (auto simp: cldm_main_epilogue_def cldm_dlfree_def cldm_io_capture_restore_def cldm_unmap_elf_def
      cldm_io_remove_captured_stdout_def cldm_io_remove_captured_stderr_def io_remove_captured_def)

lemma sample_main_dl: "main_dl (main_state0\<lparr>ms_tests := cldm_mock_disable_all (ms_tests main_state0)\<rparr>) = needing_dl"
  by (simp add: main_dl_def cldm_mock_disable_all_def main_state0_def main_tests_def)

theorem cldm_main_status_witness:
  "\<exists>s'. cldm_main_runs loadable [[112], [45, 86]] main_state0 0 s' \<and>
     (\<exists>args argv'. cldm_argp_parse (\<lambda>_. True) dfa_blank [[112], [45, 86]] = Some (True, args, argv'))"
proof -
  have "map_option fst (cldm_dlmap_explicit (menv_dl loadable)) = Some 0" by code_simp
  then obtain ptrs cs where explicit: "cldm_dlmap_explicit (menv_dl loadable) = Some (0, ptrs, cs)" by auto
  from loadable_needed obtain d ds where needed:
    "cldm_dlmap_needed (menv_dl loadable) 0 sample_map 573 needing_dl = Some (2, d, ds)"
    and d: "ndlhandles d = 2" "length (dlhandles d) = 32" by auto
  from parse_version obtain args argv' where parse:
    "cldm_argp_parse (\<lambda>_. True) dfa_blank [[112], [45, 86]] = Some (True, args, argv')"
    and args: "\<not> args_help args" "version args" by auto
  let ?s = "main_state0\<lparr>ms_tests := cldm_mock_disable_all (ms_tests main_state0)\<rparr>"
  let ?t = "?s\<lparr>ms_tests := (ms_tests ?s)\<lparr>mk_dl := d\<rparr>\<rparr>"
  have "\<exists>io. main_log (cldm_argp_version [49]) ?t = Some (?t\<lparr>ms_io := io\<rparr>) \<and> cldm_stdout io = 0 \<and> cldm_stderr io = 0"
    by (simp add: main_log_def cldm_argp_version_def cldm_log_stream_def c_fputs_def main_state0_def io_start_def std_out_def)
  then obtain io where log: "main_log (cldm_argp_version [49]) ?t = Some (?t\<lparr>ms_io := io\<rparr>)"
    and io: "cldm_stdout io = 0" "cldm_stderr io = 0" by blast
  have "main_args loadable sample_map [[112], [45, 86]] ?t = Some (Epilogue 0 (Some (capture args)) sample_map, ?t\<lparr>ms_io := io\<rparr>)"
    using parse args log by (simp add: main_args_def sample_env_def)
  moreover have "ms_jobs main_state0 = 0" by (simp add: main_state0_def)
  moreover have "dl_mem needing_dl = sample_image" by (simp add: needing_dl_def)
  ultimately have start: "cldm_main_start loadable [[112], [45, 86]] main_state0 =
      Some (Epilogue 0 (Some (capture args)) sample_map, ?t\<lparr>ms_io := io\<rparr>)"
    using explicit needed sample_map_elf sample_main_dl
    by (simp add: cldm_main_start_def Let_def) (simp add: sample_env_def)
  have "\<exists>s' cs us. cldm_main_epilogue loadable (Some (capture args)) sample_map (?t\<lparr>ms_io := io\<rparr>) = Some (s', cs, us)"
    by (rule version_epilogue) (use io d in \<open>simp_all add: main_dl_def main_state0_def\<close>)
  then obtain s' cs' us where "cldm_main_epilogue loadable (Some (capture args)) sample_map (?t\<lparr>ms_io := io\<rparr>) = Some (s', cs', us)"
    by blast
  with start have run: "cldm_main_runs loadable [[112], [45, 86]] main_state0 0 s'" by (rule main_epilogue)
  then show ?thesis using cldm_main_status [OF run] by (auto simp: sample_env_def)
qed

end
