(* ===== verification/Spec2Isabelle.thy ===== *)
theory Spec2Isabelle
  imports Algo Byteseq Avx2 Jmpstack Hash_Correct Dfa_Correct Argp_Correct Run_Correct Parallel_Correct System Elfdump_Example
    Cldm_Main_Example
begin

text \<open>
  A model of cldm, a unit test and mocking framework for C, and its correctness. All paths are under
  \<^verbatim>\<open>src/cldm\<close>; a definition has the name of the C function it translates.

  \<^bold>\<open>The program.\<close> A test executable is linked with the library. \<^verbatim>\<open>main\<close> (\<^verbatim>\<open>main/cldm_main.c\<close>) loads the functions of
  the C library that must not be mocked (\<^verbatim>\<open>cldm_dl.c\<close>), maps its own executable (\<^verbatim>\<open>cldm_elf.c\<close>), loads the
  libraries that the executable needs, parses the arguments (\<^verbatim>\<open>cldm_argp.c\<close>, with the automaton of
  \<^verbatim>\<open>cldm_dfa.c\<close>), redirects the standard streams (\<^verbatim>\<open>cldm_io.c\<close>) and runs the tests on one thread
  (\<^verbatim>\<open>cldm_sequential.c\<close>) or several (\<^verbatim>\<open>cldm_parallel.c\<close>). A run finds the records of the tests by their symbols
  (\<^verbatim>\<open>cldm_collect.c\<close>, with the hash table of \<^verbatim>\<open>cldm_hash.c\<close> for the identifiers that are asked for), sorts them
  in a tree (\<^verbatim>\<open>cldm_rbtree.c\<close>) and calls their functions (\<^verbatim>\<open>cldm_test.c\<close>), whose mocks (\<^verbatim>\<open>cldm_mock.h\<close>) look the
  original functions up in the cache of \<^verbatim>\<open>cldm_dl.c\<close>.

  \<^bold>\<open>How the code is modelled.\<close> Integers are words of their width, or \<open>int\<close> where a signed value stays in range.
  A function that reads or writes memory returns an \<open>option\<close>: \<open>None\<close> means that C gives no result, because an
  access is outside of what is allocated, a value was never written, or a loop does not end
  (\<open>partial_function\<close>). Failures that the code reports are values: a status, \<open>False\<close>, or \<open>Inl\<close>. Every theorem
  that says what a function does says that it returns: its conclusion has \<open>Some\<close>. Whether memory can be
  allocated, which system calls succeed and what the loader finds are arguments. The calls of the heap are
  not a model of their own, except where the aliasing matters, in the symbol cache.

  \<^bold>\<open>Theories.\<close>
  \<^item> \<open>Prelude\<close>: widths, allocation, texts and formatting, the rules \<open>wordnat\<close> that move words to the naturals.
  \<open>Cmem\<close>: the flat memory of bytes, the string functions of the C library, and the locale \<open>mem_compare\<close>, the
  contract of a memory comparison for the keys of a set.
  \<^item> \<open>Algo\<close> (\<^verbatim>\<open>cldm_algo.c\<close>): which numbers pass the primality test, the powers of two, and that the stable
  partition and the removal of duplicates are the ones on lists.
  \<^item> \<open>Byteseq\<close> (\<^verbatim>\<open>cldm_byteseq.c\<close>): the portable copies, fills, comparisons and scans, with the bytes they write.
  The portable comparison reads only the first bytes: it meets \<open>mem_compare\<close> for keys that are \<open>told_apart\<close> by
  them (\<open>portable\<close>). \<open>Avx2\<close> (\<^verbatim>\<open>asm/x86_64/cldm_avx2_memcmp.S\<close>): the comparison of a build with AVX2, one definition
  for each label; it returns the difference of the first bytes that differ at any size below \<open>2 ^ 63\<close> and any
  alignment, and meets \<open>mem_compare\<close> (\<open>avx2\<close>). \<open>build_memcmp\<close> says that a comparison is that of one of the builds.
  \<^item> \<open>Jmpstack\<close> (\<^verbatim>\<open>cldm_jmpstack.c\<close>, \<^verbatim>\<open>cldm_jmpstack.h\<close>): the stack of jump buffers in its two representations, and
  that it refines a list; its contract is the locale \<open>lifo\<close>, interpreted as \<open>jmp\<close>.
  \<^item> \<open>Hash\<close> (\<^verbatim>\<open>cldm_hash.c\<close>, \<^verbatim>\<open>cldm_hash.h\<close>): probing, insertion, removal and growth. \<open>Hash_Slots\<close> is the
  theory of linear probing on lists of slots, and \<open>Hash_Correct\<close> refines the table to a set of keys, under
  \<open>mem_compare\<close>; its theorems are about the comparisons of the two builds.
  \<^item> \<open>Dfa\<close> (\<^verbatim>\<open>cldm_dfa.c\<close>, \<^verbatim>\<open>cldm_dfa.h\<close>), \<open>Dfa_Correct\<close>: the automaton is a trie and refines a map from
  words to operations; its contract is the locale \<open>prefix_matcher\<close>, interpreted as \<open>dfa\<close>.
  \<^item> \<open>Argp\<close> (\<^verbatim>\<open>cldm_argp.c\<close>, \<^verbatim>\<open>cldm_argp.h\<close>), \<open>Argp_Correct\<close>: the switches, their handlers, the loop over the
  parameters and the partition that puts the positional ones last. \<open>Usage\<close>: the help and the version.
  \<^item> \<open>Rbtree\<close> (\<^verbatim>\<open>cldm_rbtree.c\<close>, \<^verbatim>\<open>cldm_rbtree.h\<close>): every operation, on a heap of nodes. \<open>Rbtree_Heap\<close> relates a
  heap to a tree with threads, \<open>Rbtree_Balance\<close> treats the rotations in a context, \<open>Rbtree_Insert\<close> the
  loop of the insertion under the contract of the comparison (locale \<open>rb_order\<close>), and \<open>Rbtree_Correct\<close> the
  operations on valid red-black trees.
  \<^item> \<open>Elf\<close> (\<^verbatim>\<open>cldm_elf.c\<close>, \<^verbatim>\<open>cldm_elf.h\<close>), \<open>Elf_Correct\<close>, \<open>Elf_Needed\<close>, \<open>Elf_Example\<close>: the bytes of the
  mapped file, decoded; what is found in terms of the sections, symbols and names that the file holds.
  \<open>Elfdump\<close>, \<open>Elfdump_Correct\<close>, \<open>Elfdump_Example\<close> (\<^verbatim>\<open>cldm_elfdump.c\<close>): the listings.
  \<^item> \<open>Dl\<close> (\<^verbatim>\<open>cldm_dl.c\<close>), \<open>Dl_Correct\<close>, \<open>Dl_Example\<close>: loading the libraries, and the cache of symbols in
  memory, which refines a list of named entries as long as it has not grown. The routines on bytes are those of
  the portable build.
  \<^item> \<open>Mock\<close> (\<^verbatim>\<open>cldm_mock.h\<close>, \<^verbatim>\<open>cldm_mock.c\<close>): the function that the macros generate for a mock, its contexts
  and settings, and how many calls a setting is used for.
  \<^item> \<open>Testrec\<close> (\<^verbatim>\<open>cldm_testrec.h\<close>, \<^verbatim>\<open>cldm_auxprocs.h\<close>): the records and their order. \<open>Testlog\<close> (\<^verbatim>\<open>cldm_test.c\<close>,
  \<^verbatim>\<open>cldm_test.h\<close>, \<^verbatim>\<open>cldm_thread.c\<close>): running a test, assertions, logs, buffered output, summary, thread numbers.
  \<^item> \<open>Collect\<close> (\<^verbatim>\<open>cldm_collect.c\<close>), \<open>Collect_Correct\<close>: the records of all test symbols are in the tree, in order.
  \<^item> \<open>Run\<close> (\<^verbatim>\<open>cldm_sequential.c\<close> and the collection of \<^verbatim>\<open>cldm_parallel.c\<close>), \<open>Run_Correct\<close>: a sequential run from
  the executable to the summary. What a test function owes is \<open>performs\<close>: it returns, with the log as
  after a list of assertions; the locale \<open>assertion\<close> gives it for every assertion of the program.
  \<^item> \<open>Parallel\<close> (\<^verbatim>\<open>cldm_parallel.c\<close>), \<open>Parallel_Correct\<close>: the threads as a step relation, the distribution of the
  tests, and the reduction of the logs under every schedule.
  \<^item> \<open>Io\<close> (\<^verbatim>\<open>cldm_io.c\<close>), \<open>Io_Correct\<close>: descriptors, streams and files; what is printed of a captured stream.
  \<^item> \<open>Cldm_Main\<close> (\<^verbatim>\<open>main/cldm_main.c\<close>), \<open>Cldm_Main_Example\<close>: all of it together, and what the status of the
  program says.
  \<^item> \<open>System\<close> (\<^verbatim>\<open>configure/cldm_system.c\<close>): the program that probes the build system, on its own.

  \<^bold>\<open>Bounds.\<close> What may not end is \<open>partial_function (option)\<close>, or a relation. The only bound on a
  recursion is in \<open>Hash\<close>: insertion and growth call each other, at most two insertions deep, and
  \<open>ht_insert_depth\<close> shows that a larger bound changes nothing. The number
  of assertions is below \<open>2 ^ 50\<close> in the theorem on a run (\<open>log_bound\<close>), so that the
  size of no log wraps around. A process has 1024 descriptors. Static capacities (32 threads, 16 buffered
  results, 64 states, 128 edges, 4096 bytes for a path or a page) are those of the code.

  \<^bold>\<open>Concurrency.\<close> A step of a thread is what it does between two points where it can wait: one whole test, the
  output of its buffer, one round of the reduction. The locks make the lines of one thread
  contiguous, and the flag of \<^verbatim>\<open>--fail-fast\<close> is read and written as part of such a step. Threads share nothing else
  but what the tests themselves share. Creating and joining threads succeeds.

  \<^bold>\<open>What goes wrong.\<close> Some theorems state what the code does and surely should not do: the composites that pass for
  primes and the lookups that do not return (\<open>Algo\<close>, \<open>Hash_Correct\<close>), the cache that forgets its symbols when
  it grows and handles that are released twice (\<open>Dl_Correct\<close>), standard output that is not restored and
  captured text that is cut short (\<open>Io_Correct\<close>), 32 threads that read behind their logs and a summary of
  freed messages (\<open>Parallel_Correct\<close>), a removal that leaves a thread to itself (\<open>Rbtree_Correct\<close>), and a start that
  fails before the arguments are parsed (\<open>Cldm_Main\<close>).

  \<^bold>\<open>Not modelled.\<close> The preprocessor library (\<^verbatim>\<open>cldm_macro.h\<close>, \<^verbatim>\<open>cldm_params.h\<close>, \<^verbatim>\<open>cldm_token.h\<close>, \<^verbatim>\<open>cldm_type.h\<close>,
  \<^verbatim>\<open>cldm_cache.h\<close>, \<^verbatim>\<open>cldm_avx2.h\<close> and the part of \<^verbatim>\<open>cldm_mock.h\<close> that chooses a macro by the number of parameters): it
  computes on tokens before there is a program, and what it generates is modelled as generated. The
  control flow of \<^verbatim>\<open>setjmp\<close> and \<^verbatim>\<open>longjmp\<close> around a mocked function that does not return (\<^verbatim>\<open>cldm_noreturn.h\<close>);
  the stack of its buffers is. The assembly versions of the byte routines, but for \<^verbatim>\<open>cldm_avx2_memcmp\<close>. The option string for the address sanitizer (\<^verbatim>\<open>cldm_asan.c\<close>). The texts of warnings and errors,
  except in the log of \<open>Cldm_Main\<close> and where they are output of a test. \<^verbatim>\<open>cldm_dfa_free\<close>,
  which releases the two arrays of an automaton.
\<close>

end
